(* ===== verification/Bora_Prelude.thy ===== *)
theory Bora_Prelude
  imports Main "HOL-Library.Word"
begin

text \<open>
  Shared vocabulary of the development: the machine integers of the C code, the outcome type
  of fallible code, byte buffers with the splice that \<open>memcpy\<close> performs, the memory images of
  16- and 32-bit integers on the little-endian hosts the extension is built for, and the
  interface \<open>field_codec\<close> through which the packet formats read back what they wrote.
\<close>

unbundle bit_operations_syntax

named_theorems mem_simps
named_theorems packet_defs

type_synonym u8 = "8 word"
type_synonym u16 = "16 word"
type_synonym u32 = "32 word"
type_synonym u64 = "64 word"

lemma xor_eq_0: "(a :: 'a::len word) XOR b = 0 \<longleftrightarrow> a = b"
proof
  assume "a XOR b = 0"
  then have "(a XOR b) XOR b = b" by simp
  then show "a = b" by (simp add: xor.assoc)
qed simp

lemma unat_u16_less: "unat (w :: u16) < 65536"
  by (rule order_less_le_trans, rule unsigned_less) simp

lemma unat_ucast_u64 [simp]: "unat (ucast (w :: u32) :: u64) = unat w" "unat (ucast (v :: u16) :: u64) = unat v"
proof -
  have "unat w < 2 ^ 32" "unat v < 2 ^ 16" by (rule order_less_le_trans, rule unsigned_less, simp)+
  then show "unat (ucast w :: u64) = unat w" "unat (ucast v :: u64) = unat v"
    by (simp_all add: unsigned_ucast_eq take_bit_nat_eq_self)
qed

section \<open>Outcomes\<close>

text \<open>
  A C operation either completes or runs into behaviour that the model makes visible: an access
  outside an object, an integer division by zero, a conversion of a floating-point number that
  the integer type cannot hold, a call of \<open>exit\<close>, or a lock or semaphore operation that
  has to wait for another thread.
\<close>

datatype fault = OutOfBounds | DivByZero | BadConversion | ProcessExit | Blocked

datatype 'a res = Ok 'a | Err fault

primrec bind_res :: "'a res \<Rightarrow> ('a \<Rightarrow> 'b res) \<Rightarrow> 'b res" where
  "bind_res (Ok x) f = f x"
| "bind_res (Err e) f = Err e"

primrec map_res :: "('a \<Rightarrow> 'b) \<Rightarrow> 'a res \<Rightarrow> 'b res" where
  "map_res f (Ok x) = Ok (f x)"
| "map_res f (Err e) = Err e"

lemma bind_res_Ok_iff: "bind_res m f = Ok y \<longleftrightarrow> (\<exists>x. m = Ok x \<and> f x = Ok y)"
  by (cases m) auto

lemma map_res_Ok_iff: "map_res f m = Ok y \<longleftrightarrow> (\<exists>x. m = Ok x \<and> y = f x)"
  by (cases m) auto

lemma map_res_comp: "map_res f (map_res g r) = map_res (\<lambda>x. f (g x)) r"
  by (cases r) simp_all

lemma bind_Ok_map: "bind_res r (\<lambda>x. Ok (f x)) = map_res f r"
  by (cases r) simp_all

lemma bind_res_cong [fundef_cong]:
  "m = n \<Longrightarrow> (\<And>x. n = Ok x \<Longrightarrow> f x = g x) \<Longrightarrow> bind_res m f = bind_res n g"
  by (cases n) auto

section \<open>Byte buffers\<close>

definition bytes_at :: "nat \<Rightarrow> nat \<Rightarrow> 'a list \<Rightarrow> 'a list" where
  "bytes_at off n xs = take n (drop off xs)"

definition patch :: "'a list \<Rightarrow> nat \<Rightarrow> 'a list \<Rightarrow> 'a list" where
  "patch dst off src = take off dst @ src @ drop (off + length src) dst"

text \<open>\<open>memcpy(dst + off, src, n)\<close> on objects of known extent.\<close>

definition memcpy :: "'a list \<Rightarrow> nat \<Rightarrow> 'a list \<Rightarrow> nat \<Rightarrow> 'a list res" where
  "memcpy dst off src n =
     (if off + n \<le> length dst \<and> n \<le> length src then Ok (patch dst off (take n src))
      else Err OutOfBounds)"

lemma length_bytes_at [simp]: "length (bytes_at off n xs) = min n (length xs - off)"
  by (simp add: bytes_at_def)

lemma length_patch [simp]:
  "off + length src \<le> length dst \<Longrightarrow> length (patch dst off src) = length dst"
  by (simp add: patch_def)

lemma bytes_at_all [simp]: "bytes_at 0 (length xs) xs = xs"
  by (simp add: bytes_at_def)

lemma nth_bytes_at: "i < n \<Longrightarrow> off + i < length xs \<Longrightarrow> bytes_at off n xs ! i = xs ! (off + i)"
  by (simp add: bytes_at_def)

lemma nth_patch:
  assumes "off + length src \<le> length dst" and "i < length dst"
  shows "patch dst off src ! i =
     (if i < off then dst ! i else if i < off + length src then src ! (i - off) else dst ! i)"
  using assms by (auto simp: patch_def nth_append min_def)

lemma bytes_at_patch_same:
  assumes "off + length src \<le> length dst"
  shows "bytes_at off (length src) (patch dst off src) = src"
  using assms by (simp add: bytes_at_def patch_def)

lemma bytes_at_patch_take [mem_simps]:
  assumes "off + n \<le> length dst" and "n \<le> length src"
  shows "bytes_at off n (patch dst off (take n src)) = take n src"
  using bytes_at_patch_same [of off "take n src" dst] assms by simp

lemma bytes_at_append: "bytes_at off (m + n) xs = bytes_at off m xs @ bytes_at (off + m) n xs"
  by (simp add: bytes_at_def take_add add.commute)

lemma bytes_at_0: "bytes_at 0 n xs = take n xs"
  by (simp add: bytes_at_def)

lemma bytes_at_1: "off < length xs \<Longrightarrow> bytes_at off 1 xs = [xs ! off]"
  by (simp add: bytes_at_def take_Suc_conv_app_nth)

lemma bytes_at_patch_other:
  assumes "off + length src \<le> length dst" and "off' + n \<le> off \<or> off + length src \<le> off'"
  shows "bytes_at off' n (patch dst off src) = bytes_at off' n dst"
proof (rule nth_equalityI)
  show len: "length (bytes_at off' n (patch dst off src)) = length (bytes_at off' n dst)"
    using assms(1) by simp
  fix i assume "i < length (bytes_at off' n (patch dst off src))"
  then have i: "i < n" "off' + i < length dst" using assms(1) by auto
  have "patch dst off src ! (off' + i) = dst ! (off' + i)"
    using assms i by (auto simp: nth_patch)
  then show "bytes_at off' n (patch dst off src) ! i = bytes_at off' n dst ! i"
    using i assms(1) by (simp add: nth_bytes_at)
qed

lemma patch_bytes_at:
  assumes "off + n \<le> length buf" shows "patch buf off (bytes_at off n buf) = buf"
proof -
  have "drop off buf = take n (drop off buf) @ drop (off + n) buf"
    by (metis append_take_drop_id drop_drop add.commute)
  then have "buf = take off buf @ take n (drop off buf) @ drop (off + n) buf"
    by (metis append_take_drop_id)
  then show ?thesis using assms by (simp add: patch_def bytes_at_def)
qed

lemma nth_patch_other:
  assumes "off + length src \<le> length dst" and "i < off \<or> off + length src \<le> i" and "i < length dst"
  shows "patch dst off src ! i = dst ! i"
  using assms by (auto simp: nth_patch)

lemma take_patch_le: "n \<le> off \<Longrightarrow> off \<le> length dst \<Longrightarrow> take n (patch dst off src) = take n dst"
  by (simp add: patch_def)

lemma bytes_at_take: "off + n \<le> m \<Longrightarrow> bytes_at off n (take m xs) = bytes_at off n xs"
  by (simp add: bytes_at_def take_drop [symmetric] drop_take min_def)

lemma bytes_at_nth_update_other:
  "i < off \<or> off + n \<le> i \<Longrightarrow> bytes_at off n (xs[i := x]) = bytes_at off n xs"
  by (auto simp: bytes_at_def drop_update_cancel drop_update_swap not_less)

lemma memcpy_Ok_iff:
  "memcpy dst off src n = Ok r \<longleftrightarrow>
     off + n \<le> length dst \<and> n \<le> length src \<and> r = patch dst off (take n src)"
  by (auto simp: memcpy_def)

lemma length_memcpy: "memcpy dst off src n = Ok r \<Longrightarrow> length r = length dst"
  by (auto simp: memcpy_Ok_iff)

section \<open>Integers in memory\<close>

text \<open>
  The object representation of \<open>uint16_t\<close> and \<open>uint32_t\<close> on a little-endian host, and the
  byte-order functions of \<open><arpa/inet.h>\<close>; \<open>ntohs\<close> and \<open>ntohl\<close> are the same functions as
  \<open>htons\<close> and \<open>htonl\<close>.
\<close>

definition bytes_of_u16 :: "u16 \<Rightarrow> u8 list" where
  "bytes_of_u16 w = [ucast w, ucast (drop_bit 8 w)]"

definition u16_of_bytes :: "u8 list \<Rightarrow> u16" where
  "u16_of_bytes bs = word_cat (bs ! 1) (bs ! 0)"

definition bytes_of_u32 :: "u32 \<Rightarrow> u8 list" where
  "bytes_of_u32 w = [ucast w, ucast (drop_bit 8 w), ucast (drop_bit 16 w), ucast (drop_bit 24 w)]"

definition u32_of_bytes :: "u8 list \<Rightarrow> u32" where
  "u32_of_bytes bs = word_cat (word_cat (bs ! 3) (bs ! 2) :: u16) (word_cat (bs ! 1) (bs ! 0) :: u16)"

definition htons :: "u16 \<Rightarrow> u16" where
  "htons w = u16_of_bytes (rev (bytes_of_u16 w))"

definition htonl :: "u32 \<Rightarrow> u32" where
  "htonl w = u32_of_bytes (rev (bytes_of_u32 w))"

abbreviation ntohs :: "u16 \<Rightarrow> u16" where "ntohs \<equiv> htons"
abbreviation ntohl :: "u32 \<Rightarrow> u32" where "ntohl \<equiv> htonl"

definition ld16 :: "u8 list \<Rightarrow> nat \<Rightarrow> u16" where
  "ld16 buf off = u16_of_bytes (bytes_at off 2 buf)"

definition st16 :: "u8 list \<Rightarrow> nat \<Rightarrow> u16 \<Rightarrow> u8 list" where
  "st16 buf off w = patch buf off (bytes_of_u16 w)"

definition ld32 :: "u8 list \<Rightarrow> nat \<Rightarrow> u32" where
  "ld32 buf off = u32_of_bytes (bytes_at off 4 buf)"

definition st32 :: "u8 list \<Rightarrow> nat \<Rightarrow> u32 \<Rightarrow> u8 list" where
  "st32 buf off w = patch buf off (bytes_of_u32 w)"

lemma length_bytes_of [simp]:
  "length (bytes_of_u16 w) = 2" "length (bytes_of_u32 v) = 4"
  by (simp_all add: bytes_of_u16_def bytes_of_u32_def)

lemma u16_of_bytes_of_u16 [simp]: "u16_of_bytes (bytes_of_u16 w) = w"
  by (rule bit_word_eqI)
    (auto simp: u16_of_bytes_def bytes_of_u16_def bit_word_cat_iff bit_ucast_iff bit_drop_bit_eq)

lemma u32_of_bytes_of_u32 [simp]: "u32_of_bytes (bytes_of_u32 w) = w"
  by (rule bit_word_eqI)
    (auto simp: u32_of_bytes_def bytes_of_u32_def bit_word_cat_iff bit_ucast_iff bit_drop_bit_eq)

lemma bytes_of_u16_cat: "bytes_of_u16 (word_cat (b :: u8) (a :: u8)) = [a, b]"
  by (auto simp: bytes_of_u16_def bit_word_cat_iff bit_ucast_iff bit_drop_bit_eq intro!: bit_word_eqI)

lemma bytes_of_u16_of_bytes: "length bs = 2 \<Longrightarrow> bytes_of_u16 (u16_of_bytes bs) = bs"
  by (auto simp: u16_of_bytes_def bytes_of_u16_cat length_Suc_conv numeral_2_eq_2)

lemma bytes_of_u32_of_bytes:
  assumes "length bs = 4" shows "bytes_of_u32 (u32_of_bytes bs) = bs"
proof -
  obtain a b c d where bs: "bs = [a, b, c, d]"
    using assms by (auto simp: length_Suc_conv eval_nat_numeral)
  show ?thesis unfolding bs u32_of_bytes_def bytes_of_u32_def
    by (auto simp: bit_word_cat_iff bit_ucast_iff bit_drop_bit_eq intro!: bit_word_eqI)
qed

lemma bytes_of_htons: "bytes_of_u16 (htons w) = rev (bytes_of_u16 w)"
  by (simp add: htons_def bytes_of_u16_of_bytes)

lemma bytes_of_htonl: "bytes_of_u32 (htonl w) = rev (bytes_of_u32 w)"
  by (simp add: htonl_def bytes_of_u32_of_bytes)

lemma htons_htons [simp]: "htons (htons w) = w"
proof -
  have "htons (htons w) = u16_of_bytes (rev (bytes_of_u16 (htons w)))" by (simp add: htons_def)
  then show ?thesis by (simp add: bytes_of_htons)
qed

lemma htonl_htonl [simp]: "htonl (htonl w) = w"
proof -
  have "htonl (htonl w) = u32_of_bytes (rev (bytes_of_u32 (htonl w)))" by (simp add: htonl_def)
  then show ?thesis by (simp add: bytes_of_htonl)
qed

lemma htons_eq_iff [simp]: "htons v = htons w \<longleftrightarrow> v = w"
  by (metis htons_htons)

subsection \<open>The interface of a fixed-width field\<close>

text \<open>
  A field of a packed struct is a fixed number of bytes at a fixed offset. What the packet
  formats rely on is that decoding the bytes of a stored value gives the value back; from that
  follow the two laws of a store and a load in a buffer. \<open>host16\<close> and \<open>host32\<close> are fields kept
  in host order, \<open>net16\<close> and \<open>net32\<close> fields kept in network order.
\<close>

locale field_codec =
  fixes enc :: "'a \<Rightarrow> u8 list" and dec :: "u8 list \<Rightarrow> 'a" and width :: nat
  assumes length_enc: "length (enc x) = width"
    and dec_enc: "dec (enc x) = x"
    and enc_dec: "length bs = width \<Longrightarrow> enc (dec bs) = bs"
begin

lemma load_store_same:
  "off + width \<le> length buf \<Longrightarrow> dec (bytes_at off width (patch buf off (enc x))) = x"
  using bytes_at_patch_same [of off "enc x" buf] by (simp add: length_enc dec_enc)

lemma load_store_other:
  "off + width \<le> length buf \<Longrightarrow> off' + n \<le> off \<or> off + width \<le> off' \<Longrightarrow>
     bytes_at off' n (patch buf off (enc x)) = bytes_at off' n buf"
  by (simp add: bytes_at_patch_other length_enc)

lemma length_store: "off + width \<le> length buf \<Longrightarrow> length (patch buf off (enc x)) = length buf"
  by (simp add: length_enc)

lemma store_load: "off + width \<le> length buf \<Longrightarrow> patch buf off (enc (dec (bytes_at off width buf))) = buf"
  by (simp add: enc_dec patch_bytes_at)

end

interpretation host16: field_codec bytes_of_u16 u16_of_bytes 2
  by unfold_locales (simp_all add: bytes_of_u16_of_bytes)

interpretation host32: field_codec bytes_of_u32 u32_of_bytes 4
  by unfold_locales (simp_all add: bytes_of_u32_of_bytes)

interpretation net16: field_codec "\<lambda>w. bytes_of_u16 (htons w)" "\<lambda>bs. ntohs (u16_of_bytes bs)" 2
  by unfold_locales (simp_all add: bytes_of_u16_of_bytes)

interpretation net32: field_codec "\<lambda>w. bytes_of_u32 (htonl w)" "\<lambda>bs. ntohl (u32_of_bytes bs)" 4
  by unfold_locales (simp_all add: bytes_of_u32_of_bytes)

lemma length_st [simp]:
  "off + 2 \<le> length buf \<Longrightarrow> length (st16 buf off w) = length buf"
  "off + 4 \<le> length buf \<Longrightarrow> length (st32 buf off v) = length buf"
  by (simp_all add: st16_def st32_def)

lemma ld_st_same [mem_simps]:
  "off + 2 \<le> length buf \<Longrightarrow> ld16 (st16 buf off w) off = w"
  "off + 4 \<le> length buf \<Longrightarrow> ld32 (st32 buf off v) off = v"
  by (simp_all add: ld16_def st16_def ld32_def st32_def host16.load_store_same host32.load_store_same)

lemma ld_st_other [mem_simps]:
  "off + 2 \<le> length buf \<Longrightarrow> off' + 2 \<le> off \<or> off + 2 \<le> off' \<Longrightarrow> ld16 (st16 buf off w) off' = ld16 buf off'"
  "off + 4 \<le> length buf \<Longrightarrow> off' + 2 \<le> off \<or> off + 4 \<le> off' \<Longrightarrow> ld16 (st32 buf off v) off' = ld16 buf off'"
  "off + 2 \<le> length buf \<Longrightarrow> off' + 4 \<le> off \<or> off + 2 \<le> off' \<Longrightarrow> ld32 (st16 buf off w) off' = ld32 buf off'"
  "off + 4 \<le> length buf \<Longrightarrow> off' + 4 \<le> off \<or> off + 4 \<le> off' \<Longrightarrow> ld32 (st32 buf off v) off' = ld32 buf off'"
  by (simp_all add: ld16_def st16_def ld32_def st32_def host16.load_store_other host32.load_store_other)

lemma bytes_at_st_other [mem_simps]:
  "off + 2 \<le> length buf \<Longrightarrow> off' + n \<le> off \<or> off + 2 \<le> off' \<Longrightarrow> bytes_at off' n (st16 buf off w) = bytes_at off' n buf"
  "off + 4 \<le> length buf \<Longrightarrow> off' + n \<le> off \<or> off + 4 \<le> off' \<Longrightarrow> bytes_at off' n (st32 buf off v) = bytes_at off' n buf"
  by (simp_all add: st16_def st32_def host16.load_store_other host32.load_store_other)

lemma nth_st_other [mem_simps]:
  "off + 2 \<le> length buf \<Longrightarrow> i < off \<or> off + 2 \<le> i \<Longrightarrow> i < length buf \<Longrightarrow> st16 buf off w ! i = buf ! i"
  "off + 4 \<le> length buf \<Longrightarrow> i < off \<or> off + 4 \<le> i \<Longrightarrow> i < length buf \<Longrightarrow> st32 buf off v ! i = buf ! i"
  by (simp_all add: st16_def st32_def nth_patch_other)

lemma ld_update_other [mem_simps]:
  "i < off \<or> off + 2 \<le> i \<Longrightarrow> ld16 (buf[i := b]) off = ld16 buf off"
  "i < off \<or> off + 4 \<le> i \<Longrightarrow> ld32 (buf[i := b]) off = ld32 buf off"
  by (simp_all add: ld16_def ld32_def bytes_at_nth_update_other)

lemma ld_patch_other [mem_simps]:
  "off + length src \<le> length buf \<Longrightarrow> off' + 2 \<le> off \<or> off + length src \<le> off' \<Longrightarrow>
     ld16 (patch buf off src) off' = ld16 buf off'"
  "off + length src \<le> length buf \<Longrightarrow> off' + 4 \<le> off \<or> off + length src \<le> off' \<Longrightarrow>
     ld32 (patch buf off src) off' = ld32 buf off'"
  by (simp_all add: ld16_def ld32_def bytes_at_patch_other)

lemmas [mem_simps] = bytes_at_nth_update_other bytes_at_patch_other nth_patch_other

lemma bytes_at_ld:
  "off + 2 \<le> length buf \<Longrightarrow> bytes_at off 2 buf = bytes_of_u16 (ld16 buf off)"
  "off + 4 \<le> length buf \<Longrightarrow> bytes_at off 4 buf = bytes_of_u32 (ld32 buf off)"
  by (simp_all add: ld16_def ld32_def host16.enc_dec host32.enc_dec)

section \<open>Addresses and times\<close>

text \<open>
  \<open>struct sockaddr_in\<close>: the port and the address as the words that stand in memory (network
  byte order), and the eight padding bytes, because the code compares addresses with
  \<open>memcmp\<close> over the whole struct. On this layout \<open>memcmp(...) == 0\<close> is equality of records.
\<close>

record sockaddr_in =
  sin_family :: u16
  sin_port :: u16
  sin_addr :: u32
  sin_zero :: u64

definition zero_addr :: sockaddr_in where
  "zero_addr = \<lparr>sin_family = 0, sin_port = 0, sin_addr = 0, sin_zero = 0\<rparr>"

text \<open>
  \<open>struct timeval\<close>: \<open>time_t\<close> and \<open>suseconds_t\<close> are signed 64-bit integers, here mathematical
  ones: a sum or difference of seconds that leaves 64 bits, which C leaves undefined, is not an error
  here. Where the code turns times into unsigned microseconds they are words and wrap. Times are ordered
  lexicographically, as \<open>timercmp\<close> orders them.
\<close>

datatype timeval = Timeval (tv_sec: int) (tv_usec: int)

instantiation timeval :: linorder
begin

definition less_eq_timeval :: "timeval \<Rightarrow> timeval \<Rightarrow> bool" where
  "less_eq_timeval a b \<longleftrightarrow> tv_sec a < tv_sec b \<or> tv_sec a = tv_sec b \<and> tv_usec a \<le> tv_usec b"

definition less_timeval :: "timeval \<Rightarrow> timeval \<Rightarrow> bool" where
  "less_timeval a b \<longleftrightarrow> tv_sec a < tv_sec b \<or> tv_sec a = tv_sec b \<and> tv_usec a < tv_usec b"

instance
  by standard (auto simp: less_eq_timeval_def less_timeval_def timeval.expand)

end

definition zero_time :: timeval where
  "zero_time = Timeval 0 0"

end
