(* ===== verification/Ring_Buffer.thy ===== *)
theory Ring_Buffer
  imports Bora_Prelude
begin

text \<open>
  The circular buffers of \<open>packet_sender.c\<close>. The file has three copies of the same code over
  \<open>send_buf\<close>/\<open>c_send\<close>/\<open>f_send\<close>, \<open>retr_buf\<close>/\<open>c_retr\<close>/\<open>f_retr\<close> and
  \<open>prio_buf\<close>/\<open>c_prio\<close>/\<open>f_prio\<close>: an array, the index of the next slot to write and the number of
  filled slots. \<open>ring_put\<close> is the body of the guarded insertion, \<open>ring_get\<close> the removal. The
  interface \<open>bounded_fifo\<close> is what the scheduler relies on, and the ring implements it.
\<close>

section \<open>Model\<close>

record 'a ring =
  r_buf :: "'a list"
  r_c :: int
  r_f :: int

definition ring_put :: "'a ring \<Rightarrow> 'a \<Rightarrow> 'a ring" where
  "ring_put r d =
     (let n = int (length (r_buf r)) in
      r\<lparr>r_buf := (r_buf r)[nat (r_c r) := d], r_c := (r_c r + 1) mod n, r_f := r_f r + 1\<rparr>)"

definition ring_get :: "'a ring \<Rightarrow> 'a \<times> 'a ring" where
  "ring_get r =
     (let n = int (length (r_buf r)) in
      (r_buf r ! nat ((n + r_c r - r_f r) mod n), r\<lparr>r_f := r_f r - 1\<rparr>))"

section \<open>The queue a ring holds\<close>

definition ring_index :: "'a ring \<Rightarrow> int \<Rightarrow> nat" where
  "ring_index r i = nat ((r_c r - r_f r + i) mod int (length (r_buf r)))"

definition ring_contents :: "'a ring \<Rightarrow> 'a list" where
  "ring_contents r = map (\<lambda>i. r_buf r ! ring_index r (int i)) [0..<nat (r_f r)]"

definition ring_ok :: "nat \<Rightarrow> 'a ring \<Rightarrow> bool" where
  "ring_ok n r \<longleftrightarrow> length (r_buf r) = n \<and> 0 < n \<and> 0 \<le> r_c r \<and> r_c r < int n \<and>
     0 \<le> r_f r \<and> r_f r \<le> int n"

locale bounded_fifo =
  fixes put :: "'q \<Rightarrow> 'a \<Rightarrow> 'q" and get :: "'q \<Rightarrow> 'a \<times> 'q" and fill :: "'q \<Rightarrow> int"
    and contents :: "'q \<Rightarrow> 'a list" and invar :: "'q \<Rightarrow> bool" and capacity :: nat
  assumes fill_contents: "invar q \<Longrightarrow> fill q = int (length (contents q))"
    and fill_le: "invar q \<Longrightarrow> fill q \<le> int capacity"
    and invar_put: "invar q \<Longrightarrow> fill q < int capacity \<Longrightarrow> invar (put q x)"
    and contents_put: "invar q \<Longrightarrow> fill q < int capacity \<Longrightarrow> contents (put q x) = contents q @ [x]"
    and invar_get: "invar q \<Longrightarrow> 0 < fill q \<Longrightarrow> invar (snd (get q))"
    and get_hd: "invar q \<Longrightarrow> 0 < fill q \<Longrightarrow> fst (get q) = hd (contents q)"
    and contents_get: "invar q \<Longrightarrow> 0 < fill q \<Longrightarrow> contents (snd (get q)) = tl (contents q)"
begin

lemma fill_pos: "invar q \<Longrightarrow> 0 < fill q \<longleftrightarrow> contents q \<noteq> []"
  by (simp add: fill_contents)

lemma get_Cons:
  assumes "invar q" and "0 < fill q"
  shows "contents q = fst (get q) # contents (snd (get q))"
  using assms by (simp add: get_hd contents_get fill_pos)

lemma puts_contents:
  "invar q \<Longrightarrow> length (contents q) + length xs \<le> capacity \<Longrightarrow>
     invar (foldl put q xs) \<and> contents (foldl put q xs) = contents q @ xs"
  by (induction xs arbitrary: q) (simp_all add: invar_put contents_put fill_contents)

lemma length_contents_le: "invar q \<Longrightarrow> length (contents q) \<le> capacity"
  using fill_contents [of q] fill_le [of q] by simp

end

section \<open>The ring is a queue\<close>

lemma ring_index_less: "ring_ok n r \<Longrightarrow> ring_index r i < n"
proof -
  assume ok: "ring_ok n r"
  then have "(r_c r - r_f r + i) mod int n < int n" by (simp add: ring_ok_def)
  then show ?thesis using ok by (simp add: ring_index_def ring_ok_def nat_less_iff)
qed

lemma ring_index_put:
  assumes "ring_ok n r" shows "ring_index (ring_put r x) i = ring_index r i"
proof -
  have "((r_c r + 1) mod int n - (r_f r + 1) + i) mod int n = ((r_c r + 1) + (i - (r_f r + 1))) mod int n"
    by (metis add_diff_eq diff_add_eq mod_add_left_eq)
  also have "(r_c r + 1) + (i - (r_f r + 1)) = r_c r - r_f r + i" by simp
  finally have "((r_c r + 1) mod int n - (r_f r + 1) + i) mod int n = (r_c r - r_f r + i) mod int n" .
  then show ?thesis using assms by (simp add: ring_index_def ring_put_def Let_def ring_ok_def)
qed

lemma ring_index_eq_c:
  assumes "ring_ok n r" and "r_f r < int n" and "0 \<le> i" and "i \<le> r_f r"
  shows "ring_index r i = nat (r_c r) \<longleftrightarrow> i = r_f r"
proof -
  have n: "0 < int n" "r_c r mod int n = r_c r" using assms by (auto simp: ring_ok_def)
  have "(r_c r - r_f r + i) mod int n = r_c r \<longleftrightarrow> (r_c r - (r_f r - i)) mod int n = r_c r mod int n"
    using n by (simp add: algebra_simps)
  also have "\<dots> \<longleftrightarrow> int n dvd r_f r - i"
    by (simp add: mod_eq_dvd_iff dvd_diff_commute)
  also have "\<dots> \<longleftrightarrow> i = r_f r"
    using assms zdvd_imp_le [of "int n" "r_f r - i"] by force
  finally show ?thesis
    using assms by (simp add: ring_index_def ring_ok_def eq_nat_nat_iff)
qed

lemma ring_contents_put:
  assumes "ring_ok n r" and "r_f r < int n"
  shows "ring_contents (ring_put r x) = ring_contents r @ [x]"
proof -
  have f: "nat (r_f r + 1) = Suc (nat (r_f r))" "0 \<le> r_f r" and len: "length (r_buf r) = n"
    and c: "nat (r_c r) < n"
    using assms by (auto simp: ring_ok_def nat_less_iff)
  have at: "r_buf (ring_put r x) ! ring_index r i = (if i = r_f r then x else r_buf r ! ring_index r i)"
    if "0 \<le> i" "i \<le> r_f r" for i
    using ring_index_eq_c [OF assms that] ring_index_less [OF assms(1), of i] len c
    by (auto simp: ring_put_def Let_def)
  have "ring_contents (ring_put r x) =
      map (\<lambda>i. r_buf (ring_put r x) ! ring_index r (int i)) [0..<Suc (nat (r_f r))]"
    using f by (simp add: ring_contents_def ring_index_put [OF assms(1)]) (simp add: ring_put_def Let_def)
  also have "\<dots> = map (\<lambda>i. r_buf r ! ring_index r (int i)) [0..<nat (r_f r)] @ [x]"
    using f(2) by (auto simp: at nat_less_iff)
  finally show ?thesis by (simp add: ring_contents_def)
qed

lemma ring_get_index:
  "length (r_buf r) \<noteq> 0 \<Longrightarrow>
     nat ((int (length (r_buf r)) + r_c r - r_f r) mod int (length (r_buf r))) = ring_index r 0"
  by (simp add: ring_index_def add_diff_eq [symmetric])

lemma ring_contents_get:
  assumes "ring_ok n r" and "0 < r_f r"
  shows "ring_contents r = fst (ring_get r) # ring_contents (snd (ring_get r))"
proof -
  have n: "length (r_buf r) \<noteq> 0" using assms by (auto simp: ring_ok_def)
  have idx: "ring_index (snd (ring_get r)) i = ring_index r (i + 1)" for i
    by (simp add: ring_get_def ring_index_def Let_def algebra_simps)
  have f: "nat (r_f r) = Suc (nat (r_f r - 1))" using assms by linarith
  have "ring_contents r =
      r_buf r ! ring_index r 0 # map (\<lambda>i. r_buf r ! ring_index r (int (Suc i))) [0..<nat (r_f r - 1)]"
    unfolding ring_contents_def f by (simp add: upt_conv_Cons map_Suc_upt [symmetric] o_def del: upt_Suc)
  then show ?thesis
    using ring_get_index [OF n]
    by (simp add: ring_contents_def idx) (simp add: ring_get_def Let_def add.commute)
qed

lemma ring_ok_put: "ring_ok n r \<Longrightarrow> r_f r < int n \<Longrightarrow> ring_ok n (ring_put r x)"
  by (auto simp: ring_ok_def ring_put_def Let_def)

lemma ring_ok_get: "ring_ok n r \<Longrightarrow> 0 < r_f r \<Longrightarrow> ring_ok n (snd (ring_get r))"
  by (auto simp: ring_ok_def ring_get_def Let_def)

lemma length_ring_contents: "ring_ok n r \<Longrightarrow> r_f r = int (length (ring_contents r))"
  by (simp add: ring_contents_def ring_ok_def)

lemma ring_bounded_fifo: "bounded_fifo ring_put ring_get r_f ring_contents (ring_ok n) n"
proof
  fix q :: "'a ring" and x
  assume ok: "ring_ok n q"
  show "r_f q = int (length (ring_contents q))" using ok by (rule length_ring_contents)
  show "r_f q \<le> int n" using ok by (simp add: ring_ok_def)
  show "ring_ok n (ring_put q x)" if "r_f q < int n" using ok that by (rule ring_ok_put)
  show "ring_contents (ring_put q x) = ring_contents q @ [x]" if "r_f q < int n"
    using ok that by (rule ring_contents_put)
  show "ring_ok n (snd (ring_get q))" if "0 < r_f q" using ok that by (rule ring_ok_get)
  show "fst (ring_get q) = hd (ring_contents q)" if "0 < r_f q"
    using ring_contents_get [OF ok that] by simp
  show "ring_contents (snd (ring_get q)) = tl (ring_contents q)" if "0 < r_f q"
    using ring_contents_get [OF ok that] by simp
qed

end
