(* ===== verification/Messages.thy ===== *)
theory Messages
  imports Bora_Prelude
begin

text \<open>
  The message flags of \<open>messages.h\<close> and the structures that travel between the components:
  the outgoing packet \<open>SendData\<close> of \<open>packet_sender.h\<close> and the fragment descriptions of
  \<open>blockcache.h\<close>. A C array or heap buffer is the list of its bytes, so its length is the
  extent of the object.
\<close>

section \<open>Flags\<close>

definition BLK_EMPTY :: u8 where "BLK_EMPTY = 0x00"
definition BLK_BLOCK :: u8 where "BLK_BLOCK = 0x01"
definition BLK_BLOCK_ACK :: u8 where "BLK_BLOCK_ACK = 0x81"
definition BLK_ACK :: u8 where "BLK_ACK = 0x02"
definition NEED_ACK :: u8 where "NEED_ACK = 0x80"
definition COOKIE_MSG :: u8 where "COOKIE_MSG = 0x08"
definition BW_MSG :: u8 where "BW_MSG = 0x40"
definition MASK_BLOCK_ACK :: u8 where "MASK_BLOCK_ACK = 0x7E"
definition BLOCK_CONSECUTIVE :: u8 where "BLOCK_CONSECUTIVE = 0x04"
definition BLOCK_MASK_CONSECUTIVE :: u8 where "BLOCK_MASK_CONSECUTIVE = 0xFB"
definition BLOCK_RETRANSMISSION :: u8 where "BLOCK_RETRANSMISSION = 0x10"
definition BLOCK_MASK_RETRANSMISSION :: u8 where "BLOCK_MASK_RETRANSMISSION = 0xEF"

lemmas [packet_defs] =
  BLK_EMPTY_def BLK_BLOCK_def BLK_BLOCK_ACK_def BLK_ACK_def NEED_ACK_def COOKIE_MSG_def BW_MSG_def
  MASK_BLOCK_ACK_def BLOCK_CONSECUTIVE_def BLOCK_MASK_CONSECUTIVE_def
  BLOCK_RETRANSMISSION_def BLOCK_MASK_RETRANSMISSION_def

text \<open>The C test \<open>flags & mask\<close>.\<close>

definition has :: "u8 \<Rightarrow> u8 \<Rightarrow> bool" where
  "has f m \<longleftrightarrow> f AND m \<noteq> 0"

section \<open>Structures\<close>

definition MTU :: nat where "MTU = 1400"

definition SENDBUF :: nat where "SENDBUF = 1500"

record SendData =
  sd_data :: "u8 list"
  sd_length :: u32
  sd_to :: sockaddr_in

record FragmentData =
  fd_streamid :: u16
  fd_blockid :: u32
  fd_fragmentid :: u16
  fd_fragments :: u16
  fd_length :: u16
  fd_data :: "u8 list"

record FragmentID =
  fi_flags :: u8
  fi_streamid :: u16
  fi_blockid :: u32
  fi_fragmentid :: u16
  fi_fragments :: u16
  fi_length :: u16

text \<open>The extent of \<open>SendData.data\<close> is fixed by its declaration.\<close>

definition wf_sd :: "SendData \<Rightarrow> bool" where
  "wf_sd d \<longleftrightarrow> length (sd_data d) = SENDBUF"

lemma wf_sd_updates [simp]:
  "wf_sd (d\<lparr>sd_to := a\<rparr>) = wf_sd d" "wf_sd (d\<lparr>sd_length := l\<rparr>) = wf_sd d"
  by (simp_all add: wf_sd_def)

section \<open>Flag algebra\<close>

lemma has_or: "has (a OR b) m \<longleftrightarrow> has a m \<or> has b m"
proof -
  have "(a OR b) AND m = (a AND m) OR (b AND m)"
    by (rule bit_word_eqI) (auto simp: bit_simps)
  then show ?thesis by (simp add: has_def or_eq_0_iff)
qed

lemma has_mask_consecutive:
  "has (f AND BLOCK_MASK_CONSECUTIVE) BLK_BLOCK_ACK \<longleftrightarrow> has f BLK_BLOCK_ACK"
proof -
  have "(f AND BLOCK_MASK_CONSECUTIVE) AND BLK_BLOCK_ACK = f AND BLK_BLOCK_ACK"
    by (simp add: packet_defs and.assoc)
  then show ?thesis by (simp add: has_def)
qed

end
