(* ===== verification/Bora_Util.thy ===== *)
theory Bora_Util
  imports Bora_Prelude
begin

text \<open>
  \<open>bora_util.c\<close> and the \<open>timersub\<close>, \<open>timeradd\<close> and \<open>timercmp\<close> macros of
  \<open><sys/time.h>\<close> that the acknowledgement code measures round trips with. The lemmas say
  that the macros compute on microsecond counts, that \<open>timercmp\<close> is the order of times, and
  where the conversions to and from 64-bit microseconds are exact.
\<close>

section \<open>Model\<close>

definition timersub :: "timeval \<Rightarrow> timeval \<Rightarrow> timeval" where
  "timersub a b =
     (let s = tv_sec a - tv_sec b; u = tv_usec a - tv_usec b
      in if u < 0 then Timeval (s - 1) (u + 1000000) else Timeval s u)"

definition timeradd :: "timeval \<Rightarrow> timeval \<Rightarrow> timeval" where
  "timeradd a b =
     (let s = tv_sec a + tv_sec b; u = tv_usec a + tv_usec b
      in if u \<ge> 1000000 then Timeval (s + 1) (u - 1000000) else Timeval s u)"

definition timercmp_lt :: "timeval \<Rightarrow> timeval \<Rightarrow> bool" where
  "timercmp_lt a b = (if tv_sec a = tv_sec b then tv_usec a < tv_usec b else tv_sec a < tv_sec b)"

definition time_to_usec :: "timeval \<Rightarrow> u64" where
  "time_to_usec t = word_of_int (tv_usec t) + word_of_int (tv_sec t) * 1000000"

definition time_from_usec :: "u64 \<Rightarrow> timeval" where
  "time_from_usec usec = Timeval (uint (usec div 1000000)) (uint (usec mod 1000000))"

definition time_multiply :: "timeval \<Rightarrow> u64 \<Rightarrow> timeval" where
  "time_multiply t mult = time_from_usec (time_to_usec t * mult)"

section \<open>Microsecond counts\<close>

definition usecs :: "timeval \<Rightarrow> int" where
  "usecs t = tv_sec t * 1000000 + tv_usec t"

definition norm_time :: "timeval \<Rightarrow> bool" where
  "norm_time t \<longleftrightarrow> 0 \<le> tv_usec t \<and> tv_usec t < 1000000"

lemma usecs_timersub [simp]: "usecs (timersub a b) = usecs a - usecs b"
  by (simp add: usecs_def timersub_def Let_def algebra_simps)

lemma usecs_timeradd [simp]: "usecs (timeradd a b) = usecs a + usecs b"
  by (simp add: usecs_def timeradd_def Let_def algebra_simps)

lemma norm_time_timersub: "norm_time a \<Longrightarrow> norm_time b \<Longrightarrow> norm_time (timersub a b)"
  by (auto simp: norm_time_def timersub_def Let_def)

lemma norm_time_timeradd: "norm_time a \<Longrightarrow> norm_time b \<Longrightarrow> norm_time (timeradd a b)"
  by (auto simp: norm_time_def timeradd_def Let_def)

lemma timercmp_lt_less: "timercmp_lt a b \<longleftrightarrow> a < b"
  by (auto simp: timercmp_lt_def less_timeval_def)

lemma less_iff_usecs: "norm_time a \<Longrightarrow> norm_time b \<Longrightarrow> a < b \<longleftrightarrow> usecs a < usecs b"
  by (auto simp: less_timeval_def usecs_def norm_time_def)

lemma norm_time_div_mod:
  "norm_time t \<Longrightarrow> tv_sec t = usecs t div 1000000 \<and> tv_usec t = usecs t mod 1000000"
  by (simp add: usecs_def norm_time_def)

lemma norm_time_eqI: "norm_time a \<Longrightarrow> norm_time b \<Longrightarrow> usecs a = usecs b \<Longrightarrow> a = b"
  by (rule timeval.expand) (simp add: norm_time_div_mod)

lemma uint_time_to_usec: "uint (time_to_usec t) = usecs t mod 2 ^ 64"
proof -
  have "time_to_usec t = word_of_int (usecs t)"
    by (simp add: time_to_usec_def usecs_def)
  then show ?thesis by (simp add: uint_word_of_int)
qed

lemma usecs_time_from_usec [simp]: "usecs (time_from_usec u) = uint u"
  by (simp add: usecs_def time_from_usec_def uint_div uint_mod)

lemma norm_time_from_usec [simp]: "norm_time (time_from_usec u)"
  by (simp add: norm_time_def time_from_usec_def uint_mod)

lemma time_to_from_usec: "time_to_usec (time_from_usec u) = u"
  using uint_bounded [of u] by (intro word_uint_eqI) (simp add: uint_time_to_usec)

lemma usecs_time_multiply: "usecs (time_multiply t m) = usecs t * uint m mod 2 ^ 64"
  by (simp add: time_multiply_def uint_word_ariths uint_time_to_usec mod_mult_left_eq)

text \<open>
  Subtracting and adding times with the \<open>timersub\<close> and \<open>timeradd\<close> macros is subtraction and
  addition of microsecond counts, keeps times normalised, and comparing with \<open>timercmp\<close> is
  comparing microsecond counts; the round trip through \<open>time_to_usec\<close> and \<open>time_from_usec\<close> is the
  identity on every normalised time whose count fits 64 bits.
\<close>

lemma time_arithmetic:
  assumes "norm_time a" and "norm_time b"
  shows "usecs (timersub a b) = usecs a - usecs b \<and> norm_time (timersub a b) \<and>
    usecs (timeradd a b) = usecs a + usecs b \<and> norm_time (timeradd a b) \<and>
    (timercmp_lt a b \<longleftrightarrow> usecs a < usecs b) \<and>
    (0 \<le> usecs a \<and> usecs a < 2 ^ 64 \<longrightarrow> time_from_usec (time_to_usec a) = a)"
  using assms
  by (simp add: norm_time_timersub norm_time_timeradd timercmp_lt_less less_iff_usecs
      norm_time_eqI uint_time_to_usec)

end
