(* ===== verification/Netencoder.thy ===== *)
theory Netencoder
  imports Messages Bora_Util
begin

text \<open>
  \<open>netencoder.c\<close>: the wire formats. The packed structs \<open>FragmentHeader\<close>, \<open>AckPacket\<close> and
  \<open>BWPacket\<close> are laid over the packet buffer, so a field access is a load or store at its
  offset. A local \<open>SendData s\<close> that the code leaves uninitialised is an argument, and every
  theorem holds for whatever it contains. A \<open>ssize_t\<close> length is an \<open>int\<close>, a
  \<open>size_t\<close> length a 64-bit word.
\<close>

section \<open>Model\<close>

definition sizeof_FragmentHeader :: nat where "sizeof_FragmentHeader = 13"
definition sizeof_AckPacket :: nat where "sizeof_AckPacket = 13"
definition sizeof_BWPacket :: nat where "sizeof_BWPacket = 5"

lemmas sizeof_defs = sizeof_FragmentHeader_def sizeof_AckPacket_def sizeof_BWPacket_def

record FragmentHeader =
  fh_flags :: u8
  fh_streamid :: u16
  fh_blockid :: u32
  fh_fragmentid :: u16
  fh_fragments :: u16
  fh_length :: u16

definition FragmentHeader_at :: "u8 list \<Rightarrow> FragmentHeader" where
  "FragmentHeader_at buf =
     \<lparr>fh_flags = buf ! 0, fh_streamid = ld16 buf 1, fh_blockid = ld32 buf 3,
      fh_fragmentid = ld16 buf 7, fh_fragments = ld16 buf 9, fh_length = ld16 buf 11\<rparr>"

record AckReceived =
  ar_flags :: u8
  ar_seq :: u16
  ar_sec :: u32
  ar_usec :: u32
  ar_cons :: u16

definition get_fragment_size :: "FragmentData \<Rightarrow> int" where
  "get_fragment_size fragment = int sizeof_FragmentHeader + uint (fd_length fragment)"

definition validate_ack :: "u8 list \<Rightarrow> u64 \<Rightarrow> bool" where
  "validate_ack blob l \<longleftrightarrow> l = of_nat sizeof_AckPacket \<and> (blob ! 0) XOR BLK_ACK = 0"

definition validate_bw :: "u8 list \<Rightarrow> u64 \<Rightarrow> bool" where
  "validate_bw blob l \<longleftrightarrow> l = of_nat sizeof_BWPacket \<and> (blob ! 0) XOR BW_MSG = 0"

definition validate_block :: "u8 list \<Rightarrow> u64 \<Rightarrow> bool" where
  "validate_block blob l \<longleftrightarrow>
     (l \<ge> of_nat sizeof_FragmentHeader \<and>
      (let i = htons (fh_length (FragmentHeader_at blob)); f = fh_flags (FragmentHeader_at blob)
       in l = of_nat sizeof_FragmentHeader + ucast i \<and>
          (f AND MASK_BLOCK_ACK AND BLOCK_MASK_CONSECUTIVE AND BLOCK_MASK_RETRANSMISSION)
            XOR BLK_EMPTY = 0)) \<or>
     (l = of_nat (sizeof_FragmentHeader + MTU) \<and> blob ! 0 = NEED_ACK OR COOKIE_MSG)"

definition get_header_size :: nat where
  "get_header_size = sizeof_FragmentHeader"

text \<open>
  The header stores are in bounds of \<open>data[1500]\<close>; the payload copy reads \<open>length\<close> bytes of the
  fragment's buffer and is where the packet can run past its end.
\<close>

definition encode_fragment :: "SendData \<Rightarrow> FragmentData \<Rightarrow> SendData res" where
  "encode_fragment s fragment =
     (let b0 = (sd_data s)[0 := BLK_BLOCK];
          b1 = st16 b0 1 (htons (fd_streamid fragment));
          b2 = st32 b1 3 (htonl (fd_blockid fragment));
          b3 = st16 b2 7 (htons (fd_fragmentid fragment));
          b4 = st16 b3 9 (htons (fd_fragments fragment));
          b5 = st16 b4 11 (htons (fd_length fragment))
      in bind_res (memcpy b5 sizeof_FragmentHeader (fd_data fragment) (unat (fd_length fragment)))
           (\<lambda>b6. Ok (s\<lparr>sd_data := b6,
                       sd_length := of_nat sizeof_FragmentHeader + ucast (fd_length fragment)\<rparr>)))"

definition decode_fragment :: "u8 list \<Rightarrow> int \<Rightarrow> FragmentData option res" where
  "decode_fragment fragmentstring len =
     (if len < int sizeof_FragmentHeader then Ok None
      else let h = FragmentHeader_at fragmentstring in
        if \<not> has (fh_flags h) BLK_BLOCK then Ok None
        else let n = ntohs (fh_length h) in
          if len \<noteq> uint n + int sizeof_FragmentHeader then Ok None
          else if sizeof_FragmentHeader + unat n > length fragmentstring then Err OutOfBounds
          else Ok (Some
            \<lparr>fd_streamid = ntohs (fh_streamid h), fd_blockid = ntohl (fh_blockid h),
             fd_fragmentid = ntohs (fh_fragmentid h), fd_fragments = ntohs (fh_fragments h),
             fd_length = n, fd_data = bytes_at sizeof_FragmentHeader (unat n) fragmentstring\<rparr>))"

definition encode_ack :: "SendData \<Rightarrow> u16 \<Rightarrow> SendData" where
  "encode_ack s seq =
     s\<lparr>sd_data := st16 ((sd_data s)[0 := BLK_ACK]) 1 seq, sd_length := of_nat sizeof_AckPacket\<rparr>"

definition encode_bw :: "SendData \<Rightarrow> u32 \<Rightarrow> SendData" where
  "encode_bw s bw =
     s\<lparr>sd_data := st32 ((sd_data s)[0 := BW_MSG]) 1 (htonl bw), sd_length := of_nat sizeof_BWPacket\<rparr>"

definition append_ack_cons :: "SendData \<Rightarrow> u16 \<Rightarrow> SendData" where
  "append_ack_cons s cons = s\<lparr>sd_data := st16 (sd_data s) 11 (htons cons)\<rparr>"

definition append_ack_ts :: "SendData \<Rightarrow> timeval \<Rightarrow> SendData" where
  "append_ack_ts s ts =
     s\<lparr>sd_data := st32 (st32 (sd_data s) 3 (htonl (word_of_int (tv_sec ts))))
                       7 (htonl (word_of_int (tv_usec ts)))\<rparr>"

definition decode_ack :: "u8 list \<Rightarrow> int \<Rightarrow> AckReceived option" where
  "decode_ack ack_r len =
     (if len < int sizeof_AckPacket then None
      else Some \<lparr>ar_flags = ack_r ! 0, ar_seq = ld16 ack_r 1, ar_sec = ntohl (ld32 ack_r 3),
                 ar_usec = ntohl (ld32 ack_r 7), ar_cons = ntohs (ld16 ack_r 11)\<rparr>)"

definition decode_bwmsg :: "u8 list \<Rightarrow> int \<Rightarrow> u32 option" where
  "decode_bwmsg bw_r len =
     (if len < int sizeof_BWPacket then None else Some (ntohl (ld32 bw_r 1)))"

definition get_flags :: "u8 list \<Rightarrow> u8" where
  "get_flags fragment = fragment ! 0"

definition set_flags :: "u8 list \<Rightarrow> u8 \<Rightarrow> u8 list \<times> u8" where
  "set_flags fragment flags = (fragment[0 := flags], flags)"

definition zero_FragmentID :: FragmentID where
  "zero_FragmentID =
     \<lparr>fi_flags = 0, fi_streamid = 0, fi_blockid = 0, fi_fragmentid = 0, fi_fragments = 0, fi_length = 0\<rparr>"

definition get_fragment_id :: "u8 list \<Rightarrow> int \<Rightarrow> FragmentID" where
  "get_fragment_id fragmentstring len =
     (if len < int sizeof_FragmentHeader then zero_FragmentID
      else let h = FragmentHeader_at fragmentstring in
        if \<not> has (fh_flags h) BLK_BLOCK then zero_FragmentID
        else zero_FragmentID
          \<lparr>fi_streamid := ntohs (fh_streamid h), fi_blockid := ntohl (fh_blockid h),
           fi_fragmentid := ntohs (fh_fragmentid h), fi_fragments := ntohs (fh_fragments h),
           fi_length := ntohs (fh_length h)\<rparr>)"

text \<open>An acknowledgement as the receiving side builds it: \<open>packet_receiver.c\<close> composes these three calls.\<close>

definition make_ack :: "SendData \<Rightarrow> u16 \<Rightarrow> u16 \<Rightarrow> timeval \<Rightarrow> SendData" where
  "make_ack s seq cons ts = append_ack_ts (append_ack_cons (encode_ack s seq) cons) ts"

section \<open>What was written is what is read\<close>

lemmas encode_defs = encode_fragment_def encode_ack_def encode_bw_def append_ack_cons_def
  append_ack_ts_def make_ack_def

lemma encode_fragment_Ok_iff:
  assumes "wf_sd s"
  shows "(\<exists>d. encode_fragment s fd = Ok d) \<longleftrightarrow>
     unat (fd_length fd) \<le> SENDBUF - sizeof_FragmentHeader \<and> unat (fd_length fd) \<le> length (fd_data fd)"
  using assms
  by (auto simp: encode_fragment_def Let_def memcpy_def wf_sd_def SENDBUF_def sizeof_defs)

lemma encode_fragment_fields:
  assumes "wf_sd s" and "encode_fragment s fd = Ok d"
  shows "wf_sd d" and "sd_to d = sd_to s" and "sd_length d = 13 + ucast (fd_length fd)"
    and "FragmentHeader_at (sd_data d) =
      \<lparr>fh_flags = BLK_BLOCK, fh_streamid = htons (fd_streamid fd), fh_blockid = htonl (fd_blockid fd),
       fh_fragmentid = htons (fd_fragmentid fd), fh_fragments = htons (fd_fragments fd),
       fh_length = htons (fd_length fd)\<rparr>"
    and "bytes_at 13 (unat (fd_length fd)) (sd_data d) = take (unat (fd_length fd)) (fd_data fd)"
    and "13 + unat (fd_length fd) \<le> 1500" and "unat (fd_length fd) \<le> length (fd_data fd)"
  using assms
  by (auto simp: encode_fragment_def Let_def memcpy_def wf_sd_def SENDBUF_def sizeof_defs
      FragmentHeader_at_def mem_simps split: if_splits)

lemma uint_13_plus [simp]: "uint (13 + ucast (l :: u16) :: u32) = 13 + uint l"
  using uint_bounded [of l] by (simp add: uint_word_ariths unsigned_ucast_eq take_bit_eq_mod)

lemma uint_13_plus64 [simp]: "uint (13 + ucast (l :: u16) :: u64) = 13 + uint l"
  using uint_bounded [of l] by (simp add: uint_word_ariths unsigned_ucast_eq take_bit_eq_mod)

lemma FragmentHeader_at_update [simp]:
  "buf \<noteq> [] \<Longrightarrow> FragmentHeader_at (buf[0 := f]) = FragmentHeader_at buf\<lparr>fh_flags := f\<rparr>"
  by (cases buf) (auto simp: FragmentHeader_at_def mem_simps simp flip: list_update.simps(2))

lemma take_13_header:
  assumes "13 \<le> length buf"
  shows "take 13 buf = fh_flags (FragmentHeader_at buf) # bytes_of_u16 (fh_streamid (FragmentHeader_at buf)) @
     bytes_of_u32 (fh_blockid (FragmentHeader_at buf)) @ bytes_of_u16 (fh_fragmentid (FragmentHeader_at buf)) @
     bytes_of_u16 (fh_fragments (FragmentHeader_at buf)) @ bytes_of_u16 (fh_length (FragmentHeader_at buf))"
proof -
  have "take 13 buf = bytes_at 0 (1 + (2 + (4 + (2 + (2 + 2))))) buf"
    by (simp add: bytes_at_0)
  also have "\<dots> = bytes_at 0 1 buf @ bytes_at 1 2 buf @ bytes_at 3 4 buf @ bytes_at 7 2 buf @
      bytes_at 9 2 buf @ bytes_at 11 2 buf"
    by (simp only: bytes_at_append) (simp add: numeral_3_eq_3)
  also have "\<dots> = [buf ! 0] @ bytes_of_u16 (ld16 buf 1) @ bytes_of_u32 (ld32 buf 3) @
      bytes_of_u16 (ld16 buf 7) @ bytes_of_u16 (ld16 buf 9) @ bytes_of_u16 (ld16 buf 11)"
    using assms bytes_at_1 [of 0 buf] by (simp add: bytes_at_ld del: length_greater_0_conv)
  finally show ?thesis by (simp add: FragmentHeader_at_def)
qed

lemma header_determines_bytes:
  "13 \<le> length a \<Longrightarrow> 13 \<le> length b \<Longrightarrow> FragmentHeader_at a = FragmentHeader_at b \<Longrightarrow> take 13 a = take 13 b"
  by (simp add: take_13_header)

subsection \<open>Fragments\<close>

lemma decode_fragment_Some:
  assumes "decode_fragment buf len = Ok (Some fd)"
  shows "len = uint (fd_length fd) + 13" and "13 + unat (fd_length fd) \<le> length buf"
    and "has (buf ! 0) BLK_BLOCK"
    and "FragmentHeader_at buf =
      \<lparr>fh_flags = buf ! 0, fh_streamid = htons (fd_streamid fd), fh_blockid = htonl (fd_blockid fd),
       fh_fragmentid = htons (fd_fragmentid fd), fh_fragments = htons (fd_fragments fd),
       fh_length = htons (fd_length fd)\<rparr>"
    and "fd_data fd = bytes_at 13 (unat (fd_length fd)) buf" and "length (fd_data fd) = unat (fd_length fd)"
  using assms
  by (auto simp: decode_fragment_def Let_def sizeof_defs FragmentHeader_at_def split: if_splits)

lemma decode_fragmentI:
  assumes "13 + unat n \<le> length buf" and "has (fh_flags h) BLK_BLOCK"
    and "FragmentHeader_at buf = h" and "fh_length h = htons n"
  shows "decode_fragment buf (13 + uint n) = Ok (Some
     \<lparr>fd_streamid = ntohs (fh_streamid h), fd_blockid = ntohl (fh_blockid h),
      fd_fragmentid = ntohs (fh_fragmentid h), fd_fragments = ntohs (fh_fragments h),
      fd_length = n, fd_data = bytes_at 13 (unat n) buf\<rparr>)"
  using assms by (simp add: decode_fragment_def sizeof_defs Let_def)

lemma decode_encoded:
  assumes "wf_sd s" and "encode_fragment s fd = Ok d" and "has f BLK_BLOCK"
  shows "decode_fragment ((sd_data d)[0 := f]) (uint (sd_length d)) =
     Ok (Some (fd\<lparr>fd_data := take (unat (fd_length fd)) (fd_data fd)\<rparr>))"
proof -
  note enc = encode_fragment_fields [OF assms(1,2)]
  have len: "sd_data d \<noteq> []" "length (sd_data d) = 1500"
    using enc(1) by (auto simp: wf_sd_def SENDBUF_def)
  have "decode_fragment ((sd_data d)[0 := f]) (13 + uint (fd_length fd)) = Ok (Some
     \<lparr>fd_streamid = fd_streamid fd, fd_blockid = fd_blockid fd,
      fd_fragmentid = fd_fragmentid fd, fd_fragments = fd_fragments fd,
      fd_length = fd_length fd, fd_data = bytes_at 13 (unat (fd_length fd)) ((sd_data d)[0 := f])\<rparr>)"
    using assms(3) enc(6) len
    by (subst decode_fragmentI [OF _ _ FragmentHeader_at_update]) (simp_all add: enc(4))
  then show ?thesis by (simp add: enc(3,5) bytes_at_nth_update_other)
qed

text \<open>
  C21: decoding an encoded fragment gives the fragment back, whatever the buffer held before and
  whatever flags byte with the block bit the sender put in front afterwards.
\<close>

theorem fragment_roundtrip:
  assumes "wf_sd s" and "encode_fragment s fd = Ok d" and "has f BLK_BLOCK"
  shows "decode_fragment ((sd_data d)[0 := f]) (uint (sd_length d)) =
     Ok (Some (fd\<lparr>fd_data := take (unat (fd_length fd)) (fd_data fd)\<rparr>))"
  using decode_encoded [OF assms] .

text \<open>
  The encoding is the only one: a packet that decodes to a fragment is, byte for byte, what
  encoding that fragment writes, except for the flags byte.
\<close>

lemma fragment_encoding_unique:
  assumes "wf_sd s" and "length buf = SENDBUF" and "decode_fragment buf len = Ok (Some fd)"
  shows "\<exists>d. encode_fragment s fd = Ok d \<and> uint (sd_length d) = len \<and>
     take (nat len) (sd_data d) = take (nat len) (buf[0 := BLK_BLOCK])"
proof -
  note dec = decode_fragment_Some [OF assms(3)]
  obtain d where d: "encode_fragment s fd = Ok d"
    using encode_fragment_Ok_iff [OF assms(1), of fd] dec assms(2) by (auto simp: SENDBUF_def sizeof_defs)
  note enc = encode_fragment_fields [OF assms(1) d]
  have len: "nat len = 13 + unat (fd_length fd)" using dec(1) by (simp add: nat_add_distrib)
  have buf: "buf \<noteq> []" "length (sd_data d) = 1500" "length buf = 1500"
    using assms(2) enc(1) by (auto simp: SENDBUF_def wf_sd_def)
  have "take 13 (sd_data d) = take 13 (buf[0 := BLK_BLOCK])"
    using enc(4) dec(4) buf by (intro header_determines_bytes) auto
  moreover have "bytes_at 13 (unat (fd_length fd)) (sd_data d) =
      bytes_at 13 (unat (fd_length fd)) (buf[0 := BLK_BLOCK])"
    using enc(5) dec(5) by (simp add: mem_simps)
  ultimately have "take (nat len) (sd_data d) = take (nat len) (buf[0 := BLK_BLOCK])"
    unfolding len by (simp only: bytes_at_0 [symmetric] bytes_at_append) simp
  then show ?thesis using d enc(3) dec(1) by auto
qed

subsection \<open>Validation\<close>

text \<open>
  A packet the sender builds from a fragment passes the receiver's check with every flags byte
  the sender gives it: plain, asking for an acknowledgement, marked consecutive, retransmitted.
\<close>

definition block_flags :: "u8 \<Rightarrow> bool" where
  "block_flags f \<longleftrightarrow>
     f AND (BLK_ACK OR COOKIE_MSG OR 0x20 OR BW_MSG) = 0"

lemma block_flags_mask:
  "block_flags f \<longleftrightarrow>
     f AND MASK_BLOCK_ACK AND BLOCK_MASK_CONSECUTIVE AND BLOCK_MASK_RETRANSMISSION = 0"
  by (simp add: block_flags_def packet_defs and.assoc)

lemma validate_block_iff:
  "validate_block buf l \<longleftrightarrow>
     (uint l = 13 + uint (ntohs (ld16 buf 11)) \<and> block_flags (buf ! 0)) \<or>
     (l = 1413 \<and> buf ! 0 = NEED_ACK OR COOKIE_MSG)"
proof -
  have "l = 13 + ucast i \<longleftrightarrow> uint l = 13 + uint i" for i :: u16
    by (metis uint_13_plus64 word_uint_eq_iff)
  moreover have "13 \<le> l" if "uint l = 13 + uint i" for i :: u16
    using that by (simp add: word_le_def)
  ultimately show ?thesis
    by (auto simp: validate_block_def Let_def FragmentHeader_at_def sizeof_defs block_flags_mask
        MTU_def BLK_EMPTY_def)
qed

lemma validate_encoded:
  assumes "wf_sd s" and "encode_fragment s fd = Ok d" and "block_flags f"
  shows "validate_block ((sd_data d)[0 := f]) (ucast (sd_length d))"
proof -
  note enc = encode_fragment_fields [OF assms(1,2)]
  have "sd_data d \<noteq> []" using enc(1) by (auto simp: wf_sd_def SENDBUF_def)
  moreover have "ld16 ((sd_data d)[0 := f]) 11 = htons (fd_length fd)"
    using enc(4) by (simp add: FragmentHeader_at_def mem_simps)
  moreover have "uint (ucast (sd_length d) :: u64) = 13 + uint (fd_length fd)"
    using enc(3) uint_bounded [of "fd_length fd"]
    by (simp add: unsigned_ucast_eq take_bit_eq_mod)
  ultimately show ?thesis using assms(3) by (simp add: validate_block_iff)
qed

lemma validated_decodes:
  assumes "validate_block buf l" and "has (buf ! 0) BLK_BLOCK" and "length buf = 1500"
    and "uint l \<le> 1500"
  shows "\<exists>fd. decode_fragment buf (uint l) = Ok (Some fd)"
proof -
  let ?n = "ntohs (ld16 buf 11)"
  have "\<not> has (NEED_ACK OR COOKIE_MSG) BLK_BLOCK" by (simp add: packet_defs has_def)
  with assms have l: "uint l = 13 + uint ?n" by (auto simp: validate_block_iff)
  have "13 + unat ?n \<le> length buf"
    using l assms(3,4) uint_nat [of ?n] by linarith
  with assms(2) l show ?thesis
    using decode_fragmentI [of ?n buf "FragmentHeader_at buf"] by (simp add: FragmentHeader_at_def)
qed

text \<open>
  C22: the receiver's length and flags check accepts every packet built from a fragment, under all
  the flags bytes that the sending side uses for block packets, and the three kinds of packet are
  told apart by it: nothing is a valid acknowledgement, bandwidth message and block at once.
\<close>

theorem validation_sound_and_exclusive:
  assumes "wf_sd s" and "encode_fragment s fd = Ok d"
    and "f \<in> {BLK_BLOCK, BLK_BLOCK_ACK, BLK_BLOCK_ACK OR BLOCK_CONSECUTIVE,
              BLK_BLOCK_ACK OR BLOCK_RETRANSMISSION}"
  shows "validate_block ((sd_data d)[0 := f]) (ucast (sd_length d)) \<and>
    \<not> (validate_ack buf l \<and> validate_bw buf l) \<and> \<not> (validate_ack buf l \<and> validate_block buf l) \<and>
    \<not> (validate_bw buf l \<and> validate_block buf l)"
proof -
  have "block_flags f" using assms(3) by (auto simp: block_flags_def packet_defs)
  then have "validate_block ((sd_data d)[0 := f]) (ucast (sd_length d))"
    by (rule validate_encoded [OF assms(1,2)])
  moreover have "\<not> block_flags BLK_ACK" "\<not> block_flags BW_MSG"
    by (simp_all add: block_flags_def packet_defs)
  ultimately show ?thesis
    by (auto simp: validate_block_iff validate_ack_def validate_bw_def packet_defs sizeof_defs xor_eq_0)
qed

subsection \<open>What a decoder looks at\<close>

lemma ld_take: "off + 2 \<le> n \<Longrightarrow> ld16 (take n buf) off = ld16 buf off" "off + 4 \<le> n \<Longrightarrow> ld32 (take n buf) off = ld32 buf off"
  by (simp_all add: ld16_def ld32_def bytes_at_take)

lemma FragmentHeader_prefix:
  assumes "take n a = take n b" and "13 \<le> n"
  shows "FragmentHeader_at a = FragmentHeader_at b"
proof -
  have "a ! 0 = b ! 0" using assms by (metis nth_take order_less_le_trans zero_less_numeral)
  moreover have "ld16 a off = ld16 b off" if "off + 2 \<le> 13" for off
    using ld_take(1) [of off n a] ld_take(1) [of off n b] assms that by simp
  moreover have "ld32 a off = ld32 b off" if "off + 4 \<le> 13" for off
    using ld_take(2) [of off n a] ld_take(2) [of off n b] assms that by simp
  ultimately show ?thesis by (simp add: FragmentHeader_at_def)
qed

text \<open>Only the first \<open>len\<close> bytes matter, and of the flags only the block bit.\<close>

lemma decode_prefix:
  assumes "decode_fragment a len = Ok (Some fd)" and "take (nat len) a = take (nat len) b" and "nat len \<le> length b"
  shows "decode_fragment b len = Ok (Some fd)"
proof -
  note dec = decode_fragment_Some [OF assms(1)]
  have n: "nat len = 13 + unat (fd_length fd)" using dec(1) by (simp add: nat_add_distrib)
  have h: "FragmentHeader_at b = FragmentHeader_at a" using FragmentHeader_prefix [OF assms(2)] n by simp
  have "bytes_at 13 (unat (fd_length fd)) b = bytes_at 13 (unat (fd_length fd)) a"
    using bytes_at_take [of 13 "unat (fd_length fd)" "nat len" a] bytes_at_take [of 13 "unat (fd_length fd)" "nat len" b]
      assms(2) n by simp
  then show ?thesis
    using decode_fragmentI [of "fd_length fd" b "FragmentHeader_at a"] assms(3) dec h n by (simp add: add.commute)
qed

lemma decode_reflag:
  assumes "decode_fragment buf len = Ok (Some fd)" and "has g BLK_BLOCK"
  shows "decode_fragment (buf[0 := g]) len = Ok (Some fd)"
proof -
  note dec = decode_fragment_Some [OF assms(1)]
  have "buf \<noteq> []" using dec(2) by auto
  then have "FragmentHeader_at (buf[0 := g]) = FragmentHeader_at buf\<lparr>fh_flags := g\<rparr>" by simp
  then show ?thesis
    using decode_fragmentI [of "fd_length fd" "buf[0 := g]" "FragmentHeader_at buf\<lparr>fh_flags := g\<rparr>"] dec assms(2)
    by (simp add: bytes_at_nth_update_other add.commute)
qed

lemma validate_decoded:
  assumes "decode_fragment buf len = Ok (Some fd)" and "block_flags (buf ! 0)" and "uint l = len"
  shows "validate_block buf l"
  using decode_fragment_Some [OF assms(1)] assms(2,3) by (simp add: validate_block_iff FragmentHeader_at_def)

subsection \<open>Acknowledgements and bandwidth messages\<close>

text \<open>
  C23: an acknowledgement built by the receiving side is exactly one valid acknowledgement packet, and
  decoding it returns the sequence number, the count of consecutive fragments and the reception
  time; seconds and microseconds are read as signed 32-bit numbers, so the time comes back
  unchanged only while it fits 31 bits.
\<close>

theorem ack_roundtrip:
  assumes "wf_sd s"
  shows "sd_length (make_ack s seq cons ts) = 13 \<and>
    validate_ack (sd_data (make_ack s seq cons ts)) 13 \<and>
    (\<exists>a. decode_ack (sd_data (make_ack s seq cons ts)) 13 = Some a \<and>
      ar_flags a = BLK_ACK \<and> ar_seq a = seq \<and> ar_cons a = cons \<and>
      sint (ar_sec a) = signed_take_bit 31 (tv_sec ts) \<and>
      sint (ar_usec a) = signed_take_bit 31 (tv_usec ts))"
  using assms
  by (simp add: encode_defs decode_ack_def validate_ack_def sizeof_defs wf_sd_def SENDBUF_def
      mem_simps sint_sbintrunc')

lemma decode_make_ack:
  assumes "wf_sd s"
  shows "decode_ack (sd_data (make_ack s seq cons ts)) 13 = Some \<lparr>ar_flags = BLK_ACK, ar_seq = seq,
    ar_sec = word_of_int (tv_sec ts), ar_usec = word_of_int (tv_usec ts), ar_cons = cons\<rparr>"
  using assms by (simp add: encode_defs decode_ack_def sizeof_defs wf_sd_def SENDBUF_def mem_simps)

lemma decode_ack_prefix: "take 13 a = take 13 b \<Longrightarrow> decode_ack a len = decode_ack b len"
  using ld_take(1) [of _ 13 a] ld_take(1) [of _ 13 b] ld_take(2) [of _ 13 a] ld_take(2) [of _ 13 b]
    nth_take [of 0 13 a] nth_take [of 0 13 b]
  by (simp add: decode_ack_def)

lemma bw_roundtrip:
  assumes "wf_sd s"
  shows "validate_bw (sd_data (encode_bw s bw)) 5 \<and> decode_bwmsg (sd_data (encode_bw s bw)) 5 = Some bw"
  using assms
  by (simp add: encode_bw_def decode_bwmsg_def validate_bw_def sizeof_defs wf_sd_def SENDBUF_def mem_simps)

lemma wf_encoders [simp]:
  "wf_sd s \<Longrightarrow> wf_sd (encode_ack s seq)" "wf_sd s \<Longrightarrow> wf_sd (encode_bw s bw)"
  "wf_sd s \<Longrightarrow> wf_sd (append_ack_cons s c)" "wf_sd s \<Longrightarrow> wf_sd (append_ack_ts s ts)"
  "wf_sd s \<Longrightarrow> wf_sd (make_ack s seq c ts)"
  by (simp_all add: encode_defs wf_sd_def SENDBUF_def)

text \<open>The identifier read from a queued packet agrees with what its receiver will decode.\<close>

lemma get_fragment_id_decoded:
  assumes "decode_fragment buf len = Ok (Some fd)"
  shows "get_fragment_id buf len =
    \<lparr>fi_flags = 0, fi_streamid = fd_streamid fd, fi_blockid = fd_blockid fd,
     fi_fragmentid = fd_fragmentid fd, fi_fragments = fd_fragments fd, fi_length = fd_length fd\<rparr>"
  using decode_fragment_Some [OF assms]
  by (simp add: get_fragment_id_def Let_def sizeof_defs zero_FragmentID_def)

end
