(* ===== verification/Packet_Queue.thy ===== *)
theory Packet_Queue
  imports Ring_Buffer Netencoder
begin

text \<open>
  The static state of \<open>packet_sender.c\<close> and its public side: \<open>send_data\<close>, which files a packet
  in one of the three queues, and the small setters and getters. A counting semaphore is its
  count. \<open>sem_trywait\<close> and the queue mutexes make every call below atomic with respect to the
  sending thread, so it is a function of the state.
\<close>

section \<open>Model\<close>

definition N_SEND :: nat where "N_SEND = 2000"
definition N_RETR :: nat where "N_RETR = 2000"
definition N_PRIO :: nat where "N_PRIO = 2000"

lemmas queue_sizes = N_SEND_def N_RETR_def N_PRIO_def

definition NUM_STAT_S :: nat where "NUM_STAT_S = 6"
definition O_DATA_COUNTER :: nat where "O_DATA_COUNTER = 0"
definition O_PKG_COUNTER :: nat where "O_PKG_COUNTER = 1"
definition O_ACK_COUNTER :: nat where "O_ACK_COUNTER = 2"
definition O_ACK_DATA_COUNTER :: nat where "O_ACK_DATA_COUNTER = 3"
definition O_RETR_COUNTER :: nat where "O_RETR_COUNTER = 4"
definition O_RETR_DATA_COUNTER :: nat where "O_RETR_DATA_COUNTER = 5"

lemmas out_stat_defs = NUM_STAT_S_def O_DATA_COUNTER_def O_PKG_COUNTER_def O_ACK_COUNTER_def
  O_ACK_DATA_COUNTER_def O_RETR_COUNTER_def O_RETR_DATA_COUNTER_def

record sender =
  send_q :: "SendData ring"
  retr_q :: "SendData ring"
  prio_q :: "SendData ring"
  sFull :: nat
  qEmpty :: nat
  bandwidth :: u64
  sleeptime :: u64
  z :: bool
  lasthost :: "sockaddr_in option"
  natPort :: u16
  idleTime :: timeval
  stats_s :: "u64 list"

definition zero_SendData :: SendData where
  "zero_SendData = \<lparr>sd_data = replicate SENDBUF 0, sd_length = 0, sd_to = zero_addr\<rparr>"

definition empty_ring :: "nat \<Rightarrow> SendData ring" where
  "empty_ring n = \<lparr>r_buf = replicate n zero_SendData, r_c = 0, r_f = 0\<rparr>"

text \<open>The static initialisers, then \<open>init_sender\<close>: counters and semaphores.\<close>

definition static_sender :: sender where
  "static_sender =
     \<lparr>send_q = empty_ring N_SEND, retr_q = empty_ring N_RETR, prio_q = empty_ring N_PRIO,
      sFull = 0, qEmpty = 0, bandwidth = 1000000, sleeptime = 1500, z = False, lasthost = None,
      natPort = 0, idleTime = zero_time, stats_s = replicate NUM_STAT_S 0\<rparr>"

definition init_sender :: "sender \<Rightarrow> sender" where
  "init_sender s = s\<lparr>stats_s := replicate NUM_STAT_S 0, sFull := 0, qEmpty := N_SEND * 3\<rparr>"

definition send_data :: "SendData \<Rightarrow> sender \<Rightarrow> sender" where
  "send_data d s =
     (if qEmpty s = 0 then s
      else
        let s = s\<lparr>qEmpty := qEmpty s - 1\<rparr>; flags = sd_data d ! 0
        in if has flags BLK_ACK \<or> has flags BW_MSG then
             (if r_f (prio_q s) < int N_PRIO
              then s\<lparr>prio_q := ring_put (prio_q s) d, sFull := sFull s + 1\<rparr>
              else s\<lparr>qEmpty := qEmpty s + 1\<rparr>)
           else if has flags BLOCK_RETRANSMISSION then
             (if r_f (retr_q s) < int N_RETR
              then s\<lparr>retr_q := ring_put (retr_q s) d, sFull := sFull s + 1\<rparr>
              else s\<lparr>qEmpty := qEmpty s + 1\<rparr>)
           else
             (if r_f (send_q s) < int N_SEND
              then s\<lparr>send_q := ring_put (send_q s) d, sFull := sFull s + 1\<rparr>
              else s\<lparr>qEmpty := qEmpty s + 1\<rparr>))"

definition set_bandwidth :: "u32 \<Rightarrow> sender \<Rightarrow> sender" where
  "set_bandwidth bw s = s\<lparr>bandwidth := scast bw\<rparr>"

definition get_idle :: "sender \<Rightarrow> u64 \<times> sender" where
  "get_idle s =
     (word_of_int (tv_sec (idleTime s) * 1000000 + tv_usec (idleTime s)), s\<lparr>idleTime := zero_time\<rparr>)"

definition get_nat_port :: "sender \<Rightarrow> u16" where
  "get_nat_port s = ntohs (natPort s)"

definition set_nat_port :: "u16 \<Rightarrow> sender \<Rightarrow> u16 \<times> sender" where
  "set_nat_port port_n s = (htons port_n, s\<lparr>natPort := htons port_n\<rparr>)"

definition get_send_size :: "sender \<Rightarrow> int" where
  "get_send_size s = r_f (send_q s)"

definition reset_out_counters :: "sender \<Rightarrow> sender" where
  "reset_out_counters s = s\<lparr>stats_s := replicate NUM_STAT_S 0\<rparr>"

section \<open>The three queues\<close>

interpretation sendq: bounded_fifo ring_put ring_get r_f ring_contents "ring_ok N_SEND" N_SEND
  by (rule ring_bounded_fifo)

interpretation retrq: bounded_fifo ring_put ring_get r_f ring_contents "ring_ok N_RETR" N_RETR
  by (rule ring_bounded_fifo)

interpretation prioq: bounded_fifo ring_put ring_get r_f ring_contents "ring_ok N_PRIO" N_PRIO
  by (rule ring_bounded_fifo)

text \<open>
  The abstract view: three lists, the packets that may be sent (the tokens of \<open>sFull\<close>) and the
  packets that may still be filed (the slots of \<open>qEmpty\<close>).
\<close>

datatype tx_class = Prio | Retr | Data

definition class_of :: "SendData \<Rightarrow> tx_class" where
  "class_of d =
     (if has (sd_data d ! 0) BLK_ACK \<or> has (sd_data d ! 0) BW_MSG then Prio
      else if has (sd_data d ! 0) BLOCK_RETRANSMISSION then Retr else Data)"

fun queue_of :: "tx_class \<Rightarrow> sender \<Rightarrow> SendData list" where
  "queue_of Prio s = ring_contents (prio_q s)"
| "queue_of Retr s = ring_contents (retr_q s)"
| "queue_of Data s = ring_contents (send_q s)"

record tx_view =
  tx_queue :: "tx_class \<Rightarrow> SendData list"
  tx_tokens :: nat
  tx_slots :: nat

definition tx_abs :: "sender \<Rightarrow> tx_view" where
  "tx_abs s = \<lparr>tx_queue = (\<lambda>c. queue_of c s), tx_tokens = sFull s, tx_slots = qEmpty s\<rparr>"

definition spec_send :: "SendData \<Rightarrow> tx_view \<Rightarrow> tx_view" where
  "spec_send d v =
     (if tx_slots v = 0 \<or> length (tx_queue v (class_of d)) = 2000 then v
      else \<lparr>tx_queue = (tx_queue v)(class_of d := tx_queue v (class_of d) @ [d]),
            tx_tokens = tx_tokens v + 1, tx_slots = tx_slots v - 1\<rparr>)"

definition tx_total :: "tx_view \<Rightarrow> nat" where
  "tx_total v = length (tx_queue v Prio) + length (tx_queue v Retr) + length (tx_queue v Data)"

text \<open>
  The invariant: every slot is either free or accounted for by a token, tokens never outnumber
  the queued packets, and what is queued are whole \<open>SendData\<close> structures.
\<close>

definition view_ok :: "tx_view \<Rightarrow> bool" where
  "view_ok v \<longleftrightarrow> tx_slots v + tx_tokens v = 6000 \<and> tx_tokens v \<le> tx_total v \<and>
     (\<forall>c. list_all wf_sd (tx_queue v c))"

definition rings_ok :: "sender \<Rightarrow> bool" where
  "rings_ok s \<longleftrightarrow> ring_ok N_SEND (send_q s) \<and> ring_ok N_RETR (retr_q s) \<and> ring_ok N_PRIO (prio_q s)"

definition sender_ok :: "sender \<Rightarrow> bool" where
  "sender_ok s \<longleftrightarrow> rings_ok s \<and> view_ok (tx_abs s) \<and> length (stats_s s) = NUM_STAT_S"

lemma all_classes: "(\<forall>c. P c) \<longleftrightarrow> P Prio \<and> P Retr \<and> P Data"
  by (metis tx_class.exhaust)

lemma fill_class:
  assumes "rings_ok s"
  shows "r_f (prio_q s) = int (length (queue_of Prio s))" "r_f (retr_q s) = int (length (queue_of Retr s))"
    "r_f (send_q s) = int (length (queue_of Data s))"
  using assms by (simp_all add: rings_ok_def sendq.fill_contents retrq.fill_contents prioq.fill_contents)

lemma length_queue_le: "rings_ok s \<Longrightarrow> length (queue_of c s) \<le> 2000"
  using sendq.length_contents_le retrq.length_contents_le prioq.length_contents_le
  by (cases c) (auto simp: rings_ok_def queue_sizes)

lemma queue_full_iff:
  assumes "rings_ok s"
  shows "r_f (prio_q s) < int N_PRIO \<longleftrightarrow> length (queue_of Prio s) \<noteq> 2000"
    "r_f (retr_q s) < int N_RETR \<longleftrightarrow> length (queue_of Retr s) \<noteq> 2000"
    "r_f (send_q s) < int N_SEND \<longleftrightarrow> length (queue_of Data s) \<noteq> 2000"
  using fill_class [OF assms] length_queue_le [OF assms, of Prio] length_queue_le [OF assms, of Retr]
    length_queue_le [OF assms, of Data]
  by (auto simp: queue_sizes)

lemma ring_ok_empty [simp]: "0 < n \<Longrightarrow> ring_ok n (empty_ring n)" "ring_contents (empty_ring n) = []"
  by (simp_all add: ring_ok_def empty_ring_def ring_contents_def)

lemma sender_ok_init: "sender_ok (init_sender static_sender)"
  by (simp add: sender_ok_def init_sender_def static_sender_def rings_ok_def queue_sizes view_ok_def
      tx_abs_def all_classes)

lemma send_data_by_class:
  "class_of d = Prio \<Longrightarrow> qEmpty s \<noteq> 0 \<Longrightarrow> send_data d s =
     (if r_f (prio_q s) < int N_PRIO
      then s\<lparr>prio_q := ring_put (prio_q s) d, sFull := sFull s + 1, qEmpty := qEmpty s - 1\<rparr> else s)"
  "class_of d = Retr \<Longrightarrow> qEmpty s \<noteq> 0 \<Longrightarrow> send_data d s =
     (if r_f (retr_q s) < int N_RETR
      then s\<lparr>retr_q := ring_put (retr_q s) d, sFull := sFull s + 1, qEmpty := qEmpty s - 1\<rparr> else s)"
  "class_of d = Data \<Longrightarrow> qEmpty s \<noteq> 0 \<Longrightarrow> send_data d s =
     (if r_f (send_q s) < int N_SEND
      then s\<lparr>send_q := ring_put (send_q s) d, sFull := sFull s + 1, qEmpty := qEmpty s - 1\<rparr> else s)"
  by (auto simp: send_data_def Let_def class_of_def split: if_splits)

lemma send_data_blocked: "qEmpty s = 0 \<Longrightarrow> send_data d s = s"
  by (simp add: send_data_def)

lemma send_data_refines:
  assumes "rings_ok s" shows "tx_abs (send_data d s) = spec_send d (tx_abs s)"
proof (cases "qEmpty s = 0 \<or> length (queue_of (class_of d) s) = 2000")
  case True
  then have "send_data d s = s"
    by (cases "qEmpty s = 0"; cases "class_of d")
      (simp_all add: send_data_blocked send_data_by_class queue_full_iff [OF assms])
  then show ?thesis using True by (auto simp: spec_send_def tx_abs_def)
next
  case False
  note room = False queue_full_iff [OF assms]
  have "ring_ok N_SEND (send_q s)" "ring_ok N_RETR (retr_q s)" "ring_ok N_PRIO (prio_q s)"
    using assms by (simp_all add: rings_ok_def)
  then show ?thesis using room
    by (cases "class_of d") (simp_all add: send_data_by_class spec_send_def tx_abs_def fun_eq_iff
        all_classes sendq.contents_put retrq.contents_put prioq.contents_put)
qed

lemma view_ok_spec_send: "view_ok v \<Longrightarrow> wf_sd d \<Longrightarrow> view_ok (spec_send d v)"
  by (cases "class_of d") (auto simp: view_ok_def spec_send_def tx_total_def)

lemma send_data_frame [simp]:
  "bandwidth (send_data d s) = bandwidth s" "sleeptime (send_data d s) = sleeptime s"
  "z (send_data d s) = z s" "lasthost (send_data d s) = lasthost s" "natPort (send_data d s) = natPort s"
  "idleTime (send_data d s) = idleTime s" "stats_s (send_data d s) = stats_s s"
  by (simp_all add: send_data_def Let_def)

lemma rings_ok_send_data: "rings_ok s \<Longrightarrow> rings_ok (send_data d s)"
  by (auto simp: send_data_def Let_def rings_ok_def sendq.invar_put retrq.invar_put prioq.invar_put)

lemma sender_ok_send_data: "sender_ok s \<Longrightarrow> wf_sd d \<Longrightarrow> sender_ok (send_data d s)"
  by (simp add: sender_ok_def send_data_refines rings_ok_send_data view_ok_spec_send)

text \<open>A run of packets of one class, when its queue has room for all of them.\<close>

lemma send_all:
  "sender_ok s \<Longrightarrow> list_all (\<lambda>d. wf_sd d \<and> class_of d = c) ds \<Longrightarrow>
     length (queue_of c s) + length ds \<le> 2000 \<Longrightarrow> length ds \<le> qEmpty s \<Longrightarrow>
     sender_ok (foldl (\<lambda>s d. send_data d s) s ds) \<and>
     queue_of c (foldl (\<lambda>s d. send_data d s) s ds) = queue_of c s @ ds \<and>
     (\<forall>c'. c' \<noteq> c \<longrightarrow> queue_of c' (foldl (\<lambda>s d. send_data d s) s ds) = queue_of c' s)"
proof (induction ds arbitrary: s)
  case (Cons d ds)
  have "tx_abs (send_data d s) = spec_send d (tx_abs s)"
    using Cons.prems(1) by (simp add: sender_ok_def send_data_refines)
  then have q: "queue_of c (send_data d s) = queue_of c s @ [d]" "qEmpty (send_data d s) = qEmpty s - 1"
    "c' \<noteq> c \<Longrightarrow> queue_of c' (send_data d s) = queue_of c' s" for c'
    using Cons.prems by (auto simp: tx_abs_def spec_send_def fun_eq_iff)
  have "sender_ok (send_data d s)" using Cons.prems by (simp add: sender_ok_send_data)
  from Cons.IH [OF this] show ?case using Cons.prems q by auto
qed simp

lemma send_all_tokens:
  "sender_ok s \<Longrightarrow> list_all (\<lambda>d. wf_sd d \<and> class_of d = c) ds \<Longrightarrow>
     length (queue_of c s) + length ds \<le> 2000 \<Longrightarrow> length ds \<le> qEmpty s \<Longrightarrow>
     sFull (foldl (\<lambda>s d. send_data d s) s ds) = sFull s + length ds"
proof (induction ds arbitrary: s)
  case (Cons d ds)
  have "tx_abs (send_data d s) = spec_send d (tx_abs s)"
    using Cons.prems(1) by (simp add: sender_ok_def send_data_refines)
  then have q: "length (queue_of c (send_data d s)) = length (queue_of c s) + 1" "qEmpty (send_data d s) = qEmpty s - 1"
    "sFull (send_data d s) = sFull s + 1"
    using Cons.prems by (auto simp: tx_abs_def spec_send_def fun_eq_iff)
  have "sender_ok (send_data d s)" using Cons.prems by (simp add: sender_ok_send_data)
  from Cons.IH [OF this] show ?case using Cons.prems q by simp
qed simp

lemma send_all_frame:
  "bandwidth (foldl (\<lambda>s d. send_data d s) s ds) = bandwidth s" "z (foldl (\<lambda>s d. send_data d s) s ds) = z s"
  "natPort (foldl (\<lambda>s d. send_data d s) s ds) = natPort s"
  by (induction ds arbitrary: s) simp_all

text \<open>
  C14: \<open>send_data\<close> implements the abstract queueing discipline. The packet is appended to the queue of
  its class (acknowledgements and bandwidth messages before retransmissions before data), in
  order, and takes one slot and adds one token; it is dropped, with no change at all, exactly when no
  slot is free or its queue holds 2000 packets. The sender's invariant is kept.
\<close>

theorem send_data_refinement:
  assumes "sender_ok s" and "wf_sd d"
  shows "tx_abs (send_data d s) = spec_send d (tx_abs s) \<and> sender_ok (send_data d s)"
  using assms sender_ok_send_data send_data_refines by (auto simp: sender_ok_def)

end
