(* ===== verification/Keyed_List.thy ===== *)
theory Keyed_List
  imports Bora_Prelude
begin

text \<open>
  The interface of the program's lookup lists. The block cache and the per-peer lists are
  singly linked lists walked until an element with the wanted key is met, extended only at
  the head and only when the walk found nothing, and updated in place. \<open>keyed_list\<close> states what
  such a walk promises; its lemmas say that a list kept this way is a finite map from keys
  to elements, which is how the components are specified.
\<close>

definition kmap :: "('a \<Rightarrow> 'k) \<Rightarrow> 'a list \<Rightarrow> 'k \<rightharpoonup> 'a" where
  "kmap key xs = map_of (map (\<lambda>x. (key x, x)) xs)"

lemma kmap_Nil [simp]: "kmap key [] = Map.empty"
  by (simp add: kmap_def)

lemma kmap_Cons: "kmap key (x # xs) = (kmap key xs)(key x \<mapsto> x)"
  by (simp add: kmap_def)

lemma kmap_eq_None_iff: "kmap key xs k = None \<longleftrightarrow> k \<notin> key ` set xs"
  by (simp add: kmap_def map_of_eq_None_iff image_image)

lemma kmap_nth: "distinct (map key xs) \<Longrightarrow> p < length xs \<Longrightarrow> kmap key xs (key (xs ! p)) = Some (xs ! p)"
  by (simp add: kmap_def o_def map_of_eq_Some_iff)

lemma kmap_SomeD: "kmap key xs k = Some x \<Longrightarrow> x \<in> set xs \<and> key x = k"
  by (auto simp: kmap_def dest!: map_of_SomeD)

lemma map_key_update: "key y = key (xs ! p) \<Longrightarrow> map key (xs[p := y]) = map key xs"
  by (metis list_update_id map_update)

lemma kmap_update:
  assumes "distinct (map key xs)" and "p < length xs" and "key y = key (xs ! p)"
  shows "kmap key (xs[p := y]) = (kmap key xs)(key y \<mapsto> y)"
proof
  fix k
  have d: "distinct (map key (xs[p := y]))" using assms by (simp add: map_key_update)
  show "kmap key (xs[p := y]) k = ((kmap key xs)(key y \<mapsto> y)) k"
  proof (cases "k \<in> key ` set xs")
    case True
    then obtain j where j: "j < length xs" "key (xs ! j) = k" by (auto simp: in_set_conv_nth)
    have "key (xs[p := y] ! j) = k" using j assms by (cases "j = p") auto
    then have "kmap key (xs[p := y]) k = Some (xs[p := y] ! j)"
      using kmap_nth [OF d, of j] j by simp
    moreover have "j = p \<longleftrightarrow> k = key y"
      using assms j by (metis distinct_conv_nth length_map nth_map)
    ultimately show ?thesis using kmap_nth [OF assms(1) j(1)] j(2) assms(2) by auto
  next
    case False
    have "k \<notin> set (map key (xs[p := y]))"
      using False unfolding map_key_update [OF assms(3)] by simp
    then have "k \<notin> key ` set (xs[p := y])" by simp
    moreover have "k \<noteq> key y" using False assms by auto
    ultimately show ?thesis using False by (metis fun_upd_other kmap_eq_None_iff)
  qed
qed

locale keyed_list =
  fixes key :: "'a \<Rightarrow> 'k" and find :: "'k \<Rightarrow> 'a list \<Rightarrow> nat option"
  assumes find_SomeD: "find k xs = Some p \<Longrightarrow> p < length xs \<and> key (xs ! p) = k"
    and find_None_iff: "find k xs = None \<longleftrightarrow> k \<notin> key ` set xs"
begin

lemma find_kmap:
  assumes "distinct (map key xs)"
  shows "kmap key xs k = map_option (nth xs) (find k xs)"
proof (cases "find k xs")
  case None
  then show ?thesis using find_None_iff [of k xs] kmap_eq_None_iff [of key xs k] by simp
next
  case (Some p)
  then show ?thesis using find_SomeD [OF Some] kmap_nth [OF assms, of p] by auto
qed

lemma find_nth:
  assumes "distinct (map key xs)" and "p < length xs"
  shows "find (key (xs ! p)) xs = Some p"
proof -
  have "find (key (xs ! p)) xs \<noteq> None" using assms by (auto simp: find_None_iff)
  then obtain q where q: "find (key (xs ! p)) xs = Some q" by auto
  then have "q = p" using assms find_SomeD [OF q] by (metis distinct_conv_nth length_map nth_map)
  then show ?thesis using q by simp
qed

lemma insert_distinct:
  "distinct (map key xs) \<Longrightarrow> find (key x) xs = None \<Longrightarrow> distinct (map key (x # xs))"
  by (simp add: find_None_iff)

lemma update_found:
  assumes "distinct (map key xs)" and "find k xs = Some p" and "key y = k"
  shows "distinct (map key (xs[p := y]))" and "kmap key (xs[p := y]) = (kmap key xs)(k \<mapsto> y)"
  using assms find_SomeD [OF assms(2)] kmap_update [of key xs p y] by (simp_all add: map_key_update)

end

section \<open>The walk\<close>

text \<open>\<open>MYSLIST_FOREACH\<close> with a \<open>break\<close>: the first position whose element satisfies a test.\<close>

primrec find_ix :: "('a \<Rightarrow> bool) \<Rightarrow> 'a list \<Rightarrow> nat option" where
  "find_ix P [] = None"
| "find_ix P (x # xs) = (if P x then Some 0 else map_option Suc (find_ix P xs))"

lemma find_ix_SomeD: "find_ix P xs = Some p \<Longrightarrow> p < length xs \<and> P (xs ! p) \<and> (\<forall>j < p. \<not> P (xs ! j))"
  by (induction xs arbitrary: p) (auto simp: less_Suc_eq_0_disj split: if_splits)

lemma find_ix_None_iff: "find_ix P xs = None \<longleftrightarrow> (\<forall>x \<in> set xs. \<not> P x)"
  by (induction xs) auto

lemma find_ix_cong: "(\<And>x. x \<in> set xs \<Longrightarrow> P x = Q x) \<Longrightarrow> find_ix P xs = find_ix Q xs"
  by (induction xs) auto

lemma find_ix_keyed: "(\<And>k x. P k x \<longleftrightarrow> key x = k) \<Longrightarrow> keyed_list key (\<lambda>k. find_ix (P k))"
  by unfold_locales (auto dest: find_ix_SomeD simp: find_ix_None_iff)

end
