(* ===== verification/Binary64.thy ===== *)
theory Binary64
  imports Complex_Main Bora_Prelude
begin

text \<open>
  The part of IEEE binary64 the code uses: conversion of integers, addition and division, each
  rounded to 53 significant bits, half to even. The numbers here are times in seconds and
  byte rates, far from the ends of the exponent range, so a finite \<open>double\<close> is a pair of a
  mantissa and an exponent, and only division by zero leaves the finite numbers.
\<close>

section \<open>Model\<close>

fun bit_count :: "nat \<Rightarrow> nat" where
  "bit_count n = (if n = 0 then 0 else Suc (bit_count (n div 2)))"

declare bit_count.simps [simp del]

definition round53 :: "nat \<Rightarrow> nat" where
  "round53 m =
     (let e = bit_count m - 53 in
      if e = 0 then m
      else let q = m div 2 ^ e; r = m mod 2 ^ e; h = 2 ^ (e - 1)
           in (if h < r \<or> (r = h \<and> odd q) then q + 1 else q) * 2 ^ e)"

definition quot_even :: "nat \<Rightarrow> nat \<Rightarrow> nat" where
  "quot_even n d =
     (let q = n div d; r = n mod d in if d < 2 * r \<or> (2 * r = d \<and> odd q) then q + 1 else q)"

text \<open>The quotient \<open>n / d\<close> as a 53-bit mantissa and an exponent.\<close>

definition round_quot :: "nat \<Rightarrow> nat \<Rightarrow> nat \<times> int" where
  "round_quot n d =
     (if n = 0 then (0, 0)
      else let k = int (bit_count n) - int (bit_count d) - 53;
               num = n * 2 ^ nat (- k); den = d * 2 ^ nat k
           in if num div den < 2 ^ 53 then (quot_even num den, k) else (quot_even num (2 * den), k + 1))"

datatype double = Fin int int | Inf bool | NaN

definition dbl_of_quot :: "int \<Rightarrow> nat \<Rightarrow> int \<Rightarrow> double" where
  "dbl_of_quot n d e = (case round_quot (nat \<bar>n\<bar>) d of (m, k) \<Rightarrow> Fin (sgn n * int m) (k + e))"

definition dbl_of_int :: "int \<Rightarrow> double" where
  "dbl_of_int n = dbl_of_quot n 1 0"

fun dbl_add :: "double \<Rightarrow> double \<Rightarrow> double" where
  "dbl_add (Fin m1 e1) (Fin m2 e2) =
     (let e = min e1 e2 in dbl_of_quot (m1 * 2 ^ nat (e1 - e) + m2 * 2 ^ nat (e2 - e)) 1 e)"
| "dbl_add (Fin m e) (Inf s) = Inf s"
| "dbl_add (Inf s) (Fin m e) = Inf s"
| "dbl_add (Inf s) (Inf t) = (if s = t then Inf s else NaN)"
| "dbl_add NaN y = NaN"
| "dbl_add x NaN = NaN"

fun dbl_div :: "double \<Rightarrow> double \<Rightarrow> double" where
  "dbl_div (Fin m1 e1) (Fin m2 e2) =
     (if m2 = 0 then (if m1 = 0 then NaN else Inf (m1 < 0))
      else dbl_of_quot (sgn m2 * m1) (nat \<bar>m2\<bar>) (e1 - e2))"
| "dbl_div (Fin m e) (Inf s) = Fin 0 0"
| "dbl_div (Inf s) (Fin m e) = Inf (s \<noteq> (m < 0))"
| "dbl_div (Inf s) (Inf t) = NaN"
| "dbl_div NaN y = NaN"
| "dbl_div x NaN = NaN"

section \<open>Rounding\<close>

lemma bit_count_bounds: "0 < n \<Longrightarrow> 2 ^ (bit_count n - 1) \<le> n \<and> n < 2 ^ bit_count n \<and> 0 < bit_count n"
proof (induction n rule: bit_count.induct)
  case (1 n)
  show ?case
  proof (cases "n div 2 = 0")
    case True
    then have "n = 1" using "1.prems" by simp
    then show ?thesis by (simp add: bit_count.simps)
  next
    case False
    then have ih: "2 ^ (bit_count (n div 2) - 1) \<le> n div 2" "n div 2 < 2 ^ bit_count (n div 2)" "0 < bit_count (n div 2)"
      using "1.IH" "1.prems" by auto
    have b: "bit_count n = Suc (bit_count (n div 2))" using "1.prems" bit_count.simps [of n] by simp
    have "(2 :: nat) ^ bit_count (n div 2) = 2 * 2 ^ (bit_count (n div 2) - 1)"
      using ih(3) by (metis Suc_diff_1 power_Suc)
    moreover have "2 * (n div 2) \<le> n" "n < 2 * (n div 2) + 2" by linarith+
    ultimately show ?thesis using ih b by simp linarith
  qed
qed

lemma bit_count_le: "n < 2 ^ k \<Longrightarrow> bit_count n \<le> k"
proof (cases "n = 0")
  case False
  assume "n < 2 ^ k"
  moreover have "2 ^ (bit_count n - 1) \<le> n" using bit_count_bounds [of n] False by simp
  ultimately have "(2 :: nat) ^ (bit_count n - 1) < 2 ^ k" by linarith
  then have "bit_count n - 1 < k" by (rule power_less_imp_less_exp [rotated]) simp
  then show ?thesis by simp
qed (simp add: bit_count.simps)

lemma round53_small: "n < 2 ^ 53 \<Longrightarrow> round53 n = n"
  using bit_count_le [of n 53] by (simp add: round53_def)

text \<open>Rounding moves a number by at most half of its last place.\<close>

lemma round53_error:
  assumes "n < 2 ^ (54 + k)"
  shows "round53 n \<le> n + 2 ^ k" and "n \<le> round53 n + 2 ^ k"
proof -
  define e where "e = bit_count n - 53"
  have e: "e \<le> Suc k" using bit_count_le [OF assms] by (simp add: e_def)
  have "round53 n \<le> n + 2 ^ k \<and> n \<le> round53 n + 2 ^ k"
  proof (cases "e = 0")
    case True
    then show ?thesis by (simp add: round53_def e_def Let_def)
  next
    case False
    let ?q = "n div 2 ^ e" and ?r = "n mod 2 ^ e" and ?h = "2 ^ (e - 1) :: nat"
    have h: "2 ^ e = 2 * ?h" using False by (metis Suc_diff_1 neq0_conv power_Suc)
    have hk: "?h \<le> 2 ^ k" using e by (intro power_increasing) auto
    have n: "n = ?q * 2 ^ e + ?r" by (simp only: div_mult_mod_eq)
    have r: "?r < 2 ^ e" by simp
    have "round53 n = (if ?h < ?r \<or> (?r = ?h \<and> odd ?q) then ?q + 1 else ?q) * 2 ^ e"
      using False by (simp add: round53_def e_def Let_def)
    then show ?thesis
    proof (cases "?h < ?r \<or> (?r = ?h \<and> odd ?q)")
      case True
      then have "round53 n = ?q * 2 ^ e + 2 ^ e" "?h \<le> ?r" using \<open>round53 n = _\<close> by auto
      then show ?thesis using n r h hk by linarith
    next
      case F: False
      then have "round53 n = ?q * 2 ^ e" "?r \<le> ?h" using \<open>round53 n = _\<close> by auto
      then show ?thesis using n r h hk by linarith
    qed
  qed
  then show "round53 n \<le> n + 2 ^ k" "n \<le> round53 n + 2 ^ k" by simp_all
qed

lemma quot_even_error: "0 < d \<Longrightarrow> 2 * (quot_even n d * d) \<le> 2 * n + d \<and> 2 * n \<le> 2 * (quot_even n d * d) + d"
proof -
  assume d: "0 < d"
  let ?q = "n div d" and ?r = "n mod d"
  have n: "n = ?q * d + ?r" by (simp only: div_mult_mod_eq)
  have r: "?r < d" using d by simp
  show ?thesis
  proof (cases "d < 2 * ?r \<or> (2 * ?r = d \<and> odd ?q)")
    case True
    then have "quot_even n d * d = ?q * d + d" "d \<le> 2 * ?r" by (auto simp: quot_even_def Let_def)
    then show ?thesis using n r by linarith
  next
    case False
    then have "quot_even n d * d = ?q * d" "2 * ?r \<le> d" by (auto simp: quot_even_def Let_def)
    then show ?thesis using n r by linarith
  qed
qed

lemma quot_even_bounds: "a \<le> n div d \<Longrightarrow> n div d < b \<Longrightarrow> a \<le> quot_even n d \<and> quot_even n d \<le> b"
  by (auto simp: quot_even_def Let_def)

text \<open>
  A rounded quotient has exactly 53 significant bits (or is the next power of two), and differs
  from the exact one by at most half a unit of its last place: \<open>m * 2 ^ k\<close> against \<open>n / d\<close>,
  written without fractions.
\<close>

definition nearest53 :: "nat \<Rightarrow> nat \<Rightarrow> nat \<Rightarrow> int \<Rightarrow> bool" where
  "nearest53 n d m k \<longleftrightarrow> 2 ^ 52 \<le> m \<and> m \<le> 2 ^ 53 \<and>
     2 * (m * (d * 2 ^ nat k)) \<le> 2 * (n * 2 ^ nat (- k)) + d * 2 ^ nat k \<and>
     2 * (n * 2 ^ nat (- k)) \<le> 2 * (m * (d * 2 ^ nat k)) + d * 2 ^ nat k"

lemma scaled_quotient_bounds:
  assumes "0 < n" and "0 < d"
  defines "k \<equiv> int (bit_count n) - int (bit_count d) - 53"
  defines "num \<equiv> n * 2 ^ nat (- k)" and "den \<equiv> d * 2 ^ nat k"
  shows "0 < den" and "2 ^ 52 \<le> num div den" and "num div den < 2 ^ 54"
proof -
  let ?a = "bit_count n" and ?b = "bit_count d"
  note n = bit_count_bounds [OF assms(1)] and d = bit_count_bounds [OF assms(2)]
  show den: "0 < den" using assms(2) by (simp add: den_def)
  have "den \<le> 2 ^ ?b * 2 ^ nat k" using d by (simp add: den_def)
  then have "2 ^ 52 * den \<le> 2 ^ 52 * (2 ^ ?b * 2 ^ nat k)" by (rule mult_le_mono2)
  also have "\<dots> = 2 ^ (52 + ?b + nat k)" by (simp only: power_add mult.assoc)
  also have "52 + ?b + nat k = (?a - 1) + nat (- k)" using n by (simp add: k_def)
  also have "(2 :: nat) ^ ((?a - 1) + nat (- k)) = 2 ^ (?a - 1) * 2 ^ nat (- k)" by (rule power_add)
  also have "\<dots> \<le> num" using n by (simp add: num_def)
  finally show "2 ^ 52 \<le> num div den" using den by (simp add: less_eq_div_iff_mult_less_eq)
  have "num < 2 ^ ?a * 2 ^ nat (- k)" using n by (simp add: num_def)
  also have "\<dots> = 2 ^ (?a + nat (- k))" by (simp only: power_add)
  also have "?a + nat (- k) = 54 + (?b - 1) + nat k" using d by (simp add: k_def)
  also have "(2 :: nat) ^ (54 + (?b - 1) + nat k) = 2 ^ 54 * (2 ^ (?b - 1) * 2 ^ nat k)"
    by (simp only: power_add mult.assoc)
  also have "\<dots> \<le> 2 ^ 54 * den" using d by (intro mult_le_mono2) (simp add: den_def)
  finally show "num div den < 2 ^ 54" by (simp add: less_mult_imp_div_less)
qed

lemma round_quot_nearest:
  assumes "0 < n" and "0 < d" and "round_quot n d = (m, k)"
  shows "nearest53 n d m k"
proof -
  define j where "j = int (bit_count n) - int (bit_count d) - 53"
  let ?num = "n * 2 ^ nat (- j)" and ?den = "d * 2 ^ nat j"
  note b = scaled_quotient_bounds [OF assms(1,2), folded j_def]
  show ?thesis
  proof (cases "?num div ?den < 2 ^ 53")
    case True
    then have "m = quot_even ?num ?den" "k = j"
      using assms by (auto simp: round_quot_def Let_def j_def)
    then show ?thesis using quot_even_bounds [OF b(2) True] quot_even_error [OF b(1), of ?num]
      by (simp add: nearest53_def)
  next
    case False
    then have mk: "m = quot_even ?num (2 * ?den)" "k = j + 1"
      using assms by (auto simp: round_quot_def Let_def j_def)
    have "2 ^ 52 \<le> ?num div (2 * ?den)" "?num div (2 * ?den) < 2 ^ 53"
      using False b(3) by (simp_all add: div_mult2_eq [of _ _ 2, simplified mult.commute [of _ 2]])
    then have r: "2 ^ 52 \<le> m" "m \<le> 2 ^ 53" using quot_even_bounds mk(1) by blast+
    have e: "2 * (m * (2 * ?den)) \<le> 2 * ?num + 2 * ?den \<and> 2 * ?num \<le> 2 * (m * (2 * ?den)) + 2 * ?den"
      using quot_even_error [of "2 * ?den" ?num] b(1) mk(1) by simp
    show ?thesis
    proof (cases "0 \<le> j")
      case True
      then have "nat k = Suc (nat j)" "nat (- k) = 0" "nat (- j) = 0" using mk(2) by auto
      then show ?thesis using e r by (simp add: nearest53_def algebra_simps)
    next
      case False
      then have "nat k = 0" "nat j = 0" "nat (- j) = Suc (nat (- k))" using mk(2) by auto
      then show ?thesis using e r by (simp add: nearest53_def algebra_simps)
    qed
  qed
qed

section \<open>Values\<close>

text \<open>The number a finite \<open>double\<close> stands for, and how far each operation is from the exact result.\<close>

definition dbl_val :: "double \<Rightarrow> real" where
  "dbl_val x = (case x of Fin m e \<Rightarrow> of_int m * 2 powi e | Inf s \<Rightarrow> 0 | NaN \<Rightarrow> 0)"

definition near :: "real \<Rightarrow> real \<Rightarrow> real \<Rightarrow> bool" where
  "near c x y \<longleftrightarrow> 0 \<le> y \<and> \<bar>x - y\<bar> \<le> y * c"

lemma nearest53_val:
  assumes "nearest53 n d m k" and "0 < d"
  shows "\<bar>real m * 2 powi k - real n / real d\<bar> \<le> 2 powi k / 2"
proof -
  let ?A = "2 ^ nat k :: real" and ?B = "2 ^ nat (- k) :: real"
  have p: "(2 :: real) powi k = ?A / ?B" by (cases "0 \<le> k") (simp_all add: power_int_def field_simps)
  have "2 * (m * (d * 2 ^ nat k)) \<le> 2 * (n * 2 ^ nat (- k)) + d * 2 ^ nat k"
    "2 * (n * 2 ^ nat (- k)) \<le> 2 * (m * (d * 2 ^ nat k)) + d * 2 ^ nat k" using assms(1) by (simp_all add: nearest53_def)
  then have "real (2 * (m * (d * 2 ^ nat k))) \<le> real (2 * (n * 2 ^ nat (- k)) + d * 2 ^ nat k)"
    "real (2 * (n * 2 ^ nat (- k))) \<le> real (2 * (m * (d * 2 ^ nat k)) + d * 2 ^ nat k)" by (simp_all only: of_nat_le_iff)
  then have e: "2 * (m * (d * ?A)) \<le> 2 * (n * ?B) + d * ?A" "2 * (n * ?B) \<le> 2 * (m * (d * ?A)) + d * ?A" by simp_all
  have d: "0 < real d * ?B" using assms(2) by simp
  have "real m * (?A / ?B) - n / d = (real m * (d * ?A) - n * ?B) / (d * ?B)" using assms(2) by (simp add: field_simps)
  then have "\<bar>real m * (?A / ?B) - n / d\<bar> = \<bar>real m * (d * ?A) - n * ?B\<bar> / (d * ?B)" using d by (simp add: abs_divide)
  also have "\<dots> \<le> (d * ?A / 2) / (d * ?B)"
  proof (rule divide_right_mono)
    show "\<bar>real m * (d * ?A) - n * ?B\<bar> \<le> d * ?A / 2" using e by linarith
  qed (use d in simp)
  also have "\<dots> = ?A / ?B / 2" using assms(2) by simp
  finally show ?thesis unfolding p by simp
qed

lemma round_quot_val:
  assumes "0 < d" and "round_quot n d = (m, k)"
  shows "near (1 / 2 ^ 52) (real m * 2 powi k) (real n / real d)"
proof (cases "n = 0")
  case True
  then show ?thesis using assms(2) by (simp add: near_def round_quot_def)
next
  case False
  then have n: "nearest53 n d m k" using round_quot_nearest assms by simp
  let ?v = "real m * 2 powi k" and ?x = "real n / real d"
  have "real (2 ^ 52) \<le> real m" using n unfolding nearest53_def by (simp only: of_nat_le_iff)
  then have "4503599627370496 * (2 :: real) powi k \<le> ?v" by (intro mult_right_mono) simp_all
  moreover have "\<bar>?v - ?x\<bar> \<le> 2 powi k / 2" by (rule nearest53_val [OF n assms(1)])
  ultimately have "\<bar>?v - ?x\<bar> \<le> ?v / 9007199254740992" by linarith
  moreover have "0 \<le> ?x" by simp
  moreover have "\<bar>v - x\<bar> \<le> v / 9007199254740992 \<Longrightarrow> 0 \<le> x \<Longrightarrow> \<bar>v - x\<bar> \<le> x * (1 / 4503599627370496)" for v x :: real
    by linarith
  ultimately have "\<bar>?v - ?x\<bar> \<le> ?x * (1 / 4503599627370496)" by blast
  then show ?thesis by (simp add: near_def)
qed

lemma dbl_of_quot_val:
  assumes "0 < d" and "0 \<le> n"
  shows "near (1 / 2 ^ 52) (dbl_val (dbl_of_quot n d e)) (real_of_int n / real d * 2 powi e)"
proof -
  obtain m k where r: "round_quot (nat n) d = (m, k)" by (rule prod.exhaust)
  have v: "dbl_val (dbl_of_quot n d e) = real m * 2 powi k * 2 powi e"
  proof (cases "n = 0")
    case True
    then show ?thesis using r by (auto simp: dbl_of_quot_def dbl_val_def round_quot_def)
  next
    case False
    then show ?thesis using r assms(2) by (simp add: dbl_of_quot_def dbl_val_def power_int_add)
  qed
  have c: "near (1 / 2 ^ 52) (real m * 2 powi k) (real_of_int n / real d)"
    using round_quot_val [OF assms(1) r] assms(2) by simp
  have p: "0 < (2 :: real) powi e" by simp
  have "\<bar>real m * 2 powi k * 2 powi e - real_of_int n / real d * 2 powi e\<bar> = \<bar>real m * 2 powi k - real_of_int n / real d\<bar> * 2 powi e"
    using p by (simp only: abs_mult abs_of_pos flip: left_diff_distrib)
  also have "\<dots> \<le> (real_of_int n / real d * (1 / 2 ^ 52)) * 2 powi e" using c p by (intro mult_right_mono) (simp_all add: near_def)
  finally have "\<bar>real m * 2 powi k * 2 powi e - real_of_int n / real d * 2 powi e\<bar> \<le> real_of_int n / real d * 2 powi e * (1 / 2 ^ 52)"
    by (simp only: mult_ac)
  moreover have "0 \<le> real_of_int n / real d * 2 powi e" using assms(2) p by simp
  ultimately show ?thesis unfolding v near_def by blast
qed

lemma dbl_of_int_val: "0 \<le> n \<Longrightarrow> near (1 / 2 ^ 52) (dbl_val (dbl_of_int n)) (of_int n)"
  using dbl_of_quot_val [of 1 n 0] by (simp add: dbl_of_int_def)

lemma dbl_of_quot_Fin: "\<exists>m k. dbl_of_quot n d e = Fin m k"
  by (simp add: dbl_of_quot_def split: prod.split)

lemma dbl_val_sign: "0 \<le> dbl_val (Fin m e) \<longleftrightarrow> 0 \<le> m" "0 < dbl_val (Fin m e) \<longleftrightarrow> 0 < m"
proof -
  have p: "0 < (2 :: real) powi e" by simp
  show "0 \<le> dbl_val (Fin m e) \<longleftrightarrow> 0 \<le> m" "0 < dbl_val (Fin m e) \<longleftrightarrow> 0 < m"
    using mult_le_cancel_right_pos [OF p, of 0 "real_of_int m"] mult_less_cancel_right_pos [OF p, of 0 "real_of_int m"]
    by (simp_all add: dbl_val_def)
qed

lemma dbl_add_val:
  assumes "x = Fin m1 e1" and "y = Fin m2 e2" and "0 \<le> dbl_val x" and "0 \<le> dbl_val y"
  shows "near (1 / 2 ^ 52) (dbl_val (dbl_add x y)) (dbl_val x + dbl_val y)"
proof -
  let ?e = "min e1 e2"
  let ?n = "m1 * 2 ^ nat (e1 - ?e) + m2 * 2 ^ nat (e2 - ?e)"
  have "(2 :: real) ^ nat (e1 - ?e) * 2 powi ?e = 2 powi e1" "(2 :: real) ^ nat (e2 - ?e) * 2 powi ?e = 2 powi e2"
    using power_int_add [of "2 :: real" "e1 - ?e" ?e] power_int_add [of "2 :: real" "e2 - ?e" ?e] by (simp_all add: power_int_def)
  then have v: "real_of_int ?n * 2 powi ?e = dbl_val x + dbl_val y" using assms(1,2) by (simp add: dbl_val_def distrib_right mult.assoc)
  have "0 \<le> m1" "0 \<le> m2" using assms by (simp_all add: dbl_val_sign)
  then have "0 \<le> ?n" by simp
  from dbl_of_quot_val [OF _ this, of 1 ?e] show ?thesis using assms(1,2) v by (simp add: Let_def)
qed

lemma dbl_div_val:
  assumes "x = Fin m1 e1" and "y = Fin m2 e2" and "0 \<le> dbl_val x" and "0 < dbl_val y"
  shows "near (1 / 2 ^ 52) (dbl_val (dbl_div x y)) (dbl_val x / dbl_val y)" and "\<exists>m e. dbl_div x y = Fin m e"
proof -
  have m: "0 \<le> m1" "0 < m2" using assms by (simp_all add: dbl_val_sign)
  have "real_of_int m1 / real (nat m2) * 2 powi (e1 - e2) = dbl_val x / dbl_val y"
    using assms(1,2) m by (simp add: dbl_val_def power_int_diff)
  then show "near (1 / 2 ^ 52) (dbl_val (dbl_div x y)) (dbl_val x / dbl_val y)"
    using dbl_of_quot_val [of "nat m2" m1 "e1 - e2"] assms(1,2) m by simp
  show "\<exists>m e. dbl_div x y = Fin m e" using assms(1,2) m dbl_of_quot_Fin by simp
qed

lemma near_weaken: "near a x y \<Longrightarrow> a \<le> b \<Longrightarrow> near b x y"
  using mult_left_mono [of a b y] by (auto simp: near_def)

lemma near_pos: "near a x y \<Longrightarrow> a < 1 \<Longrightarrow> 0 < y \<Longrightarrow> 0 < x"
proof -
  assume "near a x y" "a < 1" "0 < y"
  moreover have "y * a < y * 1" using \<open>a < 1\<close> \<open>0 < y\<close> by (rule mult_strict_left_mono)
  ultimately show "0 < x" by (auto simp: near_def abs_le_iff)
qed

lemma near_nonneg: "near a x y \<Longrightarrow> a \<le> 1 \<Longrightarrow> 0 \<le> x"
proof -
  assume "near a x y" "a \<le> 1"
  moreover have "y * a \<le> y * 1" using calculation by (intro mult_left_mono) (simp_all add: near_def)
  ultimately show "0 \<le> x" by (auto simp: near_def abs_le_iff)
qed

lemma near_add: "near a x y \<Longrightarrow> near a u v \<Longrightarrow> near a (x + u) (y + v)"
  by (auto simp: near_def distrib_right)

lemma near_trans:
  assumes "near a z x" and "near b x y" and "0 \<le> a" and "0 \<le> b"
  shows "near (a + b + a * b) z y"
proof -
  have h: "0 \<le> y" "\<bar>z - x\<bar> \<le> x * a" "\<bar>x - y\<bar> \<le> y * b" using assms(1,2) by (simp_all add: near_def)
  then have "x \<le> y + y * b" by linarith
  then have "x * a \<le> (y + y * b) * a" using assms(3) by (rule mult_right_mono)
  then have "\<bar>z - y\<bar> \<le> (y + y * b) * a + y * b" using h by linarith
  then show ?thesis using h(1) by (simp add: near_def algebra_simps)
qed

lemma near_divide:
  assumes "near a x u" and "near b y v" and "0 < v" and "0 \<le> a" and "0 \<le> b" and "b \<le> 1 / 2"
  shows "near (2 * (a + b)) (x / y) (u / v)"
proof -
  have h: "0 \<le> u" "\<bar>x - u\<bar> \<le> u * a" "\<bar>y - v\<bar> \<le> v * b" using assms(1,2) by (simp_all add: near_def)
  have "v * b \<le> v * (1 / 2)" using assms(3,6) by (intro mult_left_mono) simp_all
  then have y: "v / 2 \<le> y" "0 < y" using h(3) assms(3) by linarith+
  have "\<bar>x * v - u * y\<bar> = \<bar>(x - u) * v - u * (y - v)\<bar>" by (simp add: algebra_simps)
  also have "\<dots> \<le> \<bar>x - u\<bar> * v + u * \<bar>y - v\<bar>"
    using abs_triangle_ineq4 [of "(x - u) * v" "u * (y - v)"] assms(3) h(1) by (simp add: abs_mult)
  also have "\<dots> \<le> u * a * v + u * (v * b)" using h assms(3) by (intro add_mono mult_right_mono mult_left_mono) simp_all
  finally have e: "\<bar>x * v - u * y\<bar> \<le> u * v * (a + b)" by (simp add: algebra_simps)
  have "x / y - u / v = (x * v - u * y) / (y * v)" using y assms(3) by (simp add: field_simps)
  then have "\<bar>x / y - u / v\<bar> = \<bar>x * v - u * y\<bar> / (y * v)" using y assms(3) by (simp add: abs_mult)
  also have "\<dots> \<le> u * v * (a + b) / (y * v)" using e y assms(3) by (intro divide_right_mono) simp_all
  also have "\<dots> = u * (a + b) / y" using assms(3) by simp
  also have "\<dots> \<le> u * (a + b) / (v / 2)" using y assms(3-5) h(1) by (intro divide_left_mono) simp_all
  finally show ?thesis using h(1) assms(3) by (simp add: near_def field_simps)
qed

end
