(* ===== verification/Peer_Stats.thy ===== *)
theory Peer_Stats
  imports Bora_Util Keyed_List Binary64
begin

text \<open>
  The statistics store of \<open>ack_received.c\<close>: per peer the round-trip and send-trip times of its
  acknowledged packets, and what is computed from them. \<open>ack_received\<close> itself, which also
  touches the unacknowledged packets, the queues and the cookies, is in \<open>Ack_Received\<close>. The
  factor 1.2 is the \<open>double\<close> nearest to it, and the product is rounded as binary64 does.
\<close>

section \<open>Model\<close>

record AckStore =
  as_addr :: sockaddr_in
  as_sent :: timeval
  as_RTT :: timeval
  as_STT :: timeval
  as_seq :: u16
  as_sleeptime :: u32

record PeerAckStore =
  ps_addr :: sockaddr_in
  ps_minSTT :: timeval
  ps_minRTT :: timeval
  ps_avgRTT :: timeval
  ps_avgSTT :: timeval
  ps_errRTT :: timeval
  ps_errSTT :: timeval
  ps_lastRTT :: u64
  ps_ack_store :: "AckStore list"
  ps_cur :: int
  ps_total_acked :: u64
  ps_total_errors :: u64
  ps_last_acked :: int
  ps_last_error :: int

text \<open>\<open>ack_list_held\<close> is the mutex \<open>ack_list\<close>: the interpreter holds it between reading and releasing.\<close>

record peer_stats =
  peeracklist :: "PeerAckStore list"
  highest_seq :: "AckStore option"
  ack_list_held :: bool

definition static_peer_stats :: peer_stats where
  "static_peer_stats = \<lparr>peeracklist = [], highest_seq = None, ack_list_held = False\<rparr>"

definition find_peer_by_host :: "sockaddr_in \<Rightarrow> PeerAckStore list \<Rightarrow> nat option" where
  "find_peer_by_host from ps = find_ix (\<lambda>p. ps_addr p = from) ps"

text \<open>C division of a signed sum by a positive count truncates towards zero.\<close>

definition cdiv :: "int \<Rightarrow> int \<Rightarrow> int" where
  "cdiv a b = (if 0 \<le> a then a div b else - ((- a) div b))"

primrec sum_trips :: "int \<Rightarrow> AckStore list \<Rightarrow> int \<times> int \<times> int \<Rightarrow> int \<times> int \<times> int" where
  "sum_trips trip [] acc = acc"
| "sum_trips trip (cur # rest) acc =
     (case acc of (i, sec, usec) \<Rightarrow>
        sum_trips trip rest
          (if trip = 1 then (i + 1, sec + tv_sec (as_STT cur), usec + tv_usec (as_STT cur))
           else if trip = 2 then (i + 1, sec + tv_sec (as_RTT cur), usec + tv_usec (as_RTT cur))
           else (i + 1, sec, usec)))"

definition compute_average :: "AckStore list \<Rightarrow> int \<Rightarrow> timeval" where
  "compute_average ack_store trip =
     (case sum_trips trip ack_store (0, 0, 0) of (i, sec, usec) \<Rightarrow>
        if i < 1 then zero_time else Timeval (cdiv sec i) (cdiv usec i))"

text \<open>\<open>peer->lastRTT * 1.2\<close> in units of \<open>2^-52\<close>.\<close>

definition times_1_2 :: "u64 \<Rightarrow> nat" where
  "times_1_2 rtt = round53 (round53 (unat rtt) * 5404319552844595)"

definition get_timeout_value :: "sockaddr_in \<Rightarrow> PeerAckStore list \<Rightarrow> u64 res" where
  "get_timeout_value peer_address ps =
     (case find_peer_by_host peer_address ps of
        None \<Rightarrow> Ok 0
      | Some p \<Rightarrow>
          let v = times_1_2 (ps_lastRTT (ps ! p)) in
          if v > 10000 * 2 ^ 52
          then (if v div 2 ^ 52 < 2 ^ 64 then Ok (of_nat (v div 2 ^ 52)) else Err BadConversion)
          else Ok 10000)"

definition get_ack_store :: "peer_stats \<Rightarrow> ((PeerAckStore list \<times> AckStore option) \<times> peer_stats) res" where
  "get_ack_store st =
     (if ack_list_held st then Err Blocked
      else Ok ((peeracklist st, highest_seq st), st\<lparr>ack_list_held := True\<rparr>))"

definition release_ack_store :: "peer_stats \<Rightarrow> peer_stats" where
  "release_ack_store st =
     \<lparr>peeracklist = map (\<lambda>p. p\<lparr>ps_last_acked := 0, ps_last_error := 0\<rparr>) (peeracklist st),
      highest_seq = None, ack_list_held = False\<rparr>"

section \<open>Lookup\<close>

interpretation peers: keyed_list ps_addr find_peer_by_host
proof -
  have "keyed_list ps_addr (\<lambda>k. find_ix (\<lambda>p. ps_addr p = k))" by (rule find_ix_keyed) simp
  then show "keyed_list ps_addr find_peer_by_host" by (simp add: find_peer_by_host_def [abs_def])
qed

section \<open>The timeout\<close>

lemma times_1_2_bounds:
  assumes "unat rtt < 2 ^ 50"
  shows "5 * (times_1_2 rtt div 2 ^ 52) \<le> 6 * unat rtt" and "6 * unat rtt < 5 * (times_1_2 rtt div 2 ^ 52) + 10"
    and "times_1_2 rtt div 2 ^ 52 < 2 ^ 51"
proof -
  let ?x = "unat rtt" and ?v = "times_1_2 rtt"
  have "round53 ?x = ?x" using assms by (intro round53_small) simp
  then have v: "?v = round53 (?x * 5404319552844595)" by (simp add: times_1_2_def)
  have "?x * 5404319552844595 < 2 ^ 50 * 2 ^ 53" using assms by (intro mult_strict_mono) simp_all
  then have lt: "?x * 5404319552844595 < 2 ^ (54 + 49)" by simp
  have "?v \<le> ?x * 5404319552844595 + 2 ^ 49" "?x * 5404319552844595 \<le> ?v + 2 ^ 49"
    using round53_error [OF lt] v by simp_all
  moreover have "?v = 2 ^ 52 * (?v div 2 ^ 52) + ?v mod 2 ^ 52" "?v mod 2 ^ 52 < 2 ^ 52" by simp_all
  ultimately show a: "5 * (?v div 2 ^ 52) \<le> 6 * ?x" and b: "6 * ?x < 5 * (?v div 2 ^ 52) + 10"
    using assms by simp_all
  show "?v div 2 ^ 52 < 2 ^ 51" using a assms by simp
qed

lemma times_1_2_negative:
  assumes "2 ^ 64 - 2 ^ 60 \<le> unat rtt"
  shows "2 ^ 64 \<le> times_1_2 rtt div 2 ^ 52"
proof -
  let ?r = "round53 (unat rtt)" and ?c = "5404319552844595 :: nat"
  have lt: "unat rtt < 2 ^ (54 + 10)" using unsigned_less [of rtt, where 'a = nat] by simp
  note r = round53_error [OF lt]
  then have up: "?r \<le> 2 ^ 64 + 2 ^ 10" and low: "2 ^ 64 - 2 ^ 60 - 2 ^ 10 \<le> ?r" using assms lt by simp_all
  have "?r * ?c \<le> (2 ^ 64 + 2 ^ 10) * ?c" using up by (rule mult_le_mono1)
  then have "?r * ?c < 2 ^ (54 + 64)" by simp
  from round53_error(2) [OF this] have "?r * ?c \<le> times_1_2 rtt + 2 ^ 64" by (simp only: times_1_2_def)
  moreover have "(2 ^ 64 - 2 ^ 60 - 2 ^ 10) * ?c \<le> ?r * ?c" using low by (rule mult_le_mono1)
  ultimately have "2 ^ 64 * 2 ^ 52 \<le> times_1_2 rtt" by simp
  then show ?thesis by (simp add: less_eq_div_iff_mult_less_eq)
qed

text \<open>
  C29: for an unknown peer the retransmission timeout is 0. For a peer whose last round trip took
  less than \<open>2 ^ 50\<close> microseconds it is 1.2 times that round trip, computed in binary64 and cut to
  whole microseconds, with a floor of 10 milliseconds: never above the exact value, and less
  than two microseconds below it. A last round trip that was negative, because the clock was set
  back between the packet and its acknowledgement, is kept as a number of nearly \<open>2 ^ 64\<close>
  microseconds; the product then does not fit the unsigned type it is converted to, and the
  conversion is undefined.
\<close>

theorem timeout_value:
  "(find_peer_by_host a ps = None \<longrightarrow> get_timeout_value a ps = Ok 0) \<and>
    (\<forall>p. find_peer_by_host a ps = Some p \<longrightarrow>
      (unat (ps_lastRTT (ps ! p)) < 2 ^ 50 \<longrightarrow>
        (\<exists>t. get_timeout_value a ps = Ok t \<and> 10000 \<le> unat t \<and>
          (unat t = 10000 \<or> 5 * unat t \<le> 6 * unat (ps_lastRTT (ps ! p))) \<and>
          6 * unat (ps_lastRTT (ps ! p)) < 5 * unat t + 10)) \<and>
      (\<forall>d. ps_lastRTT (ps ! p) = word_of_int (- d) \<and> 0 < d \<and> d \<le> 2 ^ 60 \<longrightarrow>
        get_timeout_value a ps = Err BadConversion))"
proof -
  have known: "\<exists>t. get_timeout_value a ps = Ok t \<and> 10000 \<le> unat t \<and>
      (unat t = 10000 \<or> 5 * unat t \<le> 6 * unat (ps_lastRTT (ps ! p))) \<and>
      6 * unat (ps_lastRTT (ps ! p)) < 5 * unat t + 10"
    if p: "find_peer_by_host a ps = Some p" and b: "unat (ps_lastRTT (ps ! p)) < 2 ^ 50" for p
  proof -
    let ?x = "ps_lastRTT (ps ! p)"
    note b = times_1_2_bounds [OF b]
    show ?thesis
    proof (cases "times_1_2 ?x > 10000 * 2 ^ 52")
      case True
      have "unat (of_nat (times_1_2 ?x div 2 ^ 52) :: u64) = times_1_2 ?x div 2 ^ 52"
        using b(3) by (simp only: unat_of_nat) simp
      moreover have "10000 \<le> times_1_2 ?x div 2 ^ 52" using True by (simp add: less_eq_div_iff_mult_less_eq)
      moreover have "get_timeout_value a ps = Ok (of_nat (times_1_2 ?x div 2 ^ 52))"
        using True b(3) by (simp add: get_timeout_value_def p Let_def)
      ultimately show ?thesis using b by auto
    next
      case False
      then have "times_1_2 ?x div 2 ^ 52 \<le> 10000" by (simp add: div_le_mono [of _ "10000 * 2 ^ 52", simplified])
      then show ?thesis using False b by (simp add: get_timeout_value_def p Let_def)
    qed
  qed
  moreover have "get_timeout_value a ps = Err BadConversion"
    if p: "find_peer_by_host a ps = Some p" and d: "ps_lastRTT (ps ! p) = word_of_int (- d)" "0 < d" "d \<le> 2 ^ 60" for p d
  proof -
    have "uint (ps_lastRTT (ps ! p)) = - d mod 2 ^ 64" unfolding d(1) by (simp only: uint_word_of_int) simp
    also have "\<dots> = 2 ^ 64 - d" using d(2,3) by (simp add: zmod_zminus1_eq_if)
    finally have "2 ^ 64 - 2 ^ 60 \<le> unat (ps_lastRTT (ps ! p))" using d(3) by (simp add: uint_nat del: of_nat_unat)
    from times_1_2_negative [OF this] have v: "2 ^ 64 \<le> times_1_2 (ps_lastRTT (ps ! p)) div 2 ^ 52" .
    then have "10000 * 2 ^ 52 < times_1_2 (ps_lastRTT (ps ! p))" by (simp add: less_eq_div_iff_mult_less_eq)
    then show ?thesis using v by (simp add: get_timeout_value_def p Let_def)
  qed
  ultimately show ?thesis by (simp add: get_timeout_value_def)
qed

end
