(* ===== verification/Ack.thy ===== *)
theory Ack
  imports Packet_Queue Peer_Stats
begin

text \<open>
  \<open>ack.c\<close>: the packets sent and not yet acknowledged, per peer, newest first. The lock
  \<open>nack_lock\<close> makes each operation atomic. \<open>MYSLIST_FOREACH_SAFE\<close> with \<open>MYSLIST_REMOVE\<close> of the
  current element is a walk that rebuilds the list. Operations that retransmit also take the
  sender, because they call \<open>send_data\<close>.
\<close>

section \<open>Model\<close>

record Ack =
  a_seq :: u16
  a_sendtime :: timeval
  a_sleeptime :: u32
  a_d :: SendData

record Nack_peer =
  np_addr :: sockaddr_in
  np_nacks :: "Ack list"

record nack_state =
  nacklist :: "Nack_peer list"
  seq_num :: u16

definition static_nacks :: nack_state where
  "static_nacks = \<lparr>nacklist = [], seq_num = 0\<rparr>"

definition ACKSIZE :: nat where "ACKSIZE = 2"

definition nack_find_by_host :: "sockaddr_in \<Rightarrow> Nack_peer list \<Rightarrow> nat option" where
  "nack_find_by_host from ps = find_ix (\<lambda>p. np_addr p = from) ps"

definition append_ack :: "SendData \<Rightarrow> timeval \<Rightarrow> u32 \<Rightarrow> nack_state \<Rightarrow> (u32 \<times> SendData \<times> nack_state) res" where
  "append_ack d sendtime sleep st =
     (let st = st\<lparr>seq_num := seq_num st + 1\<rparr>;
          (p, st) = (case nack_find_by_host (sd_to d) (nacklist st) of
                       Some p \<Rightarrow> (p, st)
                     | None \<Rightarrow> (0, st\<lparr>nacklist := \<lparr>np_addr = sd_to d, np_nacks = []\<rparr> # nacklist st\<rparr>));
          nack = \<lparr>a_seq = seq_num st, a_sendtime = sendtime, a_sleeptime = sleep, a_d = d\<rparr>;
          peer = nacklist st ! p;
          st = st\<lparr>nacklist := (nacklist st)[p := peer\<lparr>np_nacks := nack # np_nacks peer\<rparr>]\<rparr>
      in bind_res (memcpy (sd_data d) (unat (sd_length d)) (bytes_of_u16 (seq_num st)) 2)
           (\<lambda>data. Ok (sd_length d + 2, d\<lparr>sd_data := data\<rparr>, st)))"

definition pop_ack :: "u16 \<Rightarrow> sockaddr_in \<Rightarrow> nack_state \<Rightarrow> Ack option \<times> nack_state" where
  "pop_ack seq from st =
     (case nack_find_by_host from (nacklist st) of
        None \<Rightarrow> (None, st)
      | Some p \<Rightarrow>
          let peer = nacklist st ! p in
          (case find_ix (\<lambda>a. a_seq a = seq) (np_nacks peer) of
             None \<Rightarrow> (None, st)
           | Some i \<Rightarrow>
               (Some (np_nacks peer ! i),
                st\<lparr>nacklist := (nacklist st)[p := peer
                    \<lparr>np_nacks := take i (np_nacks peer) @ drop (Suc i) (np_nacks peer)\<rparr>]\<rparr>)))"

definition strip_ack :: "u8 list \<Rightarrow> u64 \<Rightarrow> u16 res" where
  "strip_ack fragment fsize =
     (if unat (fsize - 2) + 2 \<le> length fragment then Ok (ld16 fragment (unat (fsize - 2)))
      else Err OutOfBounds)"

text \<open>One walk with removal over the packets of the peer that \<open>ack\<close> was sent to.\<close>

definition on_peer :: "sockaddr_in \<Rightarrow> (Ack list \<Rightarrow> (int \<times> Ack list) \<times> 's) \<Rightarrow> 's \<Rightarrow> nack_state \<Rightarrow> (int \<times> nack_state) \<times> 's" where
  "on_peer host walk s st =
     (case nack_find_by_host host (nacklist st) of
        None \<Rightarrow> ((0, st), s)
      | Some p \<Rightarrow>
          (case walk (np_nacks (nacklist st ! p)) of ((ret, keep), s) \<Rightarrow>
             ((ret, st\<lparr>nacklist := (nacklist st)[p := (nacklist st ! p)\<lparr>np_nacks := keep\<rparr>]\<rparr>), s)))"

primrec remove_where :: "(Ack \<Rightarrow> bool) \<Rightarrow> Ack list \<Rightarrow> int \<times> Ack list" where
  "remove_where gone [] = (0, [])"
| "remove_where gone (cur # rest) =
     (case remove_where gone rest of (n, keep) \<Rightarrow> if gone cur then (n + 1, keep) else (n, cur # keep))"

definition remove_ooo_nacks :: "Ack \<Rightarrow> nack_state \<Rightarrow> int \<times> nack_state" where
  "remove_ooo_nacks ack st =
     fst (on_peer (sd_to (a_d ack))
       (\<lambda>nacks. (remove_where (\<lambda>cur. timercmp_lt (a_sendtime cur) (a_sendtime ack)) nacks, ())) () st)"

definition ack_fragment :: "Ack \<Rightarrow> FragmentID" where
  "ack_fragment a = get_fragment_id (sd_data (a_d a)) (uint (sd_length (a_d a)))"

definition ack_was_lost :: "Ack \<Rightarrow> u16 \<Rightarrow> Ack \<Rightarrow> bool" where
  "ack_was_lost ack cons cur \<longleftrightarrow>
     timercmp_lt (a_sendtime cur) (a_sendtime ack) \<and>
     (let content = ack_fragment cur; ack_content = ack_fragment ack in
      fi_streamid content = fi_streamid ack_content \<and> fi_blockid content = fi_blockid ack_content \<and>
      fi_fragmentid content < fi_fragmentid ack_content \<and>
      uint (fi_fragmentid ack_content) - uint (fi_fragmentid content) \<le> uint cons)"

text \<open>The counter \<open>ret\<close> of \<open>remove_lost_acks\<close> is never incremented.\<close>

definition remove_lost_acks :: "Ack \<Rightarrow> u16 \<Rightarrow> nack_state \<Rightarrow> int \<times> nack_state" where
  "remove_lost_acks ack cons st =
     fst (on_peer (sd_to (a_d ack))
       (\<lambda>nacks. ((0, snd (remove_where (ack_was_lost ack cons) nacks)), ())) () st)"

definition mark_resend :: "SendData \<Rightarrow> SendData" where
  "mark_resend d =
     (let d = d\<lparr>sd_data := (sd_data d)[0 := (sd_data d ! 0) AND BLOCK_MASK_CONSECUTIVE]\<rparr>
      in if has (sd_data d ! 0) BLK_BLOCK_ACK
         then d\<lparr>sd_data := (sd_data d)[0 := (sd_data d ! 0) OR BLOCK_RETRANSMISSION]\<rparr> else d)"

definition resend_one :: "Ack \<Rightarrow> sender \<Rightarrow> sender" where
  "resend_one cur s =
     (if has ((sd_data (a_d cur) ! 0) AND BLOCK_MASK_CONSECUTIVE) BLK_BLOCK_ACK
      then send_data (mark_resend (a_d cur)) s else s)"

primrec resend_where :: "(Ack \<Rightarrow> bool) \<Rightarrow> sender \<Rightarrow> Ack list \<Rightarrow> (int \<times> Ack list) \<times> sender" where
  "resend_where late s [] = ((0, []), s)"
| "resend_where late s (cur # rest) =
     (if late cur
      then case resend_where late (resend_one cur s) rest of ((n, keep), s) \<Rightarrow> ((n + 1, keep), s)
      else case resend_where late s rest of ((n, keep), s) \<Rightarrow> ((n, cur # keep), s))"

definition resend_ooo_nacks :: "Ack \<Rightarrow> sender \<Rightarrow> nack_state \<Rightarrow> (int \<times> nack_state) \<times> sender" where
  "resend_ooo_nacks ack s st =
     on_peer (sd_to (a_d ack))
       (resend_where (\<lambda>cur. timercmp_lt (a_sendtime cur) (a_sendtime ack)) s) s st"

definition timed_out :: "u64 \<Rightarrow> u64 \<Rightarrow> Ack \<Rightarrow> bool" where
  "timed_out now_usec timeout cur \<longleftrightarrow> now_usec > time_to_usec (a_sendtime cur) + timeout"

primrec resend_timeouts ::
    "PeerAckStore list \<Rightarrow> u64 \<Rightarrow> sender \<Rightarrow> Nack_peer list \<Rightarrow> ((int \<times> Nack_peer list) \<times> sender) res" where
  "resend_timeouts ps now_usec s [] = Ok ((0, []), s)"
| "resend_timeouts ps now_usec s (peer # rest) =
     bind_res (get_timeout_value (np_addr peer) ps) (\<lambda>timeout.
       case resend_where (timed_out now_usec timeout) s (np_nacks peer) of ((n, keep), s) \<Rightarrow>
         map_res (\<lambda>((m, rest), s). ((n + m, peer\<lparr>np_nacks := keep\<rparr> # rest), s))
           (resend_timeouts ps now_usec s rest))"

definition resend_timeout_nacks ::
    "timeval \<Rightarrow> PeerAckStore list \<Rightarrow> sender \<Rightarrow> nack_state \<Rightarrow> ((int \<times> nack_state) \<times> sender) res" where
  "resend_timeout_nacks now ps s st =
     map_res (\<lambda>((n, ns), s). ((n, st\<lparr>nacklist := ns\<rparr>), s))
       (resend_timeouts ps (time_to_usec now) s (nacklist st))"

definition get_n_nack :: "nack_state \<Rightarrow> int" where
  "get_n_nack st = int (sum_list (map (\<lambda>p. length (np_nacks p)) (nacklist st)))"

definition get_seq :: "nack_state \<Rightarrow> int" where
  "get_seq st = uint (seq_num st)"

section \<open>Outstanding packets per host\<close>

interpretation nacks: keyed_list np_addr nack_find_by_host
proof -
  have "keyed_list np_addr (\<lambda>k. find_ix (\<lambda>p. np_addr p = k))" by (rule find_ix_keyed) simp
  then show "keyed_list np_addr nack_find_by_host" by (simp add: nack_find_by_host_def [abs_def])
qed

definition outstanding :: "nack_state \<Rightarrow> sockaddr_in \<Rightarrow> Ack list" where
  "outstanding st h = (case nack_find_by_host h (nacklist st) of None \<Rightarrow> [] | Some p \<Rightarrow> np_nacks (nacklist st ! p))"

definition peers_distinct :: "nack_state \<Rightarrow> bool" where
  "peers_distinct st \<longleftrightarrow> distinct (map np_addr (nacklist st))"

lemma outstanding_kmap:
  "peers_distinct st \<Longrightarrow> outstanding st h = (case kmap np_addr (nacklist st) h of None \<Rightarrow> [] | Some p \<Rightarrow> np_nacks p)"
  by (simp add: outstanding_def nacks.find_kmap peers_distinct_def split: option.split)

lemma outstanding_update:
  fixes ns :: "Ack list"
  assumes "peers_distinct st" and "nack_find_by_host h (nacklist st) = Some p"
  defines "st' \<equiv> st\<lparr>nacklist := (nacklist st)[p := (nacklist st ! p)\<lparr>np_nacks := ns\<rparr>]\<rparr>"
  shows "peers_distinct st' \<and> outstanding st' = (outstanding st)(h := ns)"
proof -
  let ?y = "(nacklist st ! p)\<lparr>np_nacks := ns\<rparr>"
  have y: "np_addr ?y = h" using nacks.find_SomeD [OF assms(2)] by simp
  note u = nacks.update_found [OF assms(1) [unfolded peers_distinct_def] assms(2) y]
  then have d: "peers_distinct st'" by (simp add: peers_distinct_def st'_def)
  have "outstanding st' k = ((outstanding st)(h := ns)) k" for k
    using u(2) by (simp add: outstanding_kmap [OF d] outstanding_kmap [OF assms(1)]) (simp add: st'_def)
  then show ?thesis using d by auto
qed

lemma outstanding_new_peer:
  assumes "peers_distinct st" and "nack_find_by_host h (nacklist st) = None"
  defines "st' \<equiv> st\<lparr>nacklist := \<lparr>np_addr = h, np_nacks = []\<rparr> # nacklist st\<rparr>"
  shows "peers_distinct st' \<and> outstanding st' = outstanding st \<and> nack_find_by_host h (nacklist st') = Some 0"
proof -
  have d: "peers_distinct st'"
    using nacks.insert_distinct [of "nacklist st" "\<lparr>np_addr = h, np_nacks = []\<rparr>"] assms
    by (simp add: peers_distinct_def)
  have n: "kmap np_addr (nacklist st) h = None"
    using assms(1,2) by (simp add: nacks.find_kmap peers_distinct_def)
  have "outstanding st' k = outstanding st k" for k
    using n by (simp add: outstanding_kmap [OF d] outstanding_kmap [OF assms(1)]) (simp add: st'_def kmap_Cons)
  then show ?thesis using d by (auto simp: st'_def nack_find_by_host_def)
qed

text \<open>Whatever a walk over one peer keeps is what is left outstanding for that host.\<close>

lemma on_peer_outstanding:
  assumes "peers_distinct st" and "walk [] = ((0, []), s)"
  shows "\<exists>n keep s'. walk (outstanding st h) = ((n, keep), s') \<and> (\<exists>st'. on_peer h walk s st = ((n, st'), s') \<and>
    peers_distinct st' \<and> seq_num st' = seq_num st \<and> outstanding st' = (outstanding st)(h := keep))"
proof (cases "nack_find_by_host h (nacklist st)")
  case None
  then have "outstanding st h = []" by (simp add: outstanding_def)
  then show ?thesis using assms None by (auto simp: on_peer_def)
next
  case (Some p)
  obtain n keep s' where w: "walk (np_nacks (nacklist st ! p)) = ((n, keep), s')" by (metis surj_pair)
  have "outstanding st h = np_nacks (nacklist st ! p)" by (simp add: outstanding_def Some)
  then show ?thesis using w outstanding_update [OF assms(1) Some, of keep] by (auto simp: on_peer_def Some)
qed

lemma remove_where_eq: "remove_where gone xs = (int (length (filter gone xs)), filter (Not \<circ> gone) xs)"
  by (induction xs) auto

lemma resend_where_eq:
  "resend_where late s xs = ((int (length (filter late xs)), filter (Not \<circ> late) xs),
     foldl (\<lambda>s a. resend_one a s) s (filter late xs))"
  by (induction xs arbitrary: s) (auto split: prod.splits)

lemmas walk_eqs = remove_where_eq resend_where_eq

lemma remove_ooo_outstanding:
  assumes "peers_distinct st"
  shows "\<exists>st'. remove_ooo_nacks ack st =
      (int (length (filter (\<lambda>a. timercmp_lt (a_sendtime a) (a_sendtime ack)) (outstanding st (sd_to (a_d ack))))), st') \<and>
    peers_distinct st' \<and> seq_num st' = seq_num st \<and>
    outstanding st' = (outstanding st)(sd_to (a_d ack) :=
      filter (\<lambda>a. \<not> timercmp_lt (a_sendtime a) (a_sendtime ack)) (outstanding st (sd_to (a_d ack))))"
  using on_peer_outstanding [OF assms, of "\<lambda>nacks. (remove_where (\<lambda>cur. timercmp_lt (a_sendtime cur) (a_sendtime ack)) nacks, ())"
      "()" "sd_to (a_d ack)"]
  by (auto simp: remove_ooo_nacks_def walk_eqs o_def)

lemma remove_lost_outstanding:
  assumes "peers_distinct st"
  shows "\<exists>st'. remove_lost_acks ack cons st = (0, st') \<and> peers_distinct st' \<and> seq_num st' = seq_num st \<and>
    outstanding st' = (outstanding st)(sd_to (a_d ack) :=
      filter (\<lambda>a. \<not> ack_was_lost ack cons a) (outstanding st (sd_to (a_d ack))))"
  using on_peer_outstanding [OF assms, of "\<lambda>nacks. ((0, snd (remove_where (ack_was_lost ack cons) nacks)), ())"
      "()" "sd_to (a_d ack)"]
  by (auto simp: remove_lost_acks_def walk_eqs o_def)

lemma resend_ooo_outstanding:
  fixes ack :: Ack
  assumes "peers_distinct st"
  defines "late \<equiv> filter (\<lambda>a. timercmp_lt (a_sendtime a) (a_sendtime ack)) (outstanding st (sd_to (a_d ack)))"
  shows "\<exists>st'. resend_ooo_nacks ack s st = ((int (length late), st'), foldl (\<lambda>s a. resend_one a s) s late) \<and>
    peers_distinct st' \<and> seq_num st' = seq_num st \<and>
    outstanding st' = (outstanding st)(sd_to (a_d ack) :=
      filter (\<lambda>a. \<not> timercmp_lt (a_sendtime a) (a_sendtime ack)) (outstanding st (sd_to (a_d ack))))"
  using on_peer_outstanding [OF assms(1), of "resend_where (\<lambda>cur. timercmp_lt (a_sendtime cur) (a_sendtime ack)) s"
      s "sd_to (a_d ack)"]
  by (auto simp: resend_ooo_nacks_def walk_eqs o_def late_def)

definition drop_first :: "('a \<Rightarrow> bool) \<Rightarrow> 'a list \<Rightarrow> 'a list" where
  "drop_first P xs = takeWhile (Not \<circ> P) xs @ tl (dropWhile (Not \<circ> P) xs)"

lemma find_ix_split:
  "find_ix P xs = Some i \<Longrightarrow> take i xs = takeWhile (Not \<circ> P) xs \<and> drop i xs = dropWhile (Not \<circ> P) xs"
  by (induction xs arbitrary: i) (auto split: if_splits)

lemma drop_first_find_ix: "find_ix P xs = Some i \<Longrightarrow> take i xs @ drop (Suc i) xs = drop_first P xs"
  using find_ix_split [of P xs i] by (simp add: drop_first_def drop_Suc flip: tl_drop)

lemma drop_first_None: "find_ix P xs = None \<Longrightarrow> drop_first P xs = xs"
  by (induction xs) (auto simp: drop_first_def split: if_splits)

lemma find_ix_find: "map_option (nth xs) (find_ix P xs) = List.find P xs"
  by (induction xs) (auto simp: option.map_comp o_def)

lemma pop_ack_outstanding:
  assumes "peers_distinct st"
  shows "\<exists>st'. pop_ack seq h st = (List.find (\<lambda>a. a_seq a = seq) (outstanding st h), st') \<and>
    peers_distinct st' \<and> seq_num st' = seq_num st \<and>
    outstanding st' = (outstanding st)(h := drop_first (\<lambda>a. a_seq a = seq) (outstanding st h))"
proof (cases "nack_find_by_host h (nacklist st)")
  case None
  then have "outstanding st h = []" by (simp add: outstanding_def)
  then show ?thesis using assms None by (auto simp: pop_ack_def drop_first_def)
next
  case (Some p)
  let ?ns = "np_nacks (nacklist st ! p)"
  have o: "outstanding st h = ?ns" by (simp add: outstanding_def Some)
  show ?thesis
  proof (cases "find_ix (\<lambda>a. a_seq a = seq) ?ns")
    case None
    then show ?thesis using assms drop_first_None [OF None] find_ix_find [of ?ns "\<lambda>a. a_seq a = seq"]
      by (auto simp: pop_ack_def Some o Let_def simp flip: o)
  next
    case (Some i)
    then show ?thesis
      using outstanding_update [OF assms \<open>nack_find_by_host h (nacklist st) = Some p\<close>, of "drop_first (\<lambda>a. a_seq a = seq) ?ns"]
        drop_first_find_ix [OF Some] find_ix_find [of ?ns "\<lambda>a. a_seq a = seq"]
      by (auto simp: pop_ack_def \<open>nack_find_by_host h (nacklist st) = Some p\<close> o Let_def)
  qed
qed

lemma append_ack_outstanding:
  assumes "peers_distinct st" and "append_ack d ts sl st = Ok (l, d', st')"
  shows "peers_distinct st'" and "seq_num st' = seq_num st + 1" and
    "outstanding st' = (outstanding st)(sd_to d :=
       \<lparr>a_seq = seq_num st + 1, a_sendtime = ts, a_sleeptime = sl, a_d = d\<rparr> # outstanding st (sd_to d))"
    and "l = sd_length d + 2" and "unat (sd_length d) + 2 \<le> length (sd_data d)"
    and "d' = d\<lparr>sd_data := patch (sd_data d) (unat (sd_length d)) (bytes_of_u16 (seq_num st + 1))\<rparr>"
proof -
  let ?st = "st\<lparr>seq_num := seq_num st + 1\<rparr>"
  let ?a = "\<lparr>a_seq = seq_num st + 1, a_sendtime = ts, a_sleeptime = sl, a_d = d\<rparr>"
  have o: "outstanding ?st = outstanding st" "peers_distinct ?st"
    using assms(1) by (auto simp: outstanding_def fun_eq_iff peers_distinct_def split: option.split)
  have "\<exists>st1 p. peers_distinct st1 \<and> outstanding st1 = outstanding st \<and> nack_find_by_host (sd_to d) (nacklist st1) = Some p \<and>
     seq_num st1 = seq_num st + 1 \<and>
     append_ack d ts sl st = bind_res (memcpy (sd_data d) (unat (sd_length d)) (bytes_of_u16 (seq_num st + 1)) 2)
       (\<lambda>data. Ok (sd_length d + 2, d\<lparr>sd_data := data\<rparr>,
          st1\<lparr>nacklist := (nacklist st1)[p := (nacklist st1 ! p)\<lparr>np_nacks := ?a # outstanding st1 (sd_to d)\<rparr>]\<rparr>))"
  proof (cases "nack_find_by_host (sd_to d) (nacklist st)")
    case None
    then show ?thesis
      using outstanding_new_peer [OF o(2), of "sd_to d"] o(1)
      by (intro exI [of _ "?st\<lparr>nacklist := \<lparr>np_addr = sd_to d, np_nacks = []\<rparr> # nacklist st\<rparr>"] exI [of _ 0])
        (auto simp: append_ack_def Let_def outstanding_def)
  next
    case (Some p)
    then show ?thesis using o by (intro exI [of _ ?st] exI [of _ p]) (auto simp: append_ack_def Let_def outstanding_def)
  qed
  then obtain st1 p where s: "peers_distinct st1" "outstanding st1 = outstanding st"
    "nack_find_by_host (sd_to d) (nacklist st1) = Some p" "seq_num st1 = seq_num st + 1"
    and e: "append_ack d ts sl st = bind_res (memcpy (sd_data d) (unat (sd_length d)) (bytes_of_u16 (seq_num st + 1)) 2)
       (\<lambda>data. Ok (sd_length d + 2, d\<lparr>sd_data := data\<rparr>,
          st1\<lparr>nacklist := (nacklist st1)[p := (nacklist st1 ! p)\<lparr>np_nacks := ?a # outstanding st1 (sd_to d)\<rparr>]\<rparr>))" by blast
  note u = outstanding_update [OF s(1,3), of "?a # outstanding st1 (sd_to d)"]
  show "peers_distinct st'" "seq_num st' = seq_num st + 1"
    "outstanding st' = (outstanding st)(sd_to d := ?a # outstanding st (sd_to d))"
    "l = sd_length d + 2" "unat (sd_length d) + 2 \<le> length (sd_data d)"
    "d' = d\<lparr>sd_data := patch (sd_data d) (unat (sd_length d)) (bytes_of_u16 (seq_num st + 1))\<rparr>"
    using assms(2) u s by (auto simp: e bind_res_Ok_iff memcpy_Ok_iff)
qed

lemma strip_appended:
  assumes "append_ack d ts sl st = Ok (l, d', st')" and "peers_distinct st" and "wf_sd d"
  shows "strip_ack (sd_data d') (ucast l) = Ok (seq_num st')" and "wf_sd d'" and "sd_to d' = sd_to d"
    and "unat l = unat (sd_length d) + 2" and "take (unat (sd_length d)) (sd_data d') = take (unat (sd_length d)) (sd_data d)"
proof -
  note a = append_ack_outstanding [OF assms(2,1)]
  have le: "unat (sd_length d) + 2 \<le> 1500" using a(5) assms(3) by (simp add: wf_sd_def SENDBUF_def)
  then show l: "unat l = unat (sd_length d) + 2"
    using a(4) by (simp add: unat_word_ariths)
  have "(2 :: u64) \<le> ucast l" using l by (simp add: word_le_nat_alt)
  then have i: "unat (ucast l - 2 :: u64) = unat (sd_length d)"
    using l by (simp add: unat_sub)
  show "wf_sd d'" using a(5,6) assms(3) by (simp add: wf_sd_def)
  have "ld16 (patch (sd_data d) (unat (sd_length d)) (bytes_of_u16 (seq_num st'))) (unat (sd_length d)) = seq_num st'"
    using ld_st_same(1) [of "unat (sd_length d)" "sd_data d" "seq_num st'"] a(5) by (simp add: st16_def)
  then show "strip_ack (sd_data d') (ucast l) = Ok (seq_num st')"
    using i a(2,5,6) by (simp add: strip_ack_def)
  show "sd_to d' = sd_to d" using a(6) by simp
  show "take (unat (sd_length d)) (sd_data d') = take (unat (sd_length d)) (sd_data d)"
    using a(5,6) by (simp add: take_patch_le)
qed

text \<open>
  A packet sent with a request for acknowledgement can be matched to its acknowledgement. The
  sequence number that the other side reads from the end of the packet is the number under which the
  packet is filed, and popping that number for that host returns exactly the filed packet
  with its send time and leaves every host's outstanding packets as they were before.
\<close>

lemma acknowledgement_matches:
  assumes "peers_distinct st" and "wf_sd d" and "append_ack d ts sl st = Ok (l, d', st')"
  shows "\<exists>seq st''. strip_ack (sd_data d') (ucast l) = Ok seq \<and>
    pop_ack seq (sd_to d) st' = (Some \<lparr>a_seq = seq, a_sendtime = ts, a_sleeptime = sl, a_d = d\<rparr>, st'') \<and>
    peers_distinct st'' \<and> outstanding st'' = outstanding st"
proof -
  note a = append_ack_outstanding [OF assms(1,3)]
  show ?thesis
    using pop_ack_outstanding [OF a(1), of "seq_num st'" "sd_to d"] strip_appended(1) [OF assms(3,1,2)] a(2,3)
    by (auto simp: drop_first_def)
qed

section \<open>Retransmission\<close>

definition resendable :: "Ack \<Rightarrow> bool" where
  "resendable a \<longleftrightarrow> wf_sd (a_d a) \<and> has (sd_data (a_d a) ! 0) NEED_ACK \<and>
     \<not> has (sd_data (a_d a) ! 0) BLK_ACK \<and> \<not> has (sd_data (a_d a) ! 0) BW_MSG"

lemma need_ack_block_ack: "has f NEED_ACK \<Longrightarrow> has f BLK_BLOCK_ACK"
proof -
  have "BLK_BLOCK_ACK = NEED_ACK OR BLK_BLOCK" by (simp add: packet_defs)
  moreover have "f AND (NEED_ACK OR BLK_BLOCK) = (f AND NEED_ACK) OR (f AND BLK_BLOCK)"
    by (rule bit_word_eqI) (auto simp: bit_simps)
  ultimately show "has f NEED_ACK \<Longrightarrow> has f BLK_BLOCK_ACK" by (simp add: has_def or_eq_0_iff)
qed

lemma mark_resend_data:
  assumes "wf_sd d" and "has (sd_data d ! 0) NEED_ACK"
  shows "mark_resend d = d\<lparr>sd_data := (sd_data d)[0 := (sd_data d ! 0 AND BLOCK_MASK_CONSECUTIVE) OR BLOCK_RETRANSMISSION]\<rparr>"
proof -
  have "0 < length (sd_data d)" using assms(1) by (simp add: wf_sd_def SENDBUF_def)
  then show ?thesis using need_ack_block_ack [OF assms(2)]
    by (simp add: mark_resend_def Let_def has_mask_consecutive)
qed

lemma has_mask_other:
  "m AND BLOCK_MASK_CONSECUTIVE = m \<Longrightarrow> has (f AND BLOCK_MASK_CONSECUTIVE) m = has f m"
  by (metis (no_types, opaque_lifting) and.assoc and.commute has_def)

lemma mark_resend_class:
  assumes "resendable a"
  shows "wf_sd (mark_resend (a_d a)) \<and> class_of (mark_resend (a_d a)) = Retr" and "resend_one a s = send_data (mark_resend (a_d a)) s"
proof -
  let ?f = "sd_data (a_d a) ! 0"
  have r: "wf_sd (a_d a)" "has ?f NEED_ACK" "\<not> has ?f BLK_ACK" "\<not> has ?f BW_MSG" using assms by (auto simp: resendable_def)
  have "0 < length (sd_data (a_d a))" using r(1) by (simp add: wf_sd_def SENDBUF_def)
  moreover have "\<not> has BLOCK_RETRANSMISSION BLK_ACK" "\<not> has BLOCK_RETRANSMISSION BW_MSG"
    "has BLOCK_RETRANSMISSION BLOCK_RETRANSMISSION" by (simp_all add: has_def packet_defs)
  moreover have "BLK_ACK AND BLOCK_MASK_CONSECUTIVE = BLK_ACK" "BW_MSG AND BLOCK_MASK_CONSECUTIVE = BW_MSG"
    by (simp_all add: packet_defs)
  ultimately show "wf_sd (mark_resend (a_d a)) \<and> class_of (mark_resend (a_d a)) = Retr"
    using r by (simp add: mark_resend_data class_of_def has_or has_mask_other) (simp add: wf_sd_def)
  show "resend_one a s = send_data (mark_resend (a_d a)) s"
    using need_ack_block_ack [OF r(2)] by (simp add: resend_one_def has_mask_consecutive)
qed

lemma resend_foldl:
  "list_all resendable as \<Longrightarrow>
     foldl (\<lambda>s a. resend_one a s) s as = foldl (\<lambda>s d. send_data d s) s (map (mark_resend \<circ> a_d) as)"
  "list_all resendable as \<Longrightarrow> list_all (\<lambda>d. wf_sd d \<and> class_of d = Retr) (map (mark_resend \<circ> a_d) as)"
  by (induction "as" arbitrary: s) (simp_all add: mark_resend_class)

text \<open>The same with the rewritten first byte written out.\<close>

lemma resent_as:
  assumes "list_all resendable as"
  shows "map (mark_resend \<circ> a_d) as = map (\<lambda>a. (a_d a)\<lparr>sd_data := (sd_data (a_d a))[0 :=
      ((sd_data (a_d a) ! 0) AND BLOCK_MASK_CONSECUTIVE) OR BLOCK_RETRANSMISSION]\<rparr>) as"
  using assms by (auto simp: list_all_iff resendable_def mark_resend_data)

lemma resend_all:
  assumes "sender_ok s" and "list_all resendable as" and "length (queue_of Retr s) + length as \<le> 2000"
    and "length as \<le> qEmpty s"
  shows "sender_ok (foldl (\<lambda>s a. resend_one a s) s as) \<and>
    queue_of Retr (foldl (\<lambda>s a. resend_one a s) s as) = queue_of Retr s @ map (mark_resend \<circ> a_d) as \<and>
    (\<forall>c. c \<noteq> Retr \<longrightarrow> queue_of c (foldl (\<lambda>s a. resend_one a s) s as) = queue_of c s)"
  using send_all [OF assms(1), of Retr "map (mark_resend \<circ> a_d) as"] assms(3,4) by (simp add: resend_foldl [OF assms(2)])

text \<open>
  An acknowledgement that overtakes earlier packets. Every packet sent to that peer strictly
  before the acknowledged one leaves the list of outstanding packets and is counted; each of them
  is filed, newest first, in the retransmission queue, with the retransmission bit set and
  the consecutive bit cleared, and nothing else moves: later packets, other peers and the other
  queues are untouched.
\<close>

lemma overtaken_packets_resent:
  assumes "peers_distinct st" and "sender_ok s"
    and "late = filter (\<lambda>a. a_sendtime a < a_sendtime ack) (outstanding st (sd_to (a_d ack)))"
    and "list_all resendable late"
    and "length (queue_of Retr s) + length late \<le> 2000" and "length late \<le> qEmpty s"
  shows "\<exists>st' s'. resend_ooo_nacks ack s st = ((int (length late), st'), s') \<and> sender_ok s' \<and>
    queue_of Retr s' = queue_of Retr s @ map (mark_resend \<circ> a_d) late \<and>
    (\<forall>c. c \<noteq> Retr \<longrightarrow> queue_of c s' = queue_of c s) \<and> peers_distinct st' \<and>
    outstanding st' = (outstanding st)(sd_to (a_d ack) :=
      filter (\<lambda>a. \<not> a_sendtime a < a_sendtime ack) (outstanding st (sd_to (a_d ack))))"
  using resend_ooo_outstanding [OF assms(1), of ack s] resend_all [OF assms(2,4-6)]
  by (simp add: timercmp_lt_less assms(3)) blast

lemma block_flags_not_has: "block_flags f \<Longrightarrow> \<not> has f BLK_ACK \<and> \<not> has f BW_MSG \<and> \<not> has f COOKIE_MSG"
proof -
  have "f AND (BLK_ACK OR COOKIE_MSG OR 0x20 OR BW_MSG) =
      (f AND BLK_ACK) OR (f AND COOKIE_MSG) OR (f AND 0x20) OR (f AND BW_MSG)"
    by (rule bit_word_eqI) (auto simp: bit_simps)
  then show "block_flags f \<Longrightarrow> ?thesis" by (simp add: block_flags_def has_def or_eq_0_iff)
qed

lemma block_flags_resend:
  assumes "block_flags f" shows "block_flags ((f AND BLOCK_MASK_CONSECUTIVE) OR BLOCK_RETRANSMISSION)"
proof -
  let ?m = "BLK_ACK OR COOKIE_MSG OR 0x20 OR BW_MSG"
  have "((f AND BLOCK_MASK_CONSECUTIVE) OR BLOCK_RETRANSMISSION) AND ?m =
      (f AND ?m) AND BLOCK_MASK_CONSECUTIVE OR (BLOCK_RETRANSMISSION AND ?m)"
    by (rule bit_word_eqI) (auto simp: bit_simps)
  then show ?thesis using assms by (simp add: block_flags_def) (simp add: packet_defs)
qed

text \<open>
  A retransmitted fragment reaches the receiver unchanged: after the flags are rewritten the
  packet still passes the receiver's check and decodes to the same fragment.
\<close>

lemma retransmission_preserves_fragment:
  assumes "wf_sd d" and "block_flags (sd_data d ! 0)" and "has (sd_data d ! 0) NEED_ACK"
    and "decode_fragment (sd_data d) (uint (sd_length d)) = Ok (Some fd)"
  shows "validate_block (sd_data (mark_resend d)) (ucast (sd_length d)) \<and>
    decode_fragment (sd_data (mark_resend d)) (uint (sd_length d)) = Ok (Some fd) \<and>
    class_of (mark_resend d) = Retr"
proof -
  let ?f = "sd_data d ! 0" and ?g = "(sd_data d ! 0 AND BLOCK_MASK_CONSECUTIVE) OR BLOCK_RETRANSMISSION"
  have nonempty: "sd_data d \<noteq> []" using assms(1) by (auto simp: wf_sd_def SENDBUF_def)
  have "BLK_BLOCK AND BLOCK_MASK_CONSECUTIVE = BLK_BLOCK" by (simp add: packet_defs)
  then have "has ?g BLK_BLOCK" using decode_fragment_Some(3) [OF assms(4)] by (simp add: has_or has_mask_other)
  note dec = decode_reflag [OF assms(4) this]
  have "uint (ucast (sd_length d) :: u64) = uint (sd_length d)" by (metis uint_nat unat_ucast_u64(1))
  then have "validate_block ((sd_data d)[0 := ?g]) (ucast (sd_length d))"
    using validate_decoded [OF dec] block_flags_resend [OF assms(2)] nonempty by simp
  moreover have "\<not> has ?f BLK_ACK" "\<not> has ?f BW_MSG" using block_flags_not_has [OF assms(2)] by simp_all
  ultimately show ?thesis
    using mark_resend_class(1) [of "\<lparr>a_seq = 0, a_sendtime = zero_time, a_sleeptime = 0, a_d = d\<rparr>"] assms(1,3) dec
    by (simp add: resendable_def mark_resend_data [OF assms(1,3)])
qed

section \<open>Lost acknowledgements and timeouts\<close>

lemma ack_fragment_flagless:
  "\<not> has (sd_data (a_d a) ! 0) BLK_BLOCK \<Longrightarrow> ack_fragment a = zero_FragmentID"
  by (simp add: ack_fragment_def get_fragment_id_def FragmentHeader_at_def Let_def)

text \<open>
  C25: an acknowledgement of a fragment that says the \<open>cons\<close> fragments before it had all arrived
  settles exactly those: the outstanding packets of that peer that were sent earlier and carry a
  fragment of the same block whose index is at most \<open>cons\<close> below. They are no longer outstanding,
  so they are not retransmitted; all others stay. Every outstanding packet is a fragment or a
  packet without the block flag (a cookie); the code reads the latter as fragment 0 of block 0
  of stream 0, so it is settled too by an acknowledgement that reaches back to that fragment.
  The function's result is always 0.
\<close>

theorem lost_acks_settled:
  assumes "peers_distinct st"
    and "decode_fragment (sd_data (a_d ack)) (uint (sd_length (a_d ack))) = Ok (Some fd)"
    and "\<forall>a \<in> set (outstanding st (sd_to (a_d ack))).
      (\<exists>fd. decode_fragment (sd_data (a_d a)) (uint (sd_length (a_d a))) = Ok (Some fd)) \<or>
      \<not> has (sd_data (a_d a) ! 0) BLK_BLOCK"
  shows "\<exists>st'. remove_lost_acks ack cons st = (0, st') \<and> peers_distinct st' \<and>
    (\<forall>h. h \<noteq> sd_to (a_d ack) \<longrightarrow> outstanding st' h = outstanding st h) \<and>
    (\<forall>a. a \<in> set (outstanding st' (sd_to (a_d ack))) \<longleftrightarrow> a \<in> set (outstanding st (sd_to (a_d ack))) \<and>
      \<not> (a_sendtime a < a_sendtime ack \<and>
         ((\<exists>f k. decode_fragment (sd_data (a_d a)) (uint (sd_length (a_d a))) = Ok (Some f) \<and>
            fd_streamid f = fd_streamid fd \<and> fd_blockid f = fd_blockid fd \<and>
            1 \<le> k \<and> k \<le> unat cons \<and> unat (fd_fragmentid f) + k = unat (fd_fragmentid fd)) \<or>
          (\<not> has (sd_data (a_d a) ! 0) BLK_BLOCK \<and> fd_streamid fd = 0 \<and> fd_blockid fd = 0 \<and>
            1 \<le> unat (fd_fragmentid fd) \<and> unat (fd_fragmentid fd) \<le> unat cons))))"
proof -
  let ?dec = "\<lambda>a. decode_fragment (sd_data (a_d a)) (uint (sd_length (a_d a)))"
  have below: "i < j \<and> uint j - uint i \<le> uint cons \<longleftrightarrow>
      (\<exists>k. 1 \<le> k \<and> k \<le> unat cons \<and> unat i + k = unat j)" for i j :: u16
    unfolding word_less_nat_alt uint_nat by presburger
  have lost: "ack_was_lost ack cons a \<longleftrightarrow> a_sendtime a < a_sendtime ack \<and>
      fd_streamid f = fd_streamid fd \<and> fd_blockid f = fd_blockid fd \<and>
      (\<exists>k. 1 \<le> k \<and> k \<le> unat cons \<and> unat (fd_fragmentid f) + k = unat (fd_fragmentid fd))"
    if "?dec a = Ok (Some f)" for a f
    by (simp add: below ack_was_lost_def ack_fragment_def get_fragment_id_decoded [OF that]
        get_fragment_id_decoded [OF assms(2)] timercmp_lt_less Let_def)
  have zero: "ack_was_lost ack cons a \<longleftrightarrow> a_sendtime a < a_sendtime ack \<and> fd_streamid fd = 0 \<and> fd_blockid fd = 0 \<and>
      1 \<le> unat (fd_fragmentid fd) \<and> unat (fd_fragmentid fd) \<le> unat cons"
    if "\<not> has (sd_data (a_d a) ! 0) BLK_BLOCK" for a
  proof -
    have n: "0 < j \<longleftrightarrow> 1 \<le> unat j" "uint j \<le> uint cons \<longleftrightarrow> unat j \<le> unat cons" for j :: u16
      unfolding word_less_nat_alt uint_nat by (auto simp del: of_nat_unat)
    have z: "fi_streamid zero_FragmentID = 0" "fi_blockid zero_FragmentID = 0" "fi_fragmentid zero_FragmentID = 0"
      by (simp_all add: zero_FragmentID_def)
    have f: "fi_streamid (ack_fragment ack) = fd_streamid fd" "fi_blockid (ack_fragment ack) = fd_blockid fd"
      "fi_fragmentid (ack_fragment ack) = fd_fragmentid fd"
      by (simp_all add: ack_fragment_def get_fragment_id_decoded [OF assms(2)])
    show ?thesis
      unfolding ack_was_lost_def ack_fragment_flagless [OF that] Let_def z f timercmp_lt_less n by (auto simp: n(2))
  qed
  have flag: "has (sd_data (a_d a) ! 0) BLK_BLOCK" if "?dec a = Ok (Some f)" for a f
    by (rule decode_fragment_Some(3) [OF that])
  obtain st' where st': "remove_lost_acks ack cons st = (0, st')" "peers_distinct st'"
    "outstanding st' = (outstanding st)(sd_to (a_d ack) :=
      filter (\<lambda>a. \<not> ack_was_lost ack cons a) (outstanding st (sd_to (a_d ack))))"
    using remove_lost_outstanding [OF assms(1), of ack cons] by blast
  have "ack_was_lost ack cons a \<longleftrightarrow> a_sendtime a < a_sendtime ack \<and>
         ((\<exists>f k. ?dec a = Ok (Some f) \<and> fd_streamid f = fd_streamid fd \<and> fd_blockid f = fd_blockid fd \<and>
            1 \<le> k \<and> k \<le> unat cons \<and> unat (fd_fragmentid f) + k = unat (fd_fragmentid fd)) \<or>
          (\<not> has (sd_data (a_d a) ! 0) BLK_BLOCK \<and> fd_streamid fd = 0 \<and> fd_blockid fd = 0 \<and>
            1 \<le> unat (fd_fragmentid fd) \<and> unat (fd_fragmentid fd) \<le> unat cons))"
    if "a \<in> set (outstanding st (sd_to (a_d ack)))" for a
  proof (cases "has (sd_data (a_d a) ! 0) BLK_BLOCK")
    case True
    from bspec [OF assms(3) that] True obtain f where f: "?dec a = Ok (Some f)" by metis
    show ?thesis unfolding lost [OF f] f using True by simp
  next
    case False
    then have "?dec a \<noteq> Ok (Some f)" for f using flag by blast
    then show ?thesis unfolding zero [OF False] using False by simp
  qed
  then show ?thesis using st' by auto
qed

lemma resend_timeouts_eq:
  assumes "\<And>p. p \<in> set ns \<Longrightarrow> get_timeout_value (np_addr p) ps = Ok (t (np_addr p))"
  shows "resend_timeouts ps now s ns =
    Ok ((int (length (filter (\<lambda>(h, a). timed_out now (t h) a) (concat (map (\<lambda>p. map (Pair (np_addr p)) (np_nacks p)) ns)))),
         map (\<lambda>p. p\<lparr>np_nacks := filter (\<lambda>a. \<not> timed_out now (t (np_addr p)) a) (np_nacks p)\<rparr>) ns),
        foldl (\<lambda>s a. resend_one a s) s
          (map snd (filter (\<lambda>(h, a). timed_out now (t h) a) (concat (map (\<lambda>p. map (Pair (np_addr p)) (np_nacks p)) ns)))))"
  using assms by (induction ns arbitrary: s) (simp_all add: walk_eqs o_def filter_map)

lemma timeout_sweep_late:
  fixes now :: timeval
  assumes "peers_distinct st" and "\<forall>p \<in> set (nacklist st). get_timeout_value (np_addr p) ps = Ok (t (np_addr p))"
  defines "late \<equiv> map snd (filter (\<lambda>(h, a). timed_out (time_to_usec now) (t h) a)
      (concat (map (\<lambda>p. map (Pair (np_addr p)) (np_nacks p)) (nacklist st))))"
  shows "\<exists>st'. resend_timeout_nacks now ps s st =
      Ok ((int (length late), st'), foldl (\<lambda>s a. resend_one a s) s late) \<and>
    set late = (\<Union>h. {a \<in> set (outstanding st h). timed_out (time_to_usec now) (t h) a}) \<and>
    peers_distinct st' \<and> seq_num st' = seq_num st \<and>
    (\<forall>h. outstanding st' h = filter (\<lambda>a. \<not> timed_out (time_to_usec now) (t h) a) (outstanding st h))"
proof -
  let ?u = "time_to_usec now" and ?ns = "nacklist st"
  let ?f = "\<lambda>p. p\<lparr>np_nacks := filter (\<lambda>a. \<not> timed_out ?u (t (np_addr p)) a) (np_nacks p)\<rparr>"
  let ?all = "concat (map (\<lambda>p. map (Pair (np_addr p)) (np_nacks p)) ?ns)"
  let ?late = "map snd (filter (\<lambda>(h, a). timed_out ?u (t h) a) ?all)" and ?st = "st\<lparr>nacklist := map ?f ?ns\<rparr>"
  have d: "peers_distinct ?st" using assms(1) by (simp add: peers_distinct_def o_def)
  have fix_map: "find_ix (\<lambda>p. np_addr p = h) (map ?f xs) = find_ix (\<lambda>p. np_addr p = h) xs" for h xs
    by (induction xs) simp_all
  have o: "outstanding ?st h = filter (\<lambda>a. \<not> timed_out ?u (t h) a) (outstanding st h)" for h
    using nacks.find_SomeD [of h ?ns]
    by (auto simp: outstanding_def nack_find_by_host_def fix_map split: option.split)
  have mem: "p \<in> set ?ns \<Longrightarrow> outstanding st (np_addr p) = np_nacks p" for p
    using assms(1) nacks.find_nth [of ?ns] by (auto simp: peers_distinct_def outstanding_def in_set_conv_nth)
  have src: "a \<in> set (outstanding st h) \<Longrightarrow> \<exists>p \<in> set ?ns. np_addr p = h \<and> a \<in> set (np_nacks p)" for a h
    using nacks.find_SomeD [of h ?ns] by (cases "nack_find_by_host h ?ns") (auto simp: outstanding_def)
  have "set ?late = (\<Union>p \<in> set ?ns. {a \<in> set (np_nacks p). timed_out ?u (t (np_addr p)) a})" by force
  also have "\<dots> = (\<Union>p \<in> set ?ns. {a \<in> set (outstanding st (np_addr p)). timed_out ?u (t (np_addr p)) a})"
    using mem by simp
  also have "\<dots> = (\<Union>h. {a \<in> set (outstanding st h). timed_out ?u (t h) a})" using src by blast
  finally have "set ?late = (\<Union>h. {a \<in> set (outstanding st h). timed_out ?u (t h) a})" .
  moreover have "resend_timeout_nacks now ps s st = Ok ((int (length ?late), ?st), foldl (\<lambda>s a. resend_one a s) s ?late)"
    using resend_timeouts_eq [of ?ns ps t ?u s] assms(2) by (simp add: resend_timeout_nacks_def)
  ultimately show ?thesis using d o unfolding late_def by (intro exI [of _ ?st]) auto
qed

lemma timed_out_usecs:
  "timed_out (time_to_usec now) timeout a \<longleftrightarrow> (usecs (a_sendtime a) + uint timeout) mod 2 ^ 64 < usecs now mod 2 ^ 64"
  by (simp add: timed_out_def word_less_def uint_word_ariths uint_time_to_usec mod_add_left_eq)

lemma resend_timeouts_count:
  "resend_timeouts ps now s ns = Ok ((n, ns'), s') \<Longrightarrow>
     n + int (sum_list (map (\<lambda>p. length (np_nacks p)) ns')) = int (sum_list (map (\<lambda>p. length (np_nacks p)) ns))"
proof (induction ns arbitrary: n ns' s)
  case (Cons p ns)
  obtain t where t: "get_timeout_value (np_addr p) ps = Ok t" using Cons.prems by (auto simp: bind_res_Ok_iff)
  have "length (filter (timed_out now t) xs) + length (filter (\<lambda>a. \<not> timed_out now t a) xs) = length xs" for xs
    by (induction xs) simp_all
  note len = this
  obtain m rest where r: "resend_timeouts ps now (foldl (\<lambda>s a. resend_one a s) s (filter (timed_out now t) (np_nacks p))) ns = Ok ((m, rest), s')"
    "n = int (length (filter (timed_out now t) (np_nacks p))) + m"
    "ns' = p\<lparr>np_nacks := filter (\<lambda>a. \<not> timed_out now t a) (np_nacks p)\<rparr> # rest"
    using Cons.prems by (auto simp: t walk_eqs o_def map_res_Ok_iff)
  show ?case using Cons.IH [OF r(1)] len [of "np_nacks p"] by (simp add: r(2,3))
qed simp

text \<open>
  C26: the timeout sweep. When every peer's timeout can be computed, the sweep finishes. A packet
  is overdue exactly if its send time plus its peer's timeout lies before the time of the sweep, all
  in microseconds modulo \<open>2 ^ 64\<close>. The overdue packets leave the lists of outstanding packets and
  are counted, and exactly the others stay. Provided the outstanding packets ask for
  an acknowledgement and are neither acknowledgements nor bandwidth reports, each overdue packet is
  handed to \<open>send_data\<close> with its consecutive mark cleared and its retransmission mark set; if
  there is room for them all they are then exactly what is added, at the end, to the
  retransmission queue, and the other queues are unchanged.
\<close>

theorem timeout_sweep:
  assumes "peers_distinct st" and "\<forall>p \<in> set (nacklist st). get_timeout_value (np_addr p) ps = Ok (t (np_addr p))"
  shows "\<exists>late st' s'. resend_timeout_nacks now ps s st = Ok ((int (length late), st'), s') \<and>
    set late = (\<Union>h. {a \<in> set (outstanding st h). (usecs (a_sendtime a) + uint (t h)) mod 2 ^ 64 < usecs now mod 2 ^ 64}) \<and>
    int (length late) = get_n_nack st - get_n_nack st' \<and>
    peers_distinct st' \<and> seq_num st' = seq_num st \<and>
    (\<forall>h. outstanding st' h =
      filter (\<lambda>a. \<not> (usecs (a_sendtime a) + uint (t h)) mod 2 ^ 64 < usecs now mod 2 ^ 64) (outstanding st h)) \<and>
    ((\<forall>h. list_all resendable (outstanding st h)) \<longrightarrow>
      (let again = map (\<lambda>a. (a_d a)\<lparr>sd_data := (sd_data (a_d a))[0 :=
             ((sd_data (a_d a) ! 0) AND BLOCK_MASK_CONSECUTIVE) OR BLOCK_RETRANSMISSION]\<rparr>) late
       in s' = foldl (\<lambda>s d. send_data d s) s again \<and>
          (sender_ok s \<and> length (queue_of Retr s) + length late \<le> 2000 \<and> length late \<le> qEmpty s \<longrightarrow>
            sender_ok s' \<and> queue_of Retr s' = queue_of Retr s @ again \<and>
            (\<forall>c. c \<noteq> Retr \<longrightarrow> queue_of c s' = queue_of c s))))"
proof -
  obtain late st' where r: "resend_timeout_nacks now ps s st = Ok ((int (length late), st'), foldl (\<lambda>s a. resend_one a s) s late)"
    and late: "set late = (\<Union>h. {a \<in> set (outstanding st h). timed_out (time_to_usec now) (t h) a})"
    and st': "peers_distinct st'" "seq_num st' = seq_num st"
      "\<And>h. outstanding st' h = filter (\<lambda>a. \<not> timed_out (time_to_usec now) (t h) a) (outstanding st h)"
    using timeout_sweep_late [OF assms] by blast
  have n: "int (length late) = get_n_nack st - get_n_nack st'"
    using r resend_timeouts_count by (fastforce simp: resend_timeout_nacks_def get_n_nack_def map_res_Ok_iff)
  let ?again = "map (\<lambda>a. (a_d a)\<lparr>sd_data := (sd_data (a_d a))[0 :=
      ((sd_data (a_d a) ! 0) AND BLOCK_MASK_CONSECUTIVE) OR BLOCK_RETRANSMISSION]\<rparr>) late"
  have again: "foldl (\<lambda>s a. resend_one a s) s late = foldl (\<lambda>s d. send_data d s) s ?again \<and>
      (sender_ok s \<and> length (queue_of Retr s) + length late \<le> 2000 \<and> length late \<le> qEmpty s \<longrightarrow>
        sender_ok (foldl (\<lambda>s a. resend_one a s) s late) \<and>
        queue_of Retr (foldl (\<lambda>s a. resend_one a s) s late) = queue_of Retr s @ ?again \<and>
        (\<forall>c. c \<noteq> Retr \<longrightarrow> queue_of c (foldl (\<lambda>s a. resend_one a s) s late) = queue_of c s))"
    if "\<forall>h. list_all resendable (outstanding st h)"
  proof -
    have l: "list_all resendable late" using that late by (auto simp: list_all_iff)
    note m = resent_as [OF l]
    show ?thesis using resend_foldl(1) [OF l, of s] resend_all [OF _ l, of s] unfolding m by blast
  qed
  note facts = r late [unfolded timed_out_usecs] n st'(1,2) allI [OF st'(3) [unfolded timed_out_usecs]] impI [OF again]
  show ?thesis unfolding Let_def
    by (rule exI [of _ late], rule exI [of _ st'], rule exI [of _ "foldl (\<lambda>s a. resend_one a s) s late"]) (intro conjI facts)
qed

end
