(* ===== verification/Cookie_Sender.thy ===== *)
theory Cookie_Sender
  imports Packet_Queue Peer_Stats
begin

text \<open>
  \<open>cookie_sender.c\<close>: probe packets sent back to back to two peers. \<open>ckFull\<close> counts the cookies
  announced to the sending thread, \<open>ckEmpty\<close> guards the pair of slots. The two-element arrays
  are lists of length two.
\<close>

section \<open>Model\<close>

record CookieAck =
  ca_addr :: sockaddr_in
  ca_sent :: timeval
  ca_RTT :: timeval
  ca_STT :: timeval
  ca_seq :: u16
  ca_sleeptime :: u32

record cookies =
  bogusData :: SendData
  ckData :: "SendData list"
  havecookie :: "int list"
  gotcookie :: "int list"
  ckResult :: "CookieAck list"
  ckFull :: nat
  ckEmpty :: nat

definition zero_CookieAck :: CookieAck where
  "zero_CookieAck = \<lparr>ca_addr = zero_addr, ca_sent = zero_time, ca_RTT = zero_time, ca_STT = zero_time,
     ca_seq = 0, ca_sleeptime = 0\<rparr>"

definition static_cookies :: cookies where
  "static_cookies = \<lparr>bogusData = zero_SendData, ckData = [zero_SendData, zero_SendData], havecookie = [0, 0],
     gotcookie = [0, 0], ckResult = [zero_CookieAck, zero_CookieAck], ckFull = 0, ckEmpty = 0\<rparr>"

definition init_cksender :: "cookies \<Rightarrow> cookies" where
  "init_cksender ck =
     (let n = MTU + get_header_size; bytes = replicate n 1 @ drop n (sd_data (bogusData ck))
      in ck\<lparr>havecookie := [0, 0],
            bogusData := (bogusData ck)\<lparr>sd_data := bytes[0 := NEED_ACK OR COOKIE_MSG], sd_length := of_nat n\<rparr>,
            ckFull := 0, ckEmpty := 1\<rparr>)"

definition send_cookie :: "sockaddr_in \<Rightarrow> sockaddr_in \<Rightarrow> cookies \<Rightarrow> (int \<times> cookies) res" where
  "send_cookie addr1 addr2 ck =
     (if ckEmpty ck = 0 then Err Blocked
      else Ok (1, ck\<lparr>ckEmpty := ckEmpty ck - 1,
                     ckData := [(bogusData ck)\<lparr>sd_to := addr1\<rparr>, (bogusData ck)\<lparr>sd_to := addr2\<rparr>],
                     havecookie := [1, 1], gotcookie := [0, 0], ckFull := ckFull ck + 2\<rparr>))"

definition check_answers :: "cookies \<Rightarrow> cookies" where
  "check_answers ck =
     (if gotcookie ck ! 1 = 1 \<and> gotcookie ck ! 0 = 1 then ck\<lparr>ckEmpty := ckEmpty ck + 1\<rparr> else ck)"

definition get_cookie_data :: "cookies \<Rightarrow> (SendData \<times> cookies) res" where
  "get_cookie_data ck =
     (if havecookie ck ! 0 = 1 then Ok (ckData ck ! 0, ck\<lparr>havecookie := (havecookie ck)[0 := 0]\<rparr>)
      else if havecookie ck ! 1 = 1 then Ok (ckData ck ! 1, ck\<lparr>havecookie := (havecookie ck)[1 := 0]\<rparr>)
      else Err ProcessExit)"

definition cookie_result :: "AckStore \<Rightarrow> CookieAck" where
  "cookie_result ack = \<lparr>ca_addr = as_addr ack, ca_sent = as_sent ack, ca_RTT = as_RTT ack, ca_STT = as_STT ack,
     ca_seq = as_seq ack, ca_sleeptime = as_sleeptime ack\<rparr>"

definition cookie_received :: "AckStore \<Rightarrow> cookies \<Rightarrow> int \<times> cookies" where
  "cookie_received ack ck =
     (if gotcookie ck ! 0 = 0 \<and> as_addr ack = sd_to (ckData ck ! 0)
      then (1, check_answers (ck\<lparr>gotcookie := (gotcookie ck)[0 := 1],
                                 ckResult := (ckResult ck)[0 := cookie_result ack]\<rparr>))
      else if gotcookie ck ! 1 = 0 \<and> as_addr ack = sd_to (ckData ck ! 1)
      then (1, check_answers (ck\<lparr>gotcookie := (gotcookie ck)[1 := 1],
                                 ckResult := (ckResult ck)[1 := cookie_result ack]\<rparr>))
      else (0, ck))"

definition cookie_cleanup :: "cookies \<Rightarrow> cookies" where
  "cookie_cleanup ck = ck\<lparr>havecookie := [0, 0], ckEmpty := ckEmpty ck + 1\<rparr>"

section \<open>The exchange\<close>

definition cookies_shape :: "cookies \<Rightarrow> bool" where
  "cookies_shape ck \<longleftrightarrow> length (ckData ck) = 2 \<and> length (havecookie ck) = 2 \<and> length (gotcookie ck) = 2 \<and>
     length (ckResult ck) = 2 \<and> wf_sd (bogusData ck) \<and> list_all wf_sd (ckData ck)"

lemma list_2_cases: "length xs = 2 \<Longrightarrow> \<exists>a b. xs = [a, b]"
  by (auto simp: numeral_2_eq_2 length_Suc_conv)

lemma cookies_shape_static: "cookies_shape static_cookies"
  by (simp add: cookies_shape_def static_cookies_def wf_sd_def zero_SendData_def)

lemma cookies_shape_init: "cookies_shape ck \<Longrightarrow> cookies_shape (init_cksender ck)"
  by (simp add: cookies_shape_def init_cksender_def Let_def wf_sd_def SENDBUF_def MTU_def get_header_size_def sizeof_defs)

lemma cookies_shape_ops:
  "cookies_shape ck \<Longrightarrow> send_cookie a b ck = Ok (r, ck') \<Longrightarrow> cookies_shape ck'"
  "cookies_shape ck \<Longrightarrow> get_cookie_data ck = Ok (d, ck') \<Longrightarrow> cookies_shape ck' \<and> wf_sd d"
  "cookies_shape ck \<Longrightarrow> cookies_shape (snd (cookie_received s ck))"
  "cookies_shape ck \<Longrightarrow> cookies_shape (cookie_cleanup ck)"
  by (auto simp: cookies_shape_def send_cookie_def get_cookie_data_def cookie_received_def check_answers_def
      cookie_cleanup_def list_all_iff split: if_splits)

text \<open>
  C30: a cookie exchange on free slots. The sending thread is told of two cookies and gets the one for
  the first peer, then the one for the second, and a third request would end the process. When
  an acknowledgement from each peer has come, in either order, each slot holds the
  measurements of its own peer, and the slots are released exactly once, with the second answer.
\<close>

theorem cookie_exchange:
  assumes "cookies_shape ck" and "ckEmpty ck = 1" and "addr1 \<noteq> addr2"
    and "as_addr s1 = addr1" and "as_addr s2 = addr2"
  shows "\<exists>ck1 ck2 ck3. send_cookie addr1 addr2 ck = Ok (1, ck1) \<and> ckEmpty ck1 = 0 \<and> ckFull ck1 = ckFull ck + 2 \<and>
    get_cookie_data ck1 = Ok ((bogusData ck)\<lparr>sd_to := addr1\<rparr>, ck2) \<and>
    get_cookie_data ck2 = Ok ((bogusData ck)\<lparr>sd_to := addr2\<rparr>, ck3) \<and>
    get_cookie_data ck3 = Err ProcessExit \<and>
    (\<forall>a b. (a, b) \<in> {(s1, s2), (s2, s1)} \<longrightarrow>
      (let (r1, ck4) = cookie_received a ck3; (r2, ck5) = cookie_received b ck4 in
       r1 = 1 \<and> ckEmpty ck4 = 0 \<and> r2 = 1 \<and> ckEmpty ck5 = 1 \<and>
       ckResult ck5 = [cookie_result s1, cookie_result s2]))"
proof -
  obtain r1 r2 where "ckResult ck = [r1, r2]" using assms(1) list_2_cases [of "ckResult ck"] by (auto simp: cookies_shape_def)
  then show ?thesis using assms(2-5)
    by (auto simp: send_cookie_def get_cookie_data_def cookie_received_def check_answers_def)
qed

end
