(* ===== verification/Ack_Received.thy ===== *)
theory Ack_Received
  imports Ack Cookie_Sender
begin

text \<open>
  \<open>ack_received.c\<close>, function \<open>ack_received\<close>, as built by \<open>setup.py\<close> (with
  \<open>BORA_RETRANSMISSION\<close>): it files the measurement of an acknowledged packet under its peer,
  settles lost acknowledgements, retransmits the packets that were overtaken and hands cookies on.
\<close>

section \<open>Model\<close>

record ack_world =
  aw_peers :: peer_stats
  aw_nacks :: nack_state
  aw_sender :: sender
  aw_cookies :: cookies

definition new_sample :: "Ack \<Rightarrow> AckReceived \<Rightarrow> timeval \<Rightarrow> sockaddr_in \<Rightarrow> AckStore" where
  "new_sample ack_s ack_r received from =
     \<lparr>as_addr = from, as_sent = a_sendtime ack_s, as_RTT = timersub received (a_sendtime ack_s),
      as_STT = timersub (Timeval (sint (ar_sec ack_r)) (sint (ar_usec ack_r))) (a_sendtime ack_s),
      as_seq = a_seq ack_s, as_sleeptime = a_sleeptime ack_s\<rparr>"

definition note_highest :: "AckStore \<Rightarrow> AckStore option \<Rightarrow> AckStore option" where
  "note_highest ack_store h =
     (case h of None \<Rightarrow> Some ack_store
      | Some h' \<Rightarrow> if as_seq h' < as_seq ack_store then Some ack_store else h)"

definition new_peer :: "AckStore \<Rightarrow> PeerAckStore" where
  "new_peer s =
     \<lparr>ps_addr = as_addr s, ps_minSTT = as_STT s, ps_minRTT = as_RTT s, ps_avgRTT = as_RTT s, ps_avgSTT = as_STT s,
      ps_errRTT = zero_time, ps_errSTT = zero_time, ps_lastRTT = time_to_usec (as_RTT s), ps_ack_store = [s],
      ps_cur = 0, ps_total_acked = 1, ps_total_errors = 0, ps_last_acked = 1, ps_last_error = 0\<rparr>"

definition add_sample :: "AckStore \<Rightarrow> PeerAckStore \<Rightarrow> PeerAckStore" where
  "add_sample s peer =
     peer\<lparr>ps_minRTT := (if timercmp_lt (as_RTT s) (ps_minRTT peer) then as_RTT s else ps_minRTT peer),
          ps_minSTT := (if timercmp_lt (as_STT s) (ps_minSTT peer) then as_STT s else ps_minSTT peer),
          ps_ack_store := s # ps_ack_store peer, ps_avgRTT := as_RTT s, ps_avgSTT := as_STT s,
          ps_lastRTT := time_to_usec (as_RTT s),
          ps_total_acked := ps_total_acked peer + 1, ps_last_acked := ps_last_acked peer + 1\<rparr>"

definition add_errors :: "int \<Rightarrow> timeval \<Rightarrow> timeval \<Rightarrow> PeerAckStore \<Rightarrow> PeerAckStore" where
  "add_errors errors prevSTT prevRTT peer =
     (if errors > 0
      then peer\<lparr>ps_errSTT := prevSTT, ps_errRTT := prevRTT,
                ps_total_errors := ps_total_errors peer + word_of_int errors,
                ps_last_error := ps_last_error peer + errors\<rparr>
      else peer)"

definition ack_received ::
    "Ack \<Rightarrow> AckReceived \<Rightarrow> timeval \<Rightarrow> sockaddr_in \<Rightarrow> ack_world \<Rightarrow> (int \<times> ack_world) res" where
  "ack_received ack_s ack_r received from w =
     (let st = aw_peers w; s = new_sample ack_s ack_r received from in
      if ack_list_held st then Err Blocked
      else
        let w = (case find_peer_by_host from (peeracklist st) of
            None \<Rightarrow>
              w\<lparr>aw_nacks := snd (remove_ooo_nacks ack_s (aw_nacks w)),
                aw_peers := st\<lparr>peeracklist := new_peer s # peeracklist st,
                               highest_seq := note_highest s (highest_seq st)\<rparr>\<rparr>
          | Some p \<Rightarrow>
              let peer = peeracklist st ! p;
                  (prevRTT, prevSTT) = (case ps_ack_store peer of
                      [] \<Rightarrow> (as_RTT s, as_STT s)
                    | prev # _ \<Rightarrow> (as_RTT prev, as_STT prev));
                  peer = add_sample s peer;
                  (lost_acks, nacks) = remove_lost_acks ack_s (ar_cons ack_r) (aw_nacks w);
                  ((errors, nacks), snd_r) = resend_ooo_nacks ack_s (aw_sender w) nacks;
                  peer = add_errors errors prevSTT prevRTT peer
              in w\<lparr>aw_nacks := nacks, aw_sender := snd_r,
                   aw_peers := st\<lparr>peeracklist := (peeracklist st)[p := peer],
                                  highest_seq := note_highest s (highest_seq st)\<rparr>\<rparr>);
            w = (if sd_data (a_d ack_s) ! 0 = NEED_ACK OR COOKIE_MSG
                 then w\<lparr>aw_cookies := snd (cookie_received s (aw_cookies w))\<rparr> else w)
        in Ok (1, w))"

section \<open>The statistics invariant\<close>

text \<open>
  One entry per peer, the samples kept under a peer are its own, and the recorded minima bound
  every sample that is still stored.
\<close>

definition peer_ok :: "PeerAckStore \<Rightarrow> bool" where
  "peer_ok p \<longleftrightarrow> (\<forall>s \<in> set (ps_ack_store p). as_addr s = ps_addr p \<and> ps_minRTT p \<le> as_RTT s \<and> ps_minSTT p \<le> as_STT s) \<and>
     ps_minRTT p \<le> ps_avgRTT p \<and> ps_minSTT p \<le> ps_avgSTT p \<and> ps_lastRTT p = time_to_usec (ps_avgRTT p)"

definition peer_stats_ok :: "peer_stats \<Rightarrow> bool" where
  "peer_stats_ok st \<longleftrightarrow> distinct (map ps_addr (peeracklist st)) \<and> (\<forall>p \<in> set (peeracklist st). peer_ok p)"

lemma new_peer_ok: "peer_ok (new_peer s)"
  by (simp add: peer_ok_def new_peer_def)

lemma add_sample_ok: "peer_ok p \<Longrightarrow> as_addr s = ps_addr p \<Longrightarrow> peer_ok (add_sample s p)"
  by (auto simp: peer_ok_def add_sample_def timercmp_lt_less)

lemma add_errors_ok [simp]: "peer_ok (add_errors n a b p) = peer_ok p"
  by (simp add: peer_ok_def add_errors_def)

lemma add_fields [simp]:
  "ps_addr (add_sample s p) = ps_addr p" "ps_addr (add_errors n a b p) = ps_addr p"
  by (simp_all add: add_sample_def add_errors_def)

lemma note_highest_max:
  "note_highest s h = Some m \<Longrightarrow> as_seq s \<le> as_seq m \<and> (\<forall>h'. h = Some h' \<longrightarrow> as_seq h' \<le> as_seq m) \<and> (m = s \<or> h = Some m)"
  by (auto simp: note_highest_def split: option.splits if_splits)

lemma ack_received_cookies:
  "ack_received ack_s ack_r received from w = Ok (r, w') \<Longrightarrow>
     aw_cookies w' = (if sd_data (a_d ack_s) ! 0 = NEED_ACK OR COOKIE_MSG
       then snd (cookie_received (new_sample ack_s ack_r received from) (aw_cookies w)) else aw_cookies w)"
  by (auto simp: ack_received_def Let_def split: if_splits option.splits prod.splits)

text \<open>The acknowledgement of a packet to a peer that is already known.\<close>

lemma ack_received_known:
  assumes "\<not> ack_list_held (aw_peers w)" and p: "find_peer_by_host from (peeracklist (aw_peers w)) = Some p"
    and "remove_lost_acks ack_s (ar_cons ack_r) (aw_nacks w) = (l, ns)"
    and "resend_ooo_nacks ack_s (aw_sender w) ns = ((errors, ns'), snd_r)"
  shows "\<exists>a b w'. ack_received ack_s ack_r received from w = Ok (1, w') \<and> aw_nacks w' = ns' \<and> aw_sender w' = snd_r \<and>
    aw_peers w' = (aw_peers w)
      \<lparr>peeracklist := (peeracklist (aw_peers w))[p := add_errors errors a b
         (add_sample (new_sample ack_s ack_r received from) (peeracklist (aw_peers w) ! p))],
       highest_seq := note_highest (new_sample ack_s ack_r received from) (highest_seq (aw_peers w))\<rparr>"
  using assms by (fastforce simp: ack_received_def Let_def split: list.splits)

lemma ack_received_unknown:
  assumes "\<not> ack_list_held (aw_peers w)" and "find_peer_by_host from (peeracklist (aw_peers w)) = None"
  shows "\<exists>w'. ack_received ack_s ack_r received from w = Ok (1, w') \<and>
    aw_nacks w' = snd (remove_ooo_nacks ack_s (aw_nacks w)) \<and> aw_sender w' = aw_sender w \<and>
    aw_peers w' = (aw_peers w)
      \<lparr>peeracklist := new_peer (new_sample ack_s ack_r received from) # peeracklist (aw_peers w),
       highest_seq := note_highest (new_sample ack_s ack_r received from) (highest_seq (aw_peers w))\<rparr>"
  using assms by (auto simp: ack_received_def Let_def)

lemma ack_received_invariant:
  assumes "\<not> ack_list_held (aw_peers w)" and "peer_stats_ok (aw_peers w)" and "peers_distinct (aw_nacks w)"
  shows "\<exists>w'. ack_received ack_s ack_r received from w = Ok (1, w') \<and> peer_stats_ok (aw_peers w') \<and>
    peers_distinct (aw_nacks w') \<and> \<not> ack_list_held (aw_peers w') \<and> seq_num (aw_nacks w') = seq_num (aw_nacks w) \<and>
    (\<exists>p \<in> set (peeracklist (aw_peers w')). ps_addr p = from \<and>
       hd (ps_ack_store p) = new_sample ack_s ack_r received from \<and> ps_ack_store p \<noteq> [])"
proof (cases "find_peer_by_host from (peeracklist (aw_peers w))")
  case None
  have "peers_distinct (snd (remove_ooo_nacks ack_s (aw_nacks w))) \<and>
      seq_num (snd (remove_ooo_nacks ack_s (aw_nacks w))) = seq_num (aw_nacks w)"
    using remove_ooo_outstanding [OF assms(3), of ack_s] by auto
  moreover have "from \<notin> ps_addr ` set (peeracklist (aw_peers w))" using None by (simp add: peers.find_None_iff)
  ultimately show ?thesis
    using ack_received_unknown [OF assms(1) None, of ack_s ack_r received] assms(1,2) new_peer_ok
    by (auto simp: peer_stats_ok_def) (auto simp: new_peer_def new_sample_def)
next
  case (Some p)
  let ?s = "new_sample ack_s ack_r received from" and ?l = "peeracklist (aw_peers w)"
  obtain l ns where l: "remove_lost_acks ack_s (ar_cons ack_r) (aw_nacks w) = (l, ns)" "peers_distinct ns"
    "seq_num ns = seq_num (aw_nacks w)"
    using remove_lost_outstanding [OF assms(3), of ack_s "ar_cons ack_r"] by blast
  obtain e ns' sr where e: "resend_ooo_nacks ack_s (aw_sender w) ns = ((e, ns'), sr)" "peers_distinct ns'" "seq_num ns' = seq_num ns"
    using resend_ooo_outstanding [OF l(2), of ack_s "aw_sender w"] by blast
  have p: "p < length ?l" "ps_addr (?l ! p) = from" using peers.find_SomeD [OF Some] by auto
  have ok: "peer_ok (add_sample ?s (?l ! p))"
    using p assms(2) by (intro add_sample_ok) (auto simp: peer_stats_ok_def new_sample_def)
  have d: "distinct (map ps_addr (?l[p := add_errors e a b (add_sample ?s (?l ! p))]))" for a b
    using assms(2) by (simp add: map_key_update peer_stats_ok_def)
  have "hd (ps_ack_store (add_errors e a b (add_sample ?s q))) = ?s \<and> ps_ack_store (add_errors e a b (add_sample ?s q)) \<noteq> []"
    for a b q by (simp add: add_errors_def add_sample_def)
  then have "\<exists>q \<in> set (?l[p := add_errors e a b (add_sample ?s (?l ! p))]). ps_addr q = from \<and> hd (ps_ack_store q) = ?s \<and> ps_ack_store q \<noteq> []"
    for a b using p set_update_memI [OF p(1)] by (metis add_fields)
  moreover have "\<forall>q \<in> set (?l[p := add_errors e a b (add_sample ?s (?l ! p))]). peer_ok q" for a b
    using ok assms(2) set_update_subset_insert [of ?l p "add_errors e a b (add_sample ?s (?l ! p))"]
    by (auto simp: peer_stats_ok_def)
  ultimately show ?thesis
    using ack_received_known [OF assms(1) Some l(1) e(1), of received] e l assms(1) d by (auto simp: peer_stats_ok_def)
qed

text \<open>The two walks over the outstanding packets that a known peer's acknowledgement starts.\<close>

lemma overtaken_walks:
  assumes "peers_distinct st" and "h = sd_to (a_d ack)"
    and "late = filter (\<lambda>a. a_sendtime a < a_sendtime ack \<and> \<not> ack_was_lost ack cons a) (outstanding st h)"
  shows "\<exists>ns ns'. remove_lost_acks ack cons st = (0, ns) \<and>
    resend_ooo_nacks ack s ns = ((int (length late), ns'), foldl (\<lambda>s a. resend_one a s) s late) \<and> peers_distinct ns' \<and>
    outstanding ns' = (outstanding st)(h := filter (\<lambda>a. a_sendtime ack \<le> a_sendtime a) (outstanding st h))"
proof -
  let ?o = "outstanding st h"
  obtain ns where l: "remove_lost_acks ack cons st = (0, ns)" "peers_distinct ns"
    "outstanding ns = (outstanding st)(h := filter (\<lambda>a. \<not> ack_was_lost ack cons a) ?o)"
    using remove_lost_outstanding [OF assms(1), of ack cons] assms(2) by auto
  have "filter (\<lambda>a. a_sendtime a < a_sendtime ack) (filter (\<lambda>a. \<not> ack_was_lost ack cons a) ?o) = late"
    by (simp add: assms(3) conj_commute)
  moreover have "filter (\<lambda>a. \<not> a_sendtime a < a_sendtime ack) (filter (\<lambda>a. \<not> ack_was_lost ack cons a) ?o) =
      filter (\<lambda>a. a_sendtime ack \<le> a_sendtime a) ?o"
    by (auto simp: not_less ack_was_lost_def timercmp_lt_less intro!: filter_cong)
  ultimately show ?thesis
    using resend_ooo_outstanding [OF l(2), of ack s] l(1)
    by (auto simp: timercmp_lt_less l(3) simp flip: assms(2))
qed

text \<open>Known peer or not, every packet sent before the acknowledged one is no longer outstanding.\<close>

lemma ack_received_settles:
  assumes "\<not> ack_list_held (aw_peers w)" and "peers_distinct (aw_nacks w)" and "h = sd_to (a_d ack_s)"
  shows "\<exists>w'. ack_received ack_s ack_r received from w = Ok (1, w') \<and> peers_distinct (aw_nacks w') \<and>
    outstanding (aw_nacks w') = (outstanding (aw_nacks w))
      (h := filter (\<lambda>a. a_sendtime ack_s \<le> a_sendtime a) (outstanding (aw_nacks w) h))"
proof (cases "find_peer_by_host from (peeracklist (aw_peers w))")
  case None
  then show ?thesis
    using ack_received_unknown [OF assms(1) None, of ack_s ack_r received] remove_ooo_outstanding [OF assms(2), of ack_s]
    by (fastforce simp: timercmp_lt_less not_less assms(3))
next
  case (Some p)
  obtain ns ns' e s where l: "remove_lost_acks ack_s (ar_cons ack_r) (aw_nacks w) = (0, ns)"
    "resend_ooo_nacks ack_s (aw_sender w) ns = ((e, ns'), s)" "peers_distinct ns'"
    "outstanding ns' = (outstanding (aw_nacks w))(h := filter (\<lambda>a. a_sendtime ack_s \<le> a_sendtime a) (outstanding (aw_nacks w) h))"
    using overtaken_walks [OF assms(2,3) refl, of "ar_cons ack_r" "aw_sender w"] by blast
  show ?thesis using ack_received_known [OF assms(1) Some l(1,2), of received] l(3,4) by fastforce
qed

text \<open>When no packet was sent before the acknowledged one, nothing is sent again.\<close>

lemma ack_received_in_order:
  assumes "\<not> ack_list_held (aw_peers w)" and "peers_distinct (aw_nacks w)" and "h = sd_to (a_d ack_s)"
    and "\<forall>a \<in> set (outstanding (aw_nacks w) h). a_sendtime ack_s \<le> a_sendtime a"
  shows "\<exists>w'. ack_received ack_s ack_r received from w = Ok (1, w') \<and> peers_distinct (aw_nacks w') \<and>
    outstanding (aw_nacks w') = outstanding (aw_nacks w) \<and> aw_sender w' = aw_sender w \<and> \<not> ack_list_held (aw_peers w')"
proof -
  have all: "filter (\<lambda>a. a_sendtime ack_s \<le> a_sendtime a) (outstanding (aw_nacks w) h) = outstanding (aw_nacks w) h"
    using assms(4) by (simp add: filter_id_conv)
  obtain w' where w': "ack_received ack_s ack_r received from w = Ok (1, w')" "peers_distinct (aw_nacks w')"
    "outstanding (aw_nacks w') = outstanding (aw_nacks w)"
    using ack_received_settles [OF assms(1-3), of ack_r received "from", unfolded all] by auto
  have "aw_sender w' = aw_sender w \<and> \<not> ack_list_held (aw_peers w')"
  proof (cases "find_peer_by_host from (peeracklist (aw_peers w))")
    case None
    then show ?thesis using ack_received_unknown [OF assms(1) None, of ack_s ack_r received] w'(1) assms(1) by auto
  next
    case (Some p)
    have "filter (\<lambda>a. a_sendtime a < a_sendtime ack_s \<and> \<not> ack_was_lost ack_s (ar_cons ack_r) a) (outstanding (aw_nacks w) h) = []"
      using assms(4) by (auto simp: filter_empty_conv not_less)
    then obtain ns ns' where l: "remove_lost_acks ack_s (ar_cons ack_r) (aw_nacks w) = (0, ns)"
      "resend_ooo_nacks ack_s (aw_sender w) ns = ((0, ns'), aw_sender w)"
      using overtaken_walks [OF assms(2,3) refl, of "ar_cons ack_r" "aw_sender w"] by auto
    from ack_received_known [OF assms(1) Some l, of received] show ?thesis using w'(1) assms(1) by auto
  qed
  then show ?thesis using w' by blast
qed

text \<open>
  C27: what an acknowledgement from a known peer does to the packets sent before the acknowledged one:
  those its counter of consecutive fragments covers are settled, all others are resent, newest first, and
  counted as errors, and exactly the packets not sent earlier remain outstanding. The peer's
  counters and times follow. Resent packets that ask for an acknowledgement and are neither acknowledgements nor
  bandwidth reports go to \<open>send_data\<close> with the consecutive mark cleared and the retransmission mark set.
\<close>

theorem ack_received_known_peer:
  assumes "\<not> ack_list_held (aw_peers w)" and "peers_distinct (aw_nacks w)"
    and "find_peer_by_host from (peeracklist (aw_peers w)) = Some p" and "h = sd_to (a_d ack_s)"
    and "late = filter (\<lambda>a. a_sendtime a < a_sendtime ack_s \<and> \<not> ack_was_lost ack_s (ar_cons ack_r) a) (outstanding (aw_nacks w) h)"
  shows "\<exists>w' q. ack_received ack_s ack_r received from w = Ok (1, w') \<and>
    outstanding (aw_nacks w') = (outstanding (aw_nacks w))
      (h := filter (\<lambda>a. a_sendtime ack_s \<le> a_sendtime a) (outstanding (aw_nacks w) h)) \<and>
    aw_sender w' = foldl (\<lambda>s a. resend_one a s) (aw_sender w) late \<and>
    (list_all resendable late \<longrightarrow> aw_sender w' = foldl (\<lambda>s d. send_data d s) (aw_sender w)
      (map (\<lambda>a. (a_d a)\<lparr>sd_data := (sd_data (a_d a))[0 :=
        ((sd_data (a_d a) ! 0) AND BLOCK_MASK_CONSECUTIVE) OR BLOCK_RETRANSMISSION]\<rparr>) late)) \<and>
    peeracklist (aw_peers w') = (peeracklist (aw_peers w))[p := q] \<and>
    ps_total_acked q = ps_total_acked (peeracklist (aw_peers w) ! p) + 1 \<and>
    ps_total_errors q = ps_total_errors (peeracklist (aw_peers w) ! p) + of_nat (length late) \<and>
    ps_last_error q = ps_last_error (peeracklist (aw_peers w) ! p) + int (length late) \<and>
    ps_minRTT q = min (ps_minRTT (peeracklist (aw_peers w) ! p)) (timersub received (a_sendtime ack_s)) \<and>
    ps_lastRTT q = time_to_usec (timersub received (a_sendtime ack_s))"
proof -
  obtain ns ns' where l: "remove_lost_acks ack_s (ar_cons ack_r) (aw_nacks w) = (0, ns)"
    "resend_ooo_nacks ack_s (aw_sender w) ns = ((int (length late), ns'), foldl (\<lambda>s a. resend_one a s) (aw_sender w) late)"
    "outstanding ns' = (outstanding (aw_nacks w))(h := filter (\<lambda>a. a_sendtime ack_s \<le> a_sendtime a) (outstanding (aw_nacks w) h))"
    using overtaken_walks [OF assms(2,4,5)] by blast
  have q: "ps_total_errors (add_errors (int n) a b r) = ps_total_errors r + of_nat n"
    "ps_last_error (add_errors (int n) a b r) = ps_last_error r + int n"
    "ps_total_acked (add_errors (int n) a b r) = ps_total_acked r" "ps_minRTT (add_errors (int n) a b r) = ps_minRTT r"
    "ps_lastRTT (add_errors (int n) a b r) = ps_lastRTT r" for n a b r
    by (simp_all add: add_errors_def)
  have again: "list_all resendable late \<Longrightarrow> foldl (\<lambda>s a. resend_one a s) (aw_sender w) late = foldl (\<lambda>s d. send_data d s) (aw_sender w)
      (map (\<lambda>a. (a_d a)\<lparr>sd_data := (sd_data (a_d a))[0 :=
        ((sd_data (a_d a) ! 0) AND BLOCK_MASK_CONSECUTIVE) OR BLOCK_RETRANSMISSION]\<rparr>) late)"
    using resend_foldl(1) [of late "aw_sender w"] by (simp add: resent_as)
  show ?thesis
    using ack_received_known [OF assms(1,3) l(1,2), of received] l(3)
    by (fastforce simp: q add_sample_def new_sample_def timercmp_lt_less min_def dest: again)
qed

text \<open>
  The first acknowledgement of a peer is handled differently: the packets sent to it earlier and
  still outstanding are dropped and nothing is put in any queue, so they are never retransmitted.
\<close>

lemma first_acknowledgement_drops_overtaken:
  assumes "\<not> ack_list_held (aw_peers w)" and "peers_distinct (aw_nacks w)"
    and "find_peer_by_host from (peeracklist (aw_peers w)) = None" and "h = sd_to (a_d ack_s)"
  shows "\<exists>w'. ack_received ack_s ack_r received from w = Ok (1, w') \<and> aw_sender w' = aw_sender w \<and>
    outstanding (aw_nacks w') = (outstanding (aw_nacks w))
      (h := filter (\<lambda>a. a_sendtime ack_s \<le> a_sendtime a) (outstanding (aw_nacks w) h)) \<and>
    (\<exists>q. peeracklist (aw_peers w') = q # peeracklist (aw_peers w) \<and> ps_addr q = from \<and> ps_total_errors q = 0)"
  using ack_received_unknown [OF assms(1,3), of ack_s ack_r received] remove_ooo_outstanding [OF assms(2), of ack_s]
  by (fastforce simp: timercmp_lt_less not_less assms(4) new_peer_def new_sample_def)

end
