(* ===== verification/Packet_Sender.thy ===== *)
theory Packet_Sender
  imports Ack_Received
begin

text \<open>
  The sending thread of \<open>packet_sender.c\<close>: \<open>packet_send\<close> picks the next packet, stamps it and
  hands it to the socket, and one round of the loop of \<open>send_packet\<close> sends either one packet or
  a back-to-back pair to one host. What comes from outside is an argument: the two clock readings
  and whether \<open>sendto\<close> succeeded. Built without \<open>BORA_DROP\<close>, as in \<open>setup.py\<close>.
\<close>

section \<open>Model\<close>

record send_env =
  t_start :: timeval
  t_end :: timeval
  sendto_ok :: bool

text \<open>What a call shows outside: the datagram, its destination, the idle time, the wake-up of the puller.\<close>

record sent =
  so_wire :: "u8 list"
  so_to :: sockaddr_in
  so_ret :: timeval
  so_hit :: bool

definition S_TRESHOLD :: u64 where "S_TRESHOLD = 50000"

definition HIT_TRESHOLD :: "sender \<Rightarrow> bool res" where
  "HIT_TRESHOLD s =
     (if bandwidth s = 0 then Err DivByZero
      else Ok (S_TRESHOLD > word_of_int (int MTU * r_f (send_q s) * 1000000) div bandwidth s))"

text \<open>Which packet: \<open>c\<close> is 1 for the priority queue, 2 for a retransmission, 0 for data and cookies.\<close>

definition take_data :: "ack_world \<Rightarrow> SendData \<times> ack_world" where
  "take_data w =
     (let s = aw_sender w; (d, q) = ring_get (send_q s) in (d, w\<lparr>aw_sender := s\<lparr>send_q := q\<rparr>\<rparr>))"

definition take_packet :: "ack_world \<Rightarrow> (nat \<times> SendData \<times> ack_world) res" where
  "take_packet w =
     (if z (aw_sender w) then Ok (0, take_data w)
      else
        let w = w\<lparr>aw_sender := (aw_sender w)\<lparr>lasthost := None\<rparr>\<rparr>; s = aw_sender w; ck = aw_cookies w in
        if ckFull ck > 0
        then bind_res (get_cookie_data (ck\<lparr>ckFull := ckFull ck - 1\<rparr>))
               (\<lambda>(d, ck). Ok (0, d, w\<lparr>aw_cookies := ck\<rparr>))
        else if r_f (prio_q s) \<noteq> 0
        then let (d, q) = ring_get (prio_q s) in Ok (1, d, w\<lparr>aw_sender := s\<lparr>prio_q := q\<rparr>\<rparr>)
        else if r_f (retr_q s) \<noteq> 0
        then let (d, q) = ring_get (retr_q s) in Ok (2, d, w\<lparr>aw_sender := s\<lparr>retr_q := q\<rparr>\<rparr>)
        else Ok (0, take_data w))"

definition bump :: "nat \<Rightarrow> u64 \<Rightarrow> u64 list \<Rightarrow> u64 list" where
  "bump i n xs = xs[i := xs ! i + n]"

definition count_sent :: "nat \<Rightarrow> u64 \<Rightarrow> u64 list \<Rightarrow> u64 list" where
  "count_sent c l st =
     (let st = (if c = 1 then bump O_ACK_DATA_COUNTER l (bump O_ACK_COUNTER 1 st)
                else if c = 2 then bump O_RETR_DATA_COUNTER l (bump O_RETR_COUNTER 1 st) else st)
      in bump O_DATA_COUNTER l (bump O_PKG_COUNTER 1 st))"

definition stamp_packet :: "send_env \<Rightarrow> SendData \<Rightarrow> ack_world \<Rightarrow> (SendData \<times> ack_world) res" where
  "stamp_packet env d w =
     (if has (sd_data d ! 0) NEED_ACK
      then bind_res (append_ack d (t_end env) (ucast (sleeptime (aw_sender w))) (aw_nacks w))
             (\<lambda>(l, d, ns). Ok (d\<lparr>sd_length := l\<rparr>, w\<lparr>aw_nacks := ns\<rparr>))
      else Ok (d, w))"

definition mark_consecutive :: "bool \<Rightarrow> SendData \<Rightarrow> SendData" where
  "mark_consecutive zz d =
     (if zz then d\<lparr>sd_data := (sd_data d)[0 := (sd_data d ! 0) OR BLOCK_CONSECUTIVE]\<rparr> else d)"

definition append_port :: "u16 \<Rightarrow> SendData \<Rightarrow> SendData res" where
  "append_port port d =
     (if sd_data d ! 0 \<noteq> 0
      then bind_res (memcpy (sd_data d) (unat (sd_length d)) (bytes_of_u16 port) 2)
             (\<lambda>data. Ok (d\<lparr>sd_data := data, sd_length := sd_length d + 2\<rparr>))
      else Ok d)"

definition next_lasthost :: "send_env \<Rightarrow> nat \<Rightarrow> SendData \<Rightarrow> sender \<Rightarrow> sockaddr_in option" where
  "next_lasthost env c d s =
     (if \<not> sendto_ok env \<or> c \<noteq> 0 then lasthost s
      else if z s then None
      else if has (sd_data d ! 0) BLK_BLOCK then Some (sd_to d) else lasthost s)"

definition emit_packet :: "send_env \<Rightarrow> bool \<Rightarrow> nat \<Rightarrow> SendData \<Rightarrow> ack_world \<Rightarrow> (sent \<times> ack_world) res" where
  "emit_packet env hit c d w =
     (let s = aw_sender w in
      if bandwidth s = 0 then Err DivByZero
      else
        let w = w\<lparr>aw_sender := s\<lparr>sleeptime := (1000000 * ucast (sd_length d)) div bandwidth s\<rparr>\<rparr>
        in bind_res (stamp_packet env d w) (\<lambda>(d, w).
           bind_res (append_port (natPort (aw_sender w)) (mark_consecutive (z (aw_sender w)) d)) (\<lambda>d.
             if unat (sd_length d) > length (sd_data d) then Err OutOfBounds
             else
               let s = aw_sender w; ret = timersub (t_end env) (t_start env);
                   s = s\<lparr>lasthost := next_lasthost env c d s, qEmpty := qEmpty s + 1,
                         idleTime := timeradd ret (idleTime s),
                         stats_s := count_sent c (ucast (sd_length d)) (stats_s s)\<rparr>
               in Ok (\<lparr>so_wire = take (unat (sd_length d)) (sd_data d), so_to = sd_to d, so_ret = ret, so_hit = hit\<rparr>,
                      w\<lparr>aw_sender := s\<rparr>))))"

definition packet_send :: "send_env \<Rightarrow> ack_world \<Rightarrow> (sent \<times> ack_world) res" where
  "packet_send env w =
     bind_res (HIT_TRESHOLD (aw_sender w)) (\<lambda>hit.
       let s = aw_sender w in
       if sFull s = 0 then Err Blocked
       else bind_res (take_packet (w\<lparr>aw_sender := s\<lparr>sFull := sFull s - 1\<rparr>\<rparr>))
              (\<lambda>(c, d, w). emit_packet env hit c d w))"

text \<open>The head of the data queue goes to the host of the packet just sent.\<close>

definition next_is_consecutive :: "sender \<Rightarrow> sockaddr_in \<Rightarrow> bool" where
  "next_is_consecutive s h \<longleftrightarrow>
     r_f (send_q s) > 0 \<and>
     (let nexthost = sd_to (fst (ring_get (send_q s)))
      in sin_port nexthost = sin_port h \<and> sin_addr nexthost = sin_addr h)"

definition send_pair :: "send_env \<Rightarrow> ack_world \<Rightarrow> (sent list \<times> ack_world) res" where
  "send_pair env w =
     (let s = aw_sender w in
      case lasthost s of
        None \<Rightarrow> Ok ([], w)
      | Some h \<Rightarrow>
          let s = (if next_is_consecutive s h then s\<lparr>z := True\<rparr> else s) in
          if z s
          then bind_res (packet_send env (w\<lparr>aw_sender := s\<rparr>)) (\<lambda>(o1, w).
                 Ok ([o1], w\<lparr>aw_sender := (aw_sender w)\<lparr>sleeptime := sleeptime s + sleeptime (aw_sender w)\<rparr>\<rparr>))
          else Ok ([], w\<lparr>aw_sender := s\<lparr>lasthost := None\<rparr>\<rparr>))"

text \<open>
  One round of the loop of \<open>send_packet\<close>: the datagrams sent, the time slept before the last of
  them, and whether the puller was woken at the end of the round.
\<close>

definition send_packet_round :: "send_env \<Rightarrow> send_env \<Rightarrow> ack_world \<Rightarrow> (sent list \<times> u64 \<times> bool \<times> ack_world) res" where
  "send_packet_round env1 env2 w =
     bind_res (send_pair env1 w) (\<lambda>(os, w).
       let w = w\<lparr>aw_sender := (aw_sender w)\<lparr>z := False\<rparr>\<rparr>; slept = sleeptime (aw_sender w) in
       bind_res (packet_send env2 w) (\<lambda>(o2, w).
         bind_res (HIT_TRESHOLD (aw_sender w)) (\<lambda>hit. Ok (os @ [o2], slept, hit, w))))"

definition sender_end_tokens :: "sender \<Rightarrow> sender" where
  "sender_end_tokens s = s\<lparr>sFull := sFull s + 1, qEmpty := qEmpty s + 1\<rparr>"

section \<open>The datagram\<close>

text \<open>A packet that leaves room for the two trailers.\<close>

definition fits :: "SendData \<Rightarrow> bool" where
  "fits d \<longleftrightarrow> wf_sd d \<and> 1 \<le> unat (sd_length d) \<and> unat (sd_length d) \<le> 1496"

lemma take_patch_append:
  assumes "off + length src \<le> length dst" and "n = off + length src"
  shows "take n (patch dst off src) = take off dst @ src"
  using assms by (simp add: patch_def)

lemma unat_add_2: "unat (l :: u32) \<le> 1498 \<Longrightarrow> unat (l + 2) = unat l + 2"
  by (simp add: unat_word_ariths)

lemma append_ack_total:
  "unat (sd_length d) + 2 \<le> length (sd_data d) \<Longrightarrow> \<exists>l d' ns. append_ack d ts sl st = Ok (l, d', ns)"
  by (cases "nack_find_by_host (sd_to d) (nacklist st)") (simp_all add: append_ack_def Let_def memcpy_def)

lemma stamp_packet_ok:
  assumes "fits d" and "peers_distinct (aw_nacks w)"
  shows "\<exists>d' ns. stamp_packet env d w = Ok (d', w\<lparr>aw_nacks := ns\<rparr>) \<and> wf_sd d' \<and> sd_to d' = sd_to d \<and>
    sd_data d' ! 0 = sd_data d ! 0 \<and>
    unat (sd_length d') = unat (sd_length d) + (if has (sd_data d ! 0) NEED_ACK then 2 else 0) \<and>
    take (unat (sd_length d')) (sd_data d') = take (unat (sd_length d)) (sd_data d) @
      (if has (sd_data d ! 0) NEED_ACK then bytes_of_u16 (seq_num (aw_nacks w) + 1) else []) \<and>
    peers_distinct ns \<and>
    outstanding ns = (if has (sd_data d ! 0) NEED_ACK
      then (outstanding (aw_nacks w))(sd_to d := \<lparr>a_seq = seq_num (aw_nacks w) + 1, a_sendtime = t_end env,
             a_sleeptime = ucast (sleeptime (aw_sender w)), a_d = d\<rparr> # outstanding (aw_nacks w) (sd_to d))
      else outstanding (aw_nacks w)) \<and>
    seq_num ns = (if has (sd_data d ! 0) NEED_ACK then seq_num (aw_nacks w) + 1 else seq_num (aw_nacks w))"
proof (cases "has (sd_data d ! 0) NEED_ACK")
  case True
  have len: "length (sd_data d) = 1500" "1 \<le> unat (sd_length d)" "unat (sd_length d) + 2 \<le> 1498"
    using assms(1) by (simp_all add: fits_def wf_sd_def SENDBUF_def)
  let ?sl = "ucast (sleeptime (aw_sender w)) :: u32"
  obtain l d1 ns where a: "append_ack d (t_end env) ?sl (aw_nacks w) = Ok (l, d1, ns)"
    using append_ack_total [of d] len by force
  note o = append_ack_outstanding [OF assms(2) a]
  have l: "unat l = unat (sd_length d) + 2" using o(4) len by (simp add: unat_add_2)
  have "take (unat l) (sd_data d1) = take (unat (sd_length d)) (sd_data d) @ bytes_of_u16 (seq_num (aw_nacks w) + 1)"
    using o(6) len l by (simp add: take_patch_append)
  moreover have "sd_data d1 ! 0 = sd_data d ! 0" using o(6) len by (simp add: nth_patch)
  moreover have "wf_sd d1" using o(6) len by (simp add: wf_sd_def SENDBUF_def)
  ultimately show ?thesis using True a o l by (auto simp: stamp_packet_def wf_sd_def)
next
  case False
  then show ?thesis using assms by (cases w) (simp add: stamp_packet_def fits_def)
qed

lemma mark_consecutive_fields:
  fixes zz :: bool
  assumes "wf_sd d" and "1 \<le> unat (sd_length d)"
  defines "f \<equiv> (if zz then (sd_data d ! 0) OR BLOCK_CONSECUTIVE else sd_data d ! 0)"
  shows "wf_sd (mark_consecutive zz d)" "sd_to (mark_consecutive zz d) = sd_to d"
    "sd_length (mark_consecutive zz d) = sd_length d" "sd_data (mark_consecutive zz d) ! 0 = f"
    "take (unat (sd_length d)) (sd_data (mark_consecutive zz d)) = f # tl (take (unat (sd_length d)) (sd_data d))"
proof -
  obtain x xs where "sd_data d = x # xs" using assms(1) by (cases "sd_data d") (auto simp: wf_sd_def SENDBUF_def)
  moreover obtain k where "unat (sd_length d) = Suc k" using assms(2) by (cases "unat (sd_length d)") auto
  ultimately show "wf_sd (mark_consecutive zz d)" "sd_to (mark_consecutive zz d) = sd_to d"
    "sd_length (mark_consecutive zz d) = sd_length d" "sd_data (mark_consecutive zz d) ! 0 = f"
    "take (unat (sd_length d)) (sd_data (mark_consecutive zz d)) = f # tl (take (unat (sd_length d)) (sd_data d))"
    using assms(1) by (auto simp: mark_consecutive_def f_def wf_sd_def)
qed

lemma append_port_ok:
  assumes "wf_sd d" and "unat (sd_length d) \<le> 1498"
  shows "\<exists>d'. append_port port d = Ok d' \<and> wf_sd d' \<and> sd_to d' = sd_to d \<and>
    unat (sd_length d') = unat (sd_length d) + (if sd_data d ! 0 \<noteq> 0 then 2 else 0) \<and>
    (1 \<le> unat (sd_length d) \<longrightarrow> sd_data d' ! 0 = sd_data d ! 0) \<and>
    take (unat (sd_length d')) (sd_data d') =
      take (unat (sd_length d)) (sd_data d) @ (if sd_data d ! 0 \<noteq> 0 then bytes_of_u16 port else [])"
  using assms by (auto simp: append_port_def wf_sd_def SENDBUF_def memcpy_def unat_add_2 take_patch_append nth_patch)

text \<open>The datagram that leaves: the packet with its flags, the sequence number, the port.\<close>

definition wire_of :: "bool \<Rightarrow> u16 \<Rightarrow> u16 \<Rightarrow> SendData \<Rightarrow> u8 list" where
  "wire_of zz seq port d =
     (let f = (if zz then (sd_data d ! 0) OR BLOCK_CONSECUTIVE else sd_data d ! 0) in
      f # tl (take (unat (sd_length d)) (sd_data d)) @
      (if has (sd_data d ! 0) NEED_ACK then bytes_of_u16 seq else []) @ (if f \<noteq> 0 then bytes_of_u16 port else []))"

lemma emit_packet_ok:
  fixes env :: send_env and w :: ack_world
  assumes d: "fits d" and s: "aw_sender w = s" and ns0: "aw_nacks w = ns0" and n: "peers_distinct ns0"
    and bw: "bandwidth s \<noteq> 0"
  defines "sl \<equiv> (1000000 * ucast (sd_length d)) div bandwidth s"
  shows "\<exists>o1 w' l lh. emit_packet env hit c d w = Ok (o1, w') \<and>
    so_wire o1 = wire_of (z s) (seq_num ns0 + 1) (natPort s) d \<and> so_to o1 = sd_to d \<and> so_hit o1 = hit \<and>
    aw_sender w' = s\<lparr>sleeptime := sl, lasthost := lh, qEmpty := qEmpty s + 1,
      idleTime := timeradd (timersub (t_end env) (t_start env)) (idleTime s), stats_s := count_sent c l (stats_s s)\<rparr> \<and>
    l = of_nat (length (so_wire o1)) \<and>
    lh = (if \<not> sendto_ok env \<or> c \<noteq> 0 then lasthost s else if z s then None
          else if has (sd_data d ! 0) BLK_BLOCK then Some (sd_to d) else lasthost s) \<and>
    aw_cookies w' = aw_cookies w \<and> aw_peers w' = aw_peers w \<and> peers_distinct (aw_nacks w') \<and>
    seq_num (aw_nacks w') = (if has (sd_data d ! 0) NEED_ACK then seq_num ns0 + 1 else seq_num ns0) \<and>
    outstanding (aw_nacks w') = (if has (sd_data d ! 0) NEED_ACK
      then (outstanding ns0)(sd_to d := \<lparr>a_seq = seq_num ns0 + 1, a_sendtime = t_end env,
             a_sleeptime = ucast sl, a_d = d\<rparr> # outstanding ns0 (sd_to d))
      else outstanding ns0)"
proof -
  let ?w = "w\<lparr>aw_sender := s\<lparr>sleeptime := sl\<rparr>\<rparr>"
  obtain d1 ns where st: "stamp_packet env d ?w = Ok (d1, ?w\<lparr>aw_nacks := ns\<rparr>)" "wf_sd d1" "sd_to d1 = sd_to d"
    "sd_data d1 ! 0 = sd_data d ! 0"
    "unat (sd_length d1) = unat (sd_length d) + (if has (sd_data d ! 0) NEED_ACK then 2 else 0)"
    "take (unat (sd_length d1)) (sd_data d1) = take (unat (sd_length d)) (sd_data d) @
      (if has (sd_data d ! 0) NEED_ACK then bytes_of_u16 (seq_num ns0 + 1) else [])"
    "peers_distinct ns"
    "outstanding ns = (if has (sd_data d ! 0) NEED_ACK
      then (outstanding ns0)(sd_to d := \<lparr>a_seq = seq_num ns0 + 1, a_sendtime = t_end env,
             a_sleeptime = ucast sl, a_d = d\<rparr> # outstanding ns0 (sd_to d))
      else outstanding ns0)"
    "seq_num ns = (if has (sd_data d ! 0) NEED_ACK then seq_num ns0 + 1 else seq_num ns0)"
    using stamp_packet_ok [OF d, of ?w env] n by (auto simp: ns0)
  have l1: "1 \<le> unat (sd_length d1)" "unat (sd_length d1) \<le> 1498" using st(5) d by (auto simp: fits_def)
  note mc = mark_consecutive_fields [OF st(2) l1(1), of "z s"]
  let ?d2 = "mark_consecutive (z s) d1"
  obtain d3 where ap: "append_port (natPort s) ?d2 = Ok d3" "wf_sd d3" "sd_to d3 = sd_to ?d2"
    "unat (sd_length d3) = unat (sd_length ?d2) + (if sd_data ?d2 ! 0 \<noteq> 0 then 2 else 0)"
    "sd_data d3 ! 0 = sd_data ?d2 ! 0"
    "take (unat (sd_length d3)) (sd_data d3) =
      take (unat (sd_length ?d2)) (sd_data ?d2) @ (if sd_data ?d2 ! 0 \<noteq> 0 then bytes_of_u16 (natPort s) else [])"
    using append_port_ok [OF mc(1), of "natPort s"] l1 mc(3) by auto
  have wire: "take (unat (sd_length d3)) (sd_data d3) = wire_of (z s) (seq_num ns0 + 1) (natPort s) d"
  proof -
    have "take (unat (sd_length d)) (sd_data d) \<noteq> []" using d by (auto simp: fits_def wf_sd_def SENDBUF_def)
    then show ?thesis unfolding ap(6) mc(3-5) st(6) by (simp add: wire_of_def Let_def st(4))
  qed
  have len: "unat (sd_length d3) \<le> length (sd_data d3)"
    using ap(2,4) mc(3) l1 by (auto simp: wf_sd_def SENDBUF_def)
  then have l: "ucast (sd_length d3) = (of_nat (length (take (unat (sd_length d3)) (sd_data d3))) :: u64)"
    by (simp add: min_absorb2)
  have blk: "has (sd_data d3 ! 0) BLK_BLOCK = has (sd_data d ! 0) BLK_BLOCK"
    unfolding ap(5) mc(4) st(4) by (simp add: has_or) (simp add: has_def packet_defs)
  let ?s = "s\<lparr>sleeptime := sl, lasthost := next_lasthost env c d3 s, qEmpty := qEmpty s + 1,
      idleTime := timeradd (timersub (t_end env) (t_start env)) (idleTime s),
      stats_s := count_sent c (ucast (sd_length d3)) (stats_s s)\<rparr>"
  have to: "sd_to d3 = sd_to d" using ap(3) mc(2) st(3) by simp
  have sl: "1000000 * ucast (sd_length d) div bandwidth s = sl" by (simp add: sl_def)
  have lh: "next_lasthost env c d3 (s\<lparr>sleeptime := sl\<rparr>) = next_lasthost env c d3 s" by (simp add: next_lasthost_def)
  have "emit_packet env hit c d w =
      Ok (\<lparr>so_wire = take (unat (sd_length d3)) (sd_data d3), so_to = sd_to d3, so_ret = timersub (t_end env) (t_start env),
           so_hit = hit\<rparr>, w\<lparr>aw_sender := ?s, aw_nacks := ns\<rparr>)"
    using bw st(1) ap(1) len lh sl by (simp add: emit_packet_def Let_def s)
  moreover have "next_lasthost env c d3 s = (if \<not> sendto_ok env \<or> c \<noteq> 0 then lasthost s else if z s then None
          else if has (sd_data d ! 0) BLK_BLOCK then Some (sd_to d) else lasthost s)"
    by (simp add: next_lasthost_def blk to)
  ultimately show ?thesis
    using st(7-9) l wire by (simp add: to)
qed

section \<open>Scheduling\<close>

text \<open>The class whose turn it is.\<close>

definition next_class :: "tx_view \<Rightarrow> tx_class" where
  "next_class v = (if tx_queue v Prio \<noteq> [] then Prio else if tx_queue v Retr \<noteq> [] then Retr else Data)"

definition spec_take :: "tx_class \<Rightarrow> tx_view \<Rightarrow> tx_view" where
  "spec_take c v = \<lparr>tx_queue = (tx_queue v)(c := tl (tx_queue v c)), tx_tokens = tx_tokens v - 1, tx_slots = tx_slots v + 1\<rparr>"

fun class_code :: "tx_class \<Rightarrow> nat" where
  "class_code Prio = 1"
| "class_code Retr = 2"
| "class_code Data = 0"

definition sends_fit :: "sender \<Rightarrow> bool" where
  "sends_fit s \<longleftrightarrow> (\<forall>c. list_all fits (queue_of c s))"

text \<open>The sending thread may take a data packet: the queue is not empty.\<close>

lemma take_data_ok:
  assumes "rings_ok (aw_sender w)" and "queue_of Data (aw_sender w) \<noteq> []"
  shows "\<exists>s. take_data w = (hd (queue_of Data (aw_sender w)), w\<lparr>aw_sender := s\<rparr>) \<and> rings_ok s \<and>
    s = (aw_sender w)\<lparr>send_q := send_q s\<rparr> \<and>
    tx_abs s = (tx_abs (aw_sender w))\<lparr>tx_queue := (tx_queue (tx_abs (aw_sender w)))(Data := tl (queue_of Data (aw_sender w)))\<rparr>"
proof -
  let ?s = "aw_sender w"
  have ok: "ring_ok N_SEND (send_q ?s)" using assms by (simp add: rings_ok_def)
  have f: "0 < r_f (send_q ?s)" using fill_class(3) [OF assms(1)] assms(2) by simp
  obtain d q where g: "ring_get (send_q ?s) = (d, q)" by fastforce
  have "d = hd (queue_of Data ?s)" "ring_contents q = tl (queue_of Data ?s)" "ring_ok N_SEND q"
    using sendq.get_hd [OF ok f] sendq.contents_get [OF ok f] sendq.invar_get [OF ok f] g by simp_all
  then show ?thesis using assms(1) g
    by (intro exI [of _ "?s\<lparr>send_q := q\<rparr>"]) (auto simp: take_data_def Let_def rings_ok_def tx_abs_def fun_eq_iff all_classes)
qed

lemma take_packet_queues:
  assumes ok: "rings_ok (aw_sender w)" and zz: "\<not> z (aw_sender w)" and ck: "ckFull (aw_cookies w) = 0"
    and total: "0 < tx_total (tx_abs (aw_sender w))"
  defines "c \<equiv> next_class (tx_abs (aw_sender w))"
  shows "\<exists>s. take_packet w = Ok (class_code c, hd (queue_of c (aw_sender w)), w\<lparr>aw_sender := s\<rparr>) \<and>
    queue_of c (aw_sender w) \<noteq> [] \<and> rings_ok s \<and>
    s = (aw_sender w)\<lparr>lasthost := None, send_q := send_q s, retr_q := retr_q s, prio_q := prio_q s\<rparr> \<and>
    tx_queue (tx_abs s) = (tx_queue (tx_abs (aw_sender w)))(c := tl (queue_of c (aw_sender w)))"
proof -
  let ?s = "(aw_sender w)\<lparr>lasthost := None\<rparr>"
  let ?w = "w\<lparr>aw_sender := ?s\<rparr>"
  have q: "queue_of k ?s = queue_of k (aw_sender w)" for k by (cases k) simp_all
  have r: "rings_ok ?s" using ok by (simp add: rings_ok_def)
  have rk: "ring_ok N_PRIO (prio_q ?s)" "ring_ok N_RETR (retr_q ?s)" using ok by (simp_all add: rings_ok_def)
  note fc = fill_class [OF ok]
  have sel: "tx_queue (tx_abs (aw_sender w)) k = queue_of k (aw_sender w)" for k by (simp add: tx_abs_def)
  show ?thesis
  proof (cases c)
    case Prio
    then have f: "queue_of Prio (aw_sender w) \<noteq> []" by (auto simp: c_def next_class_def sel split: if_splits)
    then have pos: "0 < r_f (prio_q ?s)" using fc(1) by simp
    obtain d p where g: "ring_get (prio_q ?s) = (d, p)" by fastforce
    have "d = hd (queue_of Prio (aw_sender w))" "ring_contents p = tl (queue_of Prio (aw_sender w))" "ring_ok N_PRIO p"
      using prioq.get_hd [OF rk(1) pos] prioq.contents_get [OF rk(1) pos] prioq.invar_get [OF rk(1) pos] g by simp_all
    then show ?thesis using r f Prio g pos zz ck
      by (intro exI [of _ "?s\<lparr>prio_q := p\<rparr>"]) (auto simp: take_packet_def Let_def rings_ok_def tx_abs_def fun_eq_iff all_classes)
  next
    case Retr
    then have f: "queue_of Retr (aw_sender w) \<noteq> []" "queue_of Prio (aw_sender w) = []"
      by (auto simp: c_def next_class_def sel split: if_splits)
    then have pos: "0 < r_f (retr_q ?s)" "r_f (prio_q ?s) = 0" using fc by simp_all
    obtain d p where g: "ring_get (retr_q ?s) = (d, p)" by fastforce
    have "d = hd (queue_of Retr (aw_sender w))" "ring_contents p = tl (queue_of Retr (aw_sender w))" "ring_ok N_RETR p"
      using retrq.get_hd [OF rk(2) pos(1)] retrq.contents_get [OF rk(2) pos(1)] retrq.invar_get [OF rk(2) pos(1)] g by simp_all
    then show ?thesis using r f Retr g pos zz ck
      by (intro exI [of _ "?s\<lparr>retr_q := p\<rparr>"]) (auto simp: take_packet_def Let_def rings_ok_def tx_abs_def fun_eq_iff all_classes)
  next
    case Data
    then have f: "queue_of Retr (aw_sender w) = []" "queue_of Prio (aw_sender w) = []"
      by (auto simp: c_def next_class_def sel split: if_splits)
    then have "queue_of Data ?s \<noteq> []" using total by (simp add: tx_total_def sel)
    then obtain s where s: "take_data ?w = (hd (queue_of Data ?s), ?w\<lparr>aw_sender := s\<rparr>)" "rings_ok s" "s = ?s\<lparr>send_q := send_q s\<rparr>"
      "tx_abs s = (tx_abs ?s)\<lparr>tx_queue := (tx_queue (tx_abs ?s))(Data := tl (queue_of Data ?s))\<rparr>"
      using take_data_ok [of ?w] r by auto
    have z0: "r_f (prio_q (aw_sender w)) = 0" "r_f (retr_q (aw_sender w)) = 0" using f fc by simp_all
    have "prio_q s = prio_q ?s" "retr_q s = retr_q ?s" by (subst s(3), simp)+
    then have "s = (aw_sender w)\<lparr>lasthost := None, send_q := send_q s, retr_q := retr_q s, prio_q := prio_q s\<rparr>"
      using s(3) by simp
    moreover have "take_packet w = Ok (0, hd (queue_of Data ?s), w\<lparr>aw_sender := s\<rparr>)"
      using s(1) z0 zz ck by (simp add: take_packet_def Let_def)
    moreover have "tx_queue (tx_abs s) = (tx_queue (tx_abs (aw_sender w)))(Data := tl (queue_of Data (aw_sender w)))"
      by (simp add: s(4)) (simp add: tx_abs_def fun_eq_iff q all_classes)
    ultimately show ?thesis using s(2) Data \<open>queue_of Data ?s \<noteq> []\<close> by (auto simp: q)
  qed
qed

lemma queue_of_frame [simp]:
  "queue_of c (s\<lparr>sleeptime := a\<rparr>) = queue_of c s" "queue_of c (s\<lparr>lasthost := b\<rparr>) = queue_of c s"
  "queue_of c (s\<lparr>qEmpty := n\<rparr>) = queue_of c s" "queue_of c (s\<lparr>sFull := n\<rparr>) = queue_of c s"
  "queue_of c (s\<lparr>idleTime := t\<rparr>) = queue_of c s" "queue_of c (s\<lparr>stats_s := x\<rparr>) = queue_of c s"
  "queue_of c (s\<lparr>z := y\<rparr>) = queue_of c s" "queue_of c (s\<lparr>natPort := p\<rparr>) = queue_of c s"
  "queue_of c (s\<lparr>bandwidth := bw\<rparr>) = queue_of c s"
  by (cases c; simp)+

lemma rings_ok_frame [simp]:
  "rings_ok (s\<lparr>sleeptime := a\<rparr>) = rings_ok s" "rings_ok (s\<lparr>lasthost := b\<rparr>) = rings_ok s"
  "rings_ok (s\<lparr>qEmpty := n\<rparr>) = rings_ok s" "rings_ok (s\<lparr>sFull := n\<rparr>) = rings_ok s"
  "rings_ok (s\<lparr>idleTime := t\<rparr>) = rings_ok s" "rings_ok (s\<lparr>stats_s := x\<rparr>) = rings_ok s"
  "rings_ok (s\<lparr>z := y\<rparr>) = rings_ok s" "rings_ok (s\<lparr>natPort := p\<rparr>) = rings_ok s"
  "rings_ok (s\<lparr>bandwidth := bw\<rparr>) = rings_ok s"
  by (simp_all add: rings_ok_def)

lemma length_count_sent [simp]: "length (count_sent c l st) = length st"
  by (simp add: count_sent_def bump_def Let_def)

lemma view_ok_spec_take:
  "view_ok v \<Longrightarrow> 0 < tx_tokens v \<Longrightarrow> tx_queue v c \<noteq> [] \<Longrightarrow> view_ok (spec_take c v)"
  by (cases c; cases "tx_queue v c") (auto simp: view_ok_def spec_take_def tx_total_def all_classes)

lemma fits_tl: "list_all P xs \<Longrightarrow> list_all P (tl xs)"
  by (cases xs) auto

definition sending_ok :: "ack_world \<Rightarrow> bool" where
  "sending_ok w \<longleftrightarrow> sender_ok (aw_sender w) \<and> sends_fit (aw_sender w) \<and> peers_distinct (aw_nacks w) \<and>
     bandwidth (aw_sender w) \<noteq> 0 \<and> (z (aw_sender w) \<longrightarrow> queue_of Data (aw_sender w) \<noteq> [])"

text \<open>Sending one packet of class \<open>c\<close>, whichever way it was chosen.\<close>

lemma send_taken:
  fixes env :: send_env
  assumes ok: "sending_ok w" and tok: "0 < sFull (aw_sender w)" and ne: "queue_of c (aw_sender w) \<noteq> []"
    and take: "take_packet (w\<lparr>aw_sender := (aw_sender w)\<lparr>sFull := sFull (aw_sender w) - 1\<rparr>\<rparr>) =
      Ok (class_code c, hd (queue_of c (aw_sender w)), w\<lparr>aw_sender := s\<rparr>)"
    and s: "rings_ok s" "tx_queue (tx_abs s) = (tx_queue (tx_abs (aw_sender w)))(c := tl (queue_of c (aw_sender w)))"
      "sFull s = sFull (aw_sender w) - 1" "qEmpty s = qEmpty (aw_sender w)" "bandwidth s = bandwidth (aw_sender w)"
      "stats_s s = stats_s (aw_sender w)" "z s = z (aw_sender w)" "natPort s = natPort (aw_sender w)"
  defines "d \<equiv> hd (queue_of c (aw_sender w))"
  shows "\<exists>o1 w'. packet_send env w = Ok (o1, w') \<and>
    tx_abs (aw_sender w') = spec_take c (tx_abs (aw_sender w)) \<and>
    so_wire o1 = wire_of (z (aw_sender w)) (seq_num (aw_nacks w) + 1) (natPort (aw_sender w)) d \<and> so_to o1 = sd_to d \<and>
    sender_ok (aw_sender w') \<and> sends_fit (aw_sender w') \<and> peers_distinct (aw_nacks w') \<and>
    bandwidth (aw_sender w') = bandwidth (aw_sender w) \<and> z (aw_sender w') = z (aw_sender w) \<and>
    natPort (aw_sender w') = natPort (aw_sender w) \<and>
    aw_cookies w' = aw_cookies w \<and> aw_peers w' = aw_peers w \<and>
    uint (sleeptime (aw_sender w')) = 1000000 * uint (sd_length d) div uint (bandwidth (aw_sender w)) \<and>
    outstanding (aw_nacks w') = (if has (sd_data d ! 0) NEED_ACK
      then (outstanding (aw_nacks w))(sd_to d := \<lparr>a_seq = seq_num (aw_nacks w) + 1, a_sendtime = t_end env,
             a_sleeptime = ucast (sleeptime (aw_sender w')), a_d = d\<rparr> # outstanding (aw_nacks w) (sd_to d))
      else outstanding (aw_nacks w)) \<and>
    seq_num (aw_nacks w') = (if has (sd_data d ! 0) NEED_ACK then seq_num (aw_nacks w) + 1 else seq_num (aw_nacks w)) \<and>
    lasthost (aw_sender w') = (if \<not> sendto_ok env \<or> c \<noteq> Data then lasthost s else if z (aw_sender w) then None
      else if has (sd_data d ! 0) BLK_BLOCK then Some (sd_to d) else lasthost s)"
proof -
  have w: "sender_ok (aw_sender w)" "sends_fit (aw_sender w)" "peers_distinct (aw_nacks w)" "bandwidth (aw_sender w) \<noteq> 0"
    using ok by (simp_all add: sending_ok_def)
  have d: "fits d" using w(2) hd_in_set [OF ne] by (simp add: sends_fit_def d_def list_all_iff)
  obtain hit where hit: "HIT_TRESHOLD (aw_sender w) = Ok hit" using w(4) by (simp add: HIT_TRESHOLD_def)
  have code: "class_code c = 0 \<longleftrightarrow> c = Data" by (cases c) simp_all
  have bs: "bandwidth s \<noteq> 0" using w(4) s(5) by simp
  note e0 = emit_packet_ok [OF d, of "w\<lparr>aw_sender := s\<rparr>" s "aw_nacks w" env hit "class_code c", unfolded code]
  obtain o1 w' l lh where e: "emit_packet env hit (class_code c) d (w\<lparr>aw_sender := s\<rparr>) = Ok (o1, w')"
    "so_wire o1 = wire_of (z s) (seq_num (aw_nacks w) + 1) (natPort s) d" "so_to o1 = sd_to d"
    "aw_sender w' = s\<lparr>sleeptime := (1000000 * ucast (sd_length d)) div bandwidth s, lasthost := lh, qEmpty := qEmpty s + 1,
      idleTime := timeradd (timersub (t_end env) (t_start env)) (idleTime s), stats_s := count_sent (class_code c) l (stats_s s)\<rparr>"
    "lh = (if \<not> sendto_ok env \<or> c \<noteq> Data then lasthost s else if z s then None
          else if has (sd_data d ! 0) BLK_BLOCK then Some (sd_to d) else lasthost s)"
    "aw_cookies w' = aw_cookies w" "aw_peers w' = aw_peers w" "peers_distinct (aw_nacks w')"
    "seq_num (aw_nacks w') = (if has (sd_data d ! 0) NEED_ACK then seq_num (aw_nacks w) + 1 else seq_num (aw_nacks w))"
    "outstanding (aw_nacks w') = (if has (sd_data d ! 0) NEED_ACK
      then (outstanding (aw_nacks w))(sd_to d := \<lparr>a_seq = seq_num (aw_nacks w) + 1, a_sendtime = t_end env,
             a_sleeptime = ucast ((1000000 * ucast (sd_length d)) div bandwidth s :: u64), a_d = d\<rparr> # outstanding (aw_nacks w) (sd_to d))
      else outstanding (aw_nacks w))"
    using e0 [OF _ _ w(3) bs] by auto
  have abs: "tx_abs (aw_sender w') = spec_take c (tx_abs (aw_sender w))"
    using s(2-4) by (simp add: e(4) tx_abs_def spec_take_def)
  have "view_ok (spec_take c (tx_abs (aw_sender w)))"
    using w(1) tok ne by (intro view_ok_spec_take) (simp_all add: sender_ok_def tx_abs_def)
  then have sok: "sender_ok (aw_sender w')"
    using abs s w(1) by (simp add: sender_ok_def) (simp add: e(4))
  have "\<forall>k. list_all fits (tx_queue (tx_abs (aw_sender w')) k)"
    using w(2) by (simp add: abs spec_take_def) (simp add: tx_abs_def sends_fit_def fits_tl)
  then have sf: "sends_fit (aw_sender w')" by (simp add: sends_fit_def tx_abs_def)
  have ps: "packet_send env w = Ok (o1, w')"
    using hit tok take e(1) by (simp add: packet_send_def d_def Let_def)
  have "uint (ucast (sd_length d) :: u64) = uint (sd_length d)" by (metis uint_nat unat_ucast_u64(1))
  moreover have "uint (sd_length d) \<le> 1496" using d unfolding fits_def uint_nat by linarith
  ultimately have "uint (1000000 * ucast (sd_length d) :: u64) = 1000000 * uint (sd_length d)"
    by (simp add: uint_word_ariths)
  then have sl: "uint ((1000000 * ucast (sd_length d) :: u64) div bandwidth (aw_sender w)) =
      1000000 * uint (sd_length d) div uint (bandwidth (aw_sender w))" by (simp add: uint_div)
  show ?thesis using ps abs sok sf e s sl by (intro exI [of _ o1] exI [of _ w']) simp
qed

lemma tokens_imply_packets:
  "sender_ok s \<Longrightarrow> 0 < sFull s \<Longrightarrow> 0 < tx_total (tx_abs s)"
  by (simp add: sender_ok_def view_ok_def) (simp add: tx_abs_def)

lemma next_class_nonempty: "0 < tx_total v \<Longrightarrow> tx_queue v (next_class v) \<noteq> []"
  by (auto simp: next_class_def tx_total_def)

lemma take_scheduled:
  assumes ok: "sending_ok w" and tok: "0 < sFull (aw_sender w)" and zz: "\<not> z (aw_sender w)"
    and ck: "ckFull (aw_cookies w) = 0"
  defines "c \<equiv> next_class (tx_abs (aw_sender w))"
  shows "\<exists>s. take_packet (w\<lparr>aw_sender := (aw_sender w)\<lparr>sFull := sFull (aw_sender w) - 1\<rparr>\<rparr>) =
      Ok (class_code c, hd (queue_of c (aw_sender w)), w\<lparr>aw_sender := s\<rparr>) \<and>
    queue_of c (aw_sender w) \<noteq> [] \<and> rings_ok s \<and>
    tx_queue (tx_abs s) = (tx_queue (tx_abs (aw_sender w)))(c := tl (queue_of c (aw_sender w))) \<and>
    sFull s = sFull (aw_sender w) - 1 \<and> qEmpty s = qEmpty (aw_sender w) \<and> bandwidth s = bandwidth (aw_sender w) \<and>
    stats_s s = stats_s (aw_sender w) \<and> z s = z (aw_sender w) \<and> natPort s = natPort (aw_sender w) \<and> lasthost s = None"
proof -
  let ?s = "(aw_sender w)\<lparr>sFull := sFull (aw_sender w) - 1\<rparr>"
  let ?w = "w\<lparr>aw_sender := ?s\<rparr>"
  have sok: "sender_ok (aw_sender w)" using ok by (simp add: sending_ok_def)
  have q: "tx_queue (tx_abs ?s) = tx_queue (tx_abs (aw_sender w))" by (simp add: tx_abs_def)
  have t: "0 < tx_total (tx_abs ?s)" using tokens_imply_packets [OF sok tok] q by (simp add: tx_total_def)
  have c: "next_class (tx_abs ?s) = c" using q by (simp add: c_def next_class_def)
  obtain s where s: "take_packet ?w = Ok (class_code c, hd (queue_of c ?s), ?w\<lparr>aw_sender := s\<rparr>)"
    "queue_of c ?s \<noteq> []" "rings_ok s"
    "s = ?s\<lparr>lasthost := None, send_q := send_q s, retr_q := retr_q s, prio_q := prio_q s\<rparr>"
    "tx_queue (tx_abs s) = (tx_queue (tx_abs ?s))(c := tl (queue_of c ?s))"
    using take_packet_queues [of ?w] sok zz ck t c by (auto simp: sender_ok_def)
  have "sFull s = sFull (aw_sender w) - 1" "qEmpty s = qEmpty (aw_sender w)" "bandwidth s = bandwidth (aw_sender w)"
    "stats_s s = stats_s (aw_sender w)" "z s = z (aw_sender w)" "natPort s = natPort (aw_sender w)" "lasthost s = None"
    by (subst s(4), simp)+
  then show ?thesis using s(1-3,5) q by (intro exI [of _ s]) simp
qed

lemma packet_send_scheduled:
  assumes "sending_ok w" and "0 < sFull (aw_sender w)" and "\<not> z (aw_sender w)" and "ckFull (aw_cookies w) = 0"
    and "c = next_class (tx_abs (aw_sender w))"
  shows "\<exists>d rest o1 w'. queue_of c (aw_sender w) = d # rest \<and> packet_send env w = Ok (o1, w') \<and> sending_ok w' \<and>
    tx_abs (aw_sender w') = spec_take c (tx_abs (aw_sender w)) \<and>
    so_wire o1 = wire_of False (seq_num (aw_nacks w) + 1) (natPort (aw_sender w)) d \<and> so_to o1 = sd_to d \<and>
    uint (sleeptime (aw_sender w')) = 1000000 * uint (sd_length d) div uint (bandwidth (aw_sender w)) \<and>
    outstanding (aw_nacks w') = (if has (sd_data d ! 0) NEED_ACK
      then (outstanding (aw_nacks w))(sd_to d := \<lparr>a_seq = seq_num (aw_nacks w) + 1, a_sendtime = t_end env,
             a_sleeptime = ucast (sleeptime (aw_sender w')), a_d = d\<rparr> # outstanding (aw_nacks w) (sd_to d))
      else outstanding (aw_nacks w)) \<and>
    seq_num (aw_nacks w') = (if has (sd_data d ! 0) NEED_ACK then seq_num (aw_nacks w) + 1 else seq_num (aw_nacks w)) \<and>
    natPort (aw_sender w') = natPort (aw_sender w) \<and> aw_cookies w' = aw_cookies w \<and> aw_peers w' = aw_peers w \<and> \<not> z (aw_sender w')"
proof -
  obtain s where s: "take_packet (w\<lparr>aw_sender := (aw_sender w)\<lparr>sFull := sFull (aw_sender w) - 1\<rparr>\<rparr>) =
      Ok (class_code c, hd (queue_of c (aw_sender w)), w\<lparr>aw_sender := s\<rparr>)" and ne: "queue_of c (aw_sender w) \<noteq> []"
    and f: "rings_ok s" "tx_queue (tx_abs s) = (tx_queue (tx_abs (aw_sender w)))(c := tl (queue_of c (aw_sender w)))"
      "sFull s = sFull (aw_sender w) - 1" "qEmpty s = qEmpty (aw_sender w)" "bandwidth s = bandwidth (aw_sender w)"
      "stats_s s = stats_s (aw_sender w)" "z s = z (aw_sender w)" "natPort s = natPort (aw_sender w)"
    using take_scheduled [OF assms(1-4)] assms(5) by blast
  obtain d rest where d: "queue_of c (aw_sender w) = d # rest" using ne by (cases "queue_of c (aw_sender w)") auto
  have hd: "hd (queue_of c (aw_sender w)) = d" by (simp only: d list.sel)
  have zf: "z (aw_sender w) = False" using assms(3) by simp
  obtain o1 w' where e: "packet_send env w = Ok (o1, w')" "tx_abs (aw_sender w') = spec_take c (tx_abs (aw_sender w))"
    "so_wire o1 = wire_of False (seq_num (aw_nacks w) + 1) (natPort (aw_sender w)) d" "so_to o1 = sd_to d"
    "sender_ok (aw_sender w')" "sends_fit (aw_sender w')" "peers_distinct (aw_nacks w')"
    "bandwidth (aw_sender w') = bandwidth (aw_sender w)" "\<not> z (aw_sender w')"
    "uint (sleeptime (aw_sender w')) = 1000000 * uint (sd_length d) div uint (bandwidth (aw_sender w))"
    "outstanding (aw_nacks w') = (if has (sd_data d ! 0) NEED_ACK
      then (outstanding (aw_nacks w))(sd_to d := \<lparr>a_seq = seq_num (aw_nacks w) + 1, a_sendtime = t_end env,
             a_sleeptime = ucast (sleeptime (aw_sender w')), a_d = d\<rparr> # outstanding (aw_nacks w) (sd_to d))
      else outstanding (aw_nacks w))"
    "seq_num (aw_nacks w') = (if has (sd_data d ! 0) NEED_ACK then seq_num (aw_nacks w) + 1 else seq_num (aw_nacks w))"
    "natPort (aw_sender w') = natPort (aw_sender w)" "aw_cookies w' = aw_cookies w" "aw_peers w' = aw_peers w"
    using send_taken [OF assms(1,2) ne s f, of env, unfolded hd zf] by blast
  moreover have "sending_ok w'" using e(5-9) assms(1) by (simp add: sending_ok_def)
  ultimately show ?thesis using d by blast
qed

text \<open>
  C13: the sending order. With no cookie pending and outside a back-to-back pair, the sending thread,
  once it holds a token, always finds a packet: the oldest of the first non-empty queue among
  priority, retransmission and data. The datagram is that packet with its trailers, it takes the
  packet and the token and frees a slot, it registers the packet as outstanding exactly if it asks for an
  acknowledgement, and the pause computed for it is its length over the bandwidth.
\<close>

theorem packet_send_schedules:
  assumes "sending_ok w" and "0 < sFull (aw_sender w)" and "\<not> z (aw_sender w)" and "ckFull (aw_cookies w) = 0"
    and "c = next_class (tx_abs (aw_sender w))"
  shows "\<exists>d rest o1 w'. queue_of c (aw_sender w) = d # rest \<and> packet_send env w = Ok (o1, w') \<and> sending_ok w' \<and>
    tx_abs (aw_sender w') = spec_take c (tx_abs (aw_sender w)) \<and>
    so_wire o1 = wire_of False (seq_num (aw_nacks w) + 1) (natPort (aw_sender w)) d \<and> so_to o1 = sd_to d \<and>
    uint (sleeptime (aw_sender w')) = 1000000 * uint (sd_length d) div uint (bandwidth (aw_sender w)) \<and>
    outstanding (aw_nacks w') = (if has (sd_data d ! 0) NEED_ACK
      then (outstanding (aw_nacks w))(sd_to d := \<lparr>a_seq = seq_num (aw_nacks w) + 1, a_sendtime = t_end env,
             a_sleeptime = ucast (sleeptime (aw_sender w')), a_d = d\<rparr> # outstanding (aw_nacks w) (sd_to d))
      else outstanding (aw_nacks w))"
  using packet_send_scheduled [OF assms, of env] by blast

section \<open>Cookies and the tokens\<close>

lemma emit_cookie:
  assumes ok: "sending_ok w" and tok: "0 < sFull (aw_sender w)" and zz: "\<not> z (aw_sender w)"
    and ck: "0 < ckFull (aw_cookies w)"
    and get: "get_cookie_data ((aw_cookies w)\<lparr>ckFull := ckFull (aw_cookies w) - 1\<rparr>) = Ok (d, ck')" and d: "fits d"
  shows "\<exists>o1 w'. packet_send env w = Ok (o1, w') \<and> so_to o1 = sd_to d \<and> aw_cookies w' = ck' \<and>
    so_wire o1 = wire_of False (seq_num (aw_nacks w) + 1) (natPort (aw_sender w)) d \<and>
    tx_abs (aw_sender w') = (tx_abs (aw_sender w))\<lparr>tx_tokens := sFull (aw_sender w) - 1, tx_slots := qEmpty (aw_sender w) + 1\<rparr> \<and>
    sending_ok w' \<and> bandwidth (aw_sender w') = bandwidth (aw_sender w)"
proof -
  let ?s = "(aw_sender w)\<lparr>sFull := sFull (aw_sender w) - 1, lasthost := None\<rparr>"
  let ?w = "w\<lparr>aw_sender := ?s, aw_cookies := ck'\<rparr>"
  have w: "sender_ok (aw_sender w)" "sends_fit (aw_sender w)" "peers_distinct (aw_nacks w)" "bandwidth ?s \<noteq> 0"
    using ok by (simp_all add: sending_ok_def)
  obtain hit where hit: "HIT_TRESHOLD (aw_sender w) = Ok hit" using w(4) by (simp add: HIT_TRESHOLD_def)
  obtain o1 w' l lh where e: "emit_packet env hit 0 d ?w = Ok (o1, w')"
    "so_wire o1 = wire_of (z ?s) (seq_num (aw_nacks w) + 1) (natPort ?s) d" "so_to o1 = sd_to d"
    "aw_sender w' = ?s\<lparr>sleeptime := (1000000 * ucast (sd_length d)) div bandwidth ?s, lasthost := lh, qEmpty := qEmpty ?s + 1,
      idleTime := timeradd (timersub (t_end env) (t_start env)) (idleTime ?s), stats_s := count_sent 0 l (stats_s ?s)\<rparr>"
    "aw_cookies w' = ck'" "peers_distinct (aw_nacks w')"
    using emit_packet_ok [OF d, of ?w ?s "aw_nacks w" env hit 0] w(3,4) by auto
  have abs: "tx_abs (aw_sender w') =
      (tx_abs (aw_sender w))\<lparr>tx_tokens := sFull (aw_sender w) - 1, tx_slots := qEmpty (aw_sender w) + 1\<rparr>"
    by (simp add: e(4) tx_abs_def)
  have "view_ok ((tx_abs (aw_sender w))\<lparr>tx_tokens := sFull (aw_sender w) - 1, tx_slots := qEmpty (aw_sender w) + 1\<rparr>)"
    using w(1) tok by (auto simp: sender_ok_def view_ok_def tx_total_def tx_abs_def)
  then have "sender_ok (aw_sender w')" using w(1) abs by (simp add: sender_ok_def) (simp add: e(4))
  moreover have "sends_fit (aw_sender w')" using w(2) by (simp add: sends_fit_def e(4))
  ultimately have "sending_ok w'" using e(6) w(4) zz by (simp add: sending_ok_def) (simp add: e(4))
  moreover have "packet_send env w = Ok (o1, w')"
    using hit tok e(1) get ck zz by (simp add: packet_send_def take_packet_def Let_def)
  moreover have "bandwidth (aw_sender w') = bandwidth (aw_sender w)" by (simp add: e(4))
  ultimately show ?thesis using abs e(2,3,5) zz by (intro exI [of _ o1] exI [of _ w']) simp
qed

text \<open>
  A cookie uses up the token of a queued packet: after it is sent all three queues are as before
  and one token less is left. If it was the last token, the sending thread then waits although
  packets are queued, and it goes on waiting until something else is sent.
\<close>

lemma cookie_strands_packet:
  assumes "sending_ok w" and "sFull (aw_sender w) = 1" and "\<not> z (aw_sender w)" and "0 < ckFull (aw_cookies w)"
    and "get_cookie_data ((aw_cookies w)\<lparr>ckFull := ckFull (aw_cookies w) - 1\<rparr>) = Ok (d, ck')" and "fits d"
  shows "\<exists>o1 w'. packet_send env w = Ok (o1, w') \<and> so_to o1 = sd_to d \<and>
    (\<forall>c. queue_of c (aw_sender w') = queue_of c (aw_sender w)) \<and> 0 < tx_total (tx_abs (aw_sender w')) \<and>
    packet_send env' w' = Err Blocked"
proof -
  have tok: "0 < sFull (aw_sender w)" using assms(2) by simp
  obtain o1 w' where e: "packet_send env w = Ok (o1, w')" "so_to o1 = sd_to d"
    "tx_abs (aw_sender w') = (tx_abs (aw_sender w))\<lparr>tx_tokens := sFull (aw_sender w) - 1, tx_slots := qEmpty (aw_sender w) + 1\<rparr>"
    "sending_ok w'" "bandwidth (aw_sender w') = bandwidth (aw_sender w)"
    using emit_cookie [OF assms(1) tok assms(3-6), of env] by blast
  have b: "bandwidth (aw_sender w') \<noteq> 0" using assms(1) e(5) by (simp add: sending_ok_def)
  have q: "queue_of c (aw_sender w') = queue_of c (aw_sender w)" for c
    using arg_cong [OF e(3), of "\<lambda>v. tx_queue v c"] by (simp add: tx_abs_def)
  have "sFull (aw_sender w') = 0" using arg_cong [OF e(3), of tx_tokens] assms(2) by (simp add: tx_abs_def)
  moreover have "0 < tx_total (tx_abs (aw_sender w'))"
    using tokens_imply_packets [of "aw_sender w"] assms(1) tok e(3) by (simp add: sending_ok_def tx_total_def)
  ultimately show ?thesis using e(1,2) q b by (auto simp: packet_send_def HIT_TRESHOLD_def)
qed

text \<open>
  A cookie pair that times out before the sending thread took it leaves its two announcements
  behind: whatever happened before, the next packet to be sent outside a pair ends the process.
\<close>

lemma cookie_timeout_ends_process:
  assumes "send_cookie addr1 addr2 ck = Ok (r, ck1)" and "aw_cookies w = cookie_cleanup ck1"
    and "bandwidth (aw_sender w) \<noteq> 0" and "0 < sFull (aw_sender w)" and "\<not> z (aw_sender w)"
  shows "packet_send env w = Err ProcessExit"
  using assms by (auto simp: packet_send_def HIT_TRESHOLD_def take_packet_def Let_def send_cookie_def
      cookie_cleanup_def get_cookie_data_def split: if_splits)

section \<open>Back-to-back pairs\<close>

lemma packet_send_pair_first:
  fixes env :: send_env
  assumes ok: "sending_ok w" and tok: "0 < sFull (aw_sender w)" and d: "queue_of Data (aw_sender w) = d # rest"
  defines "w1 \<equiv> w\<lparr>aw_sender := (aw_sender w)\<lparr>z := True\<rparr>\<rparr>"
  shows "\<exists>o1 w'. packet_send env w1 = Ok (o1, w') \<and>
    tx_abs (aw_sender w') = spec_take Data (tx_abs (aw_sender w)) \<and>
    so_wire o1 = wire_of True (seq_num (aw_nacks w) + 1) (natPort (aw_sender w)) d \<and> so_to o1 = sd_to d \<and>
    sender_ok (aw_sender w') \<and> sends_fit (aw_sender w') \<and> peers_distinct (aw_nacks w') \<and>
    bandwidth (aw_sender w') = bandwidth (aw_sender w) \<and> natPort (aw_sender w') = natPort (aw_sender w) \<and>
    aw_cookies w' = aw_cookies w \<and>
    uint (sleeptime (aw_sender w')) = 1000000 * uint (sd_length d) div uint (bandwidth (aw_sender w)) \<and>
    outstanding (aw_nacks w') = (if has (sd_data d ! 0) NEED_ACK
      then (outstanding (aw_nacks w))(sd_to d := \<lparr>a_seq = seq_num (aw_nacks w) + 1, a_sendtime = t_end env,
             a_sleeptime = ucast (sleeptime (aw_sender w')), a_d = d\<rparr> # outstanding (aw_nacks w) (sd_to d))
      else outstanding (aw_nacks w)) \<and>
    seq_num (aw_nacks w') = (if has (sd_data d ! 0) NEED_ACK then seq_num (aw_nacks w) + 1 else seq_num (aw_nacks w)) \<and>
    aw_peers w' = aw_peers w"
proof -
  let ?s1 = "(aw_sender w1)\<lparr>sFull := sFull (aw_sender w1) - 1\<rparr>"
  have q: "queue_of Data (aw_sender w1) = d # rest" using d by (simp add: w1_def)
  have ok1: "sending_ok w1"
    using ok d by (simp add: sending_ok_def w1_def sender_ok_def sends_fit_def) (simp add: tx_abs_def)
  have r: "rings_ok ?s1" using ok1 by (simp add: sending_ok_def sender_ok_def)
  obtain s where s: "take_data (w1\<lparr>aw_sender := ?s1\<rparr>) = (hd (queue_of Data ?s1), w1\<lparr>aw_sender := s\<rparr>)" "rings_ok s"
    "s = ?s1\<lparr>send_q := send_q s\<rparr>"
    "tx_abs s = (tx_abs ?s1)\<lparr>tx_queue := (tx_queue (tx_abs ?s1))(Data := tl (queue_of Data ?s1))\<rparr>"
    using take_data_ok [of "w1\<lparr>aw_sender := ?s1\<rparr>"] r q by auto
  have tk: "take_packet (w1\<lparr>aw_sender := ?s1\<rparr>) = Ok (class_code Data, hd (queue_of Data (aw_sender w1)), w1\<lparr>aw_sender := s\<rparr>)"
    using s(1) by (simp add: take_packet_def) (simp add: w1_def)
  have tq: "tx_queue (tx_abs s) = (tx_queue (tx_abs (aw_sender w1)))(Data := tl (queue_of Data (aw_sender w1)))"
    by (simp add: s(4)) (simp add: tx_abs_def fun_eq_iff)
  have fr: "sFull s = sFull (aw_sender w1) - 1" "qEmpty s = qEmpty (aw_sender w1)" "bandwidth s = bandwidth (aw_sender w1)"
    "stats_s s = stats_s (aw_sender w1)" "z s = z (aw_sender w1)" "natPort s = natPort (aw_sender w1)"
    by (subst s(3), simp)+
  have tok1: "0 < sFull (aw_sender w1)" "queue_of Data (aw_sender w1) \<noteq> []" using tok q by (simp_all add: w1_def)
  have hd: "hd (queue_of Data (aw_sender w1)) = d" by (simp only: q list.sel)
  have same: "z (aw_sender w1) = True" "aw_nacks w1 = aw_nacks w" "natPort (aw_sender w1) = natPort (aw_sender w)"
    "bandwidth (aw_sender w1) = bandwidth (aw_sender w)" "tx_abs (aw_sender w1) = tx_abs (aw_sender w)"
    "aw_cookies w1 = aw_cookies w" "aw_peers w1 = aw_peers w" by (simp_all add: w1_def tx_abs_def)
  show ?thesis using send_taken [OF ok1 tok1 tk s(2) tq fr, of env, unfolded hd same] by blast
qed

text \<open>
  C28: a back-to-back pair. When the packet just sent was block data and the next data packet goes to
  the same host, and two tokens and no cookie wait, one round sends that packet first, without a pause and marked as consecutive, ahead
  of everything else; then it pauses for both packets together and sends the packet whose turn it
  is. The round keeps the sender's invariant.
\<close>

theorem back_to_back_pair:
  assumes "sending_ok w" and "\<not> z (aw_sender w)" and "lasthost (aw_sender w) = Some h"
    and "queue_of Data (aw_sender w) = d # rest" and "sin_port (sd_to d) = sin_port h" and "sin_addr (sd_to d) = sin_addr h"
    and "2 \<le> sFull (aw_sender w)" and "ckFull (aw_cookies w) = 0"
    and "v = spec_take Data (tx_abs (aw_sender w))"
  shows "\<exists>o1 o2 slept hit w' seq. send_packet_round env1 env2 w = Ok ([o1, o2], slept, hit, w') \<and> sending_ok w' \<and>
    so_wire o1 = wire_of True (seq_num (aw_nacks w) + 1) (natPort (aw_sender w)) d \<and> so_to o1 = sd_to d \<and>
    slept = sleeptime (aw_sender w) + word_of_int (1000000 * uint (sd_length d) div uint (bandwidth (aw_sender w))) \<and>
    so_wire o2 = wire_of False seq (natPort (aw_sender w)) (hd (tx_queue v (next_class v))) \<and>
    so_to o2 = sd_to (hd (tx_queue v (next_class v))) \<and>
    tx_abs (aw_sender w') = spec_take (next_class v) v"
proof -
  have tok: "0 < sFull (aw_sender w)" using assms(7) by simp
  obtain o1 w1 where e: "packet_send env1 (w\<lparr>aw_sender := (aw_sender w)\<lparr>z := True\<rparr>\<rparr>) = Ok (o1, w1)"
    "tx_abs (aw_sender w1) = v"
    "so_wire o1 = wire_of True (seq_num (aw_nacks w) + 1) (natPort (aw_sender w)) d" "so_to o1 = sd_to d"
    "sender_ok (aw_sender w1)" "sends_fit (aw_sender w1)" "peers_distinct (aw_nacks w1)"
    "bandwidth (aw_sender w1) = bandwidth (aw_sender w)" "natPort (aw_sender w1) = natPort (aw_sender w)"
    "aw_cookies w1 = aw_cookies w"
    "uint (sleeptime (aw_sender w1)) = 1000000 * uint (sd_length d) div uint (bandwidth (aw_sender w))"
    using packet_send_pair_first [OF assms(1) tok assms(4), of env1] assms(9) by blast
  let ?w2 = "w1\<lparr>aw_sender := (aw_sender w1)\<lparr>sleeptime := sleeptime (aw_sender w) + sleeptime (aw_sender w1), z := False\<rparr>\<rparr>"
  have b: "bandwidth (aw_sender w) \<noteq> 0" and r: "rings_ok (aw_sender w)" using assms(1) by (simp_all add: sending_ok_def sender_ok_def)
  have ok2: "sending_ok ?w2" using e(5-8) b by (simp add: sending_ok_def sender_ok_def sends_fit_def) (simp add: tx_abs_def)
  have abs2: "tx_abs (aw_sender ?w2) = v" using e(2) by (simp add: tx_abs_def)
  have tok2: "0 < sFull (aw_sender ?w2)"
    using arg_cong [OF abs2, of tx_tokens] assms(7,9) by (simp add: tx_abs_def spec_take_def)
  obtain d2 rest2 o2 w' where e2: "queue_of (next_class v) (aw_sender ?w2) = d2 # rest2" "packet_send env2 ?w2 = Ok (o2, w')"
    "sending_ok w'" "tx_abs (aw_sender w') = spec_take (next_class v) v"
    "so_wire o2 = wire_of False (seq_num (aw_nacks w1) + 1) (natPort (aw_sender w)) d2" "so_to o2 = sd_to d2"
    using packet_send_scheduled [OF ok2 tok2, of "next_class v" env2] e(9,10) assms(8) abs2 by auto
  have d2: "hd (tx_queue v (next_class v)) = d2" using e2(1) arg_cong [OF abs2, of "\<lambda>u. tx_queue u (next_class v)"]
    by (simp add: tx_abs_def) (metis list.sel(1))
  have "next_is_consecutive (aw_sender w) h"
    using assms(4-6) fill_class(3) [OF r] sendq.get_hd [of "send_q (aw_sender w)"] r
    by (simp add: next_is_consecutive_def rings_ok_def)
  then have "send_pair env1 w = Ok ([o1], w1\<lparr>aw_sender := (aw_sender w1)\<lparr>sleeptime := sleeptime (aw_sender w) + sleeptime (aw_sender w1)\<rparr>\<rparr>)"
    using e(1) assms(3) by (simp add: send_pair_def Let_def)
  moreover obtain hit where "HIT_TRESHOLD (aw_sender w') = Ok hit" using e2(3) by (simp add: HIT_TRESHOLD_def sending_ok_def)
  moreover have "sleeptime (aw_sender w1) = word_of_int (1000000 * uint (sd_length d) div uint (bandwidth (aw_sender w)))"
    using e(11) by (metis word_of_int_uint)
  ultimately show ?thesis
    using e(3,4) e2(2-6) d2 by (auto simp: send_packet_round_def Let_def)
qed

end
