(* ===== verification/Blockcache.thy ===== *)
theory Blockcache
  imports Packet_Queue Keyed_List "HOL-Library.Signed_Division"
begin

text \<open>
  \<open>blockcache.c\<close>: the cache of stream blocks. The linked list \<open>blockcache\<close> is the list of its
  blocks, head first; a pointer into it is a position. A block carries its mutex as a flag, so
  that every path of every operation shows where it locks and unlocks; taking a mutex that is
  already held is the outcome \<open>Blocked\<close>. The read-write lock is held around
  the list walks and makes each call atomic. Memory obtained from \<open>malloc\<close> and not yet written
  (\<open>fs.lastlen\<close> and the elements of \<open>f\<close>) is an argument of the operation. Allocation is
  assumed to succeed: the code calls \<open>exit\<close> otherwise.
\<close>

section \<open>Data\<close>

record BlockData =
  bd_data :: "u8 list"
  bd_length :: u32

record BlockID =
  bi_streamid :: u16
  bi_blockid :: u32

record Fragments =
  fs_fn :: u16
  fs_lastlen :: u16

record BlockFragment =
  bf_have :: int
  bf_host :: sockaddr_in
  bf_ts :: timeval

record Block =
  b_id :: BlockID
  b_content :: BlockData
  b_f :: "BlockFragment list"
  b_fs :: Fragments
  b_lock :: bool

type_synonym bcache = "Block list"

text \<open>Uninitialised memory of a fresh \<open>Block\<close> and of its fragment array.\<close>

record block_mem =
  mem_lastlen :: u16
  mem_f :: "nat \<Rightarrow> BlockFragment"

definition F_ADDED :: int where "F_ADDED = 0"
definition F_DUPLICATE :: int where "F_DUPLICATE = 1"
definition F_FRAGMENTS_MISMATCH :: int where "F_FRAGMENTS_MISMATCH = 2"
definition F_FRAGMENTID_OUTOFBOUNDS :: int where "F_FRAGMENTID_OUTOFBOUNDS = 3"
definition F_BAD_LEN :: int where "F_BAD_LEN = 4"

definition BD_FAILURE :: int where "BD_FAILURE = 0"
definition BD_SUCCESS :: int where "BD_SUCCESS = 1"

lemmas code_defs = F_ADDED_def F_DUPLICATE_def F_FRAGMENTS_MISMATCH_def
  F_FRAGMENTID_OUTOFBOUNDS_def F_BAD_LEN_def BD_FAILURE_def BD_SUCCESS_def

section \<open>Operations\<close>

subsection \<open>Lookup\<close>

definition is_block :: "u16 \<Rightarrow> u32 \<Rightarrow> Block \<Rightarrow> bool" where
  "is_block streamid blockid b \<longleftrightarrow> bi_streamid (b_id b) = streamid \<and> bi_blockid (b_id b) = blockid"

primrec find_pos :: "u16 \<Rightarrow> u32 \<Rightarrow> bcache \<Rightarrow> nat option" where
  "find_pos streamid blockid [] = None"
| "find_pos streamid blockid (b # bs) =
     (if is_block streamid blockid b then Some 0 else map_option Suc (find_pos streamid blockid bs))"

definition lock_block :: "nat \<Rightarrow> bcache \<Rightarrow> bcache res" where
  "lock_block p bc = (if b_lock (bc ! p) then Err Blocked else Ok (bc[p := (bc ! p)\<lparr>b_lock := True\<rparr>]))"

definition unlock_block :: "nat \<Rightarrow> bcache \<Rightarrow> bcache" where
  "unlock_block p bc = bc[p := (bc ! p)\<lparr>b_lock := False\<rparr>]"

definition raw_findblock :: "u16 \<Rightarrow> u32 \<Rightarrow> bcache \<Rightarrow> (nat option \<times> bcache) res" where
  "raw_findblock streamid blockid bc =
     (case find_pos streamid blockid bc of
        None \<Rightarrow> Ok (None, bc)
      | Some p \<Rightarrow> bind_res (lock_block p bc) (\<lambda>bc. Ok (Some p, bc)))"

definition findblock :: "u16 \<Rightarrow> u32 \<Rightarrow> bcache \<Rightarrow> (nat option \<times> bcache) res" where
  "findblock streamid blockid bc = raw_findblock streamid blockid bc"

subsection \<open>Completeness\<close>

primrec have_below :: "nat \<Rightarrow> BlockFragment list \<Rightarrow> bool" where
  "have_below 0 f = True"
| "have_below (Suc i) f = (if bf_have (f ! i) = 0 then False else have_below i f)"

definition raw_iscomplete :: "nat option \<Rightarrow> bcache \<Rightarrow> bool \<times> bcache" where
  "raw_iscomplete block bc =
     (case block of
        None \<Rightarrow> (True, bc)
      | Some p \<Rightarrow> (have_below (unat (fs_fn (b_fs (bc ! p)))) (b_f (bc ! p)), unlock_block p bc))"

definition iscomplete :: "u16 \<Rightarrow> u32 \<Rightarrow> bcache \<Rightarrow> (bool \<times> bcache) res" where
  "iscomplete streamid blockid bc =
     bind_res (findblock streamid blockid bc) (\<lambda>(block, bc). Ok (raw_iscomplete block bc))"

subsection \<open>Whole blocks\<close>

definition calcfragments :: "u32 \<Rightarrow> Fragments" where
  "calcfragments len =
     (if len < 1 then \<lparr>fs_fn = 0, fs_lastlen = 0\<rparr>
      else let quot = sint len sdiv int MTU; rem = sint len smod int MTU
           in if rem \<noteq> 0 then \<lparr>fs_fn = word_of_int quot + 1, fs_lastlen = word_of_int rem\<rparr>
              else \<lparr>fs_fn = word_of_int quot, fs_lastlen = of_nat MTU\<rparr>)"

definition addblock :: "u16 \<Rightarrow> u32 \<Rightarrow> BlockData \<Rightarrow> bcache \<Rightarrow> (int \<times> bcache) res" where
  "addblock streamid blockid blockdata bc =
     bind_res (findblock streamid blockid bc) (\<lambda>(block, bc).
       case block of
         Some p \<Rightarrow> Ok (0, unlock_block p bc)
       | None \<Rightarrow>
           if unat (bd_length blockdata) > length (bd_data blockdata) then Err OutOfBounds
           else
             let fs = calcfragments (bd_length blockdata);
                 b = \<lparr>b_id = \<lparr>bi_streamid = streamid, bi_blockid = blockid\<rparr>,
                      b_content = \<lparr>bd_data = take (unat (bd_length blockdata)) (bd_data blockdata),
                                   bd_length = bd_length blockdata\<rparr>,
                      b_f = replicate (unat (fs_fn fs))
                              \<lparr>bf_have = 1, bf_host = zero_addr, bf_ts = zero_time\<rparr>,
                      b_fs = fs, b_lock = False\<rparr>
             in Ok (1, b # bc))"

text \<open>The walk of \<open>deleteblock\<close> looks at \<open>prev->next\<close>, from the head on.\<close>

fun unlink_after :: "u16 \<Rightarrow> u32 \<Rightarrow> Block \<Rightarrow> bcache \<Rightarrow> bcache option" where
  "unlink_after streamid blockid prev [] = None"
| "unlink_after streamid blockid prev (current # rest) =
     (if is_block streamid blockid current then Some (prev # rest)
      else map_option ((#) prev) (unlink_after streamid blockid current rest))"

definition deleteblock :: "u16 \<Rightarrow> u32 \<Rightarrow> bcache \<Rightarrow> int \<times> bcache" where
  "deleteblock streamid blockid bc =
     (case bc of
        [] \<Rightarrow> (BD_FAILURE, bc)
      | prev # rest \<Rightarrow>
          (case unlink_after streamid blockid prev rest of
             None \<Rightarrow> (BD_FAILURE, bc)
           | Some bc' \<Rightarrow> (BD_SUCCESS, bc')))"

definition get_block_data :: "u16 \<Rightarrow> u32 \<Rightarrow> bcache \<Rightarrow> (BlockData option \<times> bcache) res" where
  "get_block_data streamid blockid bc =
     bind_res (findblock streamid blockid bc) (\<lambda>(block, bc).
       case block of
         None \<Rightarrow> Ok (None, bc)
       | Some p \<Rightarrow>
           let c = b_content (bc ! p) in
           if unat (bd_length c) > length (bd_data c) then Err OutOfBounds
           else Ok (Some \<lparr>bd_data = take (unat (bd_length c)) (bd_data c), bd_length = bd_length c\<rparr>,
                    unlock_block p bc))"

subsection \<open>Fragments\<close>

definition new_block :: "block_mem \<Rightarrow> FragmentData \<Rightarrow> Block" where
  "new_block mem fragment =
     (let fn = fd_fragments fragment in
      \<lparr>b_id = \<lparr>bi_streamid = fd_streamid fragment, bi_blockid = fd_blockid fragment\<rparr>,
       b_content = \<lparr>bd_data = replicate (MTU * unat fn) 0, bd_length = of_nat (MTU * unat fn)\<rparr>,
       b_f = map (\<lambda>i. (mem_f mem i)\<lparr>bf_have := 0\<rparr>) [0..<unat fn],
       b_fs = \<lparr>fs_fn = fn, fs_lastlen = mem_lastlen mem\<rparr>,
       b_lock = False\<rparr>)"

definition addfragment_new ::
    "block_mem \<Rightarrow> FragmentData \<Rightarrow> sockaddr_in \<Rightarrow> timeval \<Rightarrow> bcache \<Rightarrow> (int \<times> bcache) res" where
  "addfragment_new mem fragment host ts bc =
     (let b = new_block mem fragment; fid = unat (fd_fragmentid fragment) in
      if fid \<ge> length (b_f b) then Err OutOfBounds
      else
        let b = b\<lparr>b_f := (b_f b)[fid := \<lparr>bf_have = 1, bf_host = host, bf_ts = ts\<rparr>]\<rparr>;
            is_last = (int fid = int (unat (fd_fragments fragment)) - 1)
        in if \<not> is_last \<and> unat (fd_length fragment) \<noteq> MTU then Ok (F_BAD_LEN, bc)
           else
             let b = (if is_last then b\<lparr>b_fs := (b_fs b)\<lparr>fs_lastlen := fd_length fragment\<rparr>\<rparr> else b)
             in bind_res (memcpy (bd_data (b_content b)) (MTU * fid) (fd_data fragment)
                            (unat (fd_length fragment)))
                  (\<lambda>data. Ok (F_ADDED, b\<lparr>b_content := (b_content b)\<lparr>bd_data := data\<rparr>\<rparr> # bc)))"

definition addfragment_at ::
    "nat \<Rightarrow> FragmentData \<Rightarrow> sockaddr_in \<Rightarrow> timeval \<Rightarrow> bcache \<Rightarrow> (int \<times> bcache) res" where
  "addfragment_at p fragment host ts bc =
     (let b = bc ! p; fid = unat (fd_fragmentid fragment); fn = unat (fs_fn (b_fs b)) in
      if fid \<ge> length (b_f b) then Err OutOfBounds
      else if bf_have (b_f b ! fid) = 1 then Ok (F_DUPLICATE, unlock_block p bc)
      else if fs_fn (b_fs b) \<noteq> fd_fragments fragment then Ok (F_FRAGMENTS_MISMATCH, unlock_block p bc)
      else if fid \<ge> fn then Ok (F_FRAGMENTID_OUTOFBOUNDS, unlock_block p bc)
      else if int fid < int fn - 1 \<and> unat (fd_length fragment) \<noteq> MTU
        then Ok (F_BAD_LEN, unlock_block p bc)
      else
        let b = (if int fid = int (unat (fd_fragments fragment)) - 1
                 then b\<lparr>b_fs := (b_fs b)\<lparr>fs_lastlen := fd_length fragment\<rparr>,
                        b_content := (b_content b)
                          \<lparr>bd_length := word_of_int ((int fn - 1) * int MTU + uint (fd_length fragment))\<rparr>\<rparr>
                 else b);
            b = b\<lparr>b_f := (b_f b)[fid := \<lparr>bf_have = 1, bf_host = host, bf_ts = ts\<rparr>]\<rparr>
        in bind_res (memcpy (bd_data (b_content b)) (MTU * fid) (fd_data fragment)
                       (unat (fd_length fragment)))
             (\<lambda>data. Ok (F_ADDED,
                unlock_block p (bc[p := b\<lparr>b_content := (b_content b)\<lparr>bd_data := data\<rparr>\<rparr>]))))"

definition addfragment ::
    "block_mem \<Rightarrow> FragmentData \<Rightarrow> sockaddr_in \<Rightarrow> timeval \<Rightarrow> bcache \<Rightarrow> (int \<times> bcache) res" where
  "addfragment mem fragment host ts bc =
     bind_res (findblock (fd_streamid fragment) (fd_blockid fragment) bc) (\<lambda>(block, bc).
       case block of
         None \<Rightarrow> addfragment_new mem fragment host ts bc
       | Some p \<Rightarrow> addfragment_at p fragment host ts bc)"

subsection \<open>Sending\<close>

definition nth_fragment :: "u16 \<Rightarrow> u32 \<Rightarrow> Block \<Rightarrow> nat \<Rightarrow> FragmentData" where
  "nth_fragment streamid blockid b i =
     \<lparr>fd_streamid = streamid, fd_blockid = blockid, fd_fragmentid = of_nat i,
      fd_fragments = fs_fn (b_fs b),
      fd_length = (if i + 1 = unat (fs_fn (b_fs b)) then fs_lastlen (b_fs b) else of_nat MTU),
      fd_data = drop (MTU * i) (bd_data (b_content b))\<rparr>"

primrec send_fragments ::
    "(nat \<Rightarrow> SendData) \<Rightarrow> (nat \<Rightarrow> FragmentData) \<Rightarrow> sockaddr_in \<Rightarrow> nat list \<Rightarrow> sender \<Rightarrow> sender res" where
  "send_fragments mem frag dest [] s = Ok s"
| "send_fragments mem frag dest (i # is) s =
     bind_res (encode_fragment (mem i) (frag i)) (\<lambda>d.
       send_fragments mem frag dest is
         (send_data (d\<lparr>sd_to := dest, sd_data := (sd_data d)[0 := BLK_BLOCK_ACK]\<rparr>) s))"

definition sendblock ::
    "(nat \<Rightarrow> SendData) \<Rightarrow> u16 \<Rightarrow> u32 \<Rightarrow> sockaddr_in \<Rightarrow> bcache \<times> sender \<Rightarrow> (int \<times> bcache \<times> sender) res" where
  "sendblock mem streamid blockid dest st =
     (case st of (bc, s) \<Rightarrow>
       bind_res (findblock streamid blockid bc) (\<lambda>(block, bc).
         case block of
           None \<Rightarrow> Ok (0, bc, s)
         | Some p \<Rightarrow>
             let n = unat (fs_fn (b_fs (bc ! p))) in
             bind_res (send_fragments mem (nth_fragment streamid blockid (bc ! p)) dest [0..<n] s)
               (\<lambda>s. Ok (int n, unlock_block p bc, s))))"

subsection \<open>Listings\<close>

definition get_blockcache_size :: "bcache \<Rightarrow> int" where
  "get_blockcache_size bc = int (length bc)"

primrec collect_ids :: "bool \<Rightarrow> bcache \<Rightarrow> BlockID list res" where
  "collect_ids want [] = Ok []"
| "collect_ids want (b # bs) =
     (if b_lock b then Err Blocked
      else map_res
        (\<lambda>ids. if have_below (unat (fs_fn (b_fs b))) (b_f b) = want then b_id b # ids else ids)
        (collect_ids want bs))"

definition get_incomplete_block_list :: "bcache \<Rightarrow> BlockID list res" where
  "get_incomplete_block_list bc = (if get_blockcache_size bc = 0 then Ok [] else collect_ids False bc)"

definition get_complete_block_list :: "bcache \<Rightarrow> BlockID list res" where
  "get_complete_block_list bc = (if get_blockcache_size bc = 0 then Ok [] else collect_ids True bc)"

primrec count_before :: "BlockFragment list \<Rightarrow> nat \<Rightarrow> nat res" where
  "count_before f 0 = Ok 0"
| "count_before f (Suc i) =
     (if i \<ge> length f then Err OutOfBounds
      else if bf_have (f ! i) = 1 then map_res Suc (count_before f i) else Ok 0)"

definition get_consecutives :: "FragmentID \<Rightarrow> bcache \<Rightarrow> (u16 \<times> bcache) res" where
  "get_consecutives fragment bc =
     bind_res (findblock (fi_streamid fragment) (fi_blockid fragment) bc) (\<lambda>(block, bc).
       case block of
         None \<Rightarrow> Ok (0, bc)
       | Some p \<Rightarrow>
           bind_res (count_before (b_f (bc ! p)) (unat (fi_fragmentid fragment)))
             (\<lambda>n. Ok (of_nat n, unlock_block p bc)))"

end
