(* ===== verification/Blockcache_Correct.thy ===== *)
theory Blockcache_Correct
  imports Blockcache
begin

text \<open>
  Correctness of the block cache: its invariant and what keeps it, the specification of the cache
  as a finite map from block identifiers to received fragments, and the inputs on which the code
  leaves its arrays.
\<close>

section \<open>Lookup and locks\<close>

lemma find_pos_find_ix: "find_pos streamid blockid bc = find_ix (is_block streamid blockid) bc"
  by (induction bc) auto

lemma is_block_iff: "is_block streamid blockid b \<longleftrightarrow> b_id b = \<lparr>bi_streamid = streamid, bi_blockid = blockid\<rparr>"
  by (auto simp: is_block_def)

interpretation cache: keyed_list b_id "\<lambda>k. find_pos (bi_streamid k) (bi_blockid k)"
proof -
  have "keyed_list b_id (\<lambda>k. find_ix (is_block (bi_streamid k) (bi_blockid k)))"
    by (rule find_ix_keyed) (auto simp: is_block_iff)
  then show "keyed_list b_id (\<lambda>k. find_pos (bi_streamid k) (bi_blockid k))"
    by (simp add: find_pos_find_ix [abs_def])
qed

abbreviation bkey :: "u16 \<Rightarrow> u32 \<Rightarrow> BlockID" where
  "bkey streamid blockid \<equiv> \<lparr>bi_streamid = streamid, bi_blockid = blockid\<rparr>"

lemmas find_pos_SomeD = cache.find_SomeD [where k = "bkey s b" for s b, simplified]
lemmas find_pos_None_iff = cache.find_None_iff [where k = "bkey s b" for s b, simplified]

definition unlocked :: "bcache \<Rightarrow> bool" where
  "unlocked bc \<longleftrightarrow> (\<forall>b \<in> set bc. \<not> b_lock b)"

abbreviation locked_at :: "nat \<Rightarrow> bcache \<Rightarrow> bcache" where
  "locked_at p bc \<equiv> bc[p := (bc ! p)\<lparr>b_lock := True\<rparr>]"

lemma findblock_unlocked:
  assumes "unlocked bc"
  shows "findblock streamid blockid bc =
     Ok (case find_pos streamid blockid bc of None \<Rightarrow> (None, bc) | Some p \<Rightarrow> (Some p, locked_at p bc))"
  using assms find_pos_SomeD [of streamid blockid bc]
  by (auto simp: findblock_def raw_findblock_def lock_block_def unlocked_def split: option.split)

lemma unlock_locked_at [simp]:
  assumes "unlocked bc" and "p < length bc"
  shows "unlock_block p (locked_at p bc) = bc"
proof -
  have "\<not> b_lock (bc ! p)" using assms by (simp add: unlocked_def)
  then have "(bc ! p)\<lparr>b_lock := False\<rparr> = bc ! p" by (cases "bc ! p") simp
  then show ?thesis using assms(2) by (simp add: unlock_block_def)
qed

lemma unlock_update:
  "p < length bc \<Longrightarrow> unlock_block p ((locked_at p bc)[p := b]) = bc[p := b\<lparr>b_lock := False\<rparr>]"
  by (simp add: unlock_block_def)

lemma addblock_new:
  assumes "unlocked bc" and "find_pos streamid blockid bc = None"
  shows "addblock streamid blockid blockdata bc =
    (if unat (bd_length blockdata) > length (bd_data blockdata) then Err OutOfBounds
     else Ok (1, \<lparr>b_id = bkey streamid blockid,
       b_content = \<lparr>bd_data = take (unat (bd_length blockdata)) (bd_data blockdata), bd_length = bd_length blockdata\<rparr>,
       b_f = replicate (unat (fs_fn (calcfragments (bd_length blockdata))))
         \<lparr>bf_have = 1, bf_host = zero_addr, bf_ts = zero_time\<rparr>,
       b_fs = calcfragments (bd_length blockdata), b_lock = False\<rparr> # bc))"
  using assms by (simp add: addblock_def findblock_unlocked Let_def)

section \<open>Completeness\<close>

lemma have_below_iff: "have_below n f \<longleftrightarrow> (\<forall>i < n. bf_have (f ! i) \<noteq> 0)"
  by (induction n) (auto simp: less_Suc_eq)

section \<open>Splitting a length into fragments\<close>

lemma sdiv_nat: "int n sdiv 1400 = int (n div 1400)"
  by (cases "n = 0") (simp_all add: signed_divide_int_def zdiv_int)

lemma smod_nat: "int n smod 1400 = int (n mod 1400)"
  by (cases "n = 0") (simp_all add: signed_modulo_int_def zmod_int)

lemma ceil_div_1400:
  "((n :: nat) + 1399) div 1400 = (if n mod 1400 = 0 then n div 1400 else n div 1400 + 1)"
proof -
  have n: "n = 1400 * (n div 1400) + n mod 1400" "n mod 1400 < 1400" by simp_all
  show ?thesis
  proof (cases "n mod 1400 = 0")
    case True
    then have "(n + 1399) div 1400 = n div 1400" using n by (intro div_nat_eqI) simp_all
    then show ?thesis using True by simp
  next
    case False
    then have "0 < n mod 1400" by simp
    then have "(n + 1399) div 1400 = n div 1400 + 1"
      using n by (intro div_nat_eqI; unfold mult_Suc_right add_mult_distrib2; linarith)
    then show ?thesis using False by simp
  qed
qed

lemma calcfragments_int:
  assumes "0 < unat len" and "unat len < 2 ^ 31"
  shows "fs_fn (calcfragments len) = of_nat ((unat len + 1399) div 1400)"
    and "fs_lastlen (calcfragments len) = of_nat (if unat len mod 1400 = 0 then 1400 else unat len mod 1400)"
proof -
  have pos: "\<not> len < 1" using assms(1) by (simp add: word_less_nat_alt)
  have s: "sint len = int (unat len)"
    using assms(2) by (simp add: sint_uint signed_take_bit_int_eq_self uint_nat del: of_nat_unat)
  have q: "sint len sdiv int MTU = int (unat len div 1400)"
    by (simp only: s MTU_def of_nat_numeral sdiv_nat)
  have r: "sint len smod int MTU = int (unat len mod 1400)"
    by (simp only: s MTU_def of_nat_numeral smod_nat)
  show "fs_lastlen (calcfragments len) = of_nat (if unat len mod 1400 = 0 then 1400 else unat len mod 1400)"
    using pos by (simp add: calcfragments_def q r Let_def) (simp add: MTU_def)
  show "fs_fn (calcfragments len) = of_nat ((unat len + 1399) div 1400)"
    using pos unfolding ceil_div_1400 by (simp add: calcfragments_def q r Let_def)
qed

lemma calcfragments_split:
  assumes "1 \<le> unat len" and "unat len \<le> 65535 * 1400"
  shows "1 \<le> unat (fs_fn (calcfragments len)) \<and> 1 \<le> unat (fs_lastlen (calcfragments len)) \<and>
    unat (fs_lastlen (calcfragments len)) \<le> MTU \<and>
    (unat (fs_fn (calcfragments len)) - 1) * MTU + unat (fs_lastlen (calcfragments len)) = unat len"
proof -
  let ?n = "unat len"
  have fs: "fs_fn (calcfragments len) = of_nat ((?n + 1399) div 1400)"
    "fs_lastlen (calcfragments len) = of_nat (if ?n mod 1400 = 0 then 1400 else ?n mod 1400)"
    using assms by (intro calcfragments_int; simp)+
  have "(?n + 1399) div 1400 < 65536" using assms(2) by (simp add: less_mult_imp_div_less)
  then have fn: "unat (fs_fn (calcfragments len)) = (if ?n mod 1400 = 0 then ?n div 1400 else ?n div 1400 + 1)"
    unfolding fs(1) by (simp add: unat_of_nat ceil_div_1400)
  have "?n mod 1400 < 1400" by simp
  then have ll: "unat (fs_lastlen (calcfragments len)) = (if ?n mod 1400 = 0 then 1400 else ?n mod 1400)"
    unfolding fs(2) by (simp add: unat_of_nat)
  have n: "?n = 1400 * (?n div 1400) + ?n mod 1400" "?n mod 1400 < 1400" by simp_all
  show ?thesis
  proof (cases "?n mod 1400 = 0")
    case True
    then have "1 \<le> ?n div 1400" "?n = 1400 * (?n div 1400)" using assms(1) n by linarith+
    then have "(?n div 1400 - 1) * 1400 + 1400 = ?n" by (metis add_mult_distrib le_add_diff_inverse2 mult.commute mult_1)
    then show ?thesis using True \<open>1 \<le> ?n div 1400\<close> by (simp add: fn ll MTU_def)
  next
    case False
    then show ?thesis by (simp add: fn ll MTU_def)
  qed
qed

text \<open>
  For every block the 16-bit fragment counter can number, \<open>calcfragments\<close> is the exact split:
  the full fragments and the last one, which is never empty and never longer than the others,
  add up to the length.
\<close>

lemma calcfragments_exact:
  assumes "1 \<le> unat len" and "unat len \<le> 65535 * 1400"
  shows "1 \<le> unat (fs_fn (calcfragments len)) \<and> 1 \<le> unat (fs_lastlen (calcfragments len)) \<and>
    unat (fs_lastlen (calcfragments len)) \<le> MTU \<and>
    (unat (fs_fn (calcfragments len)) - 1) * MTU + unat (fs_lastlen (calcfragments len)) = unat len"
  using calcfragments_split [OF assms] .

section \<open>The invariant\<close>

text \<open>
  Between calls no block is locked, the fragment array has one entry per fragment, the content
  buffer holds every full fragment, and once the last fragment is there its length is recorded and
  fits. \<open>content.length\<close> never exceeds the buffer.
\<close>

abbreviation b_fn :: "Block \<Rightarrow> nat" where "b_fn b \<equiv> unat (fs_fn (b_fs b))"
abbreviation b_lastlen :: "Block \<Rightarrow> nat" where "b_lastlen b \<equiv> unat (fs_lastlen (b_fs b))"
abbreviation b_data :: "Block \<Rightarrow> u8 list" where "b_data b \<equiv> bd_data (b_content b)"

definition have_frag :: "Block \<Rightarrow> nat \<Rightarrow> bool" where
  "have_frag b i \<longleftrightarrow> i < b_fn b \<and> bf_have (b_f b ! i) = 1"

definition block_ok :: "Block \<Rightarrow> bool" where
  "block_ok b \<longleftrightarrow> \<not> b_lock b \<and> length (b_f b) = b_fn b \<and>
     (\<forall>i < b_fn b. bf_have (b_f b ! i) \<in> {0, 1}) \<and>
     (b_fn b - 1) * MTU \<le> length (b_data b) \<and>
     (0 < b_fn b \<and> have_frag b (b_fn b - 1) \<longrightarrow>
        b_lastlen b \<le> MTU \<and> (b_fn b - 1) * MTU + b_lastlen b \<le> length (b_data b)) \<and>
     (\<not> have_frag b (b_fn b - 1) \<longrightarrow> b_fn b * MTU \<le> length (b_data b)) \<and>
     unat (bd_length (b_content b)) \<le> length (b_data b)"

definition cache_ok :: "bcache \<Rightarrow> bool" where
  "cache_ok bc \<longleftrightarrow> (\<forall>b \<in> set bc. block_ok b) \<and> distinct (map b_id bc)"

lemma cache_ok_unlocked: "cache_ok bc \<Longrightarrow> unlocked bc"
  by (simp add: cache_ok_def unlocked_def block_ok_def)

section \<open>The cache as a map\<close>

definition frag_len :: "Block \<Rightarrow> nat \<Rightarrow> nat" where
  "frag_len b i = (if i + 1 = b_fn b then b_lastlen b else MTU)"

definition block_frags :: "Block \<Rightarrow> nat \<rightharpoonup> u8 list" where
  "block_frags b i = (if have_frag b i then Some (bytes_at (MTU * i) (frag_len b i) (b_data b)) else None)"

definition abs_block :: "Block \<Rightarrow> nat \<times> (nat \<rightharpoonup> u8 list)" where
  "abs_block b = (b_fn b, block_frags b)"

definition abs_cache :: "bcache \<Rightarrow> BlockID \<rightharpoonup> nat \<times> (nat \<rightharpoonup> u8 list)" where
  "abs_cache bc = map_option abs_block \<circ> kmap b_id bc"

definition frag_key :: "FragmentData \<Rightarrow> BlockID" where
  "frag_key fd = bkey (fd_streamid fd) (fd_blockid fd)"

text \<open>What adding a fragment means: the first fragment of a block fixes the number of its fragments.\<close>

definition spec_addfragment ::
    "FragmentData \<Rightarrow> (BlockID \<rightharpoonup> nat \<times> (nat \<rightharpoonup> u8 list)) \<Rightarrow>
     int \<times> (BlockID \<rightharpoonup> nat \<times> (nat \<rightharpoonup> u8 list))" where
  "spec_addfragment fd m =
     (let k = frag_key fd; i = unat (fd_fragmentid fd); n = unat (fd_fragments fd);
          bad = (i + 1 \<noteq> n \<and> unat (fd_length fd) \<noteq> MTU)
      in case m k of
           None \<Rightarrow> if bad then (F_BAD_LEN, m) else (F_ADDED, m(k \<mapsto> (n, [i \<mapsto> fd_data fd])))
         | Some (fn, fr) \<Rightarrow>
             if fr i \<noteq> None then (F_DUPLICATE, m)
             else if fn \<noteq> n then (F_FRAGMENTS_MISMATCH, m)
             else if bad then (F_BAD_LEN, m)
             else (F_ADDED, m(k \<mapsto> (fn, fr(i \<mapsto> fd_data fd)))))"

text \<open>
  The fragments on which the code stays inside its arrays: the index is one of the announced
  fragments and one of the fragments of a block already known, and no fragment is longer than
  \<open>MTU\<close>. Nothing in the receiver enforces this.
\<close>

definition safe_fragment :: "FragmentData \<Rightarrow> bcache \<Rightarrow> bool" where
  "safe_fragment fd bc \<longleftrightarrow> unat (fd_fragmentid fd) < unat (fd_fragments fd) \<and>
     unat (fd_length fd) \<le> MTU \<and> length (fd_data fd) = unat (fd_length fd) \<and>
     (\<forall>b \<in> set bc. b_id b = frag_key fd \<longrightarrow> unat (fd_fragmentid fd) < b_fn b)"

subsection \<open>The first fragment of a block\<close>

definition first_block :: "block_mem \<Rightarrow> FragmentData \<Rightarrow> sockaddr_in \<Rightarrow> timeval \<Rightarrow> Block" where
  "first_block mem fd host ts =
     (let b = new_block mem fd; i = unat (fd_fragmentid fd)
      in b\<lparr>b_f := (b_f b)[i := \<lparr>bf_have = 1, bf_host = host, bf_ts = ts\<rparr>],
           b_fs := (if i + 1 = unat (fd_fragments fd) then (b_fs b)\<lparr>fs_lastlen := fd_length fd\<rparr> else b_fs b),
           b_content := (b_content b)\<lparr>bd_data := patch (b_data b) (MTU * i) (fd_data fd)\<rparr>\<rparr>)"

lemma mult_index_le: "i < n \<Longrightarrow> l \<le> MTU \<Longrightarrow> MTU * i + l \<le> MTU * n"
proof -
  assume "i < n" "l \<le> MTU"
  then have "MTU * i + l \<le> MTU * Suc i" by simp
  also have "\<dots> \<le> MTU * n" using \<open>i < n\<close> by (intro mult_le_mono) simp_all
  finally show ?thesis .
qed

lemma addfragment_new_eq:
  assumes "unat (fd_fragmentid fd) < unat (fd_fragments fd)" and "unat (fd_length fd) \<le> MTU"
    and "length (fd_data fd) = unat (fd_length fd)"
  shows "addfragment_new mem fd host ts bc =
    Ok (if unat (fd_fragmentid fd) + 1 \<noteq> unat (fd_fragments fd) \<and> unat (fd_length fd) \<noteq> MTU
        then (F_BAD_LEN, bc) else (F_ADDED, first_block mem fd host ts # bc))"
proof -
  have last: "int (unat (fd_fragmentid fd)) = int (unat (fd_fragments fd)) - 1 \<longleftrightarrow>
      unat (fd_fragmentid fd) + 1 = unat (fd_fragments fd)" by linarith
  have "MTU * unat (fd_fragmentid fd) + length (fd_data fd) \<le> MTU * unat (fd_fragments fd)"
    using assms by (simp add: mult_index_le)
  then show ?thesis using assms
    by (simp only: addfragment_new_def Let_def last) (auto simp: memcpy_def first_block_def new_block_def Let_def)
qed

lemma first_block_fields:
  fixes mem :: block_mem and host :: sockaddr_in and ts :: timeval
  assumes "unat (fd_fragmentid fd) < unat (fd_fragments fd)" and "unat (fd_length fd) \<le> MTU"
    and "length (fd_data fd) = unat (fd_length fd)"
  defines "b \<equiv> first_block mem fd host ts"
  shows "b_id b = frag_key fd" and "b_fn b = unat (fd_fragments fd)" and "\<not> b_lock b"
    and "length (b_f b) = b_fn b" and "length (b_data b) = MTU * b_fn b"
    and "\<And>i. i < b_fn b \<Longrightarrow> bf_have (b_f b ! i) = (if i = unat (fd_fragmentid fd) then 1 else 0)"
    and "unat (fd_fragmentid fd) + 1 = unat (fd_fragments fd) \<Longrightarrow> b_lastlen b = unat (fd_length fd)"
    and "unat (bd_length (b_content b)) = MTU * b_fn b"
    and "bytes_at (MTU * unat (fd_fragmentid fd)) (unat (fd_length fd)) (b_data b) = fd_data fd"
proof -
  have le: "MTU * unat (fd_fragmentid fd) + length (fd_data fd) \<le> MTU * unat (fd_fragments fd)"
    using assms by (simp add: mult_index_le)
  have small: "MTU * unat (fd_fragments fd) < 2 ^ 32"
    using unat_u16_less [of "fd_fragments fd"] by (simp add: MTU_def)
  show fn: "b_fn b = unat (fd_fragments fd)"
    by (simp add: b_def first_block_def new_block_def Let_def)
  show "bytes_at (MTU * unat (fd_fragmentid fd)) (unat (fd_length fd)) (b_data b) = fd_data fd"
    using bytes_at_patch_same [of "MTU * unat (fd_fragmentid fd)" "fd_data fd"] le assms(3)
    by (simp add: b_def first_block_def new_block_def Let_def)
  have "bd_length (b_content b) = of_nat (MTU * unat (fd_fragments fd))"
    by (simp add: b_def first_block_def new_block_def Let_def)
  then show "unat (bd_length (b_content b)) = MTU * b_fn b"
    using small by (simp only: fn unat_of_nat) simp
  show "length (b_data b) = MTU * b_fn b"
    using le by (simp add: fn) (simp add: b_def first_block_def new_block_def Let_def)
  show "bf_have (b_f b ! i) = (if i = unat (fd_fragmentid fd) then 1 else 0)" if "i < b_fn b" for i
    using that unfolding fn by (simp add: b_def first_block_def new_block_def Let_def nth_list_update)
qed (simp_all add: b_def first_block_def new_block_def Let_def frag_key_def)

lemma first_block_ok:
  assumes "unat (fd_fragmentid fd) < unat (fd_fragments fd)" and "unat (fd_length fd) \<le> MTU"
    and "length (fd_data fd) = unat (fd_length fd)"
    and "unat (fd_fragmentid fd) + 1 = unat (fd_fragments fd) \<or> unat (fd_length fd) = MTU"
  shows "block_ok (first_block mem fd host ts)"
    and "abs_block (first_block mem fd host ts) =
      (unat (fd_fragments fd), [unat (fd_fragmentid fd) \<mapsto> fd_data fd])"
proof -
  let ?b = "first_block mem fd host ts" and ?i = "unat (fd_fragmentid fd)"
  note b = first_block_fields [OF assms(1-3), where mem = mem and host = host and ts = ts]
  have fn: "0 < b_fn ?b" "?i < b_fn ?b" using assms(1) b(2) by auto
  have hv: "have_frag ?b i \<longleftrightarrow> i = ?i" for i
    using b(6) [of i] fn by (auto simp: have_frag_def split: if_splits)
  have mult: "MTU * b_fn ?b = (b_fn ?b - 1) * MTU + MTU" using fn(1)
    by (metis Suc_diff_1 add.commute mult.commute mult_Suc)
  show "block_ok ?b" unfolding block_ok_def
    using b(3,4,5,7,8) assms(2) fn mult by (auto simp: hv b(6) b(2) mult.commute)
  have "frag_len ?b ?i = unat (fd_length fd)"
    using assms(4) b(2,7) by (auto simp: frag_len_def)
  then show "abs_block ?b = (unat (fd_fragments fd), [?i \<mapsto> fd_data fd])"
    using b(2,9) by (auto simp: abs_block_def block_frags_def hv fun_eq_iff)
qed

subsection \<open>A further fragment of a known block\<close>

definition stored :: "Block \<Rightarrow> FragmentData \<Rightarrow> sockaddr_in \<Rightarrow> timeval \<Rightarrow> Block" where
  "stored b fd host ts =
     (let i = unat (fd_fragmentid fd); is_last = (i + 1 = b_fn b)
      in b\<lparr>b_f := (b_f b)[i := \<lparr>bf_have = 1, bf_host = host, bf_ts = ts\<rparr>],
           b_fs := (if is_last then (b_fs b)\<lparr>fs_lastlen := fd_length fd\<rparr> else b_fs b),
           b_content :=
             \<lparr>bd_data = patch (b_data b) (MTU * i) (fd_data fd),
              bd_length = (if is_last then of_nat (MTU * i + unat (fd_length fd))
                           else bd_length (b_content b))\<rparr>\<rparr>)"

lemma fragment_room:
  assumes ok: "block_ok b" and new: "\<not> have_frag b (unat (fd_fragmentid fd))"
    and i: "unat (fd_fragmentid fd) < b_fn b" "unat (fd_length fd) \<le> MTU"
      "length (fd_data fd) = unat (fd_length fd)"
  shows "MTU * unat (fd_fragmentid fd) + length (fd_data fd) \<le> length (b_data b)"
proof (cases "unat (fd_fragmentid fd) + 1 = b_fn b")
  case True
  then have "b_fn b * MTU \<le> length (b_data b)" using ok new by (auto simp: block_ok_def simp flip: True)
  then show ?thesis using mult_index_le [OF i(1,2)] i(3) by (simp add: mult.commute)
next
  case False
  then have "unat (fd_fragmentid fd) < b_fn b - 1" using i(1) by simp
  then have "MTU * unat (fd_fragmentid fd) + length (fd_data fd) \<le> MTU * (b_fn b - 1)"
    using i by (simp add: mult_index_le)
  then show ?thesis using ok by (simp add: block_ok_def mult.commute)
qed

lemma addfragment_at_eq:
  assumes ok: "block_ok b" and p: "p < length bc" "bc ! p = b" and unl: "unlocked bc"
    and i: "unat (fd_fragmentid fd) < b_fn b" "unat (fd_length fd) \<le> MTU"
      "length (fd_data fd) = unat (fd_length fd)"
  shows "addfragment_at p fd host ts (locked_at p bc) =
    Ok (if have_frag b (unat (fd_fragmentid fd)) then (F_DUPLICATE, bc)
        else if b_fn b \<noteq> unat (fd_fragments fd) then (F_FRAGMENTS_MISMATCH, bc)
        else if unat (fd_fragmentid fd) + 1 \<noteq> b_fn b \<and> unat (fd_length fd) \<noteq> MTU then (F_BAD_LEN, bc)
        else (F_ADDED, bc[p := stored b fd host ts]))"
proof -
  let ?i = "unat (fd_fragmentid fd)"
  have nolock: "b\<lparr>b_lock := False\<rparr> = b" and len: "length (b_f b) = b_fn b"
    using ok by (cases b; simp add: block_ok_def)+
  have neq: "fs_fn (b_fs b) \<noteq> fd_fragments fd \<longleftrightarrow> b_fn b \<noteq> unat (fd_fragments fd)"
    by (simp add: word_unat_eq_iff)
  have last: "int ?i = int (b_fn b) - 1 \<longleftrightarrow> ?i + 1 = b_fn b" by linarith
  have nlast: "int ?i < int (b_fn b) - 1 \<longleftrightarrow> ?i + 1 \<noteq> b_fn b" using i(1) by linarith
  have conv: "(of_nat (b_fn b) - 1) = (of_nat ?i :: u32)" if "Suc ?i = b_fn b"
    using that by (metis add_diff_cancel_left' of_nat_Suc)
  consider (dup) "have_frag b ?i" | (mism) "\<not> have_frag b ?i" "b_fn b \<noteq> unat (fd_fragments fd)"
    | (bad) "\<not> have_frag b ?i" "b_fn b = unat (fd_fragments fd)" "?i + 1 \<noteq> b_fn b" "unat (fd_length fd) \<noteq> MTU"
    | (add) "\<not> have_frag b ?i" "b_fn b = unat (fd_fragments fd)" "?i + 1 = b_fn b \<or> unat (fd_length fd) = MTU"
    by blast
  then show ?thesis
  proof cases
    case add
    have fnw: "fd_fragments fd = fs_fn (b_fs b)" using add(2) by (simp add: word_unat_eq_iff)
    have hv: "bf_have (b_f b ! ?i) \<noteq> 1" using add(1) i(1) by (simp add: have_frag_def)
    have uc: "ucast (fd_length fd) = (of_nat (unat (fd_length fd)) :: u32)" by simp
    have bl: "\<not> b_lock b" using ok by (simp add: block_ok_def)
    have "addfragment_at p fd host ts (locked_at p bc) = Ok (F_ADDED, bc[p := stored b fd host ts])"
      using add(3) fragment_room [OF ok add(1) i] p(1) i len bl
      by (auto simp: addfragment_at_def Let_def p(2) fnw hv last nlast memcpy_def unlock_block_def
          stored_def conv simp del: of_nat_unat
          intro!: arg_cong [where f = "\<lambda>x. bc[p := x]"] Block.equality BlockData.equality)
        (simp add: conv | metis uc)+
    then show ?thesis using add by auto
  next
    case bad
    have fnw: "fd_fragments fd = fs_fn (b_fs b)" using bad(2) by (simp add: word_unat_eq_iff)
    have hv: "bf_have (b_f b ! ?i) \<noteq> 1" using bad(1) i(1) by (simp add: have_frag_def)
    show ?thesis using bad p unl i len unlock_locked_at [OF unl p(1)]
      by (simp add: addfragment_at_def Let_def fnw hv nlast del: of_nat_unat)
  qed (use p unl i len neq in \<open>auto simp: addfragment_at_def Let_def have_frag_def\<close>)
qed

lemma stored_fields:
  fixes fd :: FragmentData and host :: sockaddr_in and ts :: timeval
  assumes ok: "block_ok b" and new: "\<not> have_frag b (unat (fd_fragmentid fd))"
    and i: "unat (fd_fragmentid fd) < b_fn b" "unat (fd_length fd) \<le> MTU"
      "length (fd_data fd) = unat (fd_length fd)"
  defines "b' \<equiv> stored b fd host ts" and "i \<equiv> unat (fd_fragmentid fd)"
  shows "b_id b' = b_id b" and "b_fn b' = b_fn b" and "\<not> b_lock b'" and "length (b_f b') = b_fn b"
    and "length (b_data b') = length (b_data b)"
    and "have_frag b' j \<longleftrightarrow> have_frag b j \<or> j = i"
    and "\<forall>j < b_fn b. bf_have (b_f b' ! j) \<in> {0, 1}"
    and "b_lastlen b' = (if i + 1 = b_fn b then unat (fd_length fd) else b_lastlen b)"
    and "unat (bd_length (b_content b')) =
      (if i + 1 = b_fn b then MTU * i + unat (fd_length fd) else unat (bd_length (b_content b)))"
    and "b_data b' = patch (b_data b) (MTU * i) (fd_data fd)"
proof -
  have len: "length (b_f b) = b_fn b" using ok by (simp add: block_ok_def)
  have hv01: "\<forall>j < b_fn b. bf_have (b_f b ! j) \<in> {0, 1}" using ok unfolding block_ok_def by blast
  show "length (b_data b') = length (b_data b)"
    using fragment_room [OF ok new i] by (simp add: b'_def stored_def Let_def)
  show fn: "b_fn b' = b_fn b" by (simp add: b'_def stored_def Let_def)
  show "have_frag b' j \<longleftrightarrow> have_frag b j \<or> j = i"
    using i(1) len unfolding have_frag_def fn
    by (auto simp: b'_def stored_def Let_def i_def nth_list_update)
  show "\<forall>j < b_fn b. bf_have (b_f b' ! j) \<in> {0, 1}"
    using hv01 len i(1) by (auto simp: b'_def stored_def Let_def nth_list_update)
  have "MTU * i + unat (fd_length fd) < 2 ^ 32"
    using mult_index_le [OF i(1,2)] unat_u16_less [of "fs_fn (b_fs b)"] by (simp add: MTU_def i_def)
  then have small: "unat (of_nat (MTU * i + unat (fd_length fd)) :: u32) = MTU * i + unat (fd_length fd)"
    by (simp only: unat_of_nat) simp
  have "bd_length (b_content b') = (if i + 1 = b_fn b then of_nat (MTU * i + unat (fd_length fd))
      else bd_length (b_content b))"
    by (simp add: b'_def stored_def Let_def i_def)
  then show "unat (bd_length (b_content b')) =
      (if i + 1 = b_fn b then MTU * i + unat (fd_length fd) else unat (bd_length (b_content b)))"
    using small by presburger
qed (use ok in \<open>simp_all add: b'_def stored_def Let_def i_def block_ok_def\<close>)

lemma stored_ok:
  assumes ok: "block_ok b" and new: "\<not> have_frag b (unat (fd_fragmentid fd))"
    and i: "unat (fd_fragmentid fd) < b_fn b" "unat (fd_length fd) \<le> MTU"
      "length (fd_data fd) = unat (fd_length fd)"
    and full: "unat (fd_fragmentid fd) + 1 = b_fn b \<or> unat (fd_length fd) = MTU"
  shows "block_ok (stored b fd host ts)"
    and "abs_block (stored b fd host ts) = (b_fn b, (block_frags b)(unat (fd_fragmentid fd) \<mapsto> fd_data fd))"
proof -
  let ?b = "stored b fd host ts" and ?i = "unat (fd_fragmentid fd)"
  note f = stored_fields [OF ok new i, where host = host and ts = ts]
  note room = fragment_room [OF ok new i]
  have fn: "0 < b_fn b" using i(1) by simp
  have mult: "?i + 1 = b_fn b \<Longrightarrow> (b_fn b - 1) * MTU = MTU * ?i" by (metis add_diff_cancel_right' mult.commute)
  have ll: "b_lastlen b \<le> MTU" if "have_frag b (b_fn b - 1)" using ok that fn by (simp add: block_ok_def)
  show "block_ok ?b"
    unfolding block_ok_def f(2) f(6)
    using ok f(3-5,7-9) room fn mult i by (auto simp: block_ok_def mult.commute)
  have fl: "frag_len ?b j = (if j = ?i then unat (fd_length fd) else frag_len b j)" for j
    using full f(2,8) by (auto simp: frag_len_def)
  have other: "bytes_at (MTU * j) (frag_len b j) (b_data ?b) = bytes_at (MTU * j) (frag_len b j) (b_data b)"
    if "have_frag b j" "j \<noteq> ?i" for j
  proof -
    have "j + 1 = b_fn b \<Longrightarrow> j = b_fn b - 1" by simp
    then have "frag_len b j \<le> MTU" using that(1) ll by (auto simp: frag_len_def)
    then have "MTU * j + frag_len b j \<le> MTU * ?i \<or> MTU * ?i + length (fd_data fd) \<le> MTU * j"
      using that(2) i mult_index_le [of j ?i "frag_len b j"] mult_index_le [of ?i j "length (fd_data fd)"]
      by (cases "j < ?i") auto
    then show ?thesis using room f(10) by (simp add: bytes_at_patch_other)
  qed
  have "bytes_at (MTU * ?i) (unat (fd_length fd)) (b_data ?b) = fd_data fd"
    using room f(10) bytes_at_patch_same [of "MTU * ?i" "fd_data fd"] i(3) by simp
  then show "abs_block ?b = (b_fn b, (block_frags b)(?i \<mapsto> fd_data fd))"
    using other by (auto simp: abs_block_def f(2) block_frags_def f(6) fl fun_eq_iff)
qed

subsection \<open>Refinement\<close>

lemma abs_cache_update:
  assumes "cache_ok bc" and "p < length bc" and "b_id b = b_id (bc ! p)"
  shows "abs_cache (bc[p := b]) = (abs_cache bc)(b_id b \<mapsto> abs_block b)"
  using assms by (auto simp: abs_cache_def cache_ok_def kmap_update fun_eq_iff)

lemma cache_ok_update:
  assumes "cache_ok bc" and "p < length bc" and "b_id b = b_id (bc ! p)" and "block_ok b"
  shows "cache_ok (bc[p := b])"
  using assms set_update_subset_insert [of bc p b] by (auto simp: cache_ok_def map_key_update)

lemma abs_cache_find:
  assumes "cache_ok bc"
  shows "abs_cache bc (bkey streamid blockid) =
    map_option (\<lambda>p. abs_block (bc ! p)) (find_pos streamid blockid bc)"
  using assms cache.find_kmap [of bc "bkey streamid blockid"]
  by (simp add: abs_cache_def cache_ok_def option.map_comp o_def)

lemma addfragment_refines:
  assumes ok: "cache_ok bc" and safe: "safe_fragment fd bc"
  shows "\<exists>rc bc'. addfragment mem fd host ts bc = Ok (rc, bc') \<and> cache_ok bc' \<and>
    spec_addfragment fd (abs_cache bc) = (rc, abs_cache bc')"
proof (cases "find_pos (fd_streamid fd) (fd_blockid fd) bc")
  case None
  note unl = cache_ok_unlocked [OF ok]
  have s: "unat (fd_fragmentid fd) < unat (fd_fragments fd)" "unat (fd_length fd) \<le> MTU"
    "length (fd_data fd) = unat (fd_length fd)" using safe by (auto simp: safe_fragment_def)
  note fb = first_block_fields(1) [OF s, where mem = mem and host = host and ts = ts]
    first_block_ok [OF s, where mem = mem and host = host and ts = ts]
  have "abs_cache bc (frag_key fd) = None" by (simp add: abs_cache_find [OF ok] frag_key_def None)
  moreover have "cache_ok (first_block mem fd host ts # bc)"
    if "unat (fd_fragmentid fd) + 1 = unat (fd_fragments fd) \<or> unat (fd_length fd) = MTU"
    using ok fb(1,2) that None find_pos_None_iff [of "fd_streamid fd" "fd_blockid fd" bc]
    by (simp add: cache_ok_def frag_key_def)
  ultimately show ?thesis
    using fb by (auto simp: addfragment_def findblock_unlocked [OF unl] None addfragment_new_eq [OF s] ok
        spec_addfragment_def Let_def abs_cache_def kmap_Cons fun_eq_iff)
next
  case (Some p)
  note unl = cache_ok_unlocked [OF ok]
  let ?b = "bc ! p" and ?i = "unat (fd_fragmentid fd)"
  have p: "p < length bc" "b_id ?b = frag_key fd"
    using find_pos_SomeD [OF Some] by (auto simp: frag_key_def)
  then have s: "?i < b_fn ?b" "unat (fd_length fd) \<le> MTU" "length (fd_data fd) = unat (fd_length fd)"
    using safe by (auto simp: safe_fragment_def)
  have bok: "block_ok ?b" using ok p(1) by (simp add: cache_ok_def)
  have abs: "abs_cache bc (frag_key fd) = Some (b_fn ?b, block_frags ?b)"
    using abs_cache_find [OF ok, of "fd_streamid fd" "fd_blockid fd"] by (simp add: frag_key_def Some abs_block_def)
  have hv: "block_frags ?b ?i = None \<longleftrightarrow> \<not> have_frag ?b ?i" by (simp add: block_frags_def)
  have add: "cache_ok (bc[p := stored ?b fd host ts])" "abs_cache (bc[p := stored ?b fd host ts]) =
      (abs_cache bc)(frag_key fd \<mapsto> (b_fn ?b, (block_frags ?b)(?i \<mapsto> fd_data fd)))"
    if "\<not> have_frag ?b ?i" "?i + 1 = b_fn ?b \<or> unat (fd_length fd) = MTU"
    using stored_ok [OF bok that(1) s that(2), of host ts] stored_fields(1) [OF bok that(1) s, of host ts]
      ok p cache_ok_update abs_cache_update by simp_all
  show ?thesis
    using add by (auto simp: addfragment_def findblock_unlocked [OF unl] Some ok abs hv spec_addfragment_def
        Let_def addfragment_at_eq [OF bok p(1) refl unl s] simp del: not_None_eq)
qed

end
