(* ===== verification/Reassembly.thy ===== *)
theory Reassembly
  imports Blockcache_Correct
begin

text \<open>
  What the two sides of the block cache do together: a block put into one cache is split by
  \<open>sendblock\<close> into the fragments below, and adding these fragments to another cache, in any order
  in which the last fragment is not the first to arrive, gives the block back. The excluded
  orders are the ones on which \<open>content.length\<close> is never set.
\<close>

section \<open>The fragments of a block\<close>

definition num_frags :: "u8 list \<Rightarrow> nat" where
  "num_frags data = unat (fs_fn (calcfragments (of_nat (length data))))"

definition piece :: "u16 \<Rightarrow> u32 \<Rightarrow> u8 list \<Rightarrow> nat \<Rightarrow> FragmentData" where
  "piece streamid blockid data i =
     (let fs = calcfragments (of_nat (length data));
          l = (if i + 1 = unat (fs_fn fs) then fs_lastlen fs else of_nat MTU)
      in \<lparr>fd_streamid = streamid, fd_blockid = blockid, fd_fragmentid = of_nat i,
          fd_fragments = fs_fn fs, fd_length = l, fd_data = bytes_at (MTU * i) (unat l) data\<rparr>)"

text \<open>Blocks the fragment numbering can carry.\<close>

definition sendable :: "u8 list \<Rightarrow> bool" where
  "sendable data \<longleftrightarrow> 1 \<le> length data \<and> length data \<le> 65535 * 1400"

definition last_len :: "u8 list \<Rightarrow> nat" where
  "last_len data = unat (fs_lastlen (calcfragments (of_nat (length data))))"

lemma unat_length: "sendable data \<Longrightarrow> unat (of_nat (length data) :: u32) = length data"
  by (simp only: unat_of_nat) (simp add: sendable_def)

lemma split_exact:
  assumes "sendable data"
  shows "1 \<le> num_frags data" "num_frags data < 65536" "1 \<le> last_len data" "last_len data \<le> MTU"
    "MTU * (num_frags data - 1) + last_len data = length data"
proof -
  show "1 \<le> num_frags data" "1 \<le> last_len data" "last_len data \<le> MTU"
    "MTU * (num_frags data - 1) + last_len data = length data"
    using calcfragments_split [of "of_nat (length data)"] assms unat_length [OF assms]
    by (simp_all add: num_frags_def last_len_def sendable_def mult.commute)
  show "num_frags data < 65536" by (simp add: num_frags_def unat_u16_less)
qed

lemma piece_fields:
  fixes streamid :: u16 and blockid :: u32
  assumes "sendable data" and "i < num_frags data"
  defines "fd \<equiv> piece streamid blockid data i"
  shows "frag_key fd = bkey streamid blockid" and "unat (fd_fragmentid fd) = i"
    and "unat (fd_fragments fd) = num_frags data"
    and "unat (fd_length fd) = (if i + 1 = num_frags data then last_len data else MTU)"
    and "unat (fd_length fd) \<le> MTU"
    and "length (fd_data fd) = unat (fd_length fd)"
    and "fd_data fd = bytes_at (MTU * i) (unat (fd_length fd)) data"
proof -
  note sp = split_exact [OF assms(1)]
  have i: "i < 65536" using assms(2) sp(2) by simp
  show "unat (fd_fragmentid fd) = i" using i by (simp add: fd_def piece_def Let_def unat_of_nat)
  show l: "unat (fd_length fd) = (if i + 1 = num_frags data then last_len data else MTU)"
    by (simp add: fd_def piece_def Let_def num_frags_def last_len_def unat_of_nat MTU_def)
  then show "unat (fd_length fd) \<le> MTU" using sp(4) by simp
  show d: "fd_data fd = bytes_at (MTU * i) (unat (fd_length fd)) data"
    by (simp add: fd_def piece_def Let_def)
  have "MTU * i + unat (fd_length fd) \<le> length data"
  proof (cases "i + 1 = num_frags data")
    case True
    then have "num_frags data - 1 = i" by simp
    then show ?thesis using sp(5) l True by simp
  next
    case False
    then have "MTU * i + MTU \<le> MTU * (num_frags data - 1)"
      using assms(2) by (intro mult_index_le) simp_all
    then show ?thesis using sp(5) l False by simp
  qed
  then show "length (fd_data fd) = unat (fd_length fd)" by (simp add: d)
qed (simp_all add: fd_def piece_def Let_def frag_key_def num_frags_def)

section \<open>Partially received blocks\<close>

text \<open>
  The fragments in \<open>got\<close> are there with their bytes. What else holds depends on the order of arrival: unless the last fragment came
  first, the length is set once it is there; if it came first, the block keeps the length and the zeros of the full buffer.
\<close>

definition holds_pieces :: "u16 \<Rightarrow> u32 \<Rightarrow> u8 list \<Rightarrow> nat set \<Rightarrow> Block \<Rightarrow> bool" where
  "holds_pieces streamid blockid data got b \<longleftrightarrow> block_ok b \<and> b_id b = bkey streamid blockid \<and>
     abs_block b = (num_frags data, \<lambda>i. if i \<in> got then Some (fd_data (piece streamid blockid data i)) else None)"

definition partial_block :: "u16 \<Rightarrow> u32 \<Rightarrow> u8 list \<Rightarrow> nat set \<Rightarrow> Block \<Rightarrow> bool" where
  "partial_block streamid blockid data got b \<longleftrightarrow> holds_pieces streamid blockid data got b \<and>
     (num_frags data - 1 \<in> got \<longrightarrow> unat (bd_length (b_content b)) = length data)"

definition padded_block :: "u16 \<Rightarrow> u32 \<Rightarrow> u8 list \<Rightarrow> nat set \<Rightarrow> Block \<Rightarrow> bool" where
  "padded_block streamid blockid data got b \<longleftrightarrow> holds_pieces streamid blockid data got b \<and> num_frags data - 1 \<in> got \<and>
     unat (bd_length (b_content b)) = MTU * num_frags data \<and> length (b_data b) = MTU * num_frags data \<and>
     drop (length data) (b_data b) = replicate (MTU * num_frags data - length data) 0"

lemma holds_piecesD:
  assumes "holds_pieces streamid blockid data got b"
  shows "block_ok b" "b_id b = bkey streamid blockid" "b_fn b = num_frags data" "have_frag b i \<longleftrightarrow> i \<in> got"
  using assms by (auto simp: holds_pieces_def abs_block_def block_frags_def fun_eq_iff split: if_splits)

lemma first_holds:
  assumes "sendable data" and "i < num_frags data" and ok: "cache_ok bc" and new: "find_pos streamid blockid bc = None"
  defines "fd \<equiv> piece streamid blockid data i"
  shows "addfragment mem fd host ts bc = Ok (F_ADDED, first_block mem fd host ts # bc)"
    and "holds_pieces streamid blockid data {i} (first_block mem fd host ts)"
proof -
  note pf = piece_fields [OF assms(1,2), of streamid blockid, folded fd_def]
  have s: "unat (fd_fragmentid fd) < unat (fd_fragments fd)" "unat (fd_length fd) \<le> MTU"
    "length (fd_data fd) = unat (fd_length fd)" using pf(2,3,5,6) assms(2) by simp_all
  have full: "unat (fd_fragmentid fd) + 1 = unat (fd_fragments fd) \<or> unat (fd_length fd) = MTU" using pf(2-4) by simp
  have key: "fd_streamid fd = streamid" "fd_blockid fd = blockid" by (simp_all add: fd_def piece_def Let_def)
  show "addfragment mem fd host ts bc = Ok (F_ADDED, first_block mem fd host ts # bc)"
    using full by (auto simp: addfragment_def findblock_unlocked [OF cache_ok_unlocked [OF ok]] key new addfragment_new_eq [OF s])
  show "holds_pieces streamid blockid data {i} (first_block mem fd host ts)"
    using first_block_ok [OF s, of mem host ts] first_block_fields(1) [OF s, of mem host ts] pf(1-3) full
    by (auto simp: holds_pieces_def fun_eq_iff fd_def)
qed

lemma next_holds:
  assumes "sendable data" and i: "i < num_frags data" "i \<notin> got" and ok: "cache_ok (b # bc)"
    and rcv: "holds_pieces streamid blockid data got b"
  defines "fd \<equiv> piece streamid blockid data i"
  shows "addfragment mem fd host ts (b # bc) = Ok (F_ADDED, stored b fd host ts # bc)"
    and "holds_pieces streamid blockid data (insert i got) (stored b fd host ts)"
    and "unat (bd_length (b_content (stored b fd host ts))) = (if i + 1 = num_frags data then length data else unat (bd_length (b_content b)))"
    and "b_data (stored b fd host ts) = patch (b_data b) (MTU * i) (fd_data fd)"
    and "MTU * i + length (fd_data fd) \<le> length (b_data b)"
proof -
  note pf = piece_fields [OF assms(1) i(1), of streamid blockid, folded fd_def] and h = holds_piecesD [OF rcv]
  have key: "fd_streamid fd = streamid" "fd_blockid fd = blockid" by (simp_all add: fd_def piece_def Let_def)
  have s: "unat (fd_fragmentid fd) < b_fn b" "unat (fd_length fd) \<le> MTU"
    "length (fd_data fd) = unat (fd_length fd)" using pf(2,5,6) i h(3) by simp_all
  have nh: "\<not> have_frag b (unat (fd_fragmentid fd))" using h(4) i(2) pf(2) by simp
  have full: "unat (fd_fragmentid fd) + 1 = b_fn b \<or> unat (fd_length fd) = MTU" using pf(2,4) h(3) by simp
  note st = stored_ok [OF h(1) nh s full, of host ts] and sf = stored_fields [OF h(1) nh s, where host = host and ts = ts]
  have find: "find_pos streamid blockid (b # bc) = Some 0" using h(2) by (simp add: is_block_iff)
  show "addfragment mem fd host ts (b # bc) = Ok (F_ADDED, stored b fd host ts # bc)"
    using nh full pf(3) h(3) addfragment_at_eq [OF h(1) _ _ cache_ok_unlocked [OF ok] s, of 0 host ts]
    by (auto simp: addfragment_def findblock_unlocked [OF cache_ok_unlocked [OF ok]] key find simp del: find_pos.simps)
  show "holds_pieces streamid blockid data (insert i got) (stored b fd host ts)"
    using st sf(1) rcv pf(2) h(2,3) by (auto simp: holds_pieces_def fun_eq_iff abs_block_def fd_def)
  have "i + 1 = num_frags data \<Longrightarrow> MTU * i + last_len data = length data" using split_exact(5) [OF assms(1)] by (metis add_diff_cancel_right')
  then show "unat (bd_length (b_content (stored b fd host ts))) = (if i + 1 = num_frags data then length data else unat (bd_length (b_content b)))"
    using sf(9) pf(2,4) h(3) by simp
  show "b_data (stored b fd host ts) = patch (b_data b) (MTU * i) (fd_data fd)" using sf(10) pf(2) by simp
  show "MTU * i + length (fd_data fd) \<le> length (b_data b)" using fragment_room [OF h(1) nh s] pf(2) by simp
qed

text \<open>
  A block that grows: every way of describing it that is kept when a missing fragment arrives. From that alone follow the rest of the delivery,
  the treatment of duplicates and the moment the block is complete.
\<close>

locale growing_block =
  fixes grows :: "u16 \<Rightarrow> u32 \<Rightarrow> u8 list \<Rightarrow> nat set \<Rightarrow> Block \<Rightarrow> bool"
  assumes grows_holds: "grows streamid blockid data got b \<Longrightarrow> holds_pieces streamid blockid data got b"
    and grows_next: "sendable data \<Longrightarrow> i < num_frags data \<Longrightarrow> i \<notin> got \<Longrightarrow> cache_ok (b # bc) \<Longrightarrow> grows streamid blockid data got b \<Longrightarrow>
      \<exists>b'. addfragment mem (piece streamid blockid data i) host ts (b # bc) = Ok (F_ADDED, b' # bc) \<and>
        grows streamid blockid data (insert i got) b'"

lemma partial_next:
  assumes "sendable data" and "i < num_frags data" "i \<notin> got" and "cache_ok (b # bc)" and rcv: "partial_block streamid blockid data got b"
  shows "\<exists>b'. addfragment mem (piece streamid blockid data i) host ts (b # bc) = Ok (F_ADDED, b' # bc) \<and>
    partial_block streamid blockid data (insert i got) b'"
proof -
  have h: "holds_pieces streamid blockid data got b" "num_frags data - 1 \<in> got \<Longrightarrow> unat (bd_length (b_content b)) = length data"
    using rcv by (simp_all add: partial_block_def)
  note n = next_holds [OF assms(1-4) h(1)]
  have "num_frags data - 1 \<in> insert i got \<Longrightarrow> i + 1 = num_frags data \<or> num_frags data - 1 \<in> got" using assms(2) by auto
  then show ?thesis using n(1) [of mem host ts] n(2,3) [of host ts] h(2) by (auto simp: partial_block_def)
qed

lemma drop_patch: "off + length src \<le> k \<Longrightarrow> k \<le> length dst \<Longrightarrow> drop k (patch dst off src) = drop k dst"
proof -
  assume a: "off + length src \<le> k" "k \<le> length dst"
  then obtain j where "k = off + (length src + j)" by (metis le_Suc_ex add.assoc)
  moreover have "length (take off dst) = off" using a by simp
  ultimately show "drop k (patch dst off src) = drop k dst"
    by (simp add: patch_def add.commute add.left_commute)
qed

lemma padded_next:
  assumes "sendable data" and "i < num_frags data" "i \<notin> got" and "cache_ok (b # bc)" and rcv: "padded_block streamid blockid data got b"
  shows "\<exists>b'. addfragment mem (piece streamid blockid data i) host ts (b # bc) = Ok (F_ADDED, b' # bc) \<and>
    padded_block streamid blockid data (insert i got) b'"
proof -
  have h: "holds_pieces streamid blockid data got b" "num_frags data - 1 \<in> got" "unat (bd_length (b_content b)) = MTU * num_frags data"
    "length (b_data b) = MTU * num_frags data" "drop (length data) (b_data b) = replicate (MTU * num_frags data - length data) 0"
    using rcv by (simp_all add: padded_block_def)
  note n = next_holds [OF assms(1-4) h(1)] and sp = split_exact [OF assms(1)] and pf = piece_fields [OF assms(1,2), of streamid blockid]
  have i: "i < num_frags data - 1" "i + 1 \<noteq> num_frags data" using assms(2,3) h(2) by (cases "i = num_frags data - 1", auto)+
  have le: "MTU * i + length (fd_data (piece streamid blockid data i)) \<le> length data"
    using mult_index_le [OF i(1), of "length (fd_data (piece streamid blockid data i))"] pf(5,6) sp(5) by simp
  have "length data \<le> MTU * num_frags data" using mult_index_le [of "num_frags data - 1" "num_frags data" "last_len data"] sp(1,4,5) by simp
  then show ?thesis using n(1) [of mem host ts] n(2-4) [of host ts] n(5) h(2-5) i(2) le by (auto simp: padded_block_def drop_patch)
qed

interpretation tail_later: growing_block partial_block
  by unfold_locales (use partial_next in \<open>auto simp: partial_block_def\<close>)

interpretation tail_first: growing_block padded_block
  by unfold_locales (use padded_next in \<open>auto simp: padded_block_def\<close>)

lemma receive_first:
  assumes "sendable data" and "i + 1 < num_frags data" and ok: "cache_ok bc"
    and new: "find_pos streamid blockid bc = None"
  shows "\<exists>b. addfragment mem (piece streamid blockid data i) host ts bc = Ok (F_ADDED, b # bc) \<and>
    partial_block streamid blockid data {i} b"
  using first_holds [OF assms(1) _ ok new, of i mem host ts] assms(2) by (auto simp: partial_block_def)

lemma receive_last_first:
  assumes "sendable data" and ok: "cache_ok bc" and new: "find_pos streamid blockid bc = None"
  shows "\<exists>b. addfragment mem (piece streamid blockid data (num_frags data - 1)) host ts bc = Ok (F_ADDED, b # bc) \<and>
    padded_block streamid blockid data {num_frags data - 1} b"
proof -
  let ?i = "num_frags data - 1" and ?fd = "piece streamid blockid data (num_frags data - 1)"
  note sp = split_exact [OF assms(1)]
  have i: "?i < num_frags data" "?i + 1 = num_frags data" using sp(1) by simp_all
  note pf = piece_fields [OF assms(1) i(1), of streamid blockid] and h = first_holds [OF assms(1) i(1) ok new, of mem host ts]
  have s: "unat (fd_fragmentid ?fd) < unat (fd_fragments ?fd)" "unat (fd_length ?fd) \<le> MTU"
    "length (fd_data ?fd) = unat (fd_length ?fd)" using pf(2,3,5,6) i(1) by simp_all
  note ff = first_block_fields [OF s, where mem = mem and host = host and ts = ts]
  have l: "MTU * ?i + length (fd_data ?fd) = length data" "length data \<le> MTU * num_frags data"
    using pf(4,6) i(2) sp(4,5) mult_index_le [OF i(1) sp(4)] by simp_all
  have "b_data (first_block mem ?fd host ts) = patch (replicate (MTU * num_frags data) 0) (MTU * ?i) (fd_data ?fd)"
    using pf(2,3) by (simp add: first_block_def new_block_def Let_def)
  then have "drop (length data) (b_data (first_block mem ?fd host ts)) = replicate (MTU * num_frags data - length data) 0"
    using l by (simp add: drop_patch)
  then show ?thesis using h ff(2,5,8) pf(3) by (auto simp: padded_block_def)
qed

section \<open>Delivery in any order\<close>

record delivery =
  dl_mem :: block_mem
  dl_frag :: FragmentData
  dl_host :: sockaddr_in
  dl_ts :: timeval

text \<open>The receiving side adds one fragment after the other.\<close>

primrec add_all :: "delivery list \<Rightarrow> bcache \<Rightarrow> (int list \<times> bcache) res" where
  "add_all [] bc = Ok ([], bc)"
| "add_all (d # ds) bc =
     bind_res (addfragment (dl_mem d) (dl_frag d) (dl_host d) (dl_ts d) bc) (\<lambda>(rc, bc).
       map_res (\<lambda>(rcs, bc). (rc # rcs, bc)) (add_all ds bc))"

definition arrives :: "u16 \<Rightarrow> u32 \<Rightarrow> u8 list \<Rightarrow> nat list \<Rightarrow> delivery list \<Rightarrow> bool" where
  "arrives streamid blockid data is ds \<longleftrightarrow> map dl_frag ds = map (piece streamid blockid data) is"

lemma arrives_simps [simp]:
  "arrives streamid blockid data [] ds \<longleftrightarrow> ds = []"
  "arrives streamid blockid data (i # is) ds \<longleftrightarrow>
     (\<exists>d ds'. ds = d # ds' \<and> dl_frag d = piece streamid blockid data i \<and> arrives streamid blockid data is ds')"
  by (auto simp: arrives_def)

lemma holds_cache_ok:
  "holds_pieces streamid blockid data got b \<Longrightarrow> cache_ok bc \<Longrightarrow> find_pos streamid blockid bc = None \<Longrightarrow> cache_ok (b # bc)"
  using find_pos_None_iff [of streamid blockid bc] by (simp add: holds_pieces_def cache_ok_def)

context growing_block
begin

lemma receive_rest:
  assumes "sendable data" and ok: "cache_ok bc" and new: "find_pos streamid blockid bc = None"
  shows "grows streamid blockid data got b \<Longrightarrow> arrives streamid blockid data is ds \<Longrightarrow>
    distinct is \<Longrightarrow> set is \<inter> got = {} \<Longrightarrow> set is \<subseteq> {..<num_frags data} \<Longrightarrow>
    \<exists>b'. add_all ds (b # bc) = Ok (replicate (length is) F_ADDED, b' # bc) \<and>
      grows streamid blockid data (got \<union> set is) b'"
proof (induction "is" arbitrary: got b ds)
  case (Cons i "is")
  from Cons.prems(2) obtain d ds' where d: "ds = d # ds'" "dl_frag d = piece streamid blockid data i"
    "arrives streamid blockid data is ds'" by auto
  have i: "i < num_frags data" "i \<notin> got" using Cons.prems by auto
  obtain b1 where b1: "addfragment (dl_mem d) (piece streamid blockid data i) (dl_host d) (dl_ts d) (b # bc) =
      Ok (F_ADDED, b1 # bc)" "grows streamid blockid data (insert i got) b1"
    using grows_next [OF assms(1) i holds_cache_ok [OF grows_holds [OF Cons.prems(1)] ok new] Cons.prems(1)] by blast
  obtain b2 where "add_all ds' (b1 # bc) = Ok (replicate (length is) F_ADDED, b2 # bc)"
    "grows streamid blockid data (insert i got \<union> set is) b2"
    using Cons.IH [OF b1(2) d(3)] Cons.prems by auto
  then show ?case using b1(1) d(1,2) by auto
qed simp

end

text \<open>Once every fragment is there, the content is the block.\<close>

lemma bytes_pieces:
  assumes "\<And>i. i < n \<Longrightarrow> bytes_at (MTU * i) MTU xs = bytes_at (MTU * i) MTU ys"
  shows "bytes_at 0 (MTU * n) xs = bytes_at 0 (MTU * n) ys"
  using assms
proof (induction n)
  case (Suc n)
  then have "bytes_at 0 (MTU * n) xs = bytes_at 0 (MTU * n) ys" "bytes_at (MTU * n) MTU xs = bytes_at (MTU * n) MTU ys"
    by simp_all
  then show ?case by (simp only: mult_Suc_right add.commute [of MTU] bytes_at_append) simp
qed (simp add: bytes_at_def)

lemma holds_all:
  assumes s: "sendable data" and rcv: "holds_pieces streamid blockid data {..<num_frags data} b"
  shows "take (length data) (b_data b) = data"
proof -
  note sp = split_exact [OF s]
  let ?n = "num_frags data"
  have fn: "b_fn b = ?n" and fr: "block_frags b = (\<lambda>i. if i < ?n then Some (fd_data (piece streamid blockid data i)) else None)"
    using rcv by (auto simp: holds_pieces_def abs_block_def)
  have h: "have_frag b i" if "i < ?n" for i using holds_piecesD(4) [OF rcv] that by simp
  have each: "bytes_at (MTU * i) (frag_len b i) (b_data b) =
      bytes_at (MTU * i) (if i + 1 = ?n then last_len data else MTU) data" if "i < ?n" for i
    using fun_cong [OF fr, of i] that h [OF that] piece_fields(4,7) [OF s that, of streamid blockid]
    by (simp add: block_frags_def)
  have last: "frag_len b (?n - 1) = last_len data"
  proof -
    have "block_ok b" by (rule holds_piecesD(1) [OF rcv])
    then have "(?n - 1) * MTU + b_lastlen b \<le> length (b_data b)" using h [of "?n - 1"] sp(1) fn by (simp add: block_ok_def)
    then have "length (bytes_at (MTU * (?n - 1)) (frag_len b (?n - 1)) (b_data b)) = frag_len b (?n - 1)"
      using sp(1) fn by (simp add: frag_len_def mult.commute)
    moreover have "length (bytes_at (MTU * (?n - 1)) (last_len data) data) = last_len data" using sp(5) by simp
    ultimately show ?thesis using each [of "?n - 1"] sp(1) by (simp del: length_bytes_at)
  qed
  have "bytes_at 0 (MTU * (?n - 1)) (b_data b) = bytes_at 0 (MTU * (?n - 1)) data"
  proof (rule bytes_pieces)
    fix i assume "i < ?n - 1"
    then have "i < ?n" "i + 1 \<noteq> ?n" by simp_all
    then show "bytes_at (MTU * i) MTU (b_data b) = bytes_at (MTU * i) MTU data"
      using each [of i] fn by (simp add: frag_len_def)
  qed
  moreover have "bytes_at (MTU * (?n - 1)) (last_len data) (b_data b) = bytes_at (MTU * (?n - 1)) (last_len data) data"
    using each [of "?n - 1"] last sp(1) by simp
  ultimately have "bytes_at 0 (MTU * (?n - 1) + last_len data) (b_data b) = bytes_at 0 (MTU * (?n - 1) + last_len data) data"
    by (simp add: bytes_at_append)
  then show "take (length data) (b_data b) = data" unfolding sp(5) by (simp add: bytes_at_0)
qed

lemma holds_iscomplete:
  assumes "holds_pieces streamid blockid data got b" and "cache_ok (b # bc)" and "got \<subseteq> {..<num_frags data}"
  shows "iscomplete streamid blockid (b # bc) = Ok (got = {..<num_frags data}, b # bc)"
proof -
  have find: "find_pos streamid blockid (b # bc) = Some 0" using holds_piecesD(2) [OF assms(1)] by (simp add: is_block_iff)
  have "unlocked (b # bc)" by (rule cache_ok_unlocked [OF assms(2)])
  then have unl: "unlock_block 0 (b\<lparr>b_lock := True\<rparr> # bc) = b # bc" "\<not> b_lock b"
    using unlock_locked_at [of "b # bc" 0] by (simp_all add: unlocked_def)
  note fn = holds_piecesD(3) [OF assms(1)]
  have "\<forall>i < b_fn b. bf_have (b_f b ! i) \<in> {0, 1}" using holds_piecesD(1) [OF assms(1)] by (simp add: block_ok_def)
  then have "have_below (b_fn b) (b_f b) \<longleftrightarrow> (\<forall>i < b_fn b. have_frag b i)" unfolding have_below_iff have_frag_def by fastforce
  also have "\<dots> \<longleftrightarrow> (\<forall>i < num_frags data. i \<in> got)" by (simp add: fn holds_piecesD(4) [OF assms(1)])
  also have "\<dots> \<longleftrightarrow> got = {..<num_frags data}" using assms(3) by blast
  finally show ?thesis
    using unl by (simp add: iscomplete_def findblock_unlocked [OF cache_ok_unlocked [OF assms(2)]] find raw_iscomplete_def
        del: find_pos.simps)
qed

text \<open>Reading a block that is all there: \<open>l\<close> is the length it was left with.\<close>

lemma read_block:
  assumes rcv: "holds_pieces streamid blockid data got b" and ok: "cache_ok (b # bc)" and l: "unat (bd_length (b_content b)) = l" "l < 2 ^ 32"
    and le: "l \<le> length (b_data b)"
  shows "get_block_data streamid blockid (b # bc) = Ok (Some \<lparr>bd_data = take l (b_data b), bd_length = of_nat l\<rparr>, b # bc)"
proof -
  have find: "find_pos streamid blockid (b # bc) = Some 0" using holds_piecesD(2) [OF rcv] by (simp add: is_block_iff)
  have "unlocked (b # bc)" by (rule cache_ok_unlocked [OF ok])
  then have unl: "unlock_block 0 (b\<lparr>b_lock := True\<rparr> # bc) = b # bc" "\<not> b_lock b"
    using unlock_locked_at [of "b # bc" 0] by (simp_all add: unlocked_def)
  have "bd_length (b_content b) = of_nat l" unfolding l(1) [symmetric] by simp
  moreover have "unat (of_nat l :: u32) = l" using l(2) by (simp only: unat_of_nat) simp
  ultimately show ?thesis using unl le
    by (simp add: get_block_data_def findblock_unlocked [OF cache_ok_unlocked [OF ok]] find del: find_pos.simps)
qed

lemma whole_block_read:
  assumes "sendable data" and rcv: "partial_block streamid blockid data {..<num_frags data} b" and ok: "cache_ok (b # bc)"
  shows "get_block_data streamid blockid (b # bc) = Ok (Some \<lparr>bd_data = data, bd_length = of_nat (length data)\<rparr>, b # bc)"
proof -
  have h: "holds_pieces streamid blockid data {..<num_frags data} b" "unat (bd_length (b_content b)) = length data"
    using rcv split_exact(1) [OF assms(1)] by (auto simp: partial_block_def)
  note all = holds_all [OF assms(1) h(1)]
  have "length data < 2 ^ 32" using assms(1) by (simp add: sendable_def)
  moreover have "length data \<le> length (b_data b)" using arg_cong [OF all, of length] by simp
  ultimately show ?thesis using read_block [OF h(1) ok h(2)] all by simp
qed

lemma padded_block_read:
  assumes "sendable data" and rcv: "padded_block streamid blockid data {..<num_frags data} b" and ok: "cache_ok (b # bc)"
  shows "get_block_data streamid blockid (b # bc) = Ok (Some \<lparr>bd_data = data @ replicate (MTU * num_frags data - length data) 0,
    bd_length = of_nat (MTU * num_frags data)\<rparr>, b # bc)"
proof -
  have h: "holds_pieces streamid blockid data {..<num_frags data} b" "unat (bd_length (b_content b)) = MTU * num_frags data"
    "length (b_data b) = MTU * num_frags data" "drop (length data) (b_data b) = replicate (MTU * num_frags data - length data) 0"
    using rcv by (auto simp: padded_block_def)
  have "b_data b = data @ replicate (MTU * num_frags data - length data) 0"
    using holds_all [OF assms(1) h(1)] h(4) append_take_drop_id [of "length data" "b_data b"] by simp
  moreover have "MTU * num_frags data < 2 ^ 32" using split_exact(2) [OF assms(1)] by (simp add: MTU_def)
  ultimately show ?thesis using read_block [OF h(1) ok h(2)] h(3) by simp
qed

text \<open>A fragment that is already there is recognised as a duplicate.\<close>

lemma receive_again:
  assumes "sendable data" and i: "i < num_frags data" "i \<in> got" and ok: "cache_ok (b # bc)"
    and rcv: "holds_pieces streamid blockid data got b"
  shows "addfragment mem (piece streamid blockid data i) host ts (b # bc) = Ok (F_DUPLICATE, b # bc)"
proof -
  let ?fd = "piece streamid blockid data i"
  note pf = piece_fields [OF assms(1) i(1), of streamid blockid]
  have key: "fd_streamid ?fd = streamid" "fd_blockid ?fd = blockid" by (simp_all add: piece_def Let_def)
  note bok = holds_piecesD(1) [OF rcv] and id = holds_piecesD(2) [OF rcv] and fn = holds_piecesD(3) [OF rcv]
  have s: "unat (fd_fragmentid ?fd) < b_fn b" "unat (fd_length ?fd) \<le> MTU"
    "length (fd_data ?fd) = unat (fd_length ?fd)" using pf(2,5,6) i fn by simp_all
  have h: "have_frag b (unat (fd_fragmentid ?fd))" using holds_piecesD(4) [OF rcv] i(2) pf(2) by simp
  have find: "find_pos streamid blockid (b # bc) = Some 0" using id by (simp add: is_block_iff)
  show ?thesis
    using h addfragment_at_eq [OF bok _ _ cache_ok_unlocked [OF ok] s, of 0 host ts]
    by (auto simp: addfragment_def findblock_unlocked [OF cache_ok_unlocked [OF ok]] key find simp del: find_pos.simps)
qed

section \<open>Sending a block\<close>

lemma nth_fragment_piece:
  assumes "b_fs b = calcfragments (of_nat (length data))" and "b_data b = data"
  shows "(nth_fragment streamid blockid b i)\<lparr>fd_data := take (unat (fd_length (nth_fragment streamid blockid b i)))
      (fd_data (nth_fragment streamid blockid b i))\<rparr> = piece streamid blockid data i"
  using assms by (simp add: nth_fragment_def piece_def Let_def bytes_at_def)

definition block_packet :: "SendData \<Rightarrow> FragmentData \<Rightarrow> sockaddr_in \<Rightarrow> SendData \<Rightarrow> bool" where
  "block_packet s fd dest d \<longleftrightarrow> wf_sd d \<and> class_of d = Data \<and> sd_to d = dest \<and> sd_data d ! 0 = BLK_BLOCK_ACK \<and>
     validate_block (sd_data d) (ucast (sd_length d)) \<and>
     decode_fragment (sd_data d) (uint (sd_length d)) =
       Ok (Some (fd\<lparr>fd_data := take (unat (fd_length fd)) (fd_data fd)\<rparr>))"

lemma block_packet_encoded:
  assumes "wf_sd s" and "unat (fd_length fd) \<le> MTU" and "unat (fd_length fd) \<le> length (fd_data fd)"
  shows "\<exists>d. encode_fragment s fd = Ok d \<and>
    block_packet s fd dest (d\<lparr>sd_to := dest, sd_data := (sd_data d)[0 := BLK_BLOCK_ACK]\<rparr>)"
proof -
  obtain d where d: "encode_fragment s fd = Ok d"
    using encode_fragment_Ok_iff [OF assms(1), of fd] assms(2,3) by (auto simp: MTU_def SENDBUF_def sizeof_defs)
  have "wf_sd d" by (rule encode_fragment_fields [OF assms(1) d])
  moreover have "has BLK_BLOCK_ACK BLK_BLOCK" "block_flags BLK_BLOCK_ACK" "\<not> has BLK_BLOCK_ACK BLK_ACK"
    "\<not> has BLK_BLOCK_ACK BW_MSG" "\<not> has BLK_BLOCK_ACK BLOCK_RETRANSMISSION"
    by (simp_all add: has_def packet_defs block_flags_def)
  ultimately have "block_packet s fd dest (d\<lparr>sd_to := dest, sd_data := (sd_data d)[0 := BLK_BLOCK_ACK]\<rparr>)"
    using decode_encoded [OF assms(1) d] validate_encoded [OF assms(1) d]
    by (auto simp: block_packet_def wf_sd_def class_of_def SENDBUF_def)
  then show ?thesis using d by blast
qed

lemma send_fragments_enqueue:
  assumes "\<And>i. i \<in> set is \<Longrightarrow> wf_sd (mem i) \<and> unat (fd_length (frag i)) \<le> MTU \<and>
      unat (fd_length (frag i)) \<le> length (fd_data (frag i))"
  shows "\<exists>ps. send_fragments mem frag dest is s = Ok (foldl (\<lambda>s d. send_data d s) s ps) \<and>
    list_all2 (\<lambda>i. block_packet (mem i) (frag i) dest) is ps"
  using assms
proof (induction "is" arbitrary: s)
  case (Cons i "is")
  obtain d where d: "encode_fragment (mem i) (frag i) = Ok d"
    "block_packet (mem i) (frag i) dest (d\<lparr>sd_to := dest, sd_data := (sd_data d)[0 := BLK_BLOCK_ACK]\<rparr>)"
    using block_packet_encoded Cons.prems by (metis list.set_intros(1))
  let ?p = "d\<lparr>sd_to := dest, sd_data := (sd_data d)[0 := BLK_BLOCK_ACK]\<rparr>"
  obtain ps where "send_fragments mem frag dest is (send_data ?p s) = Ok (foldl (\<lambda>s d. send_data d s) (send_data ?p s) ps)"
    "list_all2 (\<lambda>i. block_packet (mem i) (frag i) dest) is ps"
    using Cons by fastforce
  then show ?case using d by (intro exI [of _ "?p # ps"]) simp
qed simp

text \<open>A packet that carries fragment \<open>i\<close> of a block.\<close>

definition piece_packet :: "u16 \<Rightarrow> u32 \<Rightarrow> u8 list \<Rightarrow> sockaddr_in \<Rightarrow> nat \<Rightarrow> SendData \<Rightarrow> bool" where
  "piece_packet streamid blockid data dest i d \<longleftrightarrow> wf_sd d \<and> class_of d = Data \<and> sd_to d = dest \<and> sd_data d ! 0 = BLK_BLOCK_ACK \<and>
     validate_block (sd_data d) (ucast (sd_length d)) \<and>
     decode_fragment (sd_data d) (uint (sd_length d)) = Ok (Some (piece streamid blockid data i))"

lemma sendblock_files_pieces:
  assumes "sendable data" and "cache_ok bc" and "find_pos streamid blockid bc = None"
    and "addblock streamid blockid \<lparr>bd_data = data, bd_length = of_nat (length data)\<rparr> bc = Ok (1, bc')"
    and "\<forall>i. wf_sd (mem i)"
  shows "\<exists>ps. sendblock mem streamid blockid dest (bc', s) = Ok (int (num_frags data), bc', foldl (\<lambda>s d. send_data d s) s ps) \<and>
    length ps = num_frags data \<and> (\<forall>i < num_frags data. piece_packet streamid blockid data dest i (ps ! i))"
proof -
  obtain b where b: "bc' = b # bc" "b_id b = bkey streamid blockid" "b_data b = data"
      "b_fs b = calcfragments (of_nat (length data))" "\<not> b_lock b"
    using assms(4) unfolding addblock_new [OF cache_ok_unlocked [OF assms(2)] assms(3)]
    by (auto simp: unat_length [OF assms(1)])
  note sp = split_exact [OF assms(1)]
  have unl: "unlocked bc'" using cache_ok_unlocked [OF assms(2)] b by (simp add: unlocked_def)
  have find: "find_pos streamid blockid bc' = Some 0" using b by (simp add: is_block_iff)
  let ?n = "num_frags data" and ?bl = "b\<lparr>b_lock := True\<rparr>"
  have n: "unat (fs_fn (b_fs b)) = ?n" using b(4) by (simp add: num_frags_def)
  have np: "(nth_fragment streamid blockid ?bl i)\<lparr>fd_data := take (unat (fd_length (nth_fragment streamid blockid ?bl i)))
      (fd_data (nth_fragment streamid blockid ?bl i))\<rparr> = piece streamid blockid data i" for i
    using b by (intro nth_fragment_piece) simp_all
  have fits: "unat (fd_length (nth_fragment streamid blockid ?bl i)) \<le> MTU \<and>
      unat (fd_length (nth_fragment streamid blockid ?bl i)) \<le> length (fd_data (nth_fragment streamid blockid ?bl i))"
    if "i < ?n" for i
    using piece_fields(5,6) [OF assms(1) that, of streamid blockid] by (simp flip: np)
  obtain ps where ps: "send_fragments mem (nth_fragment streamid blockid ?bl) dest [0..<?n] s =
      Ok (foldl (\<lambda>s d. send_data d s) s ps)"
    "list_all2 (\<lambda>i. block_packet (mem i) (nth_fragment streamid blockid ?bl i) dest) [0..<?n] ps"
    using send_fragments_enqueue [of "[0..<?n]" mem "nth_fragment streamid blockid ?bl" dest s] assms(5) fits by auto
  have len: "length ps = ?n" using ps(2) by (simp add: list_all2_lengthD [symmetric])
  have each: "block_packet (mem i) (nth_fragment streamid blockid ?bl i) dest (ps ! i)" if "i < ?n" for i
    using list_all2_nthD [OF ps(2)] that by simp
  have "sendblock mem streamid blockid dest (bc', s) = Ok (int ?n, bc', foldl (\<lambda>s d. send_data d s) s ps)"
    using ps(1) n unlock_locked_at [OF unl, of 0] findblock_unlocked [OF unl, of streamid blockid] find
    by (simp add: sendblock_def b(1) Let_def del: of_nat_unat)
  moreover have "\<forall>i < ?n. piece_packet streamid blockid data dest i (ps ! i)"
    using each by (auto simp: block_packet_def piece_packet_def np)
  ultimately show ?thesis using len by auto
qed

text \<open>
  Sending a block that was added to the cache files one packet per fragment, in fragment order,
  behind the data already waiting, when the data queue has room; each of the packets goes to
  the given host, is accepted by the receiver's check and decodes to that fragment.
\<close>

lemma sendblock_sends_pieces:
  assumes "sendable data" and "cache_ok bc" and "find_pos streamid blockid bc = None" and "sender_ok s"
    and "addblock streamid blockid \<lparr>bd_data = data, bd_length = of_nat (length data)\<rparr> bc = Ok (1, bc')"
    and "\<forall>i. wf_sd (mem i)"
    and "length (queue_of Data s) + num_frags data \<le> 2000" and "num_frags data \<le> qEmpty s"
  shows "\<exists>s' ps. sendblock mem streamid blockid dest (bc', s) = Ok (int (num_frags data), bc', s') \<and>
    sender_ok s' \<and> queue_of Data s' = queue_of Data s @ ps \<and>
    queue_of Prio s' = queue_of Prio s \<and> queue_of Retr s' = queue_of Retr s \<and>
    length ps = num_frags data \<and>
    (\<forall>i < num_frags data. sd_to (ps ! i) = dest \<and>
       validate_block (sd_data (ps ! i)) (ucast (sd_length (ps ! i))) \<and>
       decode_fragment (sd_data (ps ! i)) (uint (sd_length (ps ! i))) = Ok (Some (piece streamid blockid data i)))"
proof -
  obtain ps where ps: "sendblock mem streamid blockid dest (bc', s) = Ok (int (num_frags data), bc', foldl (\<lambda>s d. send_data d s) s ps)"
    "length ps = num_frags data" "\<And>i. i < num_frags data \<Longrightarrow> piece_packet streamid blockid data dest i (ps ! i)"
    using sendblock_files_pieces [OF assms(1-3,5,6), of dest s] by blast
  have "list_all (\<lambda>d. wf_sd d \<and> class_of d = Data) ps" using ps(2,3) by (auto simp: list_all_length piece_packet_def)
  then have "sender_ok (foldl (\<lambda>s d. send_data d s) s ps) \<and>
      queue_of Data (foldl (\<lambda>s d. send_data d s) s ps) = queue_of Data s @ ps \<and>
      (\<forall>c. c \<noteq> Data \<longrightarrow> queue_of c (foldl (\<lambda>s d. send_data d s) s ps) = queue_of c s)"
    using send_all [of s Data ps] assms(4,7,8) ps(2) by simp
  then show ?thesis using ps by (intro exI [of _ "foldl (\<lambda>s d. send_data d s) s ps"] exI [of _ ps]) (simp add: piece_packet_def del: queue_of.simps)
qed

text \<open>
  C6: reassembly. When the fragments of a block arrive in any order, each once, and the last
  fragment is not the first to come, every one of them is added, the block is then complete, and
  \<open>get_block_data\<close> returns exactly the bytes that were sent.
\<close>

theorem reassembly:
  assumes "sendable data" and "cache_ok bc" and "find_pos streamid blockid bc = None"
    and "arrives streamid blockid data is ds" and "distinct is" and "set is = {..<num_frags data}"
    and "hd is + 1 \<noteq> num_frags data"
  shows "\<exists>bc'. add_all ds bc = Ok (replicate (num_frags data) F_ADDED, bc') \<and> cache_ok bc' \<and>
    iscomplete streamid blockid bc' = Ok (True, bc') \<and>
    get_block_data streamid blockid bc' = Ok (Some \<lparr>bd_data = data, bd_length = of_nat (length data)\<rparr>, bc')"
proof -
  have "0 \<in> set is" using assms(6) split_exact(1) [OF assms(1)] by simp
  then obtain i is' where is_Cons: "is = i # is'" by (cases "is") auto
  then obtain d ds' where d: "ds = d # ds'" "dl_frag d = piece streamid blockid data i"
    "arrives streamid blockid data is' ds'" using assms(4) by auto
  have "i \<in> {..<num_frags data}" unfolding assms(6) [symmetric] is_Cons by simp
  then have i: "i + 1 < num_frags data" using is_Cons assms(7) by simp
  obtain b where b: "addfragment (dl_mem d) (piece streamid blockid data i) (dl_host d) (dl_ts d) bc = Ok (F_ADDED, b # bc)"
    "partial_block streamid blockid data {i} b"
    using receive_first [OF assms(1) i assms(2,3)] by blast
  obtain b' where b': "add_all ds' (b # bc) = Ok (replicate (length is') F_ADDED, b' # bc)"
    "partial_block streamid blockid data ({i} \<union> set is') b'"
    using tail_later.receive_rest [OF assms(1-3) b(2) d(3)] is_Cons assms(5,6) by auto
  have n: "Suc (length is') = num_frags data"
    using distinct_card [OF assms(5)] is_Cons assms(6) by simp
  have rcv: "partial_block streamid blockid data {..<num_frags data} b'" using b'(2) is_Cons assms(6) by simp
  have h: "holds_pieces streamid blockid data {..<num_frags data} b'" by (rule tail_later.grows_holds [OF rcv])
  have ok: "cache_ok (b' # bc)" by (rule holds_cache_ok [OF h assms(2,3)])
  note get = whole_block_read [OF assms(1) rcv ok]
  have "iscomplete streamid blockid (b' # bc) = Ok (True, b' # bc)" using holds_iscomplete [OF h ok] by simp
  moreover have "add_all ds bc = Ok (replicate (num_frags data) F_ADDED, b' # bc)"
    using b(1) b'(1) d(1,2) n by (auto simp flip: n)
  ultimately show ?thesis using get ok by blast
qed

text \<open>
  When the last fragment of a block arrives before all others, which for a block of one fragment is always so, the
  length of the block is never set. Every fragment is added and the block counts as complete, but \<open>get_block_data\<close> returns a whole number of
  fragments of \<open>MTU\<close> bytes: the bytes that were sent, followed by zeros.
\<close>

lemma last_fragment_first_padded:
  assumes "sendable data" and "cache_ok bc" and "find_pos streamid blockid bc = None"
    and "arrives streamid blockid data is ds" and "distinct is" and "set is = {..<num_frags data}"
    and "hd is + 1 = num_frags data"
  shows "\<exists>bc'. add_all ds bc = Ok (replicate (num_frags data) F_ADDED, bc') \<and> cache_ok bc' \<and>
    iscomplete streamid blockid bc' = Ok (True, bc') \<and>
    get_block_data streamid blockid bc' = Ok (Some \<lparr>bd_data = data @ replicate (MTU * num_frags data - length data) 0,
      bd_length = of_nat (MTU * num_frags data)\<rparr>, bc')"
proof -
  let ?n = "num_frags data"
  have "0 \<in> set is" using assms(6) split_exact(1) [OF assms(1)] by simp
  then obtain i js where is_Cons: "is = i # js" by (cases "is") auto
  then obtain d ds' where d: "ds = d # ds'" "dl_frag d = piece streamid blockid data i"
    "arrives streamid blockid data js ds'" using assms(4) by auto
  have i: "i = ?n - 1" using is_Cons assms(7) by simp
  obtain b where b: "addfragment (dl_mem d) (piece streamid blockid data i) (dl_host d) (dl_ts d) bc = Ok (F_ADDED, b # bc)"
    "padded_block streamid blockid data {i} b"
    using receive_last_first [OF assms(1-3)] i by blast
  obtain b' where b': "add_all ds' (b # bc) = Ok (replicate (length js) F_ADDED, b' # bc)"
    "padded_block streamid blockid data ({i} \<union> set js) b'"
    using tail_first.receive_rest [OF assms(1-3) b(2) d(3)] is_Cons assms(5,6) by auto
  have n: "Suc (length js) = ?n" using distinct_card [OF assms(5)] is_Cons assms(6) by simp
  have rcv: "padded_block streamid blockid data {..<?n} b'" using b'(2) is_Cons assms(6) by simp
  have h: "holds_pieces streamid blockid data {..<?n} b'" by (rule tail_first.grows_holds [OF rcv])
  have ok: "cache_ok (b' # bc)" by (rule holds_cache_ok [OF h assms(2,3)])
  have "add_all ds bc = Ok (replicate ?n F_ADDED, b' # bc)" using b(1) b'(1) d(1,2) n by (auto simp flip: n)
  then show ?thesis using padded_block_read [OF assms(1) rcv ok] holds_iscomplete [OF h ok] ok by simp
qed

end
