(* ===== verification/Recv_Stats.thy ===== *)
theory Recv_Stats
  imports Netencoder Keyed_List Binary64
begin

text \<open>
  \<open>recv_stats.c\<close>: the bandwidth estimate of the receiving side. Two fragments that the sender put on
  the wire back to back give one sample, their size over the time between them, per sending
  host. The lock \<open>bw_lock\<close> makes each operation atomic.
\<close>

section \<open>Model\<close>

record RecvFragment =
  rf_from :: sockaddr_in
  rf_fromlen :: u32
  rf_streamid :: u16
  rf_blockid :: u32
  rf_fragmentid :: u16
  rf_buflen :: u64
  rf_tv :: timeval
  rf_flags :: u8

record BW =
  bw_bw :: double
  bw_tv :: timeval

record BWEstimation =
  be_from :: sockaddr_in
  be_fromlen :: u32
  be_bandwidth :: "BW list"
  be_lastfragment :: RecvFragment

type_synonym estimations = "BWEstimation list"

definition init_recv_stats :: estimations where
  "init_recv_stats = []"

text \<open>\<open>memcmp(&ret->from, &from, fromlen)\<close> compares a prefix of the memory of the address.\<close>

definition sockaddr_bytes :: "sockaddr_in \<Rightarrow> u8 list" where
  "sockaddr_bytes a = bytes_of_u16 (sin_family a) @ bytes_of_u16 (sin_port a) @ bytes_of_u32 (sin_addr a) @
     bytes_of_u32 (ucast (sin_zero a)) @ bytes_of_u32 (ucast (drop_bit 32 (sin_zero a)))"

definition host_key :: "sockaddr_in \<Rightarrow> u32 \<Rightarrow> u32 \<times> u8 list" where
  "host_key from fromlen = (fromlen, take (unat fromlen) (sockaddr_bytes from))"

definition bw_find_by_host :: "u32 \<times> u8 list \<Rightarrow> estimations \<Rightarrow> nat option" where
  "bw_find_by_host key est = find_ix (\<lambda>e. host_key (be_from e) (be_fromlen e) = key) est"

definition follows :: "RecvFragment \<Rightarrow> RecvFragment \<Rightarrow> bool" where
  "follows prev fragment \<longleftrightarrow>
     rf_streamid prev = rf_streamid fragment \<and> rf_blockid prev = rf_blockid fragment \<and>
     uint (rf_fragmentid prev) + 1 = uint (rf_fragmentid fragment) \<and> has (rf_flags fragment) BLOCK_CONSECUTIVE"

definition bw_sample :: "RecvFragment \<Rightarrow> RecvFragment \<Rightarrow> BW" where
  "bw_sample prev fragment =
     (let delta = timersub (rf_tv fragment) (rf_tv prev);
          delta_t = dbl_add (dbl_of_int (tv_sec delta)) (dbl_div (dbl_of_int (tv_usec delta)) (dbl_of_int 1000000))
      in \<lparr>bw_bw = dbl_div (dbl_of_int (uint (rf_buflen fragment))) delta_t, bw_tv = rf_tv fragment\<rparr>)"

definition fragment_received :: "RecvFragment \<Rightarrow> estimations \<Rightarrow> estimations" where
  "fragment_received fragment est =
     (case bw_find_by_host (host_key (rf_from fragment) (rf_fromlen fragment)) est of
        None \<Rightarrow> \<lparr>be_from = rf_from fragment, be_fromlen = rf_fromlen fragment, be_bandwidth = [],
                  be_lastfragment = fragment\<rparr> # est
      | Some p \<Rightarrow>
          let host_bw = est ! p;
              host_bw = (if follows (be_lastfragment host_bw) fragment
                         then host_bw\<lparr>be_bandwidth := bw_sample (be_lastfragment host_bw) fragment # be_bandwidth host_bw\<rparr>
                         else host_bw)
          in est[p := host_bw\<lparr>be_lastfragment := fragment\<rparr>])"

definition fetch_bw_estimations :: "estimations \<Rightarrow> estimations \<times> estimations" where
  "fetch_bw_estimations est = (est, [])"

section \<open>The estimates of a host\<close>

abbreviation est_key :: "BWEstimation \<Rightarrow> u32 \<times> u8 list" where
  "est_key e \<equiv> host_key (be_from e) (be_fromlen e)"

interpretation estimates: keyed_list est_key bw_find_by_host
proof -
  have "keyed_list est_key (\<lambda>k. find_ix (\<lambda>e. est_key e = k))" by (rule find_ix_keyed) simp
  then show "keyed_list est_key bw_find_by_host" by (simp add: bw_find_by_host_def [abs_def])
qed

definition estimates_ok :: "estimations \<Rightarrow> bool" where
  "estimates_ok est \<longleftrightarrow> distinct (map est_key est) \<and>
     (\<forall>e \<in> set est. host_key (rf_from (be_lastfragment e)) (rf_fromlen (be_lastfragment e)) = est_key e)"

text \<open>What the other side of the lock sees of a host: its samples, newest first, and its last fragment.\<close>

definition estimate_of :: "estimations \<Rightarrow> u32 \<times> u8 list \<Rightarrow> (BW list \<times> RecvFragment) option" where
  "estimate_of est = map_option (\<lambda>e. (be_bandwidth e, be_lastfragment e)) \<circ> kmap est_key est"

text \<open>
  What a sample has to be, without the code's way to compute it: \<open>f\<close> is the next fragment of the
  block of \<open>prev\<close> and carries the mark of a back-to-back pair (bit 2), and the rate is the
  number of bytes per second, \<open>len\<close> bytes in \<open>D\<close> microseconds, to one part in \<open>10 ^ 14\<close>.
\<close>

definition next_of_pair :: "RecvFragment \<Rightarrow> RecvFragment \<Rightarrow> bool" where
  "next_of_pair prev f \<longleftrightarrow> rf_streamid f = rf_streamid prev \<and> rf_blockid f = rf_blockid prev \<and>
     unat (rf_fragmentid f) = unat (rf_fragmentid prev) + 1 \<and> bit (rf_flags f) 2"

definition measured_rate :: "nat \<Rightarrow> int \<Rightarrow> double \<Rightarrow> bool" where
  "measured_rate len D x \<longleftrightarrow>
     (if D = 0 then x = (if len = 0 then NaN else Inf False)
      else (\<exists>m e. x = Fin m e) \<and> \<bar>dbl_val x * D - len * 10 ^ 6\<bar> * 10 ^ 14 \<le> len * 10 ^ 6)"

lemma follows_next: "follows prev f \<longleftrightarrow> next_of_pair prev f"
proof -
  have "uint a + 1 = uint b \<longleftrightarrow> unat b = unat a + 1" for a b :: u16 by (simp add: uint_nat del: of_nat_unat) linarith
  moreover have "has x BLOCK_CONSECUTIVE \<longleftrightarrow> bit x 2" for x
    using and_exp_eq_0_iff_not_bit [of x 2] by (simp add: has_def BLOCK_CONSECUTIVE_def)
  ultimately show ?thesis by (auto simp: follows_def next_of_pair_def)
qed

lemma seconds_val:
  assumes "0 \<le> s" and "0 \<le> u"
  defines "x \<equiv> dbl_add (dbl_of_int s) (dbl_div (dbl_of_int u) (dbl_of_int 1000000))"
  shows "near (8 / 2 ^ 52) (dbl_val x) (real_of_int (s * 1000000 + u) / 1000000)" and "\<exists>m e. x = Fin m e"
proof -
  obtain sm se um ue mm me where f: "dbl_of_int s = Fin sm se" "dbl_of_int u = Fin um ue" "dbl_of_int 1000000 = Fin mm me"
    using dbl_of_quot_Fin unfolding dbl_of_int_def by metis
  have "near (1 / 2 ^ 52) (dbl_val (dbl_of_int 1000000)) 1000000" using dbl_of_int_val [of 1000000] by simp
  note v = dbl_of_int_val [OF assms(1)] dbl_of_int_val [OF assms(2)] this
  have p: "0 \<le> dbl_val (dbl_of_int s)" "0 \<le> dbl_val (dbl_of_int u)" "0 < dbl_val (dbl_of_int 1000000)"
    using near_nonneg [OF v(1)] near_nonneg [OF v(2)] near_pos [OF v(3)] by simp_all
  let ?q = "dbl_div (dbl_of_int u) (dbl_of_int 1000000)"
  note d = dbl_div_val [OF f(2,3) p(2,3)]
  have "near (2 * (1 / 2 ^ 52 + 1 / 2 ^ 52)) (dbl_val (dbl_of_int u) / dbl_val (dbl_of_int 1000000)) (u / 1000000)"
    by (rule near_divide [OF v(2,3)]) simp_all
  then have "near (6 / 2 ^ 52) (dbl_val ?q) (u / 1000000)" by (rule near_weaken [OF near_trans [OF d(1)]]) simp_all
  then have sum: "near (6 / 2 ^ 52) (dbl_val (dbl_of_int s) + dbl_val ?q) (real_of_int s + real_of_int u / 1000000)"
    by (intro near_add near_weaken [OF v(1)]) simp_all
  have q: "0 \<le> dbl_val ?q" using near_nonneg [OF d(1)] by simp
  obtain m e where "?q = Fin m e" using d(2) by blast
  note a = dbl_add_val [OF f(1) this p(1) q]
  have "near (8 / 2 ^ 52) (dbl_val x) (real_of_int s + real_of_int u / 1000000)" unfolding x_def by (rule near_weaken [OF near_trans [OF a sum]]) simp_all
  then show "near (8 / 2 ^ 52) (dbl_val x) (real_of_int (s * 1000000 + u) / 1000000)" by (simp add: add_divide_distrib)
  show "\<exists>m e. x = Fin m e" unfolding x_def using f(1) \<open>?q = Fin m e\<close> dbl_of_quot_Fin by (simp add: Let_def)
qed

lemma bw_sample_rate:
  assumes n: "norm_time (rf_tv prev)" "norm_time (rf_tv f)" and D: "usecs (rf_tv prev) \<le> usecs (rf_tv f)"
  shows "measured_rate (unat (rf_buflen f)) (usecs (rf_tv f) - usecs (rf_tv prev)) (bw_bw (bw_sample prev f))"
proof -
  define t where "t = timersub (rf_tv f) (rf_tv prev)"
  let ?D = "usecs (rf_tv f) - usecs (rf_tv prev)" and ?L = "dbl_of_int (uint (rf_buflen f))"
  define x where "x = dbl_add (dbl_of_int (tv_sec t)) (dbl_div (dbl_of_int (tv_usec t)) (dbl_of_int 1000000))"
  have t: "norm_time t" "usecs t = ?D" using n by (simp_all add: t_def norm_time_timersub)
  then have su: "tv_sec t = ?D div 1000000" "tv_usec t = ?D mod 1000000" using norm_time_div_mod by simp_all
  have b: "bw_bw (bw_sample prev f) = dbl_div ?L x" by (simp add: bw_sample_def x_def t_def Let_def)
  obtain lm le where l: "?L = Fin lm le" using dbl_of_quot_Fin unfolding dbl_of_int_def by metis
  have lv: "near (1 / 2 ^ 52) (dbl_val ?L) (unat (rf_buflen f))" using dbl_of_int_val [of "uint (rf_buflen f)"] by simp
  have lp: "0 \<le> dbl_val ?L" using near_nonneg [OF lv] by simp
  have nn: "0 \<le> tv_sec t" "0 \<le> tv_usec t" using su D by (simp_all add: pos_imp_zdiv_nonneg_iff)
  note s = seconds_val [OF nn, folded x_def]
  have c: "tv_sec t * 1000000 + tv_usec t = ?D" using t(2) by (simp add: usecs_def)
  have sv: "near (8 / 2 ^ 52) (dbl_val x) (?D / 1000000)" using s(1) unfolding c [symmetric] by simp
  obtain m e where x: "x = Fin m e" using s(2) by blast
  show ?thesis
  proof (cases "?D = 0")
    case True
    then have "dbl_val x = 0" using sv by (simp add: near_def)
    then have "m = 0" using x by (simp add: dbl_val_def)
    moreover have "lm = 0 \<longleftrightarrow> unat (rf_buflen f) = 0"
    proof (cases "unat (rf_buflen f) = 0")
      case True
      then have "dbl_val ?L = 0" using lv by (simp add: near_def)
      then show ?thesis using True l by (simp add: dbl_val_def)
    next
      case False
      then have "0 < real (unat (rf_buflen f))" by (simp only: of_nat_0_less_iff)
      then have "0 < dbl_val ?L" by (intro near_pos [OF lv]) simp_all
      then show ?thesis using False l dbl_val_sign(2) by simp
    qed
    moreover have "0 \<le> lm" using lp l dbl_val_sign(1) by simp
    ultimately show ?thesis using True by (auto simp: measured_rate_def b l x)
  next
    case False
    then have Dp: "0 < ?D" using D by simp
    have xp: "0 < dbl_val x" using near_pos [OF sv] Dp by simp
    note d = dbl_div_val [OF l x lp xp]
    have "near (2 * (1 / 2 ^ 52 + 8 / 2 ^ 52)) (dbl_val ?L / dbl_val x) (unat (rf_buflen f) / (?D / 1000000))"
      by (rule near_divide [OF lv sv]) (use Dp in simp_all)
    then have "near (1 / 10 ^ 14) (dbl_val (dbl_div ?L x)) (unat (rf_buflen f) / (?D / 1000000))"
      by (rule near_weaken [OF near_trans [OF d(1)]]) simp_all
    then have "\<bar>dbl_val (dbl_div ?L x) - unat (rf_buflen f) / (?D / 1000000)\<bar> * (?D * 10 ^ 14) \<le>
        unat (rf_buflen f) / (?D / 1000000) * (1 / 10 ^ 14) * (?D * 10 ^ 14)"
      unfolding near_def using Dp by (intro mult_right_mono) simp_all
    moreover have "unat (rf_buflen f) / (?D / 1000000) * (1 / 10 ^ 14) * (?D * 10 ^ 14) = unat (rf_buflen f) * 10 ^ 6"
      using Dp by simp
    moreover have "\<bar>dbl_val (dbl_div ?L x) - unat (rf_buflen f) / (?D / 1000000)\<bar> * (?D * 10 ^ 14) =
        \<bar>dbl_val (dbl_div ?L x) * ?D - unat (rf_buflen f) * 10 ^ 6\<bar> * 10 ^ 14"
    proof -
      have "dbl_val (dbl_div ?L x) * ?D - unat (rf_buflen f) * 10 ^ 6 =
          (dbl_val (dbl_div ?L x) - unat (rf_buflen f) / (?D / 1000000)) * ?D" using Dp by (simp add: field_simps)
      then show ?thesis using Dp by (simp add: abs_mult)
    qed
    ultimately show ?thesis using False d(2) by (simp add: measured_rate_def b)
  qed
qed

lemma bw_sample_time: "bw_tv (bw_sample prev f) = rf_tv f"
  by (simp add: bw_sample_def Let_def)

lemma fragment_received_spec:
  fixes f :: RecvFragment
  assumes "estimates_ok est"
  defines "k \<equiv> host_key (rf_from f) (rf_fromlen f)"
  shows "estimates_ok (fragment_received f est) \<and>
    estimate_of (fragment_received f est) = (estimate_of est)(k \<mapsto>
      (case estimate_of est k of None \<Rightarrow> []
       | Some (bws, prev) \<Rightarrow> if next_of_pair prev f then bw_sample prev f # bws else bws, f))"
proof (cases "bw_find_by_host k est")
  case None
  then have "kmap est_key est k = None"
    using assms by (simp add: estimates.find_kmap estimates_ok_def)
  moreover have "k \<notin> est_key ` set est" using None by (simp add: estimates.find_None_iff)
  ultimately show ?thesis using assms None
    by (auto simp: fragment_received_def estimates_ok_def estimate_of_def kmap_Cons fun_eq_iff)
next
  case (Some p)
  let ?e = "est ! p"
  let ?b = "if follows (be_lastfragment ?e) f then bw_sample (be_lastfragment ?e) f # be_bandwidth ?e else be_bandwidth ?e"
  let ?e' = "?e\<lparr>be_bandwidth := ?b, be_lastfragment := f\<rparr>"
  have r: "fragment_received f est = est[p := ?e']" using Some by (simp add: fragment_received_def k_def Let_def)
  have e: "est_key ?e' = k" using estimates.find_SomeD [OF Some] by simp
  have d: "distinct (map est_key est)" using assms by (simp add: estimates_ok_def)
  note u = estimates.update_found [OF d Some e]
  have "estimates_ok (est[p := ?e'])"
    using u(1) assms e set_update_subset_insert [of est p ?e'] by (auto simp: estimates_ok_def k_def)
  moreover have "kmap est_key est k = Some ?e" using Some by (simp add: estimates.find_kmap [OF d])
  ultimately show ?thesis
    using u(2) by (auto simp: r estimate_of_def follows_next fun_eq_iff)
qed

lemmas estimates_ok_received = fragment_received_spec [THEN conjunct1]

text \<open>
  C33: each received fragment updates only the entry of its own host, of which there is one: it
  becomes the last fragment of that host, and adds one sample, at the head and with the time of
  the fragment, exactly if it is the next fragment of the same stream and block as the previous
  one of that host and is marked as sent back to back. The sample is the size of the fragment
  over the time between the two, in bytes per second, to one part in \<open>10 ^ 14\<close>; two fragments
  within the same microsecond give an infinite rate (of no bytes, NaN). The times are as
  \<open>gettimeofday\<close> gives them; where the clock was set back between the two, a sample is
  still added and the theorem does not say which value it has.
\<close>

theorem fragment_received_refines:
  assumes "estimates_ok est"
  shows "estimates_ok (fragment_received f est) \<and>
    (\<exists>bws. estimate_of (fragment_received f est) = (estimate_of est)(host_key (rf_from f) (rf_fromlen f) \<mapsto> (bws, f)) \<and>
      (case estimate_of est (host_key (rf_from f) (rf_fromlen f)) of
         None \<Rightarrow> bws = []
       | Some (earlier, prev) \<Rightarrow>
           if rf_streamid f = rf_streamid prev \<and> rf_blockid f = rf_blockid prev \<and>
              unat (rf_fragmentid f) = unat (rf_fragmentid prev) + 1 \<and> bit (rf_flags f) 2
           then \<exists>rate. bws = \<lparr>bw_bw = rate, bw_tv = rf_tv f\<rparr> # earlier \<and>
             (norm_time (rf_tv prev) \<and> norm_time (rf_tv f) \<and> usecs (rf_tv prev) \<le> usecs (rf_tv f) \<longrightarrow>
               measured_rate (unat (rf_buflen f)) (usecs (rf_tv f) - usecs (rf_tv prev)) rate)
           else bws = earlier))"
proof (cases "estimate_of est (host_key (rf_from f) (rf_fromlen f))")
  case None
  then show ?thesis using fragment_received_spec [OF assms, of f] by auto
next
  case (Some a)
  obtain earlier prev where a: "a = (earlier, prev)" by (rule prod.exhaust)
  have "bw_sample prev f = \<lparr>bw_bw = bw_bw (bw_sample prev f), bw_tv = rf_tv f\<rparr>" by (simp add: bw_sample_time)
  then show ?thesis
    using fragment_received_spec [OF assms, of f] bw_sample_rate [of prev f]
    by (simp add: Some a next_of_pair_def) blast
qed

end
