(* ===== verification/Bridges.thy ===== *)
theory Bridges
  imports Packet_Queue
begin

text \<open>
  The hand-over points between the C threads and the interpreter: \<open>biter_bridge.c\<close> with the reading
  side in \<open>bora.c\<close> (completed blocks and raw messages), \<open>bpuller_bridge.c\<close> (requests for more
  blocks) and \<open>bw_msgs.c\<close> (bandwidth messages received and sent). Semaphores are their counts; an
  operation that would wait is \<open>Blocked\<close>.
\<close>

section \<open>Incoming datagrams\<close>

record IncomingData =
  id_from :: sockaddr_in
  id_fromlen :: u32
  id_buf :: "u8 list"
  id_buflen :: u64
  id_tv :: timeval

definition BUFSIZE :: nat where "BUFSIZE = 1500"

definition zero_IncomingData :: IncomingData where
  "zero_IncomingData = \<lparr>id_from = zero_addr, id_fromlen = 0, id_buf = replicate BUFSIZE 0, id_buflen = 0, id_tv = zero_time\<rparr>"

section \<open>Completed blocks\<close>

definition N_BITER :: nat where "N_BITER = 20"

text \<open>\<open>biter_c\<close> is the static index of \<open>biter_bridge.c\<close>, \<open>bora_c\<close> the one of \<open>bora.c\<close>.\<close>

record biter =
  b_biter_s :: "int list"
  b_biter_b :: "int list"
  b_biter_d :: "IncomingData list"
  s_biter_full :: nat
  s_biter_empty :: nat
  biter_c :: int
  bora_c :: int

definition static_biter :: biter where
  "static_biter = \<lparr>b_biter_s = replicate N_BITER 0, b_biter_b = replicate N_BITER 0,
     b_biter_d = replicate N_BITER zero_IncomingData, s_biter_full = 0, s_biter_empty = 0, biter_c = 0, bora_c = 0\<rparr>"

definition init_biter :: "biter \<Rightarrow> biter" where
  "init_biter bi = bi\<lparr>s_biter_full := 0, s_biter_empty := N_BITER\<rparr>"

definition biter_store :: "int \<Rightarrow> int \<Rightarrow> IncomingData option \<Rightarrow> biter \<Rightarrow> biter" where
  "biter_store streamid blockid data bi =
     bi\<lparr>s_biter_empty := s_biter_empty bi - 1,
        b_biter_s := (b_biter_s bi)[nat (biter_c bi) := streamid],
        b_biter_b := (b_biter_b bi)[nat (biter_c bi) := blockid],
        b_biter_d := (case data of None \<Rightarrow> b_biter_d bi | Some d \<Rightarrow> (b_biter_d bi)[nat (biter_c bi) := d]),
        s_biter_full := s_biter_full bi + 1,
        biter_c := (biter_c bi + 1) mod int N_BITER\<rparr>"

definition block_completed :: "int \<Rightarrow> int \<Rightarrow> IncomingData option \<Rightarrow> biter \<Rightarrow> biter res" where
  "block_completed streamid blockid data bi =
     (if s_biter_empty bi = 0 then Err Blocked else Ok (biter_store streamid blockid data bi))"

text \<open>The semaphore-guarded part of \<open>bora_BIter_iternext\<close>.\<close>

definition biter_load :: "biter \<Rightarrow> (int \<times> int \<times> IncomingData option) \<times> biter" where
  "biter_load bi =
     (let i = nat (bora_c bi); s = b_biter_s bi ! i; b = b_biter_b bi ! i;
          d = (if s = -1 \<and> b = -1 then Some (b_biter_d bi ! i) else None)
      in ((s, b, d), bi\<lparr>s_biter_full := s_biter_full bi - 1, bora_c := (bora_c bi + 1) mod int N_BITER,
                        s_biter_empty := s_biter_empty bi + 1\<rparr>))"

definition biter_next :: "biter \<Rightarrow> ((int \<times> int \<times> IncomingData option) \<times> biter) res" where
  "biter_next bi = (if s_biter_full bi = 0 then Err Blocked else Ok (biter_load bi))"

section \<open>Block requests\<close>

definition N_BPULLER :: nat where "N_BPULLER = 20"

record bpuller =
  s_bpuller_full :: nat
  s_bpuller_empty :: nat

definition init_bpuller :: bpuller where
  "init_bpuller = \<lparr>s_bpuller_full = 0, s_bpuller_empty = N_BPULLER\<rparr>"

definition block_pull :: "bpuller \<Rightarrow> bpuller res" where
  "block_pull bp =
     (if s_bpuller_empty bp = 0 then Err Blocked
      else Ok \<lparr>s_bpuller_full = s_bpuller_full bp + 1, s_bpuller_empty = s_bpuller_empty bp - 1\<rparr>)"

definition bpuller_next :: "bpuller \<Rightarrow> bpuller res" where
  "bpuller_next bp =
     (if s_bpuller_full bp = 0 then Err Blocked
      else Ok \<lparr>s_bpuller_full = s_bpuller_full bp - 1, s_bpuller_empty = s_bpuller_empty bp + 1\<rparr>)"

section \<open>Bandwidth messages\<close>

record BWMsg =
  bm_bw :: u32
  bm_recv_time :: timeval
  bm_addr :: sockaddr_in

definition bwmsg_received :: "BWMsg \<Rightarrow> BWMsg list \<Rightarrow> BWMsg list" where
  "bwmsg_received bw_message bwmlist = bw_message # bwmlist"

definition get_bwmsg_list :: "BWMsg list \<Rightarrow> BWMsg list \<times> BWMsg list" where
  "get_bwmsg_list bwmlist = (bwmlist, [])"

definition send_bwmsg :: "SendData \<Rightarrow> sockaddr_in \<Rightarrow> u32 \<Rightarrow> sender \<Rightarrow> sender" where
  "send_bwmsg mem host bw s = send_data ((encode_bw mem bw)\<lparr>sd_to := host\<rparr>) s"

section \<open>The completed-block buffer is a queue\<close>

text \<open>
  The two kinds of entries: a completed block, whose identifiers are the unsigned ones of the
  fragment converted to \<open>int\<close>, and a raw message, marked by \<open>-1, -1\<close>.
\<close>

datatype event = Completed u16 u32 | Raw IncomingData

fun biter_put :: "biter \<Rightarrow> event \<Rightarrow> biter" where
  "biter_put bi (Completed s b) = biter_store (uint s) (sint b) None bi"
| "biter_put bi (Raw d) = biter_store (- 1) (- 1) (Some d) bi"

fun event_of :: "int \<times> int \<times> IncomingData option \<Rightarrow> event" where
  "event_of (s, b, None) = Completed (word_of_int s) (word_of_int b)"
| "event_of (s, b, Some d) = Raw d"

definition biter_get :: "biter \<Rightarrow> event \<times> biter" where
  "biter_get bi = apfst event_of (biter_load bi)"

definition biter_slot :: "biter \<Rightarrow> nat \<Rightarrow> event" where
  "biter_slot bi i =
     (if b_biter_s bi ! i = -1 \<and> b_biter_b bi ! i = -1 then Raw (b_biter_d bi ! i)
      else Completed (word_of_int (b_biter_s bi ! i)) (word_of_int (b_biter_b bi ! i)))"

definition biter_contents :: "biter \<Rightarrow> event list" where
  "biter_contents bi = map (\<lambda>j. biter_slot bi ((nat (bora_c bi) + j) mod N_BITER)) [0..<s_biter_full bi]"

definition biter_ok :: "biter \<Rightarrow> bool" where
  "biter_ok bi \<longleftrightarrow> length (b_biter_s bi) = N_BITER \<and> length (b_biter_b bi) = N_BITER \<and> length (b_biter_d bi) = N_BITER \<and>
     s_biter_full bi + s_biter_empty bi = N_BITER \<and> 0 \<le> bora_c bi \<and> bora_c bi < int N_BITER \<and>
     biter_c bi = (bora_c bi + int (s_biter_full bi)) mod int N_BITER"

lemma biter_c_nat:
  "biter_ok bi \<Longrightarrow> nat (biter_c bi) = (nat (bora_c bi) + s_biter_full bi) mod N_BITER"
proof -
  assume ok: "biter_ok bi"
  then have "biter_c bi = int ((nat (bora_c bi) + s_biter_full bi) mod N_BITER)"
    by (simp add: biter_ok_def zmod_int)
  then show ?thesis by simp
qed

lemma biter_index_distinct:
  "(c + j) mod N_BITER = (c + n) mod N_BITER \<Longrightarrow> j < n \<Longrightarrow> n < N_BITER \<Longrightarrow> False"
proof -
  assume "(c + j) mod N_BITER = (c + n) mod N_BITER" "j < n" "n < N_BITER"
  then have "N_BITER dvd (c + n) - (c + j)" by (metis mod_eq_dvd_iff_nat le_add_diff_inverse2 less_imp_le_nat add_le_cancel_left)
  then have "N_BITER dvd n - j" by simp
  then show False using \<open>j < n\<close> \<open>n < N_BITER\<close> by (auto dest!: dvd_imp_le)
qed

lemma biter_slot_put:
  assumes "biter_ok bi" and "i < N_BITER"
  shows "biter_slot (biter_put bi x) i = (if i = nat (biter_c bi) then x else biter_slot bi i)"
proof -
  have "nat (biter_c bi) < N_BITER" using biter_c_nat [OF assms(1)] by (simp add: N_BITER_def)
  moreover have "uint s \<noteq> - 1" for s :: u16 using uint_ge_0 [of s] by linarith
  ultimately show ?thesis using assms
    by (cases x) (auto simp: biter_slot_def biter_store_def biter_ok_def nth_list_update)
qed

lemma biter_contents_put:
  assumes ok: "biter_ok bi" and room: "s_biter_full bi < N_BITER"
  shows "biter_contents (biter_put bi x) = biter_contents bi @ [x]"
proof -
  let ?c = "nat (bora_c bi)" and ?n = "s_biter_full bi"
  have f: "bora_c (biter_put bi x) = bora_c bi" "s_biter_full (biter_put bi x) = Suc ?n"
    by (cases x; simp add: biter_store_def)+
  have "(?c + j) mod N_BITER < N_BITER" for j by (simp add: N_BITER_def)
  then have slot: "biter_slot (biter_put bi x) ((?c + j) mod N_BITER) =
      (if (?c + j) mod N_BITER = (?c + ?n) mod N_BITER then x else biter_slot bi ((?c + j) mod N_BITER))" for j
    by (simp add: biter_slot_put [OF ok] biter_c_nat [OF ok])
  have "map (\<lambda>j. biter_slot (biter_put bi x) ((?c + j) mod N_BITER)) [0..<?n] =
      map (\<lambda>j. biter_slot bi ((?c + j) mod N_BITER)) [0..<?n]"
    by (auto simp: slot dest: biter_index_distinct [OF _ _ room])
  then show ?thesis by (simp add: biter_contents_def f slot)
qed

lemma biter_ok_put: "biter_ok bi \<Longrightarrow> s_biter_full bi < N_BITER \<Longrightarrow> biter_ok (biter_put bi x)"
proof -
  assume ok: "biter_ok bi" and "s_biter_full bi < N_BITER"
  moreover have "(biter_c bi + 1) mod int N_BITER = (bora_c bi + (int (s_biter_full bi) + 1)) mod int N_BITER"
    using ok by (simp add: biter_ok_def mod_add_left_eq add.assoc)
  ultimately show ?thesis by (cases x) (simp_all add: biter_ok_def biter_store_def add.commute)
qed

lemma biter_get_contents:
  assumes ok: "biter_ok bi" and ne: "0 < s_biter_full bi"
  shows "biter_contents bi = fst (biter_get bi) # biter_contents (snd (biter_get bi))" and "biter_ok (snd (biter_get bi))"
proof -
  let ?c = "nat (bora_c bi)" and ?bi = "snd (biter_get bi)"
  have c: "?c < N_BITER" "?c mod N_BITER = ?c" using ok by (auto simp: biter_ok_def nat_less_iff)
  obtain n where n: "s_biter_full bi = Suc n" using ne by (cases "s_biter_full bi") auto
  have f: "s_biter_full ?bi = n" "bora_c ?bi = (bora_c bi + 1) mod int N_BITER"
    "biter_slot ?bi = biter_slot bi" "s_biter_empty ?bi = s_biter_empty bi + 1" "biter_c ?bi = biter_c bi"
    by (simp_all add: biter_get_def biter_load_def Let_def n biter_slot_def fun_eq_iff)
  have "bora_c ?bi = int ((?c + 1) mod N_BITER)" using ok f(2) by (simp add: biter_ok_def zmod_int add.commute)
  then have c': "nat (bora_c ?bi) = (?c + 1) mod N_BITER" by simp
  have hd: "fst (biter_get bi) = biter_slot bi ?c"
    by (simp add: biter_get_def biter_load_def Let_def biter_slot_def)
  have "biter_contents bi = biter_slot bi (?c mod N_BITER) # map (\<lambda>j. biter_slot bi ((?c + Suc j) mod N_BITER)) [0..<n]"
    by (simp add: biter_contents_def n upt_conv_Cons map_Suc_upt [symmetric] o_def del: upt_Suc)
  then show "biter_contents bi = fst (biter_get bi) # biter_contents ?bi"
    using c hd f c' by (simp add: biter_contents_def mod_add_left_eq)
  have "biter_c bi = (bora_c ?bi + int n) mod int N_BITER"
    using ok f(2) n by (simp add: biter_ok_def mod_add_left_eq add.assoc)
  then show "biter_ok ?bi"
    using ok f n by (simp add: biter_ok_def) (simp add: biter_get_def biter_load_def Let_def N_BITER_def)
qed

interpretation biter: bounded_fifo biter_put biter_get "\<lambda>bi. int (s_biter_full bi)" biter_contents biter_ok N_BITER
proof
  fix bi :: biter and x
  assume ok: "biter_ok bi"
  show "int (s_biter_full bi) = int (length (biter_contents bi))" by (simp add: biter_contents_def)
  show "int (s_biter_full bi) \<le> int N_BITER" using ok by (simp add: biter_ok_def)
  show "biter_ok (biter_put bi x)" if "int (s_biter_full bi) < int N_BITER" using ok that by (simp add: biter_ok_put)
  show "biter_contents (biter_put bi x) = biter_contents bi @ [x]" if "int (s_biter_full bi) < int N_BITER"
    using ok that by (simp add: biter_contents_put)
  show "biter_ok (snd (biter_get bi))" "fst (biter_get bi) = hd (biter_contents bi)"
    "biter_contents (snd (biter_get bi)) = tl (biter_contents bi)" if "0 < int (s_biter_full bi)"
    using biter_get_contents [OF ok] that by simp_all
qed

text \<open>
  C31: the hand-over of completed blocks and raw messages is a queue of 20: the receiving side
  appends an entry and waits exactly when 20 entries are unread; the iterator takes the oldest
  entry and waits exactly when there is none, and what it reads tells blocks and raw messages apart and
  gives back the identifiers or the datagram that were put in.
\<close>

theorem completed_blocks_queue:
  assumes "biter_ok bi"
  shows "(length (biter_contents bi) = 20 \<longrightarrow> block_completed s b d bi = Err Blocked) \<and>
    (length (biter_contents bi) < 20 \<longrightarrow>
      (\<exists>bi'. block_completed (uint sid) (sint bid) None bi = Ok bi' \<and> biter_ok bi' \<and>
         biter_contents bi' = biter_contents bi @ [Completed sid bid]) \<and>
      (\<exists>bi'. block_completed (- 1) (- 1) (Some dg) bi = Ok bi' \<and> biter_ok bi' \<and>
         biter_contents bi' = biter_contents bi @ [Raw dg])) \<and>
    (biter_contents bi = [] \<longrightarrow> biter_next bi = Err Blocked) \<and>
    (\<forall>e es. biter_contents bi = e # es \<longrightarrow>
      (\<exists>r bi'. biter_next bi = Ok (r, bi') \<and> event_of r = e \<and> biter_ok bi' \<and> biter_contents bi' = es))"
proof -
  have n: "s_biter_full bi = length (biter_contents bi)" "s_biter_empty bi = 20 - length (biter_contents bi)"
    using assms biter.fill_contents [OF assms] by (auto simp: biter_ok_def N_BITER_def)
  have "\<exists>bi'. block_completed (uint sid) (sint bid) None bi = Ok bi' \<and> biter_ok bi' \<and>
         biter_contents bi' = biter_contents bi @ [Completed sid bid]" if "length (biter_contents bi) < 20"
    using that n biter.invar_put [OF assms, of "Completed sid bid"] biter.contents_put [OF assms, of "Completed sid bid"]
    by (simp add: block_completed_def N_BITER_def)
  moreover have "\<exists>bi'. block_completed (- 1) (- 1) (Some dg) bi = Ok bi' \<and> biter_ok bi' \<and>
         biter_contents bi' = biter_contents bi @ [Raw dg]" if "length (biter_contents bi) < 20"
    using that n biter.invar_put [OF assms, of "Raw dg"] biter.contents_put [OF assms, of "Raw dg"]
    by (simp add: block_completed_def N_BITER_def)
  moreover have "\<exists>r bi'. biter_next bi = Ok (r, bi') \<and> event_of r = e \<and> biter_ok bi' \<and> biter_contents bi' = es"
    if "biter_contents bi = e # es" for e es
    using that n biter.get_Cons [OF assms] biter.invar_get [OF assms]
    by (cases "biter_load bi") (simp add: biter_next_def biter_get_def)
  ultimately show ?thesis using n by (simp add: block_completed_def biter_next_def)
qed

end
