(* ===== verification/Packet_Receiver.thy ===== *)
theory Packet_Receiver
  imports Packet_Sender Reassembly Recv_Stats Bridges
begin

text \<open>
  \<open>packet_receiver.c\<close>: what the processing thread does with one received datagram, as the
  composition of its stages, over the state of all components it calls. \<open>stat_lock_r\<close> is held
  throughout. Uninitialised memory of the packet and of a new block is an argument. The
  buffer that hands datagrams from the receiving to the processing thread is in
  \<open>Receive_Ring\<close>.
\<close>

section \<open>Model\<close>

definition NUM_STAT_R :: nat where "NUM_STAT_R = 8"
definition I_PKG_COUNTER :: nat where "I_PKG_COUNTER = 0"
definition I_DATA_COUNTER :: nat where "I_DATA_COUNTER = 1"
definition I_ACK_DATA_COUNTER :: nat where "I_ACK_DATA_COUNTER = 2"
definition I_ACK_COUNTER :: nat where "I_ACK_COUNTER = 3"
definition I_GARBAGE :: nat where "I_GARBAGE = 4"
definition I_DUPE_COUNTER :: nat where "I_DUPE_COUNTER = 5"
definition I_DUPE_DATA_COUNTER :: nat where "I_DUPE_DATA_COUNTER = 6"
definition I_BAD_ACK_COUNTER :: nat where "I_BAD_ACK_COUNTER = 7"

lemmas in_stat_defs = NUM_STAT_R_def I_PKG_COUNTER_def I_DATA_COUNTER_def I_ACK_DATA_COUNTER_def
  I_ACK_COUNTER_def I_GARBAGE_def I_DUPE_COUNTER_def I_DUPE_DATA_COUNTER_def I_BAD_ACK_COUNTER_def

record world =
  w_ack :: ack_world
  w_cache :: bcache
  w_est :: estimations
  w_bwm :: "BWMsg list"
  w_biter :: biter
  w_stats_r :: "u64 list"

record rx_mem =
  mem_send :: SendData
  mem_block :: block_mem

definition reset_in_counters :: "world \<Rightarrow> world" where
  "reset_in_counters w = w\<lparr>w_stats_r := replicate NUM_STAT_R 0\<rparr>"

definition count_in :: "nat \<Rightarrow> u64 \<Rightarrow> world \<Rightarrow> world" where
  "count_in i n w = w\<lparr>w_stats_r := bump i n (w_stats_r w)\<rparr>"

definition set_flag :: "u8 \<Rightarrow> IncomingData \<Rightarrow> IncomingData" where
  "set_flag f d = d\<lparr>id_buf := (id_buf d)[0 := f]\<rparr>"

definition garbage :: "IncomingData \<Rightarrow> world \<Rightarrow> IncomingData \<times> world" where
  "garbage d w = (set_flag 0 d, count_in I_GARBAGE (id_buflen d) w)"

text \<open>A raw message is handed on; any other packet loses the trailer with the sender's port.\<close>

definition rx_port :: "IncomingData \<times> world \<Rightarrow> (IncomingData \<times> world) res" where
  "rx_port dw =
     (case dw of (d, w) \<Rightarrow>
       if id_buf d ! 0 = 0 then
         (if id_buflen d > 3
          then bind_res (block_completed (- 1) (- 1) (Some d) (w_biter w)) (\<lambda>bi. Ok (d, w\<lparr>w_biter := bi\<rparr>))
          else Ok (d, w))
       else
         let d = d\<lparr>id_buflen := id_buflen d - 2\<rparr>; p = id_buf d ! unat (id_buflen d) in
         if unat (id_buflen d) \<ge> length (id_buf d) then Err OutOfBounds
         else if p \<noteq> 0
         then Ok (d\<lparr>id_from := (id_from d)\<lparr>sin_port := ucast p\<rparr>, id_buflen := id_buflen d - 2\<rparr>, w)
         else Ok (d, w))"

definition rx_need_ack :: "rx_mem \<Rightarrow> IncomingData \<times> world \<Rightarrow> (IncomingData \<times> world) res" where
  "rx_need_ack mem dw =
     (case dw of (d, w) \<Rightarrow>
       if \<not> has (id_buf d ! 0) NEED_ACK then Ok (d, w)
       else if validate_block (id_buf d) (id_buflen d - of_nat ACKSIZE) then
         bind_res (strip_ack (id_buf d) (id_buflen d)) (\<lambda>seq.
           let d = d\<lparr>id_buflen := id_buflen d - of_nat ACKSIZE\<rparr>;
               w = count_in I_DATA_COUNTER (of_nat ACKSIZE) w;
               fdata = get_fragment_id (id_buf d) (sint (id_buflen d))
           in bind_res (get_consecutives fdata (w_cache w)) (\<lambda>(cons, bc).
                let s = (append_ack_ts (append_ack_cons (encode_ack (mem_send mem) seq) cons) (id_tv d))\<lparr>sd_to := id_from d\<rparr>;
                    aw = w_ack w
                in Ok (d, w\<lparr>w_cache := bc, w_ack := aw\<lparr>aw_sender := send_data s (aw_sender aw)\<rparr>\<rparr>)))
       else Ok (garbage d w))"

definition rx_ack :: "IncomingData \<times> world \<Rightarrow> (IncomingData \<times> world) res" where
  "rx_ack dw =
     (case dw of (d, w) \<Rightarrow>
       if \<not> has (id_buf d ! 0) BLK_ACK then Ok (d, w)
       else if validate_ack (id_buf d) (id_buflen d) then
         let w = count_in I_ACK_DATA_COUNTER (id_buflen d) (count_in I_ACK_COUNTER 1 w) in
         (case decode_ack (id_buf d) (sint (id_buflen d)) of
            None \<Rightarrow> Err OutOfBounds
          | Some ack_r \<Rightarrow>
              let aw = w_ack w in
              (case pop_ack (ar_seq ack_r) (id_from d) (aw_nacks aw) of
                 (Some pop, ns) \<Rightarrow>
                   bind_res (ack_received pop ack_r (id_tv d) (id_from d) (aw\<lparr>aw_nacks := ns\<rparr>))
                     (\<lambda>(r, aw). Ok (d, w\<lparr>w_ack := aw\<rparr>))
               | (None, ns) \<Rightarrow>
                   Ok (d, count_in I_BAD_ACK_COUNTER 1 (count_in I_GARBAGE (id_buflen d) (w\<lparr>w_ack := aw\<lparr>aw_nacks := ns\<rparr>\<rparr>)))))
       else Ok (garbage d w))"

definition rx_bw :: "IncomingData \<times> world \<Rightarrow> (IncomingData \<times> world) res" where
  "rx_bw dw =
     (case dw of (d, w) \<Rightarrow>
       if \<not> has (id_buf d ! 0) BW_MSG then Ok (d, w)
       else if validate_bw (id_buf d) (id_buflen d) then
         (case decode_bwmsg (id_buf d) (sint (id_buflen d)) of
            Some bw \<Rightarrow> Ok (d, w\<lparr>w_bwm := bwmsg_received \<lparr>bm_bw = bw, bm_recv_time = id_tv d, bm_addr = id_from d\<rparr> (w_bwm w)\<rparr>)
          | None \<Rightarrow> Ok (garbage d w))
       else Ok (garbage d w))"

definition recv_fragment :: "IncomingData \<Rightarrow> FragmentData \<Rightarrow> RecvFragment" where
  "recv_fragment d fd =
     \<lparr>rf_from = id_from d, rf_fromlen = id_fromlen d, rf_streamid = fd_streamid fd, rf_blockid = fd_blockid fd,
      rf_fragmentid = fd_fragmentid fd, rf_buflen = id_buflen d, rf_tv = id_tv d, rf_flags = id_buf d ! 0\<rparr>"

definition rx_added :: "IncomingData \<Rightarrow> FragmentData \<Rightarrow> world \<Rightarrow> world res" where
  "rx_added d fd w =
     (let w = w\<lparr>w_est := fragment_received (recv_fragment d fd) (w_est w)\<rparr> in
      bind_res (iscomplete (fd_streamid fd) (fd_blockid fd) (w_cache w)) (\<lambda>(complete, bc).
        let w = w\<lparr>w_cache := bc\<rparr> in
        if complete
        then bind_res (block_completed (uint (fd_streamid fd)) (sint (fd_blockid fd)) None (w_biter w))
               (\<lambda>bi. Ok (w\<lparr>w_biter := bi\<rparr>))
        else Ok w))"

definition rx_fragment :: "rx_mem \<Rightarrow> IncomingData \<Rightarrow> FragmentData \<Rightarrow> world \<Rightarrow> world res" where
  "rx_fragment mem d fd w =
     bind_res (addfragment (mem_block mem) fd (id_from d) (id_tv d) (w_cache w)) (\<lambda>(rc, bc).
       let w = w\<lparr>w_cache := bc\<rparr> in
       if rc = F_DUPLICATE then Ok (count_in I_DUPE_DATA_COUNTER (id_buflen d) (count_in I_DUPE_COUNTER 1 w))
       else if rc = F_FRAGMENTID_OUTOFBOUNDS \<or> rc = F_FRAGMENTS_MISMATCH \<or> rc = F_BAD_LEN
       then Ok (count_in I_GARBAGE (id_buflen d) w)
       else if rc = F_ADDED then rx_added d fd w
       else Ok w)"

definition rx_block :: "rx_mem \<Rightarrow> IncomingData \<times> world \<Rightarrow> (IncomingData \<times> world) res" where
  "rx_block mem dw =
     (case dw of (d, w) \<Rightarrow>
       if \<not> has (id_buf d ! 0) BLK_BLOCK then Ok (d, w)
       else if validate_block (id_buf d) (id_buflen d) then
         bind_res (decode_fragment (id_buf d) (sint (id_buflen d))) (\<lambda>fragment.
           case fragment of
             Some fd \<Rightarrow> map_res (Pair d) (rx_fragment mem d fd w)
           | None \<Rightarrow> Ok (garbage d w))
       else Ok (garbage d w))"

definition process_packet :: "rx_mem \<Rightarrow> IncomingData \<Rightarrow> world \<Rightarrow> (IncomingData \<times> world) res" where
  "process_packet mem d w =
     bind_res
       (if id_buflen d > 1
        then bind_res (rx_port (d, w)) (\<lambda>dw.
             bind_res (rx_need_ack mem dw) (\<lambda>dw.
             bind_res (rx_ack dw) (\<lambda>dw.
             bind_res (rx_bw dw) (rx_block mem))))
        else Ok (d, w))
       (\<lambda>(d, w). Ok (d, count_in I_PKG_COUNTER 1 (count_in I_DATA_COUNTER (id_buflen d) w)))"

section \<open>Invariant\<close>

text \<open>
  The invariants of the components together: the queues and semaphores of the sender, one list of
  whole packets per peer, the statistics, the hand-over buffers. The block cache is treated apart,
  because a fragment can break it.
\<close>

definition nacks_wf :: "nack_state \<Rightarrow> bool" where
  "nacks_wf ns \<longleftrightarrow> peers_distinct ns \<and> (\<forall>h. \<forall>a \<in> set (outstanding ns h). wf_sd (a_d a))"

definition ack_world_ok :: "ack_world \<Rightarrow> bool" where
  "ack_world_ok aw \<longleftrightarrow> sender_ok (aw_sender aw) \<and> nacks_wf (aw_nacks aw) \<and> peer_stats_ok (aw_peers aw) \<and>
     cookies_shape (aw_cookies aw)"

definition world_ok :: "world \<Rightarrow> bool" where
  "world_ok w \<longleftrightarrow> ack_world_ok (w_ack w) \<and> biter_ok (w_biter w) \<and> estimates_ok (w_est w) \<and>
     length (w_stats_r w) = NUM_STAT_R"

lemma count_in_frame [simp]:
  "w_ack (count_in i n w) = w_ack w" "w_cache (count_in i n w) = w_cache w" "w_est (count_in i n w) = w_est w"
  "w_bwm (count_in i n w) = w_bwm w" "w_biter (count_in i n w) = w_biter w"
  "length (w_stats_r (count_in i n w)) = length (w_stats_r w)"
  by (simp_all add: count_in_def bump_def)

lemma world_ok_frame [simp]:
  "world_ok (count_in i n w) = world_ok w" "world_ok (w\<lparr>w_cache := bc\<rparr>) = world_ok w" "world_ok (w\<lparr>w_bwm := bm\<rparr>) = world_ok w"
  by (simp_all add: world_ok_def)

lemma wf_mark_resend: "wf_sd d \<Longrightarrow> wf_sd (mark_resend d)"
  by (simp add: mark_resend_def Let_def wf_sd_def)

lemma sender_ok_resend:
  "sender_ok s \<Longrightarrow> \<forall>a \<in> set as. wf_sd (a_d a) \<Longrightarrow> sender_ok (foldl (\<lambda>s a. resend_one a s) s as)"
  by (induction "as" arbitrary: s) (simp_all add: resend_one_def sender_ok_send_data wf_mark_resend)

lemma find_in_set: "List.find P xs = Some a \<Longrightarrow> a \<in> set xs"
  by (induction xs) (auto split: if_splits)

lemma nacks_wf_pop:
  assumes "nacks_wf ns" and "pop_ack seq h ns = (r, ns')"
  shows "nacks_wf ns'" and "r = Some a \<Longrightarrow> wf_sd (a_d a)"
proof -
  have sub: "set (drop_first P xs) \<subseteq> set xs" for P and xs :: "Ack list"
    by (auto simp: drop_first_def dest: set_takeWhileD list.set_sel(2) intro: set_dropWhileD)
      (metis list.sel(2) list.set_sel(2) set_dropWhileD)
  note p = pop_ack_outstanding [of ns seq h]
  show "nacks_wf ns'" using assms p sub by (fastforce simp: nacks_wf_def)
  show "wf_sd (a_d a)" if "r = Some a"
  proof -
    have "r = List.find (\<lambda>a. a_seq a = seq) (outstanding ns h)" using assms p by (auto simp: nacks_wf_def)
    then have "a \<in> set (outstanding ns h)" using that find_in_set by metis
    then show ?thesis using assms(1) by (auto simp: nacks_wf_def)
  qed
qed

lemma ack_received_held: "ack_list_held (aw_peers aw) \<Longrightarrow> ack_received ack_s ack_r rcvd from aw = Err Blocked"
  by (simp add: ack_received_def Let_def)

lemma ack_received_world_ok:
  assumes ok: "ack_world_ok aw" and r: "ack_received ack_s ack_r rcvd from aw = Ok (v, aw')"
  shows "ack_world_ok aw'"
proof -
  have w: "sender_ok (aw_sender aw)" "peers_distinct (aw_nacks aw)" "peer_stats_ok (aw_peers aw)" "cookies_shape (aw_cookies aw)"
    "\<And>h a. a \<in> set (outstanding (aw_nacks aw) h) \<Longrightarrow> wf_sd (a_d a)"
    using ok by (auto simp: ack_world_ok_def nacks_wf_def)
  have free: "\<not> ack_list_held (aw_peers aw)"
    using r ack_received_held [of aw ack_s ack_r rcvd "from"] by (cases "ack_list_held (aw_peers aw)") simp_all
  have c: "cookies_shape (aw_cookies aw')" using ack_received_cookies [OF r] w(4) by (simp add: cookies_shape_ops(3))
  obtain aw1 where i: "ack_received ack_s ack_r rcvd from aw = Ok (1, aw1)" "peer_stats_ok (aw_peers aw1)" "peers_distinct (aw_nacks aw1)"
    using ack_received_invariant [OF free w(3,2), of ack_s ack_r rcvd "from"] by blast
  have "aw1 = aw'" using r i(1) by simp
  note st = i(2,3) [unfolded this]
  have "sender_ok (aw_sender aw') \<and> (\<forall>h. set (outstanding (aw_nacks aw') h) \<subseteq> set (outstanding (aw_nacks aw) h))"
  proof (cases "find_peer_by_host from (peeracklist (aw_peers aw))")
    case None
    have "aw_nacks aw' = snd (remove_ooo_nacks ack_s (aw_nacks aw))" "aw_sender aw' = aw_sender aw"
      using ack_received_unknown [OF free None, of ack_s ack_r rcvd] unfolding r by auto
    then show ?thesis using remove_ooo_outstanding [OF w(2), of ack_s] w(1) by (auto split: if_splits)
  next
    case (Some p)
    obtain ns where l: "remove_lost_acks ack_s (ar_cons ack_r) (aw_nacks aw) = (0, ns)" "peers_distinct ns"
      "\<And>h. set (outstanding ns h) \<subseteq> set (outstanding (aw_nacks aw) h)"
      using remove_lost_outstanding [OF w(2), of ack_s "ar_cons ack_r"] by auto
    obtain e ns' sr where e: "resend_ooo_nacks ack_s (aw_sender aw) ns = ((e, ns'), sr)"
      "\<And>h. set (outstanding ns' h) \<subseteq> set (outstanding ns h)"
      "sr = foldl (\<lambda>s a. resend_one a s) (aw_sender aw)
        (filter (\<lambda>a. timercmp_lt (a_sendtime a) (a_sendtime ack_s)) (outstanding ns (sd_to (a_d ack_s))))"
      using resend_ooo_outstanding [OF l(2), of ack_s "aw_sender aw"] by auto
    have "sender_ok sr" unfolding e(3) using w(1,5) l(3) by (intro sender_ok_resend) auto
    moreover have "aw_nacks aw' = ns'" "aw_sender aw' = sr"
      using ack_received_known [OF free Some l(1) e(1), of rcvd] unfolding r by auto
    ultimately show ?thesis using e(2) l(3) by blast
  qed
  then show ?thesis using w c st by (auto simp: ack_world_ok_def nacks_wf_def)
qed

lemma biter_ok_completed:
  assumes "biter_ok bi" and "block_completed (uint (s :: u16)) (sint (b :: u32)) None bi = Ok bi'"
  shows "biter_ok bi'"
  using assms biter.invar_put [OF assms(1), of "Completed s b"]
  by (auto simp: block_completed_def biter_ok_def split: if_splits)

lemma biter_ok_raw:
  assumes "biter_ok bi" and "block_completed (- 1) (- 1) (Some d) bi = Ok bi'"
  shows "biter_ok bi'"
  using assms biter.invar_put [OF assms(1), of "Raw d"]
  by (auto simp: block_completed_def biter_ok_def split: if_splits)

definition rx_ok :: "IncomingData \<times> world \<Rightarrow> bool" where
  "rx_ok dw \<longleftrightarrow> length (id_buf (fst dw)) = BUFSIZE \<and> world_ok (snd dw)"

lemma rx_ok_garbage [simp]: "rx_ok (garbage d w) = rx_ok (d, w)"
  by (simp add: rx_ok_def garbage_def set_flag_def)

lemma rx_port_ok: "rx_ok dw \<Longrightarrow> rx_port dw = Ok dw' \<Longrightarrow> rx_ok dw'"
  by (cases dw) (auto simp: rx_port_def rx_ok_def Let_def bind_res_Ok_iff world_ok_def biter_ok_raw split: if_splits)

lemma rx_need_ack_ok:
  assumes "rx_ok dw" and "wf_sd (mem_send mem)" and "rx_need_ack mem dw = Ok dw'"
  shows "rx_ok dw'"
proof (cases dw)
  case (Pair d w)
  let ?s = "\<lambda>seq cons. (append_ack_ts (append_ack_cons (encode_ack (mem_send mem) seq) cons) (id_tv d))\<lparr>sd_to := id_from d\<rparr>"
  have "wf_sd (?s seq cons)" for seq cons using assms(2) by simp
  then have snd: "sender_ok s \<Longrightarrow> sender_ok (send_data (?s seq cons) s)" for s seq cons by (simp add: sender_ok_send_data)
  show ?thesis
    using assms(1,3) snd
    by (auto simp: Pair rx_need_ack_def rx_ok_def Let_def bind_res_Ok_iff world_ok_def ack_world_ok_def
        garbage_def set_flag_def split: if_splits)
qed

lemma rx_ack_ok:
  assumes "rx_ok dw" and "rx_ack dw = Ok dw'"
  shows "rx_ok dw'"
proof (cases dw)
  case (Pair d w)
  have ok: "ack_world_ok (w_ack w)" "length (id_buf d) = BUFSIZE" "world_ok w"
    using assms(1) by (auto simp: Pair rx_ok_def world_ok_def)
  have pop: "nacks_wf (aw_nacks (w_ack w)) \<Longrightarrow> pop_ack seq h (aw_nacks (w_ack w)) = (r, ns) \<Longrightarrow>
      ack_world_ok ((w_ack w)\<lparr>aw_nacks := ns\<rparr>)" for seq h r ns
    using ok(1) nacks_wf_pop(1) by (auto simp: ack_world_ok_def)
  have nw: "nacks_wf (aw_nacks (w_ack w))" using ok(1) by (simp add: ack_world_ok_def)
  have rcv: "pop_ack seq h (aw_nacks (w_ack w)) = (r, ns) \<Longrightarrow>
      ack_received a ar t f ((w_ack w)\<lparr>aw_nacks := ns\<rparr>) = Ok (v, aw') \<Longrightarrow> ack_world_ok aw'" for seq h r ns a ar t f v aw'
    using pop [OF nw] ack_received_world_ok by blast
  show ?thesis
    using assms(2) ok pop [OF nw] rcv
    by (auto simp: Pair rx_ack_def rx_ok_def Let_def bind_res_Ok_iff world_ok_def garbage_def set_flag_def
        split: if_splits option.splits prod.splits)
qed

lemma rx_bw_ok: "rx_ok dw \<Longrightarrow> rx_bw dw = Ok dw' \<Longrightarrow> rx_ok dw'"
  by (cases dw) (auto simp: rx_bw_def rx_ok_def garbage_def set_flag_def split: if_splits option.splits)

lemma rx_fragment_ok:
  assumes "world_ok w" and "rx_fragment mem d fd w = Ok w'"
  shows "world_ok w'"
proof -
  have est: "estimates_ok e \<Longrightarrow> estimates_ok (fragment_received f e)" for e f
    by (rule estimates_ok_received)
  have "world_ok w1 \<Longrightarrow> rx_added d fd w1 = Ok w2 \<Longrightarrow> world_ok w2" for w1 w2
    by (auto simp: rx_added_def Let_def bind_res_Ok_iff world_ok_def est dest: biter_ok_completed split: if_splits)
  then have "world_ok w \<Longrightarrow> rx_added d fd (w\<lparr>w_cache := bc\<rparr>) = Ok w' \<Longrightarrow> world_ok w'" for bc
    by (metis world_ok_frame(2))
  then show ?thesis using assms
    by (auto simp: rx_fragment_def Let_def bind_res_Ok_iff split: if_splits)
qed

lemma rx_block_ok: "rx_ok dw \<Longrightarrow> rx_block mem dw = Ok dw' \<Longrightarrow> rx_ok dw'"
  using rx_fragment_ok [of "snd dw" mem "fst dw"]
  by (cases dw) (auto simp: rx_block_def rx_ok_def bind_res_Ok_iff map_res_Ok_iff garbage_def set_flag_def
      split: if_splits option.splits)

lemma process_packet_keeps:
  assumes "world_ok w" and "length (id_buf d) = BUFSIZE" and "wf_sd (mem_send mem)"
    and "process_packet mem d w = Ok (d', w')"
  shows "world_ok w' \<and> length (id_buf d') = BUFSIZE"
proof -
  have "rx_ok (d, w)" using assms by (simp add: rx_ok_def)
  moreover obtain d1 w1 where "w' = count_in I_PKG_COUNTER 1 (count_in I_DATA_COUNTER (id_buflen d1) w1)" "d' = d1"
    "(if id_buflen d > 1
        then bind_res (rx_port (d, w)) (\<lambda>dw. bind_res (rx_need_ack mem dw) (\<lambda>dw. bind_res (rx_ack dw) (\<lambda>dw.
             bind_res (rx_bw dw) (rx_block mem)))) else Ok (d, w)) = Ok (d1, w1)"
    using assms(4) by (auto simp: process_packet_def bind_res_Ok_iff)
  ultimately have "rx_ok (d1, w1)"
  proof (cases "id_buflen d > 1")
    case True
    then obtain dw1 dw2 dw3 dw4 where st: "rx_port (d, w) = Ok dw1" "rx_need_ack mem dw1 = Ok dw2" "rx_ack dw2 = Ok dw3"
      "rx_bw dw3 = Ok dw4" "rx_block mem dw4 = Ok (d1, w1)"
      using \<open>(if _ then _ else _) = Ok (d1, w1)\<close> by (auto simp: bind_res_Ok_iff)
    note ok1 = rx_need_ack_ok [OF rx_port_ok [OF \<open>rx_ok (d, w)\<close> st(1)] assms(3) st(2)]
    show ?thesis by (rule rx_block_ok [OF rx_bw_ok [OF rx_ack_ok [OF ok1 st(3)] st(4)] st(5)])
  qed simp
  then show ?thesis using \<open>w' = _\<close> \<open>d' = d1\<close> by (simp add: rx_ok_def)
qed

text \<open>
  C8: whatever bytes arrive, a datagram that is processed to the end leaves all components consistent:
  the sender's queues and semaphores, the outstanding packets, the peer statistics, the cookies, the
  hand-over buffer and the bandwidth estimates.
\<close>

theorem process_packet_invariant:
  assumes "world_ok w" and "length (id_buf d) = BUFSIZE" and "wf_sd (mem_send mem)"
    and "process_packet mem d w = Ok (d', w')"
  shows "world_ok w' \<and> length (id_buf d') = BUFSIZE"
  using process_packet_keeps [OF assms] .

end
