(* ===== verification/Blockcache_Ops.thy ===== *)
theory Blockcache_Ops
  imports Reassembly
begin

text \<open>
  What the remaining operations of the block cache do, on every branch: whole blocks in and out,
  deletion, the two listings, the count of consecutive fragments, and the inputs on which adding a
  fragment leaves the memory of the block.
\<close>

text \<open>
  C7: adding a fragment implements the map specification. For a fragment whose index and length fit,
  \<open>addfragment\<close> returns the specified code, the new cache is the specified map and the invariant
  is kept, the block's lock included.
\<close>

theorem addfragment_refinement:
  assumes "cache_ok bc" and "safe_fragment fd bc"
  shows "\<exists>rc bc'. addfragment mem fd host ts bc = Ok (rc, bc') \<and> cache_ok bc' \<and>
    spec_addfragment fd (abs_cache bc) = (rc, abs_cache bc')"
  by (rule addfragment_refines [OF assms])

section \<open>Whole blocks\<close>

lemma addblock_present:
  assumes "cache_ok bc" and "find_pos streamid blockid bc = Some p"
  shows "addblock streamid blockid blockdata bc = Ok (0, bc)"
  using findblock_unlocked [OF cache_ok_unlocked [OF assms(1)], of streamid blockid] assms(2)
    find_pos_SomeD [OF assms(2)] cache_ok_unlocked [OF assms(1)]
  by (simp add: addblock_def)

definition whole_block :: "u16 \<Rightarrow> u32 \<Rightarrow> u8 list \<Rightarrow> Block" where
  "whole_block streamid blockid data =
     (let fs = calcfragments (of_nat (length data)) in
      \<lparr>b_id = bkey streamid blockid, b_content = \<lparr>bd_data = data, bd_length = of_nat (length data)\<rparr>,
       b_f = replicate (unat (fs_fn fs)) \<lparr>bf_have = 1, bf_host = zero_addr, bf_ts = zero_time\<rparr>,
       b_fs = fs, b_lock = False\<rparr>)"

lemma addblock_absent:
  assumes "cache_ok bc" and "find_pos streamid blockid bc = None" and "sendable data"
  shows "addblock streamid blockid \<lparr>bd_data = data, bd_length = of_nat (length data)\<rparr> bc =
    Ok (1, whole_block streamid blockid data # bc)"
  by (simp add: addblock_new [OF cache_ok_unlocked [OF assms(1)] assms(2)] unat_length [OF assms(3)] whole_block_def Let_def)

lemma whole_block_ok: "sendable data \<Longrightarrow> block_ok (whole_block streamid blockid data)"
proof -
  assume s: "sendable data"
  note sp = split_exact [OF s, unfolded num_frags_def last_len_def]
  let ?n = "unat (fs_fn (calcfragments (of_nat (length data))))"
  have "(?n - 1) * MTU \<le> length data" using sp(5) by (metis le_add1 mult.commute)
  then show ?thesis using sp unat_length [OF s]
    by (auto simp: block_ok_def whole_block_def Let_def have_frag_def mult.commute)
qed

lemma lookup_head:
  assumes "cache_ok (b # bc)" and "b_id b = bkey streamid blockid"
  shows "findblock streamid blockid (b # bc) = Ok (Some 0, b\<lparr>b_lock := True\<rparr> # bc)"
    and "unlock_block 0 (b\<lparr>b_lock := True\<rparr> # bc) = b # bc"
  using findblock_unlocked [OF cache_ok_unlocked [OF assms(1)], of streamid blockid] assms(2)
    unlock_locked_at [OF cache_ok_unlocked [OF assms(1)], of 0]
  by (simp_all add: is_block_iff)

text \<open>
  A block put into the cache is there, complete and unchanged: if its identifier is free, \<open>addblock\<close>
  returns 1, \<open>get_block_data\<close> then returns the same bytes and \<open>iscomplete\<close> says yes; if the identifier
  is taken it returns 0 and changes nothing.
\<close>

lemma addblock_get_block_data:
  assumes "cache_ok bc" and "sendable data"
  shows "(find_pos streamid blockid bc = None \<longrightarrow>
      (\<exists>bc'. addblock streamid blockid \<lparr>bd_data = data, bd_length = of_nat (length data)\<rparr> bc = Ok (1, bc') \<and> cache_ok bc' \<and>
        get_block_data streamid blockid bc' = Ok (Some \<lparr>bd_data = data, bd_length = of_nat (length data)\<rparr>, bc') \<and>
        iscomplete streamid blockid bc' = Ok (True, bc') \<and>
        (\<forall>k. k \<noteq> bkey streamid blockid \<longrightarrow> abs_cache bc' k = abs_cache bc k))) \<and>
    (find_pos streamid blockid bc \<noteq> None \<longrightarrow>
      addblock streamid blockid \<lparr>bd_data = data, bd_length = of_nat (length data)\<rparr> bc = Ok (0, bc))"
proof -
  let ?b = "whole_block streamid blockid data"
  have "\<exists>bc'. addblock streamid blockid \<lparr>bd_data = data, bd_length = of_nat (length data)\<rparr> bc = Ok (1, bc') \<and> cache_ok bc' \<and>
        get_block_data streamid blockid bc' = Ok (Some \<lparr>bd_data = data, bd_length = of_nat (length data)\<rparr>, bc') \<and>
        iscomplete streamid blockid bc' = Ok (True, bc') \<and>
        (\<forall>k. k \<noteq> bkey streamid blockid \<longrightarrow> abs_cache bc' k = abs_cache bc k)"
    if new: "find_pos streamid blockid bc = None"
  proof -
    have id: "b_id ?b = bkey streamid blockid" by (simp add: whole_block_def Let_def)
    have ok: "cache_ok (?b # bc)"
      using assms(1) whole_block_ok [OF assms(2)] new find_pos_None_iff [of streamid blockid bc] id by (simp add: cache_ok_def)
    note lh = lookup_head [OF ok id]
    have "have_below n (replicate n \<lparr>bf_have = 1, bf_host = zero_addr, bf_ts = zero_time\<rparr>)" for n
      by (simp add: have_below_iff)
    then have "iscomplete streamid blockid (?b # bc) = Ok (True, ?b # bc)"
      by (simp add: iscomplete_def lh raw_iscomplete_def) (simp add: whole_block_def Let_def)
    moreover have "get_block_data streamid blockid (?b # bc) = Ok (Some \<lparr>bd_data = data, bd_length = of_nat (length data)\<rparr>, ?b # bc)"
      by (simp add: get_block_data_def lh Let_def) (simp add: whole_block_def Let_def unat_length [OF assms(2)])
    moreover have "k \<noteq> bkey streamid blockid \<Longrightarrow> abs_cache (?b # bc) k = abs_cache bc k" for k
      by (simp add: abs_cache_def kmap_Cons id)
    ultimately show ?thesis using addblock_absent [OF assms(1) new assms(2)] ok by blast
  qed
  then show ?thesis using addblock_present [OF assms(1)] by auto
qed

section \<open>Deletion\<close>

lemma unlink_after_eq:
  "unlink_after streamid blockid prev bs =
     (case find_pos streamid blockid bs of None \<Rightarrow> None | Some p \<Rightarrow> Some (prev # take p bs @ drop (Suc p) bs))"
  by (induction bs arbitrary: prev) (auto split: option.split)

text \<open>
  C34: deletion. A block behind the first of the list is removed and nothing else changes; a missing
  block is reported as a failure. The first block of the list, the one added last, is never
  deleted: the call fails and the block stays.
\<close>

theorem deleteblock_behaviour:
  assumes "cache_ok bc"
  shows "(find_pos streamid blockid bc = None \<longrightarrow> deleteblock streamid blockid bc = (BD_FAILURE, bc)) \<and>
    (find_pos streamid blockid bc = Some 0 \<longrightarrow> deleteblock streamid blockid bc = (BD_FAILURE, bc)) \<and>
    (\<forall>p. find_pos streamid blockid bc = Some (Suc p) \<longrightarrow>
      (\<exists>bc'. deleteblock streamid blockid bc = (BD_SUCCESS, bc') \<and> cache_ok bc' \<and>
        find_pos streamid blockid bc' = None \<and> abs_cache bc' = (abs_cache bc)(bkey streamid blockid := None)))"
proof (cases bc)
  case Nil
  then show ?thesis by (simp add: deleteblock_def)
next
  case (Cons b bs)
  have absent: "find_pos streamid blockid bs = None" if "b_id b = bkey streamid blockid"
    using assms that by (simp add: Cons cache_ok_def find_pos_None_iff)
  have "\<exists>bc'. deleteblock streamid blockid bc = (BD_SUCCESS, bc') \<and> cache_ok bc' \<and>
        find_pos streamid blockid bc' = None \<and> abs_cache bc' = (abs_cache bc)(bkey streamid blockid := None)"
    if p: "find_pos streamid blockid bc = Some (Suc p)" for p
  proof -
    have q: "find_pos streamid blockid bs = Some p" "b_id b \<noteq> bkey streamid blockid"
      using p by (auto simp: Cons is_block_iff split: if_splits)
    have r: "p < length bs" "b_id (bs ! p) = bkey streamid blockid" using find_pos_SomeD [OF q(1)] by auto
    have bs: "bs = take p bs @ bs ! p # drop (Suc p) bs" using r(1) by (simp add: Cons_nth_drop_Suc)
    let ?bc = "b # take p bs @ drop (Suc p) bs"
    have d: "distinct (map b_id (b # take p bs @ bs ! p # drop (Suc p) bs))" "\<forall>x \<in> set bc. block_ok x"
      using assms bs by (simp_all add: Cons cache_ok_def)
    have sub: "set ?bc \<subseteq> set bc" using set_take_subset [of p bs] set_drop_subset [of "Suc p" bs] by (auto simp: Cons)
    have ok: "cache_ok ?bc" using d sub by (auto simp: cache_ok_def)
    have none: "bkey streamid blockid \<notin> b_id ` set ?bc" using d(1) r(2) by auto
    have "abs_cache ?bc k = ((abs_cache bc)(bkey streamid blockid := None)) k" for k
    proof (cases "k = bkey streamid blockid")
      case True
      then show ?thesis using none kmap_eq_None_iff [of b_id ?bc k] by (simp add: abs_cache_def)
    next
      case False
      have "kmap b_id bc = kmap b_id (b # take p bs @ bs ! p # drop (Suc p) bs)" using bs by (simp add: Cons)
      then show ?thesis using False r(2)
        by (simp add: abs_cache_def kmap_def map_add_def split: option.split)
    qed
    moreover have "deleteblock streamid blockid bc = (BD_SUCCESS, ?bc)"
      by (simp add: deleteblock_def Cons unlink_after_eq q)
    ultimately show ?thesis using ok none by (auto simp: find_pos_None_iff)
  qed
  then show ?thesis using absent
    by (auto simp: Cons deleteblock_def unlink_after_eq is_block_iff split: if_splits)
qed

section \<open>Listings\<close>

definition complete_block :: "Block \<Rightarrow> bool" where
  "complete_block b \<longleftrightarrow> (\<forall>i < b_fn b. have_frag b i)"

lemma have_below_complete: "block_ok b \<Longrightarrow> have_below (b_fn b) (b_f b) \<longleftrightarrow> complete_block b"
  by (fastforce simp: have_below_iff complete_block_def have_frag_def block_ok_def)

lemma collect_ids_eq:
  "cache_ok bc \<Longrightarrow> collect_ids want bc = Ok (map b_id (filter (\<lambda>b. complete_block b = want) bc))"
  by (induction bc) (auto simp: cache_ok_def have_below_complete block_ok_def)

text \<open>
  The two listings split the cache: together they name every block once, in cache order; one has
  exactly the blocks with all fragments, the other exactly those with a fragment missing.
\<close>

lemma listings_partition:
  assumes "cache_ok bc"
  shows "\<exists>cs is. get_complete_block_list bc = Ok cs \<and> get_incomplete_block_list bc = Ok is \<and>
    cs = map b_id (filter complete_block bc) \<and> is = map b_id (filter (Not \<circ> complete_block) bc) \<and>
    distinct (cs @ is) \<and> set cs \<union> set is = b_id ` set bc \<and>
    int (length cs + length is) = get_blockcache_size bc"
proof -
  have d: "distinct (map b_id bc)" using assms by (simp add: cache_ok_def)
  have "set (map b_id (filter complete_block bc)) \<inter> set (map b_id (filter (Not \<circ> complete_block) bc)) = {}"
    using d by (auto simp: distinct_map inj_on_def)
  then have "distinct (map b_id (filter complete_block bc) @ map b_id (filter (Not \<circ> complete_block) bc))"
    using d by (simp add: distinct_map_filter)
  moreover have "length (filter complete_block bc) + length (filter (Not \<circ> complete_block) bc) = length bc"
    by (simp add: sum_length_filter_compl o_def)
  ultimately show ?thesis
    using collect_ids_eq [OF assms]
    by (cases "bc = []") (auto simp: get_complete_block_list_def get_incomplete_block_list_def get_blockcache_size_def o_def)
qed

section \<open>Consecutive fragments\<close>

lemma count_before_run:
  assumes "i \<le> length f"
  shows "\<exists>n. count_before f i = Ok n \<and> n \<le> i \<and> (\<forall>j. i - n \<le> j \<and> j < i \<longrightarrow> bf_have (f ! j) = 1) \<and>
    (n < i \<longrightarrow> bf_have (f ! (i - n - 1)) \<noteq> 1)"
  using assms
proof (induction i)
  case (Suc i)
  show ?case
  proof (cases "bf_have (f ! i) = 1")
    case True
    obtain n where n: "count_before f i = Ok n" "n \<le> i" "\<forall>j. i - n \<le> j \<and> j < i \<longrightarrow> bf_have (f ! j) = 1"
      "n < i \<longrightarrow> bf_have (f ! (i - n - 1)) \<noteq> 1"
      using Suc by auto
    then show ?thesis using Suc.prems True by (intro exI [of _ "Suc n"]) (auto simp: less_Suc_eq)
  next
    case False
    then show ?thesis using Suc.prems by auto
  qed
qed simp

lemma get_consecutives_run:
  assumes ok: "cache_ok bc" and p: "find_pos (fi_streamid fi) (fi_blockid fi) bc = Some p"
    and i: "unat (fi_fragmentid fi) \<le> b_fn (bc ! p)"
  shows "\<exists>n. get_consecutives fi bc = Ok (of_nat n, bc) \<and> n \<le> unat (fi_fragmentid fi) \<and>
    (\<forall>j. unat (fi_fragmentid fi) - n \<le> j \<and> j < unat (fi_fragmentid fi) \<longrightarrow> have_frag (bc ! p) j) \<and>
    (n < unat (fi_fragmentid fi) \<longrightarrow> \<not> have_frag (bc ! p) (unat (fi_fragmentid fi) - n - 1))"
proof -
  have pl: "p < length bc" using find_pos_SomeD [OF p] by simp
  then have bok: "block_ok (bc ! p)" using ok by (simp add: cache_ok_def)
  then have "unat (fi_fragmentid fi) \<le> length (b_f (bc ! p))" using i by (simp add: block_ok_def)
  from count_before_run [OF this] obtain n where n: "count_before (b_f (bc ! p)) (unat (fi_fragmentid fi)) = Ok n"
    "n \<le> unat (fi_fragmentid fi)"
    "\<forall>j. unat (fi_fragmentid fi) - n \<le> j \<and> j < unat (fi_fragmentid fi) \<longrightarrow> bf_have (b_f (bc ! p) ! j) = 1"
    "n < unat (fi_fragmentid fi) \<longrightarrow> bf_have (b_f (bc ! p) ! (unat (fi_fragmentid fi) - n - 1)) \<noteq> 1" by blast
  have "get_consecutives fi bc = Ok (of_nat n, bc)"
    using n(1) pl unlock_locked_at [OF cache_ok_unlocked [OF ok] pl]
    by (simp add: get_consecutives_def findblock_unlocked [OF cache_ok_unlocked [OF ok]] p)
  then show ?thesis using n i by (intro exI [of _ n]) (auto simp: have_frag_def)
qed

text \<open>
  The number an acknowledgement reports is the length of the unbroken run of received fragments that
  ends just before the acknowledged one; it is 0 for a block that is not in the cache.
\<close>

lemma consecutives_reported:
  assumes "cache_ok bc"
    and "\<forall>b \<in> set bc. b_id b = bkey (fi_streamid fi) (fi_blockid fi) \<longrightarrow> unat (fi_fragmentid fi) \<le> b_fn b"
  shows "\<exists>n. get_consecutives fi bc = Ok (n, bc) \<and>
    (find_pos (fi_streamid fi) (fi_blockid fi) bc = None \<longrightarrow> n = 0) \<and>
    (\<forall>p. find_pos (fi_streamid fi) (fi_blockid fi) bc = Some p \<longrightarrow>
      unat n \<le> unat (fi_fragmentid fi) \<and>
      (\<forall>j. unat (fi_fragmentid fi) - unat n \<le> j \<and> j < unat (fi_fragmentid fi) \<longrightarrow> have_frag (bc ! p) j) \<and>
      (unat n < unat (fi_fragmentid fi) \<longrightarrow> \<not> have_frag (bc ! p) (unat (fi_fragmentid fi) - unat n - 1)))"
proof (cases "find_pos (fi_streamid fi) (fi_blockid fi) bc")
  case None
  then show ?thesis
    by (simp add: get_consecutives_def findblock_unlocked [OF cache_ok_unlocked [OF assms(1)]])
next
  case (Some p)
  have "unat (fi_fragmentid fi) \<le> b_fn (bc ! p)" using find_pos_SomeD [OF Some] assms(2) by simp
  from get_consecutives_run [OF assms(1) Some this]
  obtain n where n: "get_consecutives fi bc = Ok (of_nat n, bc)" "n \<le> unat (fi_fragmentid fi)"
    "\<forall>j. unat (fi_fragmentid fi) - n \<le> j \<and> j < unat (fi_fragmentid fi) \<longrightarrow> have_frag (bc ! p) j"
    "n < unat (fi_fragmentid fi) \<longrightarrow> \<not> have_frag (bc ! p) (unat (fi_fragmentid fi) - n - 1)" by blast
  have "unat (of_nat n :: u16) = n" using n(2) unat_u16_less [of "fi_fragmentid fi"] by (simp add: unat_of_nat)
  then show ?thesis using n Some by auto
qed

section \<open>Leaving the block\<close>

text \<open>
  C39: the fragments that break the cache. An index beyond the announced number of fragments writes
  outside the fragment array of a new block, an index beyond the number of a known block reads
  outside it before the range check, so that the code for an index out of bounds is never
  returned; and a last fragment longer than \<open>MTU\<close> is copied past the end of a new block.
\<close>

theorem addfragment_out_of_bounds:
  assumes "cache_ok bc"
  shows "(find_pos (fd_streamid fd) (fd_blockid fd) bc = None \<and> unat (fd_fragments fd) \<le> unat (fd_fragmentid fd) \<longrightarrow>
      addfragment mem fd host ts bc = Err OutOfBounds) \<and>
    (\<forall>p. find_pos (fd_streamid fd) (fd_blockid fd) bc = Some p \<and> b_fn (bc ! p) \<le> unat (fd_fragmentid fd) \<longrightarrow>
      addfragment mem fd host ts bc = Err OutOfBounds) \<and>
    (find_pos (fd_streamid fd) (fd_blockid fd) bc = None \<and> unat (fd_fragmentid fd) + 1 = unat (fd_fragments fd) \<and>
       MTU < unat (fd_length fd) \<longrightarrow> addfragment mem fd host ts bc = Err OutOfBounds) \<and>
    (\<forall>bc'. addfragment mem fd host ts bc \<noteq> Ok (F_FRAGMENTID_OUTOFBOUNDS, bc'))"
proof -
  note fb = findblock_unlocked [OF cache_ok_unlocked [OF assms], of "fd_streamid fd" "fd_blockid fd"]
  let ?i = "unat (fd_fragmentid fd)"
  have len: "length (b_f (locked_at p bc ! p)) = b_fn (bc ! p) \<and> b_fn (locked_at p bc ! p) = b_fn (bc ! p)"
    if "find_pos (fd_streamid fd) (fd_blockid fd) bc = Some p" for p
    using find_pos_SomeD [OF that] assms by (simp add: cache_ok_def block_ok_def)
  have new: "length (b_f (new_block mem fd)) = unat (fd_fragments fd)" by (simp add: new_block_def Let_def)
  have last: "MTU * ?i + unat (fd_length fd) > MTU * unat (fd_fragments fd)"
    if "?i + 1 = unat (fd_fragments fd)" "MTU < unat (fd_length fd)"
  proof -
    have "MTU * unat (fd_fragments fd) = MTU * ?i + MTU" using that(1) by (metis add.commute mult_Suc_right Suc_eq_plus1)
    then show ?thesis using that(2) by simp
  qed
  have at: "addfragment_at p fd host ts (locked_at p bc) \<noteq> Ok (F_FRAGMENTID_OUTOFBOUNDS, bc')"
    "b_fn (bc ! p) \<le> ?i \<Longrightarrow> addfragment_at p fd host ts (locked_at p bc) = Err OutOfBounds"
    if "find_pos (fd_streamid fd) (fd_blockid fd) bc = Some p" for p bc'
    using len [OF that] by (auto simp: addfragment_at_def Let_def code_defs bind_res_Ok_iff)
  have nw: "addfragment_new mem fd host ts bc \<noteq> Ok (F_FRAGMENTID_OUTOFBOUNDS, bc')"
    "unat (fd_fragments fd) \<le> ?i \<Longrightarrow> addfragment_new mem fd host ts bc = Err OutOfBounds" for bc'
    using new by (auto simp: addfragment_new_def Let_def code_defs bind_res_Ok_iff)
  have "addfragment_new mem fd host ts bc = Err OutOfBounds"
    if "?i + 1 = unat (fd_fragments fd)" "MTU < unat (fd_length fd)"
  proof -
    have "int ?i = int (unat (fd_fragments fd)) - 1" "\<not> unat (fd_fragments fd) \<le> ?i" using that(1) by linarith+
    then show ?thesis using last [OF that]
      by (simp add: addfragment_new_def Let_def new memcpy_def del: of_nat_unat) (simp add: new_block_def Let_def)
  qed
  then show ?thesis using at nw
    by (auto simp: addfragment_def fb split: option.split)
qed

text \<open>
  The shortest case: a block of one fragment is returned with \<open>MTU\<close> bytes.
\<close>

lemma single_fragment_block_padded:
  assumes "cache_ok bc" and "find_pos streamid blockid bc = None" and "1 \<le> length data" and "length data < MTU"
  shows "\<exists>bc'. addfragment mem (piece streamid blockid data 0) host ts bc = Ok (F_ADDED, bc') \<and>
    iscomplete streamid blockid bc' = Ok (True, bc') \<and>
    get_block_data streamid blockid bc' =
      Ok (Some \<lparr>bd_data = data @ replicate (MTU - length data) 0, bd_length = of_nat MTU\<rparr>, bc')"
proof -
  have s: "sendable data" using assms(3,4) by (simp add: sendable_def MTU_def)
  let ?fd = "piece streamid blockid data 0" and ?b = "first_block mem (piece streamid blockid data 0) host ts"
  have n: "num_frags data = 1" "last_len data = length data"
  proof -
    note sp = split_exact [OF s]
    have "MTU * (num_frags data - 1) < MTU * 1" using sp(5) assms(4) by linarith
    then have "num_frags data - 1 < 1" using mult_less_cancel1 by blast
    then show "num_frags data = 1" using sp(1) by simp
    then show "last_len data = length data" using sp(5) by simp
  qed
  have i: "0 < num_frags data" using n by simp
  note pf = piece_fields [OF s i, of streamid blockid]
  have len: "unat (fd_length ?fd) = length data" using pf(4) n by simp
  have d: "fd_data ?fd = data" using pf(7) len by simp
  have sf: "unat (fd_fragmentid ?fd) < unat (fd_fragments ?fd)" "unat (fd_length ?fd) \<le> MTU"
    "length (fd_data ?fd) = unat (fd_length ?fd)" using pf(2,3,5,6) n by simp_all
  note ff = first_block_fields [OF sf, where mem = mem and host = host and ts = ts]
  have key: "fd_streamid ?fd = streamid" "fd_blockid ?fd = blockid" by (simp_all add: piece_def Let_def)
  have add: "addfragment mem ?fd host ts bc = Ok (F_ADDED, ?b # bc)"
    using pf(2,3) n by (simp add: addfragment_def findblock_unlocked [OF cache_ok_unlocked [OF assms(1)]] key assms(2)
        addfragment_new_eq [OF sf])
  have bok: "block_ok ?b" using first_block_ok(1) [OF sf] pf(2,3) n by simp
  have id: "b_id ?b = bkey streamid blockid" using ff(1) pf(1) by simp
  have ok: "cache_ok (?b # bc)"
    using bok id assms(1,2) find_pos_None_iff [of streamid blockid bc] by (simp add: cache_ok_def)
  note lh = lookup_head [OF ok id]
  have fn: "b_fn ?b = 1" using ff(2) pf(3) n by simp
  then have "have_below (b_fn ?b) (b_f ?b)" using ff(6) [of 0] pf(2) by simp
  then have "iscomplete streamid blockid (?b # bc) = Ok (True, ?b # bc)"
    by (simp add: iscomplete_def lh raw_iscomplete_def)
  moreover have "b_data ?b = data @ replicate (MTU - length data) 0"
    using pf(2,3) d n assms(4) by (simp add: first_block_def Let_def new_block_def patch_def)
  moreover have "bd_length (b_content ?b) = of_nat MTU"
    using pf(3) n by (simp add: first_block_def Let_def new_block_def del: of_nat_mult)
  moreover have "unat (of_nat MTU :: u32) = MTU" by (simp add: MTU_def)
  ultimately show ?thesis using add assms(4)
    by (auto simp: get_block_data_def lh Let_def)
qed

end
