(* ===== verification/Handshake.thy ===== *)
theory Handshake
  imports Packet_Receiver Blockcache_Ops
begin

text \<open>
  The two ends together: what the processing thread of one peer does with the datagrams that the
  sending thread of another peer puts on the wire. The datagram is the one \<open>packet_send\<close> emits
  (\<open>wire_of\<close>), received into a buffer of which the rest is arbitrary.
\<close>

section \<open>Received datagrams\<close>

definition carries :: "IncomingData \<Rightarrow> u8 list \<Rightarrow> bool" where
  "carries d wire \<longleftrightarrow> length (id_buf d) = BUFSIZE \<and> unat (id_buflen d) = length wire \<and> take (length wire) (id_buf d) = wire"

lemma unat_minus_2: "2 \<le> unat (l :: u64) \<Longrightarrow> unat (l - 2) = unat l - 2"
  by (simp add: unat_sub word_le_nat_alt)

lemma sint_u64: "unat (l :: u64) < 2 ^ 63 \<Longrightarrow> sint l = int (unat l)"
  by (simp add: sint_uint signed_take_bit_int_eq_self uint_nat del: of_nat_unat)

lemma nth_wire: "carries d wire \<Longrightarrow> i < length wire \<Longrightarrow> id_buf d ! i = wire ! i"
  by (metis carries_def nth_take)

text \<open>A packet of a fragment as the sender keeps it in its queues.\<close>

definition fragment_packet :: "FragmentData \<Rightarrow> SendData \<Rightarrow> bool" where
  "fragment_packet fd pkt \<longleftrightarrow> fits pkt \<and> block_flags (sd_data pkt ! 0) \<and> has (sd_data pkt ! 0) NEED_ACK \<and>
     decode_fragment (sd_data pkt) (uint (sd_length pkt)) = Ok (Some fd)"

definition wire_flags :: "bool \<Rightarrow> SendData \<Rightarrow> u8" where
  "wire_flags zz pkt = (if zz then (sd_data pkt ! 0) OR BLOCK_CONSECUTIVE else sd_data pkt ! 0)"

lemma wire_flags_props:
  assumes "fragment_packet fd pkt"
  shows "wire_flags zz pkt \<noteq> 0" "block_flags (wire_flags zz pkt)" "has (wire_flags zz pkt) NEED_ACK"
    "has (wire_flags zz pkt) BLK_BLOCK" "\<not> has (wire_flags zz pkt) BLK_ACK" "\<not> has (wire_flags zz pkt) BW_MSG"
proof -
  have p: "block_flags (sd_data pkt ! 0)" "has (sd_data pkt ! 0) NEED_ACK" "has (sd_data pkt ! 0) BLK_BLOCK"
    using assms decode_fragment_Some(3) by (auto simp: fragment_packet_def)
  have "(a OR BLOCK_CONSECUTIVE) AND m = (a AND m) OR (BLOCK_CONSECUTIVE AND m)" for a m :: u8
    by (rule bit_word_eqI) (auto simp: bit_simps)
  moreover have "BLOCK_CONSECUTIVE AND (BLK_ACK OR COOKIE_MSG OR 0x20 OR BW_MSG) = 0" by (simp add: packet_defs)
  ultimately have b: "block_flags (sd_data pkt ! 0 OR BLOCK_CONSECUTIVE)" using p(1) by (simp add: block_flags_def)
  show bf: "block_flags (wire_flags zz pkt)" using p(1) b by (simp add: wire_flags_def)
  show na: "has (wire_flags zz pkt) NEED_ACK" "has (wire_flags zz pkt) BLK_BLOCK"
    using p by (simp_all add: wire_flags_def has_or)
  then show "wire_flags zz pkt \<noteq> 0" by (auto simp: has_def)
  show "\<not> has (wire_flags zz pkt) BLK_ACK" "\<not> has (wire_flags zz pkt) BW_MSG" using block_flags_not_has [OF bf] by simp_all
qed

lemma wire_shape:
  assumes "fragment_packet fd pkt"
  defines "n \<equiv> unat (sd_length pkt)"
  shows "13 \<le> n" "n \<le> 1496"
    "wire_of zz seq port pkt = take n ((sd_data pkt)[0 := wire_flags zz pkt]) @ bytes_of_u16 seq @ bytes_of_u16 port"
    "length (wire_of zz seq port pkt) = n + 4"
proof -
  have f: "length (sd_data pkt) = 1500" "1 \<le> n" and n2: "n \<le> 1496" using assms(1) by (auto simp: fragment_packet_def fits_def wf_sd_def SENDBUF_def n_def)
  have dec: "decode_fragment (sd_data pkt) (uint (sd_length pkt)) = Ok (Some fd)" using assms(1) by (simp add: fragment_packet_def)
  have "int n = uint (fd_length fd) + 13" using decode_fragment_Some(1) [OF dec] by (simp add: n_def)
  then show n13: "13 \<le> n" using uint_ge_0 [of "fd_length fd"] by linarith
  show "n \<le> 1496" by (rule n2)
  obtain x xs where x: "sd_data pkt = x # xs" using f(1) by (cases "sd_data pkt") auto
  obtain m where m: "n = Suc m" using n13 by (cases n) auto
  show w: "wire_of zz seq port pkt = take n ((sd_data pkt)[0 := wire_flags zz pkt]) @ bytes_of_u16 seq @ bytes_of_u16 port"
    using wire_flags_props(1,3) [OF assms(1), of zz] assms(1) x m
    by (auto simp: wire_of_def Let_def wire_flags_def fragment_packet_def n_def [symmetric])
  show "length (wire_of zz seq port pkt) = n + 4" using w f n2 by simp
qed

text \<open>What the receiver can read from a datagram that carries a fragment packet.\<close>

lemma carried_fields:
  assumes pk: "fragment_packet fd pkt" and c: "carries d (wire_of zz seq port pkt)"
  defines "n \<equiv> unat (sd_length pkt)"
  shows "length (id_buf d) = 1500" "unat (id_buflen d) = n + 4" "id_buf d ! 0 = wire_flags zz pkt"
    "ld16 (id_buf d) n = seq" "id_buf d ! (n + 2) = bytes_of_u16 port ! 0"
    "decode_fragment (id_buf d) (int n) = Ok (Some fd)"
proof -
  note ws = wire_shape [OF pk, folded n_def]
  let ?buf = "id_buf d" and ?data = "(sd_data pkt)[0 := wire_flags zz pkt]"
  show len: "length ?buf = 1500" "unat (id_buflen d) = n + 4" using c ws(4) by (simp_all add: carries_def BUFSIZE_def)
  have pl: "length (sd_data pkt) = 1500" using pk by (simp add: fragment_packet_def fits_def wf_sd_def SENDBUF_def)
  have tk: "take (n + 4) ?buf = take n ?data @ bytes_of_u16 seq @ bytes_of_u16 port" using c ws(3,4) by (simp add: carries_def)
  have pre: "take n ?buf = take n ?data"
    using arg_cong [OF tk, of "take n"] pl ws(2) by (simp add: min_def)
  have "?buf ! 0 = (take n ?buf) ! 0" using ws(1) by simp
  also have "\<dots> = wire_flags zz pkt" unfolding pre using ws(1) pl by simp
  finally show "?buf ! 0 = wire_flags zz pkt" .
  have dr: "drop n (take (n + 4) ?buf) = bytes_of_u16 seq @ bytes_of_u16 port" unfolding tk using pl ws(2) by simp
  have "bytes_at n 2 ?buf = take 2 (drop n (take (n + 4) ?buf))" by (simp add: bytes_at_def drop_take)
  then have "bytes_at n 2 ?buf = bytes_of_u16 seq" unfolding dr by simp
  then show "ld16 ?buf n = seq" by (simp add: ld16_def)
  have "?buf ! (n + 2) = drop n (take (n + 4) ?buf) ! 2" using len ws(2) by simp
  then show "?buf ! (n + 2) = bytes_of_u16 port ! 0" unfolding dr by (simp add: nth_append)
  have dec: "decode_fragment (sd_data pkt) (int n) = Ok (Some fd)" using pk by (simp add: fragment_packet_def n_def)
  have "decode_fragment ?data (int n) = Ok (Some fd)" by (rule decode_reflag [OF dec wire_flags_props(4) [OF pk]])
  then show "decode_fragment ?buf (int n) = Ok (Some fd)" by (rule decode_prefix) (use pre len ws(2) in simp_all)
qed

section \<open>A fragment arrives\<close>

lemma rx_port_data:
  assumes "fragment_packet fd pkt" and "carries d (wire_of zz seq port pkt)"
  shows "rx_port (d, w) = Ok (if bytes_of_u16 port ! 0 = 0 then d\<lparr>id_buflen := id_buflen d - 2\<rparr>
      else d\<lparr>id_buflen := id_buflen d - 4, id_from := (id_from d)\<lparr>sin_port := ucast (bytes_of_u16 port ! 0)\<rparr>\<rparr>, w)"
proof -
  note cf = carried_fields [OF assms] and ws = wire_shape(1,2) [OF assms(1)]
  have "unat (id_buflen d - 2) = unat (sd_length pkt) + 2" using cf(2) by (simp add: unat_minus_2)
  then show ?thesis using cf(1,3,5) ws wire_flags_props(1) [OF assms(1), of zz] by (simp add: rx_port_def Let_def)
qed

lemma consecutives_total:
  assumes "cache_ok bc" and "decode_fragment buf len = Ok (Some fd)"
    and "\<forall>b \<in> set bc. b_id b = frag_key fd \<longrightarrow> unat (fd_fragmentid fd) \<le> b_fn b"
  shows "\<exists>n. get_consecutives (get_fragment_id buf len) bc = Ok (n, bc)"
proof (cases "find_pos (fd_streamid fd) (fd_blockid fd) bc")
  case None
  then show ?thesis
    by (simp add: get_fragment_id_decoded [OF assms(2)] get_consecutives_def findblock_unlocked [OF cache_ok_unlocked [OF assms(1)]])
next
  case (Some p)
  have "unat (fd_fragmentid fd) \<le> b_fn (bc ! p)" using find_pos_SomeD [OF Some] assms(3) by (simp add: frag_key_def)
  then show ?thesis using get_consecutives_run [OF assms(1), of "get_fragment_id buf len" p] Some
    by (auto simp: get_fragment_id_decoded [OF assms(2)])
qed

lemma iscomplete_total:
  assumes "cache_ok bc" shows "\<exists>c. iscomplete streamid blockid bc = Ok (c, bc)"
  using findblock_unlocked [OF cache_ok_unlocked [OF assms], of streamid blockid] find_pos_SomeD [of streamid blockid bc]
    unlock_locked_at [OF cache_ok_unlocked [OF assms]]
  by (cases "find_pos streamid blockid bc") (auto simp: iscomplete_def raw_iscomplete_def)

lemma rx_fragment_total:
  assumes "cache_ok (w_cache w)" and "safe_fragment fd (w_cache w)" and "biter_ok (w_biter w)"
    and "fst (spec_addfragment fd (abs_cache (w_cache w))) = F_ADDED \<Longrightarrow> length (biter_contents (w_biter w)) < 20"
  shows "\<exists>w' rc. rx_fragment mem d fd w = Ok w' \<and> cache_ok (w_cache w') \<and> w_ack w' = w_ack w \<and> biter_ok (w_biter w') \<and>
    addfragment (mem_block mem) fd (id_from d) (id_tv d) (w_cache w) = Ok (rc, w_cache w') \<and>
    spec_addfragment fd (abs_cache (w_cache w)) = (rc, abs_cache (w_cache w')) \<and>
    biter_contents (w_biter w') = biter_contents (w_biter w) @
      (if rc = F_ADDED \<and> iscomplete (fd_streamid fd) (fd_blockid fd) (w_cache w') = Ok (True, w_cache w')
       then [Completed (fd_streamid fd) (fd_blockid fd)] else [])"
proof -
  obtain rc bc where a: "addfragment (mem_block mem) fd (id_from d) (id_tv d) (w_cache w) = Ok (rc, bc)" "cache_ok bc"
    "spec_addfragment fd (abs_cache (w_cache w)) = (rc, abs_cache bc)"
    using addfragment_refines [OF assms(1,2), of "mem_block mem" "id_from d" "id_tv d"] by blast
  show ?thesis
  proof (cases "rc = F_ADDED")
    case False
    then show ?thesis using a assms by (auto simp: rx_fragment_def Let_def code_defs)
  next
    case True
    then have room: "length (biter_contents (w_biter w)) < 20" using assms(4) a(3) by simp
    let ?w = "w\<lparr>w_cache := bc, w_est := fragment_received (recv_fragment d fd) (w_est w)\<rparr>"
    obtain c where c: "iscomplete (fd_streamid fd) (fd_blockid fd) bc = Ok (c, bc)" using iscomplete_total [OF a(2)] by blast
    have full: "s_biter_full (w_biter w) = length (biter_contents (w_biter w))" using biter.fill_contents [OF assms(3)] by simp
    let ?e = "Completed (fd_streamid fd) (fd_blockid fd)"
    have p: "biter_ok (biter_put (w_biter w) ?e)" "biter_contents (biter_put (w_biter w) ?e) = biter_contents (w_biter w) @ [?e]"
      using biter.invar_put [OF assms(3), of ?e] biter.contents_put [OF assms(3), of ?e] full room by (simp_all add: N_BITER_def)
    have "block_completed (uint (fd_streamid fd)) (sint (fd_blockid fd)) None (w_biter w) = Ok (biter_put (w_biter w) ?e)"
      using assms(3) room full by (simp add: block_completed_def biter_ok_def N_BITER_def)
    then have "rx_fragment mem d fd w = Ok (if c then ?w\<lparr>w_biter := biter_put (w_biter w) ?e\<rparr> else ?w)"
      using a(1) True c by (simp add: rx_fragment_def rx_added_def Let_def code_defs)
    then show ?thesis using a True c p assms(3) by (intro exI [of _ "if c then ?w\<lparr>w_biter := biter_put (w_biter w) ?e\<rparr> else ?w"]
          exI [of _ rc]) auto
  qed
qed

lemma fragment_processed:
  assumes "fragment_packet fd pkt" and "carries d (wire_of zz seq port pkt)" and "bytes_of_u16 port ! 0 = 0"
    and "cache_ok (w_cache w)" and "safe_fragment fd (w_cache w)"
    and "biter_ok (w_biter w)"
    and "fst (spec_addfragment fd (abs_cache (w_cache w))) = F_ADDED \<Longrightarrow> length (biter_contents (w_biter w)) < 20"
  shows "\<exists>d' w' cons rc. process_packet mem d w = Ok (d', w') \<and> cache_ok (w_cache w') \<and> biter_ok (w_biter w') \<and>
    addfragment (mem_block mem) fd (id_from d) (id_tv d) (w_cache w) = Ok (rc, w_cache w') \<and>
    spec_addfragment fd (abs_cache (w_cache w)) = (rc, abs_cache (w_cache w')) \<and>
    w_ack w' = (w_ack w)\<lparr>aw_sender := send_data ((make_ack (mem_send mem) seq cons (id_tv d))\<lparr>sd_to := id_from d\<rparr>) (aw_sender (w_ack w))\<rparr> \<and>
    get_consecutives (get_fragment_id (id_buf d) (uint (sd_length pkt))) (w_cache w) = Ok (cons, w_cache w) \<and>
    biter_contents (w_biter w') = biter_contents (w_biter w) @
      (if rc = F_ADDED \<and> iscomplete (fd_streamid fd) (fd_blockid fd) (w_cache w') = Ok (True, w_cache w')
       then [Completed (fd_streamid fd) (fd_blockid fd)] else [])"
proof -
  let ?n = "unat (sd_length pkt)" and ?buf = "id_buf d"
  note cf = carried_fields [OF assms(1,2)] and ws = wire_shape(1,2) [OF assms(1)]
    and fl = wire_flags_props [OF assms(1), of zz]
  let ?d1 = "d\<lparr>id_buflen := id_buflen d - 2\<rparr>" and ?d2 = "d\<lparr>id_buflen := id_buflen d - 4\<rparr>"
  have port: "rx_port (d, w) = Ok (?d1, w)" using rx_port_data [OF assms(1,2)] assms(3) by simp
  have n1: "unat (id_buflen d - 2) = ?n + 2" using cf(2) by (simp add: unat_minus_2)
  have n2: "unat (id_buflen d - 4) = ?n" "id_buflen d - 2 - 2 = id_buflen d - 4"
    using n1 unat_minus_2 [of "id_buflen d - 2"] by simp_all
  have u2: "uint (id_buflen d - 4) = int ?n" using n2(1) by (simp add: uint_nat del: of_nat_unat)
  have s2: "sint (id_buflen d - 4) = int ?n" using n2(1) ws(2) by (simp add: sint_u64 del: of_nat_unat)
  have v: "validate_block ?buf (id_buflen d - 4)" by (rule validate_decoded [OF cf(6)]) (use cf(3) fl(2) u2 in simp_all)
  have strip: "strip_ack ?buf (id_buflen d - 2) = Ok seq"
    using n2 cf(1,4) ws(2) by (simp add: strip_ack_def)
  obtain cons where c: "get_consecutives (get_fragment_id ?buf (int ?n)) (w_cache w) = Ok (cons, w_cache w)"
    using consecutives_total [OF assms(4) cf(6)] assms(5) by (fastforce simp: safe_fragment_def)
  let ?ack = "(make_ack (mem_send mem) seq cons (id_tv d))\<lparr>sd_to := id_from d\<rparr>"
  let ?w1 = "(count_in I_DATA_COUNTER 2 w)\<lparr>w_ack := (w_ack w)\<lparr>aw_sender := send_data ?ack (aw_sender (w_ack w))\<rparr>\<rparr>"
  have self: "(count_in I_DATA_COUNTER 2 w)\<lparr>w_cache := w_cache w\<rparr> = count_in I_DATA_COUNTER 2 w" by (simp add: count_in_def)
  have need: "rx_need_ack mem (?d1, w) = Ok (?d2, ?w1)"
    using cf(3) fl(3) v strip c s2 n2(2) self by (simp add: rx_need_ack_def ACKSIZE_def Let_def make_ack_def)
  have ack: "rx_ack (?d2, ?w1) = Ok (?d2, ?w1)" "rx_bw (?d2, ?w1) = Ok (?d2, ?w1)"
    using cf(3) fl(5,6) by (simp_all add: rx_ack_def rx_bw_def)
  have c1: "w_cache ?w1 = w_cache w" "w_biter ?w1 = w_biter w" by simp_all
  obtain w2 rc where f: "rx_fragment mem ?d2 fd ?w1 = Ok w2" "cache_ok (w_cache w2)" "w_ack w2 = w_ack ?w1" "biter_ok (w_biter w2)"
    "addfragment (mem_block mem) fd (id_from d) (id_tv d) (w_cache w) = Ok (rc, w_cache w2)"
    "spec_addfragment fd (abs_cache (w_cache w)) = (rc, abs_cache (w_cache w2))"
    "biter_contents (w_biter w2) = biter_contents (w_biter w) @
      (if rc = F_ADDED \<and> iscomplete (fd_streamid fd) (fd_blockid fd) (w_cache w2) = Ok (True, w_cache w2)
       then [Completed (fd_streamid fd) (fd_blockid fd)] else [])"
    using rx_fragment_total [of ?w1 fd mem ?d2] assms(4-7) unfolding c1 by auto
  have blk: "rx_block mem (?d2, ?w1) = Ok (?d2, w2)"
    using cf(3,6) fl(4) v s2 f(1) by (simp add: rx_block_def)
  have "1 < id_buflen d" using cf(2) by (simp add: word_less_nat_alt)
  then have "process_packet mem d w = Ok (?d2, count_in I_PKG_COUNTER 1 (count_in I_DATA_COUNTER (id_buflen d - 4) w2))"
    using port need ack blk by (simp add: process_packet_def)
  moreover have "w_ack w2 = (w_ack w)\<lparr>aw_sender := send_data ?ack (aw_sender (w_ack w))\<rparr>" using f(3) by simp
  ultimately show ?thesis using f c by (intro exI [of _ ?d2] exI [of _ "count_in I_PKG_COUNTER 1 (count_in I_DATA_COUNTER (id_buflen d - 4) w2)"]
        exI [of _ cons] exI [of _ rc]) simp
qed

text \<open>
  C5: a fragment reaches the other peer's cache and is acknowledged. When a datagram that the sending thread
  emitted for a fragment packet (alone or as second of a pair) is processed by a peer with room
  for one more finished block, the fragment is added to its cache as specified, the block is
  handed on exactly if that completes it, and one acknowledgement with the datagram's own sequence number and
  reception time is queued for the host it came from. Two conditions: the first byte of the port trailer is 0, as it is
  when no NAT port was set (with another byte the fragment is lost, see the section on the port trailer); and the fragment is safe, that is, its data is as long as it says and
  at most \<open>MTU\<close> bytes, its index is below the number of fragments it announces and, if the cache already holds its block, below
  the number of fragments of the block held (otherwise the code reads or writes outside its arrays, see \<open>Blockcache_Ops\<close>).
\<close>

theorem fragment_delivered_and_acknowledged:
  assumes "fragment_packet fd pkt" and "carries d (wire_of zz seq port pkt)" and "bytes_of_u16 port ! 0 = 0"
    and "cache_ok (w_cache w)" and "safe_fragment fd (w_cache w)"
    and "biter_ok (w_biter w)" and "length (biter_contents (w_biter w)) < 20"
  shows "\<exists>d' w' cons rc. process_packet mem d w = Ok (d', w') \<and> cache_ok (w_cache w') \<and>
    spec_addfragment fd (abs_cache (w_cache w)) = (rc, abs_cache (w_cache w')) \<and>
    aw_sender (w_ack w') = send_data ((make_ack (mem_send mem) seq cons (id_tv d))\<lparr>sd_to := id_from d\<rparr>) (aw_sender (w_ack w)) \<and>
    get_consecutives (get_fragment_id (id_buf d) (uint (sd_length pkt))) (w_cache w) = Ok (cons, w_cache w) \<and>
    biter_contents (w_biter w') = biter_contents (w_biter w) @
      (if rc = F_ADDED \<and> iscomplete (fd_streamid fd) (fd_blockid fd) (w_cache w') = Ok (True, w_cache w')
       then [Completed (fd_streamid fd) (fd_blockid fd)] else [])"
proof -
  have sel: "a = w\<lparr>aw_sender := s\<rparr> \<Longrightarrow> aw_sender a = s" for a w :: ack_world and s by simp
  show ?thesis using fragment_processed [OF assms(1-6), of mem] assms(7) sel by blast
qed

section \<open>An acknowledgement arrives\<close>

lemma ack_wire:
  assumes "wf_sd s" and "h = (make_ack s seq cons ts)\<lparr>sd_to := dest\<rparr>"
  shows "wire_of False n port h = take 13 (sd_data (make_ack s seq cons ts)) @ bytes_of_u16 port"
proof -
  have d: "sd_data h ! 0 = BLK_ACK" "length (sd_data h) = 1500" "unat (sd_length h) = 13"
    using assms by (simp_all add: make_ack_def encode_defs wf_sd_def SENDBUF_def mem_simps sizeof_defs)
  obtain x xs where x: "sd_data h = x # xs" using d(2) by (cases "sd_data h") auto
  then have "take 13 (sd_data h) = BLK_ACK # tl (take 13 (sd_data h))" using d(1) by simp
  moreover have "\<not> has BLK_ACK NEED_ACK" "BLK_ACK \<noteq> 0" by (simp_all add: has_def packet_defs)
  ultimately show ?thesis using d assms(2) by (simp add: wire_of_def Let_def)
qed

text \<open>What the datagram of an acknowledgement makes the processing thread do.\<close>

lemma ack_processed:
  fixes w :: world and h :: sockaddr_in
  assumes "wf_sd s" and "carries d (wire_of False n port ((make_ack s seq cons ts)\<lparr>sd_to := dest\<rparr>))" and "bytes_of_u16 port ! 0 = 0"
    and "peers_distinct (aw_nacks (w_ack w))" and "\<not> ack_list_held (aw_peers (w_ack w))" and "h = id_from d"
    and "\<forall>a \<in> set (outstanding (aw_nacks (w_ack w)) h). sd_to (a_d a) = h"
  defines "before \<equiv> outstanding (aw_nacks (w_ack w))"
  shows "\<exists>d' w' st. process_packet mem d w = Ok (d', w') \<and> w_cache w' = w_cache w \<and> w_biter w' = w_biter w \<and>
    peers_distinct st \<and> outstanding st = before(h := drop_first (\<lambda>b. a_seq b = seq) (before h)) \<and>
    (case List.find (\<lambda>a. a_seq a = seq) (before h) of
       Some a \<Rightarrow> ack_received a \<lparr>ar_flags = BLK_ACK, ar_seq = seq, ar_sec = word_of_int (tv_sec ts),
             ar_usec = word_of_int (tv_usec ts), ar_cons = cons\<rparr> (id_tv d) h ((w_ack w)\<lparr>aw_nacks := st\<rparr>) = Ok (1, w_ack w')
     | None \<Rightarrow> w_ack w' = (w_ack w)\<lparr>aw_nacks := st\<rparr> \<and> outstanding st = before \<and> w_est w' = w_est w \<and>
         w_stats_r w' = w_stats_r (count_in I_PKG_COUNTER 1 (count_in I_DATA_COUNTER 13 (count_in I_BAD_ACK_COUNTER 1
           (count_in I_GARBAGE 13 (count_in I_ACK_DATA_COUNTER 13 (count_in I_ACK_COUNTER 1 w)))))))"
proof -
  let ?data = "sd_data (make_ack s seq cons ts)" and ?buf = "id_buf d" and ?d1 = "d\<lparr>id_buflen := id_buflen d - 2\<rparr>"
  let ?ack = "\<lparr>ar_flags = BLK_ACK, ar_seq = seq, ar_sec = word_of_int (tv_sec ts), ar_usec = word_of_int (tv_usec ts), ar_cons = cons\<rparr>"
  have dl: "length ?data = 1500" "?data ! 0 = BLK_ACK" using assms(1) by (simp_all add: make_ack_def encode_defs wf_sd_def SENDBUF_def mem_simps)
  have c: "length ?buf = 1500" "unat (id_buflen d) = 15" "take 15 ?buf = take 13 ?data @ bytes_of_u16 port"
    using assms(2) dl ack_wire [OF assms(1) refl, of n port] by (simp_all add: carries_def BUFSIZE_def)
  have pre: "take 13 ?buf = take 13 ?data" using arg_cong [OF c(3), of "take 13"] dl by simp
  have b0: "?buf ! 0 = BLK_ACK" using pre dl(2) by (metis nth_take zero_less_numeral)
  have "drop 13 (take 15 ?buf) ! 0 = bytes_of_u16 port ! 0" unfolding c(3) using dl by simp
  then have b13: "?buf ! 13 = 0" using assms(3) c(1) by simp
  have "unat (id_buflen d - 2) = unat (13 :: u64)" using c(2) by (simp add: unat_minus_2)
  then have len: "id_buflen d - 2 = 13" by (simp only: word_unat_eq_iff)
  have dec: "decode_ack ?buf 13 = Some ?ack" using decode_ack_prefix [OF pre] decode_make_ack [OF assms(1)] by simp
  have fl: "\<not> has BLK_ACK NEED_ACK" "has BLK_ACK BLK_ACK" "\<not> has BLK_ACK BW_MSG" "\<not> has BLK_ACK BLK_BLOCK" "BLK_ACK \<noteq> 0"
    by (simp_all add: has_def packet_defs)
  have big: "1 < id_buflen d" using c(2) by (simp add: word_less_nat_alt)
  have port: "rx_port (d, w) = Ok (?d1, w)" using b0 b13 c(1) len fl(5) by (simp add: rx_port_def Let_def)
  let ?w1 = "count_in I_ACK_DATA_COUNTER 13 (count_in I_ACK_COUNTER 1 w)" and ?st = "aw_nacks (w_ack w)"
  obtain st' where pop: "pop_ack seq h ?st = (List.find (\<lambda>a. a_seq a = seq) (outstanding ?st h), st')" "peers_distinct st'"
    "outstanding st' = (outstanding ?st)(h := drop_first (\<lambda>a. a_seq a = seq) (outstanding ?st h))"
    using pop_ack_outstanding [OF assms(4), of seq h] by blast
  have v: "validate_ack ?buf 13" using b0 by (simp add: validate_ack_def sizeof_defs)
  let ?fin = "\<lambda>w2. count_in I_PKG_COUNTER 1 (count_in I_DATA_COUNTER (id_buflen d - 2) w2)"
  have pp: "process_packet mem d w = Ok (?d1, ?fin w2)" if "rx_ack (?d1, w) = Ok (?d1, w2)" for w2
    using that port big b0 fl by (simp add: process_packet_def rx_need_ack_def rx_bw_def rx_block_def)
  show ?thesis
  proof (cases "List.find (\<lambda>a. a_seq a = seq) (outstanding ?st h)")
    case None
    then have o: "outstanding st' = outstanding ?st" using pop(3) drop_first_None find_ix_find [of "outstanding ?st h"] by (metis fun_upd_triv option.map_disc_iff)
    let ?w2 = "count_in I_BAD_ACK_COUNTER 1 (count_in I_GARBAGE 13 (?w1\<lparr>w_ack := (w_ack w)\<lparr>aw_nacks := st'\<rparr>\<rparr>))"
    have "rx_ack (?d1, w) = Ok (?d1, ?w2)" using b0 fl v dec pop(1) None len assms(6) by (simp add: rx_ack_def Let_def)
    from pp [OF this] show ?thesis using o None pop(2,3) unfolding before_def
      by (intro exI [of _ ?d1] exI [of _ "?fin ?w2"] exI [of _ st']) (simp add: count_in_def len)
  next
    case (Some a)
    have "a \<in> set (outstanding ?st h)" using Some by (auto simp: find_Some_iff)
    then have to: "h = sd_to (a_d a)" using assms(7) by simp
    have p2: "peers_distinct (aw_nacks ((w_ack w)\<lparr>aw_nacks := st'\<rparr>))" "\<not> ack_list_held (aw_peers ((w_ack w)\<lparr>aw_nacks := st'\<rparr>))"
      using pop(2) assms(5) by simp_all
    obtain aw where aw: "ack_received a ?ack (id_tv d) h ((w_ack w)\<lparr>aw_nacks := st'\<rparr>) = Ok (1, aw)"
      using ack_received_settles [OF p2(2,1) to, of ?ack "id_tv d" h] by auto
    have "rx_ack (?d1, w) = Ok (?d1, ?w1\<lparr>w_ack := aw\<rparr>)"
      using b0 fl v dec pop(1) Some len assms(6) aw(1) by (simp add: rx_ack_def Let_def)
    from pp [OF this] show ?thesis using aw Some pop(2,3) unfolding before_def
      by (intro exI [of _ ?d1] exI [of _ "?fin (?w1\<lparr>w_ack := aw\<rparr>)"] exI [of _ st']) simp
  qed
qed

text \<open>
  C16: an acknowledgement settles the packet it answers. When the datagram of an acknowledgement for sequence
  number \<open>seq\<close> arrives from a host to which a packet with that number is outstanding (and no one holds the
  statistics, and the first byte of the port trailer is 0, as it is when no NAT port was set), the packet is taken off the list and handed to
  the statistics with the counter and time of the acknowledgement; afterwards neither it nor any packet sent to that host before it is
  outstanding. An acknowledgement that answers nothing changes none of the outstanding packets, queues, statistics of peers, cookies, blocks and
  finished blocks: besides the counters of every packet and acknowledgement, it is counted as a bad one and its 13 bytes as garbage.
\<close>

theorem acknowledgement_settles_packet:
  assumes "wf_sd s" and "carries d (wire_of False n port ((make_ack s seq cons ts)\<lparr>sd_to := dest\<rparr>))" and "bytes_of_u16 port ! 0 = 0"
    and "peers_distinct (aw_nacks (w_ack w))" and "\<not> ack_list_held (aw_peers (w_ack w))" and "h = id_from d"
    and "\<forall>a \<in> set (outstanding (aw_nacks (w_ack w)) h). sd_to (a_d a) = h"
  shows "\<exists>d' w'. process_packet mem d w = Ok (d', w') \<and> w_cache w' = w_cache w \<and> w_biter w' = w_biter w \<and>
    (case List.find (\<lambda>a. a_seq a = seq) (outstanding (aw_nacks (w_ack w)) h) of
       Some a \<Rightarrow> outstanding (aw_nacks (w_ack w')) = (outstanding (aw_nacks (w_ack w)))
           (h := filter (\<lambda>b. a_sendtime a \<le> a_sendtime b) (drop_first (\<lambda>b. a_seq b = seq) (outstanding (aw_nacks (w_ack w)) h))) \<and>
         (\<exists>ns. ack_received a \<lparr>ar_flags = BLK_ACK, ar_seq = seq, ar_sec = word_of_int (tv_sec ts),
             ar_usec = word_of_int (tv_usec ts), ar_cons = cons\<rparr> (id_tv d) h ((w_ack w)\<lparr>aw_nacks := ns\<rparr>) = Ok (1, w_ack w'))
     | None \<Rightarrow> outstanding (aw_nacks (w_ack w')) = outstanding (aw_nacks (w_ack w)) \<and> aw_sender (w_ack w') = aw_sender (w_ack w) \<and>
         aw_peers (w_ack w') = aw_peers (w_ack w) \<and> aw_cookies (w_ack w') = aw_cookies (w_ack w) \<and> w_est w' = w_est w \<and>
         (length (w_stats_r w) = NUM_STAT_R \<longrightarrow>
            w_stats_r w' ! I_BAD_ACK_COUNTER = w_stats_r w ! I_BAD_ACK_COUNTER + 1 \<and>
            w_stats_r w' ! I_GARBAGE = w_stats_r w ! I_GARBAGE + 13 \<and>
            w_stats_r w' ! I_ACK_COUNTER = w_stats_r w ! I_ACK_COUNTER + 1 \<and>
            w_stats_r w' ! I_ACK_DATA_COUNTER = w_stats_r w ! I_ACK_DATA_COUNTER + 13 \<and>
            w_stats_r w' ! I_PKG_COUNTER = w_stats_r w ! I_PKG_COUNTER + 1 \<and>
            w_stats_r w' ! I_DATA_COUNTER = w_stats_r w ! I_DATA_COUNTER + 13 \<and>
            w_stats_r w' ! I_DUPE_COUNTER = w_stats_r w ! I_DUPE_COUNTER \<and>
            w_stats_r w' ! I_DUPE_DATA_COUNTER = w_stats_r w ! I_DUPE_DATA_COUNTER))"
proof -
  let ?o = "outstanding (aw_nacks (w_ack w))" and ?ack = "\<lparr>ar_flags = BLK_ACK, ar_seq = seq, ar_sec = word_of_int (tv_sec ts),
      ar_usec = word_of_int (tv_usec ts), ar_cons = cons\<rparr>"
  obtain d' w' st where p: "process_packet mem d w = Ok (d', w')" "w_cache w' = w_cache w" "w_biter w' = w_biter w" "peers_distinct st"
    "outstanding st = ?o(h := drop_first (\<lambda>b. a_seq b = seq) (?o h))"
    "case List.find (\<lambda>a. a_seq a = seq) (?o h) of Some a \<Rightarrow> ack_received a ?ack (id_tv d) h ((w_ack w)\<lparr>aw_nacks := st\<rparr>) = Ok (1, w_ack w')
     | None \<Rightarrow> w_ack w' = (w_ack w)\<lparr>aw_nacks := st\<rparr> \<and> outstanding st = ?o \<and> w_est w' = w_est w \<and>
         w_stats_r w' = w_stats_r (count_in I_PKG_COUNTER 1 (count_in I_DATA_COUNTER 13 (count_in I_BAD_ACK_COUNTER 1
           (count_in I_GARBAGE 13 (count_in I_ACK_DATA_COUNTER 13 (count_in I_ACK_COUNTER 1 w))))))"
    using ack_processed [OF assms, of mem] by blast
  show ?thesis
  proof (cases "List.find (\<lambda>a. a_seq a = seq) (?o h)")
    case None
    then show ?thesis using p by (auto simp: count_in_def bump_def in_stat_defs)
  next
    case (Some a)
    then have "h = sd_to (a_d a)" using assms(7) by (auto simp: find_Some_iff)
    then have "outstanding (aw_nacks (w_ack w')) = ?o(h := filter (\<lambda>b. a_sendtime a \<le> a_sendtime b) (drop_first (\<lambda>b. a_seq b = seq) (?o h)))"
      using ack_received_settles [of "(w_ack w)\<lparr>aw_nacks := st\<rparr>" h a ?ack "id_tv d" h] p(4-6) assms(5) Some by auto
    then show ?thesis using p Some by auto
  qed
qed

section \<open>The port trailer\<close>

text \<open>
  C38: a fragment from a peer that announces its port is lost. If the first byte of the port trailer is not 0, the
  receiver cuts the trailer twice, the length check fails, and the datagram is counted as garbage: it is not acknowledged, the
  cache, the outstanding packets and the finished blocks stay as they were.
\<close>

theorem announced_port_loses_fragment:
  assumes "fragment_packet fd pkt" and "carries d (wire_of zz seq port pkt)" and "bytes_of_u16 port ! 0 \<noteq> 0"
    and "length (w_stats_r w) = NUM_STAT_R"
  shows "\<exists>d' w'. process_packet mem d w = Ok (d', w') \<and> w_cache w' = w_cache w \<and> w_ack w' = w_ack w \<and>
    w_biter w' = w_biter w \<and> w_est w' = w_est w \<and>
    w_stats_r w' ! I_GARBAGE = w_stats_r w ! I_GARBAGE + ucast (sd_length pkt)"
proof -
  let ?n = "unat (sd_length pkt)" and ?buf = "id_buf d"
  note cf = carried_fields [OF assms(1,2)] and ws = wire_shape(1,2) [OF assms(1)] and fl = wire_flags_props [OF assms(1), of zz]
  define d1 where "d1 = d\<lparr>id_buflen := id_buflen d - 4, id_from := (id_from d)\<lparr>sin_port := ucast (bytes_of_u16 port ! 0)\<rparr>\<rparr>"
  have port: "rx_port (d, w) = Ok (d1, w)" using rx_port_data [OF assms(1,2)] assms(3) by (simp add: d1_def)
  have n1: "unat (id_buflen d - 2) = ?n + 2" using cf(2) by (simp add: unat_minus_2)
  have n2: "unat (id_buflen d - 4) = ?n" using n1 unat_minus_2 [of "id_buflen d - 2"] by simp
  have n3: "unat (id_buflen d - 4 - 2) = ?n - 2" using n2 ws(1) unat_minus_2 [of "id_buflen d - 4"] by simp
  have u: "id_buflen d - 4 = ucast (sd_length pkt)" using n2 by (simp add: word_unat_eq_iff unsigned_ucast_eq take_bit_nat_eq_self)
  have "int ?n = 13 + uint (ntohs (ld16 ?buf 11))"
    using decode_fragment_Some(1,4) [OF cf(6)] by (simp add: FragmentHeader_at_def)
  moreover have "uint (id_buflen d - 4 - 2) = int (?n - 2)" using n3 by (simp add: uint_nat del: of_nat_unat)
  ultimately have "uint (id_buflen d - 4 - 2) \<noteq> 13 + uint (ntohs (ld16 ?buf 11))" using ws(1) by linarith
  moreover have "?buf ! 0 \<noteq> NEED_ACK OR COOKIE_MSG" using cf(3) fl(2) by (auto simp: block_flags_def packet_defs)
  ultimately have bad: "\<not> validate_block ?buf (id_buflen d - 4 - 2)" by (simp add: validate_block_iff)
  have need: "rx_need_ack mem (d1, w) = Ok (garbage d1 w)"
    using cf(3) fl(3) bad by (simp add: rx_need_ack_def ACKSIZE_def d1_def)
  let ?d2 = "set_flag 0 d1" and ?w2 = "count_in I_GARBAGE (id_buflen d - 4) w"
  have g: "garbage d1 w = (?d2, ?w2)" by (simp add: garbage_def d1_def)
  have z: "id_buf ?d2 ! 0 = 0" using cf(1) by (simp add: set_flag_def d1_def)
  have rest: "rx_ack (?d2, ?w2) = Ok (?d2, ?w2)" "rx_bw (?d2, ?w2) = Ok (?d2, ?w2)" "rx_block mem (?d2, ?w2) = Ok (?d2, ?w2)"
    using z by (simp_all add: rx_ack_def rx_bw_def rx_block_def has_def)
  have "1 < id_buflen d" using cf(2) by (simp add: word_less_nat_alt)
  then have "process_packet mem d w = Ok (?d2, count_in I_PKG_COUNTER 1 (count_in I_DATA_COUNTER (id_buflen ?d2) ?w2))"
    using port need g rest by (simp add: process_packet_def)
  moreover have "w_stats_r (count_in I_PKG_COUNTER 1 (count_in I_DATA_COUNTER x ?w2)) ! I_GARBAGE =
      w_stats_r w ! I_GARBAGE + ucast (sd_length pkt)" for x
    using assms(4) u by (simp add: count_in_def bump_def in_stat_defs)
  ultimately show ?thesis by simp
qed

section \<open>Raw messages\<close>

lemma raw_delivered:
  assumes "carries d (wire_of False n port m)" and "fits m" and "sd_data m ! 0 = BLK_EMPTY" and "biter_ok (w_biter w)"
    and "length (biter_contents (w_biter w)) < 20"
  shows "take (unat (id_buflen d)) (id_buf d) = take (unat (sd_length m)) (sd_data m)"
    and "unat (id_buflen d) = unat (sd_length m)"
    and "\<exists>d' w'. process_packet mem d w = Ok (d', w') \<and> w_ack w' = w_ack w \<and> w_cache w' = w_cache w \<and> biter_ok (w_biter w') \<and>
      biter_contents (w_biter w') = biter_contents (w_biter w) @ (if 3 < unat (sd_length m) then [Raw d] else [])"
proof -
  let ?l = "unat (sd_length m)"
  have m: "length (sd_data m) = 1500" "1 \<le> ?l" "?l \<le> 1496" using assms(2) by (simp_all add: fits_def wf_sd_def SENDBUF_def)
  obtain k where k: "?l = Suc k" using m(2) by (cases ?l) auto
  obtain x xs where x: "sd_data m = x # xs" using m(1) by (cases "sd_data m") auto
  have w: "wire_of False n port m = take ?l (sd_data m)"
    using assms(3) x k by (simp add: wire_of_def has_def BLK_EMPTY_def)
  then have b: "length (id_buf d) = 1500" "unat (id_buflen d) = ?l" "take ?l (id_buf d) = take ?l (sd_data m)"
    using assms(1) m by (simp_all add: carries_def BUFSIZE_def)
  then show "take (unat (id_buflen d)) (id_buf d) = take ?l (sd_data m)" "unat (id_buflen d) = ?l" by simp_all
  have "id_buf d ! 0 = take ?l (id_buf d) ! 0" using m(2) by simp
  then have z: "id_buf d ! 0 = 0" unfolding b(3) using m(2) assms(3) by (simp add: BLK_EMPTY_def)
  have rest: "rx_need_ack mem (d, v) = Ok (d, v)" "rx_ack (d, v) = Ok (d, v)" "rx_bw (d, v) = Ok (d, v)" "rx_block mem (d, v) = Ok (d, v)" for v
    using z by (simp_all add: rx_need_ack_def rx_ack_def rx_bw_def rx_block_def has_def)
  have full: "s_biter_full (w_biter w) = length (biter_contents (w_biter w))" using biter.fill_contents [OF assms(4)] by simp
  have p: "biter_ok (biter_put (w_biter w) (Raw d))" "biter_contents (biter_put (w_biter w) (Raw d)) = biter_contents (w_biter w) @ [Raw d]"
    using biter.invar_put [OF assms(4), of "Raw d"] biter.contents_put [OF assms(4), of "Raw d"] full assms(5) by (simp_all add: N_BITER_def)
  have "block_completed (- 1) (- 1) (Some d) (w_biter w) = Ok (biter_put (w_biter w) (Raw d))"
    using assms(4,5) full by (simp add: block_completed_def biter_ok_def N_BITER_def)
  then have port: "rx_port (d, w) = Ok (d, if 3 < ?l then w\<lparr>w_biter := biter_put (w_biter w) (Raw d)\<rparr> else w)"
    using z b(2) by (simp add: rx_port_def word_less_nat_alt)
  show "\<exists>d' w'. process_packet mem d w = Ok (d', w') \<and> w_ack w' = w_ack w \<and> w_cache w' = w_cache w \<and> biter_ok (w_biter w') \<and>
      biter_contents (w_biter w') = biter_contents (w_biter w) @ (if 3 < ?l then [Raw d] else [])"
    using port rest p assms(4) by (cases "1 < id_buflen d") (auto simp: process_packet_def word_less_nat_alt b(2))
qed

end
