(* ===== verification/Scenarios.thy ===== *)
theory Scenarios
  imports Handshake
begin

text \<open>
  Concrete situations: a small exchange between two peers, on which the hypotheses of the
  properties hold. A block of 1500 bytes is split into a fragment of 1400 and one of 100 bytes;
  the two packets wait, are sent, acknowledged late or out of order, and are received. Every
  property with hypotheses is applied here to such a situation.
\<close>

section \<open>The situation\<close>

definition alice :: sockaddr_in where
  "alice = \<lparr>sin_family = 2, sin_port = 0x1f90, sin_addr = 0x0100007f, sin_zero = 0\<rparr>"

definition bob :: sockaddr_in where
  "bob = \<lparr>sin_family = 2, sin_port = 0x1f91, sin_addr = 0x0200007f, sin_zero = 0\<rparr>"

lemma peers_differ [simp]: "alice \<noteq> bob" "bob \<noteq> alice"
  by (simp_all add: alice_def bob_def)

definition bytes1500 :: "u8 list" where
  "bytes1500 = replicate 1500 7"

definition frag :: "nat \<Rightarrow> FragmentData" where
  "frag i = piece 1 7 bytes1500 i"

lemma sendable_bytes1500 [simp]: "sendable bytes1500"
  by (simp add: sendable_def bytes1500_def)

lemma two_fragments [simp]: "num_frags bytes1500 = 2" "last_len bytes1500 = 100"
  by (simp_all add: num_frags_def last_len_def bytes1500_def calcfragments_def MTU_def Let_def)

lemma frag_fields:
  assumes "i < 2"
  shows "unat (fd_fragmentid (frag i)) = i" "unat (fd_fragments (frag i)) = 2"
    "unat (fd_length (frag i)) = (if i = 1 then 100 else 1400)" "length (fd_data (frag i)) = unat (fd_length (frag i))"
    "fd_streamid (frag i) = 1" "fd_blockid (frag i) = 7"
  using piece_fields [OF sendable_bytes1500, of i 1 7] assms
  by (simp_all add: frag_def MTU_def) (simp_all add: piece_def Let_def)

lemma wf_zero_SendData [simp]: "wf_sd zero_SendData"
  by (simp add: wf_sd_def zero_SendData_def)

text \<open>The packets that \<open>sendblock\<close> builds for the two fragments.\<close>

definition encoded :: "nat \<Rightarrow> SendData" where
  "encoded i = (case encode_fragment zero_SendData (frag i) of Ok d \<Rightarrow> d | Err _ \<Rightarrow> zero_SendData)"

definition packet :: "nat \<Rightarrow> SendData" where
  "packet i = (encoded i)\<lparr>sd_to := bob, sd_data := (sd_data (encoded i))[0 := BLK_BLOCK_ACK]\<rparr>"

lemma encoded_Ok: "i < 2 \<Longrightarrow> encode_fragment zero_SendData (frag i) = Ok (encoded i)"
  using block_packet_encoded [OF wf_zero_SendData, of "frag i" bob] frag_fields [of i]
  by (auto simp: encoded_def MTU_def split: if_splits)

lemma packet_props:
  assumes "i < 2"
  shows "wf_sd (packet i)" "class_of (packet i) = Data" "sd_to (packet i) = bob" "sd_data (packet i) ! 0 = BLK_BLOCK_ACK"
    "decode_fragment (sd_data (packet i)) (uint (sd_length (packet i))) = Ok (Some (frag i))"
    "unat (sd_length (packet i)) = (if i = 1 then 113 else 1413)"
    "block_packet zero_SendData (frag i) bob (packet i)"
proof -
  note fr = frag_fields [OF assms]
  have "block_packet zero_SendData (frag i) bob (packet i)"
    using block_packet_encoded [OF wf_zero_SendData, of "frag i" bob] fr encoded_Ok [OF assms]
    by (auto simp: packet_def MTU_def split: if_splits)
  moreover have "take (unat (fd_length (frag i))) (fd_data (frag i)) = fd_data (frag i)" using fr(4) by simp
  ultimately show "wf_sd (packet i)" "class_of (packet i) = Data" "sd_to (packet i) = bob" "sd_data (packet i) ! 0 = BLK_BLOCK_ACK"
    "decode_fragment (sd_data (packet i)) (uint (sd_length (packet i))) = Ok (Some (frag i))"
    "block_packet zero_SendData (frag i) bob (packet i)"
    by (simp_all add: block_packet_def)
  have "sd_length (packet i) = 13 + ucast (fd_length (frag i))"
    using encode_fragment_fields(3) [OF wf_zero_SendData encoded_Ok [OF assms]] by (simp add: packet_def)
  then have "uint (sd_length (packet i)) = 13 + uint (fd_length (frag i))" by simp
  then show "unat (sd_length (packet i)) = (if i = 1 then 113 else 1413)"
    using fr(3) by (simp add: uint_nat del: of_nat_unat split: if_splits)
qed

lemma packet_fits: "i < 2 \<Longrightarrow> fits (packet i)"
  using packet_props(1,6) [of i] by (simp add: fits_def)

lemma block_ack_flags [simp]:
  "has BLK_BLOCK_ACK NEED_ACK" "\<not> has BLK_BLOCK_ACK BLK_ACK" "\<not> has BLK_BLOCK_ACK BW_MSG" "block_flags BLK_BLOCK_ACK"
  "has BLK_BLOCK BLK_BLOCK"
  by (simp_all add: has_def packet_defs block_flags_def)

text \<open>Alice's sending side at the start, and after both packets were put in the data queue.\<close>

definition sender0 :: sender where
  "sender0 = init_sender static_sender"

definition sender2 :: sender where
  "sender2 = send_data (packet 1) (send_data (packet 0) sender0)"

definition world0 :: ack_world where
  "world0 = \<lparr>aw_peers = static_peer_stats, aw_nacks = static_nacks, aw_sender = sender0,
             aw_cookies = init_cksender static_cookies\<rparr>"

definition env0 :: send_env where
  "env0 = \<lparr>t_start = Timeval 5 0, t_end = Timeval 5 10, sendto_ok = True\<rparr>"

lemma sender0_ok: "sender_ok sender0"
  by (simp add: sender0_def sender_ok_init)

lemma sender0_fields [simp]:
  "queue_of c sender0 = []" "qEmpty sender0 = 6000" "sFull sender0 = 0" "bandwidth sender0 = 1000000" "\<not> z sender0"
  "lasthost sender0 = None" "natPort sender0 = 0" "sleeptime sender0 = 1500"
  by (cases c; simp add: sender0_def init_sender_def static_sender_def N_SEND_def)+

lemma sender2_ok: "sender_ok sender2"
  by (simp add: sender2_def sender_ok_send_data sender0_ok packet_props)

lemma sender2_view:
  "tx_abs sender2 = \<lparr>tx_queue = (\<lambda>c. if c = Data then [packet 0, packet 1] else []), tx_tokens = 2, tx_slots = 5998\<rparr>"
proof -
  have r: "rings_ok sender0" "rings_ok (send_data (packet 0) sender0)"
    using sender0_ok sender_ok_send_data [OF sender0_ok packet_props(1), of 0] by (simp_all add: sender_ok_def)
  have "tx_abs sender0 = \<lparr>tx_queue = (\<lambda>c. []), tx_tokens = 0, tx_slots = 6000\<rparr>" by (simp add: tx_abs_def)
  then show ?thesis
    by (simp add: sender2_def send_data_refines [OF r(1)] send_data_refines [OF r(2)] spec_send_def packet_props fun_eq_iff)
qed

lemma sender2_fields [simp]:
  "queue_of Data sender2 = [packet 0, packet 1]" "queue_of Prio sender2 = []" "queue_of Retr sender2 = []"
  "sFull sender2 = 2" "qEmpty sender2 = 5998" "bandwidth sender2 = 1000000" "\<not> z sender2" "natPort sender2 = 0"
  "lasthost sender2 = None" "sleeptime sender2 = 1500"
proof -
  have "(\<lambda>c. queue_of c sender2) = (\<lambda>c. if c = Data then [packet 0, packet 1] else [])"
    "sFull sender2 = 2" "qEmpty sender2 = 5998" using sender2_view by (simp_all add: tx_abs_def)
  then show "queue_of Data sender2 = [packet 0, packet 1]" "queue_of Prio sender2 = []" "queue_of Retr sender2 = []"
    "sFull sender2 = 2" "qEmpty sender2 = 5998" by (simp_all add: fun_eq_iff)
qed (simp_all add: sender2_def)

section \<open>Times and packet formats\<close>

theorem fragment_roundtrip_witness:
  "decode_fragment ((sd_data (encoded 0))[0 := BLK_BLOCK_ACK]) (uint (sd_length (encoded 0))) = Ok (Some (frag 0))"
proof -
  have f: "has BLK_BLOCK_ACK BLK_BLOCK" by (simp add: has_def packet_defs)
  have "take (unat (fd_length (frag 0))) (fd_data (frag 0)) = fd_data (frag 0)" using frag_fields(4) [of 0] by simp
  then show ?thesis using fragment_roundtrip [OF wf_zero_SendData encoded_Ok f, of 0] by simp
qed

theorem validation_sound_and_exclusive_witness:
  "validate_block ((sd_data (encoded 1))[0 := BLK_BLOCK_ACK OR BLOCK_CONSECUTIVE]) (ucast (sd_length (encoded 1))) \<and>
   \<not> (validate_ack (replicate 13 2) 13 \<and> validate_block (replicate 13 2) 13)"
  using validation_sound_and_exclusive [OF wf_zero_SendData encoded_Ok, of 1 "BLK_BLOCK_ACK OR BLOCK_CONSECUTIVE"
      "replicate 13 2" 13] by simp

theorem ack_roundtrip_witness:
  "\<exists>a. decode_ack (sd_data (make_ack zero_SendData 77 3 (Timeval 5 10))) 13 = Some a \<and> ar_seq a = 77 \<and> ar_cons a = 3 \<and>
     sint (ar_sec a) = 5 \<and> sint (ar_usec a) = 10"
  using ack_roundtrip [OF wf_zero_SendData, of 77 3 "Timeval 5 10"] by (auto simp: signed_take_bit_int_eq_self)

section \<open>Queues and the block cache\<close>

theorem send_data_refinement_witness:
  "tx_abs (send_data (packet 0) sender0) = spec_send (packet 0) (tx_abs sender0) \<and> sender_ok (send_data (packet 0) sender0)"
  using send_data_refinement [OF sender0_ok packet_props(1), of 0] by simp

lemma empty_cache_ok [simp]: "cache_ok []"
  by (simp add: cache_ok_def)

definition cache1 :: bcache where
  "cache1 = [whole_block 1 7 bytes1500]"

lemma addblock_cache1: "addblock 1 7 \<lparr>bd_data = bytes1500, bd_length = of_nat (length bytes1500)\<rparr> [] = Ok (1, cache1)"
  using addblock_absent [OF empty_cache_ok _ sendable_bytes1500, of 1 7] by (simp add: cache1_def)

definition delivered :: "nat list \<Rightarrow> delivery list" where
  "delivered is = map (\<lambda>i. \<lparr>dl_mem = \<lparr>mem_lastlen = 0, mem_f = (\<lambda>_. \<lparr>bf_have = 0, bf_host = zero_addr, bf_ts = zero_time\<rparr>)\<rparr>,
     dl_frag = frag i, dl_host = alice, dl_ts = Timeval 6 0\<rparr>) is"

theorem reassembly_witness:
  "\<exists>bc'. add_all (delivered [0, 1]) [] = Ok ([F_ADDED, F_ADDED], bc') \<and> iscomplete 1 7 bc' = Ok (True, bc') \<and>
     get_block_data 1 7 bc' = Ok (Some \<lparr>bd_data = bytes1500, bd_length = 1500\<rparr>, bc')"
proof -
  have a: "arrives 1 7 bytes1500 [0, 1] (delivered [0, 1])" by (simp add: arrives_def delivered_def frag_def)
  have s: "set [0, 1 :: nat] = {..<num_frags bytes1500}" by auto
  have r: "replicate (num_frags bytes1500) F_ADDED = [F_ADDED, F_ADDED]" "of_nat (length bytes1500) = (1500 :: u32)"
    by (simp add: numeral_2_eq_2) (simp add: bytes1500_def)
  show ?thesis using reassembly [OF sendable_bytes1500 empty_cache_ok _ a _ s, unfolded r] by simp blast
qed

section \<open>Outstanding packets\<close>

definition unacked :: "nat \<Rightarrow> Ack" where
  "unacked i = \<lparr>a_seq = of_nat i + 1, a_sendtime = Timeval 5 (int i), a_sleeptime = 0, a_d = packet i\<rparr>"

text \<open>Both packets were sent to Bob; the second one left later and heads the list.\<close>

definition nacks2 :: nack_state where
  "nacks2 = \<lparr>nacklist = [\<lparr>np_addr = bob, np_nacks = [unacked 1, unacked 0]\<rparr>], seq_num = 2\<rparr>"

lemma nacks2_distinct [simp]: "peers_distinct nacks2"
  by (simp add: nacks2_def peers_distinct_def)

lemma nacks2_outstanding [simp]: "outstanding nacks2 bob = [unacked 1, unacked 0]"
  by (simp add: outstanding_def nacks2_def nack_find_by_host_def)

lemma nacks2_outstanding_other [simp]: "h \<noteq> bob \<Longrightarrow> outstanding nacks2 h = []"
  by (simp add: outstanding_def nacks2_def nack_find_by_host_def)

lemma unacked_fields [simp]:
  "a_d (unacked i) = packet i" "a_sendtime (unacked i) = Timeval 5 (int i)" "a_seq (unacked i) = of_nat i + 1"
  by (simp_all add: unacked_def)

lemma sd_to_packet [simp]: "sd_to (packet i) = bob"
  by (simp add: packet_def)

lemma less_usec [simp]: "Timeval s a < Timeval s b \<longleftrightarrow> a < b" "Timeval s a \<le> Timeval s b \<longleftrightarrow> a \<le> b"
  by (simp_all add: less_timeval_def less_eq_timeval_def)

lemma static_nacks_distinct [simp]: "peers_distinct static_nacks"
  by (simp add: static_nacks_def peers_distinct_def)

lemma resendable_unacked: "i < 2 \<Longrightarrow> resendable (unacked i)"
  by (simp add: resendable_def packet_props)

lemma overtaken_packets_resent_example:
  "\<exists>st' s'. resend_ooo_nacks (unacked 1) sender0 nacks2 = ((1, st'), s') \<and> queue_of Retr s' = [mark_resend (packet 0)] \<and>
     queue_of Data s' = [] \<and> outstanding st' bob = [unacked 1]"
proof -
  have late: "[unacked 0] = filter (\<lambda>a. a_sendtime a < a_sendtime (unacked 1)) (outstanding nacks2 (sd_to (a_d (unacked 1))))"
    by simp
  show ?thesis
    using overtaken_packets_resent [OF nacks2_distinct sender0_ok late] resendable_unacked [of 0] by auto
qed

theorem lost_acks_settled_witness:
  "\<exists>st'. remove_lost_acks (unacked 1) 1 nacks2 = (0, st') \<and> unacked 0 \<notin> set (outstanding st' bob) \<and>
     unacked 1 \<in> set (outstanding st' bob)"
proof -
  have d: "decode_fragment (sd_data (a_d (unacked 1))) (uint (sd_length (a_d (unacked 1)))) = Ok (Some (frag 1))"
    "decode_fragment (sd_data (packet 0)) (uint (sd_length (packet 0))) = Ok (Some (frag 0))"
    using packet_props(5) [of 1] packet_props(5) [of 0] by simp_all
  then have "\<forall>a \<in> set (outstanding nacks2 (sd_to (a_d (unacked 1)))).
      (\<exists>fd. decode_fragment (sd_data (a_d a)) (uint (sd_length (a_d a))) = Ok (Some fd)) \<or>
      \<not> has (sd_data (a_d a) ! 0) BLK_BLOCK"
    by auto
  from lost_acks_settled [OF nacks2_distinct d(1) this, of 1]
  obtain st' where st': "remove_lost_acks (unacked 1) 1 nacks2 = (0, st')"
    "\<And>a. a \<in> set (outstanding st' bob) \<longleftrightarrow> a \<in> set (outstanding nacks2 bob) \<and>
      \<not> (a_sendtime a < a_sendtime (unacked 1) \<and>
         ((\<exists>f k. decode_fragment (sd_data (a_d a)) (uint (sd_length (a_d a))) = Ok (Some f) \<and>
            fd_streamid f = fd_streamid (frag 1) \<and> fd_blockid f = fd_blockid (frag 1) \<and>
            1 \<le> k \<and> k \<le> unat (1 :: u16) \<and> unat (fd_fragmentid f) + k = unat (fd_fragmentid (frag 1))) \<or>
          (\<not> has (sd_data (a_d a) ! 0) BLK_BLOCK \<and> fd_streamid (frag 1) = 0 \<and> fd_blockid (frag 1) = 0 \<and>
            1 \<le> unat (fd_fragmentid (frag 1)) \<and> unat (fd_fragmentid (frag 1)) \<le> unat (1 :: u16))))" by auto
  have "unacked 0 \<notin> set (outstanding st' bob)" "unacked 1 \<in> set (outstanding st' bob)"
    unfolding st'(2) using d(2) frag_fields [of 0] frag_fields [of 1] by auto
  then show ?thesis using st'(1) by blast
qed

text \<open>
  Nothing is known of Bob yet, so his timeout is 0 and both packets are overdue one second later
  and wait again.
\<close>

theorem timeout_sweep_witness:
  "\<exists>late st' s'. resend_timeout_nacks (Timeval 6 0) [] sender0 nacks2 = Ok ((2, st'), s') \<and> length late = 2 \<and>
    set late = {unacked 0, unacked 1} \<and> outstanding st' bob = [] \<and>
    queue_of Retr s' = map (\<lambda>a. (a_d a)\<lparr>sd_data := (sd_data (a_d a))[0 :=
      ((sd_data (a_d a) ! 0) AND BLOCK_MASK_CONSECUTIVE) OR BLOCK_RETRANSMISSION]\<rparr>) late"
proof -
  have t: "\<forall>p \<in> set (nacklist nacks2). get_timeout_value (np_addr p) [] = Ok ((\<lambda>_. 0) (np_addr p))"
    by (simp add: get_timeout_value_def find_peer_by_host_def)
  have o: "(usecs (a_sendtime (unacked i)) + uint (0 :: u64)) mod 2 ^ 64 < usecs (Timeval 6 0) mod 2 ^ 64" if "i < 2" for i
    using that by (cases "i = 0") (auto simp: usecs_def)
  have out: "outstanding nacks2 h = (if h = bob then [unacked 1, unacked 0] else [])" for h by simp
  have r: "\<forall>h. list_all resendable (outstanding nacks2 h)" by (simp add: out resendable_unacked)
  define again :: "Ack \<Rightarrow> SendData" where "again = (\<lambda>a. (a_d a)\<lparr>sd_data := (sd_data (a_d a))[0 :=
      ((sd_data (a_d a) ! 0) AND BLOCK_MASK_CONSECUTIVE) OR BLOCK_RETRANSMISSION]\<rparr>)"
  from timeout_sweep [OF nacks2_distinct t, of "Timeval 6 0" sender0, folded again_def, unfolded Let_def]
  obtain late st' s' where c: "resend_timeout_nacks (Timeval 6 0) [] sender0 nacks2 = Ok ((int (length late), st'), s')"
    "set late = (\<Union>h. {a \<in> set (outstanding nacks2 h). (usecs (a_sendtime a) + uint (0 :: u64)) mod 2 ^ 64 < usecs (Timeval 6 0) mod 2 ^ 64})"
    "int (length late) = get_n_nack nacks2 - get_n_nack st'"
    "outstanding st' bob = filter (\<lambda>a. \<not> (usecs (a_sendtime a) + uint (0 :: u64)) mod 2 ^ 64 < usecs (Timeval 6 0) mod 2 ^ 64) (outstanding nacks2 bob)"
    "length (queue_of Retr sender0) + length late \<le> 2000 \<and> length late \<le> qEmpty sender0 \<longrightarrow>
       queue_of Retr s' = queue_of Retr sender0 @ map again late"
    using r sender0_ok by blast
  have l: "set late = {unacked 0, unacked 1}"
  proof -
    have "a \<in> set late \<longleftrightarrow> a \<in> {unacked 0, unacked 1}" for a
      using o [of 0] o [of 1] by (auto simp: c(2) out split: if_splits)
    then show ?thesis by blast
  qed
  have "unacked 0 \<noteq> unacked 1" by (simp add: unacked_def)
  then have "2 \<le> length late" using card_length [of late] by (simp add: l)
  moreover have "get_n_nack nacks2 = 2" "0 \<le> get_n_nack st'" by (simp_all add: get_n_nack_def nacks2_def)
  ultimately have n: "length late = 2" using c(3) by linarith
  moreover have "outstanding st' bob = []" using o [of 0] o [of 1] by (simp add: c(4))
  moreover have "queue_of Retr s' = map again late" using c(5) n by simp
  ultimately show ?thesis using c(1) l unfolding again_def by (intro exI [of _ late] exI [of _ st'] exI [of _ s']) simp
qed

section \<open>Statistics\<close>

definition ack2 :: AckReceived where
  "ack2 = \<lparr>ar_flags = BLK_ACK, ar_seq = 2, ar_sec = 5, ar_usec = 400, ar_cons = 0\<rparr>"

definition world1 :: ack_world where
  "world1 = world0\<lparr>aw_nacks := nacks2\<rparr>"

text \<open>The same after Bob was heard once.\<close>

definition sample0 :: AckStore where
  "sample0 = \<lparr>as_addr = bob, as_sent = Timeval 4 0, as_RTT = Timeval 0 30000, as_STT = Timeval 0 900, as_seq = 0, as_sleeptime = 0\<rparr>"

definition world2 :: ack_world where
  "world2 = world1\<lparr>aw_peers := static_peer_stats\<lparr>peeracklist := [new_peer sample0]\<rparr>\<rparr>"

lemma world1_fields [simp]:
  "aw_nacks world1 = nacks2" "aw_sender world1 = sender0" "aw_peers world1 = static_peer_stats"
  by (simp_all add: world1_def world0_def)

lemma world2_fields [simp]:
  "aw_nacks world2 = nacks2" "aw_sender world2 = sender0" "peeracklist (aw_peers world2) = [new_peer sample0]"
  "\<not> ack_list_held (aw_peers world2)"
  by (simp_all add: world2_def static_peer_stats_def)

theorem timeout_value_witness:
  "\<exists>t. get_timeout_value bob [new_peer sample0] = Ok t \<and> 5 * unat t \<le> 6 * 30000 \<and> 6 * 30000 < 5 * unat t + 10"
proof -
  have r: "unat (ps_lastRTT (new_peer sample0)) = 30000"
    by (simp add: new_peer_def sample0_def time_to_usec_def)
  have f: "find_peer_by_host bob [new_peer sample0] = Some 0"
    by (simp add: find_peer_by_host_def new_peer_def sample0_def)
  from timeout_value [of bob "[new_peer sample0]"] obtain t where
    t: "get_timeout_value bob [new_peer sample0] = Ok t" "unat t = 10000 \<or> 5 * unat t \<le> 6 * 30000" "6 * 30000 < 5 * unat t + 10"
    using f r by auto
  moreover have "5 * unat t \<le> 6 * 30000" using t(2,3) by auto
  ultimately show ?thesis by blast
qed

theorem ack_received_known_peer_witness:
  "\<exists>w' q. ack_received (unacked 1) ack2 (Timeval 5 900) bob world2 = Ok (1, w') \<and>
     outstanding (aw_nacks w') bob = [unacked 1] \<and> aw_sender w' = resend_one (unacked 0) sender0 \<and>
     peeracklist (aw_peers w') = [q] \<and> ps_last_error q = 1 \<and> ps_minRTT q = Timeval 0 899"
proof -
  have l: "[unacked 0] = filter (\<lambda>a. a_sendtime a < a_sendtime (unacked 1) \<and> \<not> ack_was_lost (unacked 1) (ar_cons ack2) a)
      (outstanding (aw_nacks world2) bob)"
    by (simp add: ack_was_lost_def ack2_def Let_def timercmp_lt_less word_less_def)
  have f: "find_peer_by_host bob (peeracklist (aw_peers world2)) = Some 0"
    by (simp add: find_peer_by_host_def new_peer_def sample0_def)
  have h: "bob = sd_to (a_d (unacked 1))" by simp
  have n: "peers_distinct (aw_nacks world2)" by simp
  have m: "min (ps_minRTT (new_peer sample0)) (timersub (Timeval 5 900) (Timeval 5 1)) = Timeval 0 899"
    by (simp add: new_peer_def sample0_def timersub_def min_def)
  have e: "ps_last_error (new_peer sample0) = 0" by (simp add: new_peer_def)
  show ?thesis
    using ack_received_known_peer [OF world2_fields(4) n f h l, of "Timeval 5 900"] m e by auto
qed

theorem cookie_exchange_witness:
  "\<exists>ck1 ck2 ck3. send_cookie alice bob (init_cksender static_cookies) = Ok (1, ck1) \<and>
     get_cookie_data ck1 = Ok ((bogusData (init_cksender static_cookies))\<lparr>sd_to := alice\<rparr>, ck2) \<and>
     get_cookie_data ck2 = Ok ((bogusData (init_cksender static_cookies))\<lparr>sd_to := bob\<rparr>, ck3) \<and>
     get_cookie_data ck3 = Err ProcessExit"
proof -
  have e: "ckEmpty (init_cksender static_cookies) = 1" by (simp add: init_cksender_def Let_def)
  have a: "as_addr (sample0\<lparr>as_addr := alice\<rparr>) = alice" "as_addr sample0 = bob" by (simp_all add: sample0_def)
  from cookie_exchange [OF cookies_shape_init [OF cookies_shape_static] e peers_differ(1) a] show ?thesis by blast
qed

definition recv0 :: RecvFragment where
  "recv0 = \<lparr>rf_from = alice, rf_fromlen = 16, rf_streamid = 1, rf_blockid = 7, rf_fragmentid = 0, rf_buflen = 1413,
     rf_tv = Timeval 6 0, rf_flags = BLK_BLOCK_ACK\<rparr>"

text \<open>The next fragment of that block, 1413 microseconds later, as the second of a pair: a megabyte per second.\<close>

definition recv1 :: RecvFragment where
  "recv1 = recv0\<lparr>rf_fragmentid := 1, rf_tv := Timeval 6 1413, rf_flags := 0x8D\<rparr>"

lemma recv0_recorded:
  "estimates_ok (fragment_received recv0 init_recv_stats)"
  "estimate_of (fragment_received recv0 init_recv_stats) (host_key alice 16) = Some ([], recv0)"
proof -
  have "estimates_ok init_recv_stats" "estimate_of init_recv_stats = (\<lambda>_. None)"
    by (simp_all add: estimates_ok_def init_recv_stats_def estimate_of_def kmap_def fun_eq_iff)
  from fragment_received_spec [OF this(1), of recv0] this(2) show
    "estimates_ok (fragment_received recv0 init_recv_stats)"
    "estimate_of (fragment_received recv0 init_recv_stats) (host_key alice 16) = Some ([], recv0)"
    by (simp_all add: recv0_def)
qed

theorem fragment_received_refines_witness:
  "\<exists>rate. estimate_of (fragment_received recv1 (fragment_received recv0 init_recv_stats)) (host_key alice 16) =
       Some ([\<lparr>bw_bw = rate, bw_tv = Timeval 6 1413\<rparr>], recv1) \<and>
     \<bar>dbl_val rate * 1413 - 1413 * 10 ^ 6\<bar> * 10 ^ 14 \<le> 1413 * 10 ^ 6"
proof -
  have k: "host_key (rf_from recv1) (rf_fromlen recv1) = host_key alice 16"
    "rf_streamid recv1 = rf_streamid recv0" "rf_blockid recv1 = rf_blockid recv0"
    "unat (rf_fragmentid recv1) = unat (rf_fragmentid recv0) + 1" "bit (rf_flags recv1) 2"
    "norm_time (rf_tv recv0)" "norm_time (rf_tv recv1)" "usecs (rf_tv recv0) \<le> usecs (rf_tv recv1)"
    "unat (rf_buflen recv1) = 1413" "usecs (rf_tv recv1) - usecs (rf_tv recv0) = 1413"
    by (simp_all add: recv1_def recv0_def norm_time_def usecs_def bit_iff_odd)
  from fragment_received_refines [OF recv0_recorded(1), of recv1] obtain rate where
    "estimate_of (fragment_received recv1 (fragment_received recv0 init_recv_stats)) =
       (estimate_of (fragment_received recv0 init_recv_stats))(host_key alice 16 \<mapsto>
         ([\<lparr>bw_bw = rate, bw_tv = rf_tv recv1\<rparr>], recv1))" "measured_rate 1413 1413 rate"
    by (auto simp: k recv0_recorded(2))
  moreover have "rf_tv recv1 = Timeval 6 1413" by (simp add: recv1_def)
  ultimately show ?thesis by (auto simp: measured_rate_def)
qed

theorem completed_blocks_queue_witness:
  "biter_next (init_biter static_biter) = Err Blocked \<and>
   (\<exists>bi'. block_completed 1 7 None (init_biter static_biter) = Ok bi' \<and> biter_contents bi' = [Completed 1 7])"
proof -
  have ok: "biter_ok (init_biter static_biter)" "biter_contents (init_biter static_biter) = []"
    by (simp_all add: biter_ok_def biter_contents_def init_biter_def static_biter_def N_BITER_def)
  show ?thesis using completed_blocks_queue [OF ok(1), of 0 0 None 1 7 zero_IncomingData] ok(2) by auto
qed

section \<open>Sending\<close>

declare queue_of.simps [simp del]

definition sending :: ack_world where
  "sending = world0\<lparr>aw_sender := sender2\<rparr>"

lemma sending_fields [simp]:
  "aw_sender sending = sender2" "aw_nacks sending = static_nacks" "ckFull (aw_cookies sending) = 0"
  by (simp_all add: sending_def world0_def init_cksender_def Let_def)

lemma sender2_sending: "sender_ok s \<Longrightarrow> (\<And>c. queue_of c s = queue_of c sender2) \<Longrightarrow> bandwidth s = 1000000 \<Longrightarrow> \<not> z s \<Longrightarrow>
    peers_distinct (aw_nacks w) \<Longrightarrow> sending_ok (w\<lparr>aw_sender := s\<rparr>)"
  using packet_fits [of 0] packet_fits [of 1] by (simp add: sending_ok_def sends_fit_def all_classes)

lemma sending_ok_sending: "sending_ok sending"
  using sender2_sending [OF sender2_ok, of world0] by (simp add: sending_def) (simp add: world0_def)

theorem packet_send_schedules_witness:
  "\<exists>o1 w'. packet_send env0 sending = Ok (o1, w') \<and> so_to o1 = bob \<and> so_wire o1 = wire_of False 1 0 (packet 0) \<and>
     uint (sleeptime (aw_sender w')) = 1413 \<and> outstanding (aw_nacks w') bob \<noteq> []"
proof -
  have c: "Data = next_class (tx_abs (aw_sender sending))" by (simp add: next_class_def sender2_view)
  have l: "uint (sd_length (packet 0)) = 1413" using packet_props(6) [of 0] by (simp add: uint_nat del: of_nat_unat)
  have f: "sd_data (packet 0) ! 0 = BLK_BLOCK_ACK" by (simp add: packet_props)
  have "0 < sFull (aw_sender sending)" "\<not> z (aw_sender sending)" "ckFull (aw_cookies sending) = 0" by simp_all
  from packet_send_schedules [OF sending_ok_sending this c, of env0] show ?thesis
    by (auto simp: l f static_nacks_def)
qed

text \<open>The first packet went to Bob, so the next one of the pair follows at once.\<close>

definition paired :: ack_world where
  "paired = world0\<lparr>aw_sender := sender2\<lparr>lasthost := Some bob\<rparr>\<rparr>"

lemma lasthost_frame:
  "queue_of c (s\<lparr>lasthost := h\<rparr>) = queue_of c s" "sender_ok (s\<lparr>lasthost := h\<rparr>) = sender_ok s"
  "tx_abs (s\<lparr>lasthost := h\<rparr>) = tx_abs s"
proof -
  show q: "queue_of c (s\<lparr>lasthost := h\<rparr>) = queue_of c s" for c by (cases c) (simp_all add: queue_of.simps)
  then show "tx_abs (s\<lparr>lasthost := h\<rparr>) = tx_abs s" by (simp add: tx_abs_def)
  then show "sender_ok (s\<lparr>lasthost := h\<rparr>) = sender_ok s" by (simp add: sender_ok_def rings_ok_def)
qed

theorem back_to_back_pair_witness:
  "\<exists>o1 o2 slept hit w'. send_packet_round env0 env0 paired = Ok ([o1, o2], slept, hit, w') \<and>
     so_wire o1 = wire_of True 1 0 (packet 0) \<and> slept = 1500 + 1413 \<and> so_to o2 = bob"
proof -
  have ok: "sending_ok paired"
    using sender2_sending [of "sender2\<lparr>lasthost := Some bob\<rparr>" world0] sender2_ok
    by (simp add: paired_def lasthost_frame) (simp add: world0_def)
  have p: "\<not> z (aw_sender paired)" "lasthost (aw_sender paired) = Some bob" "queue_of Data (aw_sender paired) = packet 0 # [packet 1]"
    "sin_port (sd_to (packet 0)) = sin_port bob" "sin_addr (sd_to (packet 0)) = sin_addr bob" "2 \<le> sFull (aw_sender paired)"
    "ckFull (aw_cookies paired) = 0"
    by (simp_all add: paired_def lasthost_frame world0_def init_cksender_def Let_def)
  define v where "v = spec_take Data (tx_abs (aw_sender paired))"
  have v: "tx_queue v (next_class v) = [packet 1]"
    by (simp add: v_def paired_def lasthost_frame sender2_view spec_take_def next_class_def)
  have l: "uint (sd_length (packet 0)) = 1413" using packet_props(6) [of 0] by (simp add: uint_nat del: of_nat_unat)
  have s: "sleeptime (aw_sender paired) = 1500" "bandwidth (aw_sender paired) = 1000000" "natPort (aw_sender paired) = 0"
    "seq_num (aw_nacks paired) = 0" by (simp_all add: paired_def world0_def static_nacks_def)
  from back_to_back_pair [OF ok p v_def, of env0 env0] show ?thesis by (auto simp: v s l)
qed

section \<open>Cache operations\<close>

definition mem0 :: block_mem where
  "mem0 = \<lparr>mem_lastlen = 0, mem_f = (\<lambda>_. \<lparr>bf_have = 0, bf_host = zero_addr, bf_ts = zero_time\<rparr>)\<rparr>"

lemma cache1_ok: "cache_ok cache1"
  by (simp add: cache_ok_def cache1_def whole_block_ok)

definition cache2 :: bcache where
  "cache2 = [whole_block 1 8 bytes1500, whole_block 1 7 bytes1500]"

lemma whole_block_id [simp]: "b_id (whole_block s b d) = bkey s b"
  by (simp add: whole_block_def Let_def)

lemma cache2_ok: "cache_ok cache2"
  by (simp add: cache_ok_def cache2_def whole_block_ok)

lemma find_cache2: "find_pos 1 7 cache2 = Some (Suc 0)" "find_pos 1 8 cache2 = Some 0" "find_pos 1 9 cache2 = None"
  by (simp_all add: cache2_def is_block_def)

lemma safe_frag: "i < 2 \<Longrightarrow> safe_fragment (frag i) []"
  by (simp add: safe_fragment_def frag_fields MTU_def)

theorem addfragment_refinement_witness:
  "\<exists>rc bc'. addfragment mem0 (frag 0) alice (Timeval 6 0) [] = Ok (rc, bc') \<and> cache_ok bc' \<and>
     spec_addfragment (frag 0) (abs_cache []) = (rc, abs_cache bc')"
  by (rule addfragment_refinement [OF empty_cache_ok safe_frag]) simp

theorem deleteblock_behaviour_witness:
  "deleteblock 1 8 cache2 = (BD_FAILURE, cache2) \<and> deleteblock 1 9 cache2 = (BD_FAILURE, cache2) \<and>
   (\<exists>bc'. deleteblock 1 7 cache2 = (BD_SUCCESS, bc') \<and> find_pos 1 7 bc' = None)"
  using deleteblock_behaviour [OF cache2_ok, of 1 8] deleteblock_behaviour [OF cache2_ok, of 1 9]
    deleteblock_behaviour [OF cache2_ok, of 1 7] find_cache2 by auto

theorem addfragment_out_of_bounds_witness:
  "addfragment mem0 ((frag 0)\<lparr>fd_fragmentid := 2\<rparr>) alice (Timeval 6 0) [] = Err OutOfBounds \<and>
   addfragment mem0 ((frag 0)\<lparr>fd_fragmentid := 2\<rparr>) alice (Timeval 6 0) cache1 = Err OutOfBounds"
proof -
  have fn: "b_fn (whole_block 1 7 bytes1500) = 2" using two_fragments(1) by (simp add: whole_block_def Let_def num_frags_def)
  have f: "find_pos 1 7 cache1 = Some 0" by (simp add: cache1_def is_block_def)
  show ?thesis
    using addfragment_out_of_bounds [OF empty_cache_ok, of "(frag 0)\<lparr>fd_fragmentid := 2\<rparr>" mem0 alice "Timeval 6 0"]
      addfragment_out_of_bounds [OF cache1_ok, of "(frag 0)\<lparr>fd_fragmentid := 2\<rparr>" mem0 alice "Timeval 6 0"]
      frag_fields [of 0] f fn by (simp add: cache1_def)
qed

section \<open>Receiving\<close>

definition bob_world :: world where
  "bob_world = \<lparr>w_ack = world0, w_cache = [], w_est = init_recv_stats, w_bwm = [], w_biter = init_biter static_biter,
     w_stats_r = replicate NUM_STAT_R 0\<rparr>"

definition rx_mem0 :: rx_mem where
  "rx_mem0 = \<lparr>mem_send = zero_SendData, mem_block = mem0\<rparr>"

lemma biter0: "biter_ok (init_biter static_biter)" "biter_contents (init_biter static_biter) = []"
  by (simp_all add: biter_ok_def biter_contents_def init_biter_def static_biter_def N_BITER_def)

lemma bob_world_ok: "world_ok bob_world"
proof -
  have "nacks_wf static_nacks" by (simp add: nacks_wf_def static_nacks_def outstanding_def peers_distinct_def nack_find_by_host_def)
  then show ?thesis
    using sender0_ok cookies_shape_init [OF cookies_shape_static] biter0(1)
    by (simp add: world_ok_def ack_world_ok_def bob_world_def world0_def peer_stats_ok_def static_peer_stats_def
        estimates_ok_def init_recv_stats_def)
qed

text \<open>The datagram of the first fragment as Bob gets it.\<close>

definition datagram :: IncomingData where
  "datagram = \<lparr>id_from = alice, id_fromlen = 16, id_buf = wire_of False 1 0 (packet 0) @ replicate 83 0, id_buflen = 1417,
     id_tv = Timeval 6 0\<rparr>"

lemma packet_is_fragment: "i < 2 \<Longrightarrow> fragment_packet (frag i) (packet i)"
  by (simp add: fragment_packet_def packet_fits packet_props)

lemma datagram_carries: "carries datagram (wire_of False 1 0 (packet 0))"
  using wire_shape(4) [OF packet_is_fragment, of 0 False 1 0] packet_props(6) [of 0]
  by (simp add: carries_def datagram_def BUFSIZE_def)

text \<open>An acknowledgement that answers nothing.\<close>

definition stray_ack :: IncomingData where
  "stray_ack = zero_IncomingData\<lparr>id_buf := BLK_ACK # replicate 1499 0, id_buflen := 15\<rparr>"

lemma stray_ack_processed:
  "\<exists>d' w'. process_packet rx_mem0 stray_ack bob_world = Ok (d', w') \<and> w_stats_r w' ! I_BAD_ACK_COUNTER = 1"
  by (simp add: process_packet_def stray_ack_def rx_port_def rx_need_ack_def rx_ack_def rx_bw_def rx_block_def has_def
      packet_defs Let_def validate_ack_def sizeof_defs decode_ack_def pop_ack_def bob_world_def world0_def static_nacks_def
      nack_find_by_host_def count_in_def bump_def in_stat_defs zero_IncomingData_def)

theorem process_packet_invariant_witness:
  "\<exists>d' w'. process_packet rx_mem0 stray_ack bob_world = Ok (d', w') \<and> world_ok w' \<and> w_stats_r w' ! I_BAD_ACK_COUNTER = 1"
proof -
  obtain d' w' where p: "process_packet rx_mem0 stray_ack bob_world = Ok (d', w')" "w_stats_r w' ! I_BAD_ACK_COUNTER = 1"
    using stray_ack_processed by blast
  have "length (id_buf stray_ack) = BUFSIZE" "wf_sd (mem_send rx_mem0)"
    by (simp_all add: stray_ack_def BUFSIZE_def rx_mem0_def)
  from process_packet_invariant [OF bob_world_ok this p(1)] p show ?thesis by blast
qed

theorem fragment_delivered_and_acknowledged_witness:
  "\<exists>d' w' cons rc. process_packet rx_mem0 datagram bob_world = Ok (d', w') \<and> cache_ok (w_cache w') \<and>
     spec_addfragment (frag 0) (abs_cache []) = (rc, abs_cache (w_cache w')) \<and>
     aw_sender (w_ack w') = send_data ((make_ack zero_SendData 1 cons (Timeval 6 0))\<lparr>sd_to := alice\<rparr>) sender0"
proof -
  have c: "cache_ok (w_cache bob_world)" "safe_fragment (frag 0) (w_cache bob_world)" "biter_ok (w_biter bob_world)"
    "length (biter_contents (w_biter bob_world)) < 20"
    using safe_frag [of 0] biter0 by (simp_all add: bob_world_def)
  have e: "mem_send rx_mem0 = zero_SendData" "aw_sender (w_ack bob_world) = sender0" "w_cache bob_world = []"
    "id_from datagram = alice" "id_tv datagram = Timeval 6 0"
    by (simp_all add: rx_mem0_def bob_world_def world0_def datagram_def)
  have p: "bytes_of_u16 0 ! 0 = 0" by (simp add: bytes_of_u16_def)
  have f: "fragment_packet (frag 0) (packet 0)" by (rule packet_is_fragment) simp
  from fragment_delivered_and_acknowledged [OF f datagram_carries p c, of rx_mem0, unfolded e]
  show ?thesis by blast
qed

end
