(* ===== verification/Inet.thy ===== *)
theory Inet
  imports Bora_Prelude
begin

unbundle bit_operations_syntax

text \<open>
  Addresses in presentation format: the parser \<open>win32_inet_aton\<close> that \<open>bora.c\<close> brings for Windows and the
  printing of an IPv4 address by \<open>inet_ntop\<close>. A string is what precedes the terminating NUL. What the calls of
  the interpreter need of a parser is the locale \<open>address_format\<close>.
\<close>

section \<open>Character classes\<close>

definition isdigit :: "char \<Rightarrow> bool" where
  "isdigit c \<longleftrightarrow> 48 \<le> (of_char c :: nat) \<and> (of_char c :: nat) \<le> 57"

definition islower :: "char \<Rightarrow> bool" where
  "islower c \<longleftrightarrow> 97 \<le> (of_char c :: nat) \<and> (of_char c :: nat) \<le> 122"

definition isxdigit :: "char \<Rightarrow> bool" where
  "isxdigit c \<longleftrightarrow> isdigit c \<or> 65 \<le> (of_char c :: nat) \<and> (of_char c :: nat) \<le> 70 \<or> 97 \<le> (of_char c :: nat) \<and> (of_char c :: nat) \<le> 102"

definition isspace :: "char \<Rightarrow> bool" where
  "isspace c \<longleftrightarrow> (of_char c :: nat) = 32 \<or> 9 \<le> (of_char c :: nat) \<and> (of_char c :: nat) \<le> 13"

section \<open>The parser\<close>

text \<open>The digits of one number; the value wraps at 32 bits.\<close>

fun aton_number :: "u32 \<Rightarrow> u32 \<Rightarrow> string \<Rightarrow> u32 \<times> string" where
  "aton_number base val [] = (val, [])"
| "aton_number base val (c # cp) =
     (if isdigit c then aton_number base (val * base + of_nat (of_char c - 48)) cp
      else if base = 16 \<and> isxdigit c
      then aton_number base (push_bit 4 val OR of_nat (of_char c + 10 - (if islower c then 97 else 65))) cp
      else (val, c # cp))"

definition aton_base :: "string \<Rightarrow> u32 \<times> string" where
  "aton_base cp =
     (if cp \<noteq> [] \<and> hd cp = CHR ''0''
      then (if tl cp \<noteq> [] \<and> (hd (tl cp) = CHR ''x'' \<or> hd (tl cp) = CHR ''X'') then (16, tl (tl cp)) else (8, tl cp))
      else (10, cp))"

definition aton_scan :: "string \<Rightarrow> u32 \<times> string" where
  "aton_scan cp = (case aton_base cp of (base, cp) \<Rightarrow> aton_number base 0 cp)"

lemma aton_number_length: "length (snd (aton_number base val cp)) \<le> length cp"
  by (induction base val cp rule: aton_number.induct) auto

lemma aton_scan_length: "aton_scan cp = (val, rest) \<Longrightarrow> length rest \<le> length cp"
proof -
  assume "aton_scan cp = (val, rest)"
  then have "rest = snd (aton_number (fst (aton_base cp)) 0 (snd (aton_base cp)))"
    by (simp add: aton_scan_def case_prod_beta)
  then have "length rest \<le> length (snd (aton_base cp))" by (simp add: aton_number_length)
  also have "\<dots> \<le> length cp" by (simp add: aton_base_def)
  finally show ?thesis .
qed

lemma aton_scan_tl: "(val, rest) = aton_scan cp \<Longrightarrow> rest \<noteq> [] \<Longrightarrow> length rest - Suc 0 < length cp"
  using aton_scan_length [of cp val rest] by (cases rest) auto

text \<open>The loop over the parts: \<open>parts\<close> holds those already closed by a dot.\<close>

function aton_parts :: "u32 list \<Rightarrow> string \<Rightarrow> (u32 list \<times> u32 \<times> string) option" where
  "aton_parts parts cp =
     (if cp = [] \<or> \<not> isdigit (hd cp) then None
      else case aton_scan cp of (val, rest) \<Rightarrow>
        if rest \<noteq> [] \<and> hd rest = CHR ''.''
        then (if length parts \<ge> 3 then None else aton_parts (parts @ [val]) (tl rest))
        else Some (parts, val, rest))"
  by pat_completeness auto

termination
  by (relation "measure (length \<circ> snd)") (auto dest: aton_scan_tl)

declare aton_parts.simps [simp del]

definition aton_value :: "u32 list \<Rightarrow> u32 \<Rightarrow> u32 option" where
  "aton_value parts val =
     (case parts of
        [] \<Rightarrow> Some val
      | [a] \<Rightarrow> if val > 0xffffff \<or> a > 0xff then None else Some (val OR push_bit 24 a)
      | [a, b] \<Rightarrow> if val > 0xffff \<or> a > 0xff \<or> b > 0xff then None else Some (val OR push_bit 24 a OR push_bit 16 b)
      | [a, b, c] \<Rightarrow> if val > 0xff \<or> a > 0xff \<or> b > 0xff \<or> c > 0xff then None
          else Some (val OR push_bit 24 a OR push_bit 16 b OR push_bit 8 c)
      | _ \<Rightarrow> None)"

definition win32_inet_aton :: "string \<Rightarrow> u32 option" where
  "win32_inet_aton cp =
     (case aton_parts [] cp of
        None \<Rightarrow> None
      | Some (parts, val, rest) \<Rightarrow>
          if rest \<noteq> [] \<and> \<not> isspace (hd rest) then None else map_option htonl (aton_value parts val))"

section \<open>Printing\<close>

fun decimal :: "nat \<Rightarrow> string" where
  "decimal n = (if n < 10 then [char_of (48 + n)] else decimal (n div 10) @ [char_of (48 + n mod 10)])"

declare decimal.simps [simp del]

fun dotted :: "u8 list \<Rightarrow> string" where
  "dotted [] = []"
| "dotted [b] = decimal (unat b)"
| "dotted (b # bs) = decimal (unat b) @ CHR ''.'' # dotted bs"

definition inet_ntop :: "u32 \<Rightarrow> string" where
  "inet_ntop a = dotted (bytes_of_u32 a)"

section \<open>What the parser reads\<close>

lemma isdigit_char_of [simp]: "(n :: nat) < 10 \<Longrightarrow> isdigit (char_of (48 + n))"
  by (simp add: isdigit_def)

lemma aton_number_decimal:
  "aton_number 10 v (decimal n @ rest) = aton_number 10 (v * 10 ^ length (decimal n) + of_nat n) rest"
proof (induction n arbitrary: v rest rule: decimal.induct)
  case (1 n)
  show ?case
  proof (cases "n < 10")
    case True
    then show ?thesis by (simp add: decimal.simps)
  next
    case False
    have n: "(of_nat n :: u32) = of_nat (n div 10) * 10 + of_nat (n mod 10)"
      by (metis div_mult_mod_eq of_nat_add of_nat_mult of_nat_numeral)
    then show ?thesis using False 1 [OF False] by (simp add: decimal.simps [of n] n algebra_simps)
  qed
qed

lemma aton_number_stop: "rest = [] \<or> \<not> isdigit (hd rest) \<Longrightarrow> base \<noteq> 16 \<Longrightarrow> aton_number base v rest = (v, rest)"
  by (cases rest) auto

lemma decimal_hd: "\<exists>(d :: nat) ds. decimal n = char_of (48 + d) # ds \<and> d < 10 \<and> (d = 0 \<longrightarrow> n = 0 \<and> ds = [])"
proof (induction n rule: decimal.induct)
  case (1 n)
  show ?case
  proof (cases "n < 10")
    case True
    then show ?thesis by (intro exI [of _ n] exI [of _ "[]"]) (simp add: decimal.simps [of n])
  next
    case False
    then have "n div 10 \<noteq> 0" by simp
    moreover obtain d :: nat and ds where "decimal (n div 10) = char_of (48 + d) # ds" "d < 10" "d = 0 \<longrightarrow> n div 10 = 0 \<and> ds = []"
      using 1 [OF False] by blast
    ultimately show ?thesis using False
      by (intro exI [of _ d] exI [of _ "ds @ [char_of (48 + n mod 10)]"]) (simp add: decimal.simps [of n])
  qed
qed

text \<open>A printed number is read back, whatever follows it but a digit or an \<open>x\<close>.\<close>

definition separated :: "string \<Rightarrow> bool" where
  "separated rest \<longleftrightarrow> rest = [] \<or> \<not> isdigit (hd rest) \<and> hd rest \<noteq> CHR ''x'' \<and> hd rest \<noteq> CHR ''X''"

lemma aton_scan_decimal:
  assumes "separated rest"
  shows "aton_scan (decimal n @ rest) = (of_nat n, rest)"
proof -
  obtain d :: nat and ds where d: "decimal n = char_of (48 + d) # ds" "d < 10" "d = 0 \<longrightarrow> n = 0 \<and> ds = []"
    using decimal_hd by blast
  have stop: "rest = [] \<or> \<not> isdigit (hd rest)" using assms by (auto simp: separated_def)
  show ?thesis
  proof (cases "d = 0")
    case True
    then have "decimal n = ''0''" "n = 0" using d by (simp_all add: char_of_def bit_0)
    then show ?thesis using assms stop aton_number_stop [OF stop, of 8] by (auto simp: aton_scan_def aton_base_def separated_def)
  next
    case False
    have "char_of (48 + d) \<noteq> CHR ''0''"
    proof
      assume "char_of (48 + d) = CHR ''0''"
      then have "of_char (char_of (48 + d) :: char) = (of_char CHR ''0'' :: nat)" by simp
      then show False using d(2) False by simp
    qed
    then have "aton_base (decimal n @ rest) = (10, decimal n @ rest)" using d(1) by (simp add: aton_base_def)
    then show ?thesis using aton_number_decimal [of 0 n rest] aton_number_stop [OF stop, of 10] by (simp add: aton_scan_def)
  qed
qed

lemma separated_dot [simp]: "separated (CHR ''.'' # s)"
  by (simp add: separated_def isdigit_def)

lemma aton_parts_step:
  "aton_parts parts (decimal n @ CHR ''.'' # s) = (if length parts \<ge> 3 then None else aton_parts (parts @ [of_nat n]) s)"
  "separated rest \<Longrightarrow> rest = [] \<or> hd rest \<noteq> CHR ''.'' \<Longrightarrow> aton_parts parts (decimal n @ rest) = Some (parts, of_nat n, rest)"
  using decimal_hd [of n] by (auto simp: aton_parts.simps [of parts "decimal n @ t" for t] aton_scan_decimal)

lemma octets_join:
  fixes a b c d :: u8
  shows "bytes_of_u32 (ucast d OR push_bit 24 (ucast a) OR push_bit 16 (ucast b) OR push_bit 8 (ucast c)) = [d, c, b, a]"
proof -
  have "\<not> bit x (8 + n)" "\<not> bit x (16 + n)" "\<not> bit x (24 + n)" for x :: u8 and n
    by (auto dest: bit_imp_le_length)
  then show ?thesis by (auto simp: bytes_of_u32_def bit_simps intro!: bit_word_eqI)
qed

lemma of_nat_octet: "of_nat (unat (b :: u8)) = (ucast b :: u32)" "(ucast b :: u32) \<le> 0xff"
proof -
  show "of_nat (unat b) = (ucast b :: u32)" by simp
  have "unat b < 256" using unsigned_less [of b, where ?'a = nat] by simp
  then have "unat (ucast b :: u32) \<le> 255" by (simp add: unsigned_ucast_eq take_bit_nat_eq_self)
  then show "(ucast b :: u32) \<le> 0xff" by (simp add: word_le_nat_alt)
qed

lemma aton_printed:
  assumes "separated rest"
  shows "win32_inet_aton (inet_ntop a @ rest) = (if rest = [] \<or> isspace (hd rest) then Some a else None)"
proof -
  obtain b0 b1 b2 b3 where b: "bytes_of_u32 a = [b0, b1, b2, b3]" by (simp add: bytes_of_u32_def)
  have "htonl (ucast b3 OR push_bit 24 (ucast b0) OR push_bit 16 (ucast b1) OR push_bit 8 (ucast b2)) = a"
    unfolding htonl_def octets_join using u32_of_bytes_of_u32 [of a] b by simp
  then have v: "map_option htonl (aton_value [ucast b0, ucast b1, ucast b2] (ucast b3)) = Some a"
    using of_nat_octet(2) by (simp add: aton_value_def not_less)
  have parts: "aton_parts [] (inet_ntop a @ rest) =
      (if rest \<noteq> [] \<and> hd rest = CHR ''.'' then None else Some ([ucast b0, ucast b1, ucast b2], ucast b3, rest))"
  proof (cases "rest \<noteq> [] \<and> hd rest = CHR ''.''")
    case True
    then obtain s where "rest = CHR ''.'' # s" by (cases rest) auto
    then show ?thesis by (simp add: inet_ntop_def b aton_parts_step(1) of_nat_octet)
  next
    case False
    then show ?thesis using aton_parts_step(2) [OF assms] by (simp add: inet_ntop_def b aton_parts_step(1) of_nat_octet)
  qed
  then show ?thesis using v by (auto simp: win32_inet_aton_def isspace_def)
qed

section \<open>Interface\<close>

text \<open>What the calls of the module need of an address parser: it reads what \<open>inet_ntop\<close> prints.\<close>

locale address_format =
  fixes pton :: "string \<Rightarrow> u32 option"
  assumes pton_ntop: "pton (inet_ntop a) = Some a"
begin

lemma ntop_injective: "inet_ntop a = inet_ntop b \<Longrightarrow> a = b"
  using pton_ntop by (metis option.inject)

end

interpretation aton: address_format win32_inet_aton
  using aton_printed [of "[]"] by unfold_locales (simp add: separated_def)

text \<open>
  C24: the address parser reads back every printed address. The text that \<open>inet_ntop\<close> produces is parsed to the same
  address, so that no two addresses are printed alike. Followed by white space it is still read; followed by anything
  else but a digit or an x it is rejected, a fifth part included.
\<close>

theorem inet_aton_roundtrip:
  "win32_inet_aton (inet_ntop a) = Some a \<and> (inet_ntop a = inet_ntop b \<longrightarrow> a = b) \<and>
    (separated rest \<longrightarrow> win32_inet_aton (inet_ntop a @ rest) = (if rest = [] \<or> isspace (hd rest) then Some a else None))"
  using aton.pton_ntop aton.ntop_injective aton_printed by auto

end
