(* ===== verification/Py_Value.thy ===== *)
theory Py_Value
  imports Inet Binary64 Bora_Util
begin

text \<open>
  The values that cross the border to the interpreter: what \<open>Py_BuildValue\<close> makes of the C
  values, and the ways a call can end: with a value, with one of two exceptions, or, which the interpreter
  does not expect, with a value while an exception is set (\<open>ReturnPending\<close>). Strings of Python 2 are byte strings.
\<close>

datatype pyval =
    PyNone
  | PyTrue
  | PyInt int
  | PyFloat double
  | PyStr "u8 list"
  | PyList "pyval list"
  | PyDict "(string \<times> pyval) list"

datatype pycall = Return pyval | AttributeError string | StopIteration | ReturnPending pyval

definition ascii :: "string \<Rightarrow> u8 list" where
  "ascii s = map (\<lambda>c. of_nat (of_char c)) s"

definition py_s :: "string \<Rightarrow> pyval" where
  "py_s s = PyStr (ascii s)"

text \<open>Format \<open>i\<close> takes an \<open>int\<close>: of a 64-bit counter the low half.\<close>

definition py_i :: "u64 \<Rightarrow> pyval" where
  "py_i n = PyInt (sint (ucast n :: u32))"

definition py_l :: "u64 \<Rightarrow> pyval" where
  "py_l n = PyInt (sint n)"

definition py_usec :: "timeval \<Rightarrow> pyval" where
  "py_usec t = PyInt (sint (word_of_int (tv_sec t * 1000000 + tv_usec t) :: u64))"

definition py_d :: "timeval \<Rightarrow> pyval" where
  "py_d t = PyFloat (dbl_add (dbl_of_int (tv_sec t)) (dbl_div (dbl_of_int (tv_usec t)) (dbl_of_int 1000000)))"

definition py_host :: "sockaddr_in \<Rightarrow> pyval" where
  "py_host a = py_s (inet_ntop (sin_addr a))"

definition py_port :: "sockaddr_in \<Rightarrow> pyval" where
  "py_port a = PyInt (uint (ntohs (sin_port a)))"

text \<open>\<open>PyInt_Check\<close> and \<open>PyInt_AsLong\<close>: a truth value counts as an integer.\<close>

fun py_int :: "pyval \<Rightarrow> int option" where
  "py_int (PyInt n) = Some n"
| "py_int PyTrue = Some 1"
| "py_int _ = None"

text \<open>A value that fits is not changed on its way.\<close>

lemma py_i_small: "uint n < 2 ^ 31 \<Longrightarrow> py_i n = PyInt (uint n)"
proof -
  assume n: "uint n < 2 ^ 31"
  have "uint (ucast n :: u32) = uint n" using n by (simp add: unsigned_ucast_eq take_bit_int_eq_self)
  moreover have "- (2 ^ 31) \<le> uint n" by (rule order_trans [OF _ uint_ge_0]) simp
  ultimately show ?thesis using n by (simp add: py_i_def sint_uint signed_take_bit_int_eq_self)
qed

lemma py_usec_usecs: "- (2 ^ 63) \<le> usecs t \<Longrightarrow> usecs t < 2 ^ 63 \<Longrightarrow> py_usec t = PyInt (usecs t)"
  unfolding py_usec_def usecs_def sint_sbintrunc' by (simp add: signed_take_bit_int_eq_self)

end
