(* ===== verification/Bw_Stats.thy ===== *)
theory Bw_Stats
  imports Ack_Received Py_Value
begin

text \<open>
  The statistics cycle of \<open>bw_stats.c\<close>. A timer thread takes the lock of the bandwidth, announces that data are
  ready and waits; the interpreter fetches the report (\<open>bora_BWIter_iternext\<close>), which holds the peers'
  statistics, and answers with \<open>bws_set\<close>, which sets the bandwidth, resets the counters, releases the
  statistics and wakes the timer thread. The cycle is a step relation with the sending thread, which takes the
  same lock to compute its pause.
\<close>

section \<open>Operations\<close>

record bws =
  s_bws_hasdata :: nat
  s_bws_processed :: nat
  bws_timer :: int

definition init_bws :: "int \<Rightarrow> bws" where
  "init_bws interval = \<lparr>s_bws_hasdata = 0, s_bws_processed = 0, bws_timer = interval\<rparr>"

definition bws_return_value :: "u32 \<Rightarrow> bws \<times> ack_world \<Rightarrow> bws \<times> ack_world" where
  "bws_return_value bw = (\<lambda>(b, w).
     (b\<lparr>s_bws_processed := s_bws_processed b + 1\<rparr>,
      w\<lparr>aw_sender := reset_out_counters (set_bandwidth bw (aw_sender w)), aw_peers := release_ack_store (aw_peers w)\<rparr>))"

definition set_bws_interval :: "int \<Rightarrow> bws \<Rightarrow> bws" where
  "set_bws_interval interval b = b\<lparr>bws_timer := interval\<rparr>"

definition bws_end_tokens :: "bws \<Rightarrow> bws" where
  "bws_end_tokens b = b\<lparr>s_bws_hasdata := s_bws_hasdata b + 1, s_bws_processed := s_bws_processed b + 1\<rparr>"

text \<open>The arguments of \<open>bws_set\<close> are C integers.\<close>

definition bws_set_call :: "timeval \<Rightarrow> int \<Rightarrow> int \<Rightarrow> bws \<times> ack_world \<Rightarrow> (bws \<times> ack_world) res" where
  "bws_set_call now rst bws_time = (\<lambda>(b, w).
     map_res (\<lambda>((n, nacks), s).
         bws_return_value (word_of_int rst) (set_bws_interval bws_time b, w\<lparr>aw_nacks := nacks, aw_sender := s\<rparr>))
       (resend_timeout_nacks now (peeracklist (aw_peers w)) (aw_sender w) (aw_nacks w)))"

section \<open>The report\<close>

definition sample_dict :: "AckStore \<Rightarrow> pyval" where
  "sample_dict a = PyDict [(''sent'', py_d (as_sent a)), (''RTT'', py_usec (as_RTT a)), (''STT'', py_usec (as_STT a)),
     (''seq'', PyInt (uint (as_seq a))), (''sleep'', PyInt (sint (as_sleeptime a)))]"

definition peer_report :: "PeerAckStore \<Rightarrow> pyval" where
  "peer_report p = PyDict
     [(''host'', py_host (ps_addr p)), (''port'', py_port (ps_addr p)),
      (''minSTT'', py_usec (ps_minSTT p)), (''minRTT'', py_usec (ps_minRTT p)),
      (''avgRTT'', py_usec (ps_avgRTT p)), (''avgSTT'', py_usec (ps_avgSTT p)),
      (''errRTT'', py_usec (ps_errRTT p)), (''errSTT'', py_usec (ps_errSTT p)),
      (''acked_total'', py_l (ps_total_acked p)), (''error_total'', py_l (ps_total_errors p)),
      (''acked_last'', PyInt (ps_last_acked p)), (''error_last'', PyInt (ps_last_error p)),
      (''values'', PyList (map sample_dict (ps_ack_store p)))]"

definition last_ack_dict :: "PeerAckStore list \<Rightarrow> AckStore option \<Rightarrow> pyval" where
  "last_ack_dict peers last_seq =
     (case last_seq of
        Some ls \<Rightarrow>
          if peers \<noteq> []
          then PyDict [(''host'', py_host (as_addr ls)), (''port'', py_port (as_addr ls)), (''sent'', py_d (as_sent ls)),
                 (''RTT'', py_usec (as_RTT ls)), (''STT'', py_usec (as_STT ls)), (''seq'', PyInt (uint (as_seq ls))),
                 (''sleep'', PyInt (sint (as_sleeptime ls)))]
          else PyNone
      | None \<Rightarrow> PyNone)"

definition out_stats_dict :: "sender \<Rightarrow> pyval" where
  "out_stats_dict s = PyDict
     [(''O_DATA_COUNTER'', py_i (stats_s s ! O_DATA_COUNTER)), (''O_PKG_COUNTER'', py_i (stats_s s ! O_PKG_COUNTER)),
      (''O_ACK_COUNTER'', py_i (stats_s s ! O_ACK_COUNTER)), (''O_ACK_DATA_COUNTER'', py_i (stats_s s ! O_ACK_DATA_COUNTER)),
      (''O_RETR_COUNTER'', py_i (stats_s s ! O_RETR_COUNTER)), (''O_RETR_DATA_COUNTER'', py_i (stats_s s ! O_RETR_DATA_COUNTER))]"

text \<open>The samples are handed over: every peer's list is empty afterwards.\<close>

definition take_samples :: "peer_stats \<Rightarrow> peer_stats" where
  "take_samples st = st\<lparr>peeracklist := map (\<lambda>p. p\<lparr>ps_ack_store := []\<rparr>) (peeracklist st)\<rparr>"

definition bws_report :: "ack_world \<Rightarrow> (pyval \<times> ack_world) res" where
  "bws_report w =
     bind_res (get_ack_store (aw_peers w)) (\<lambda>((peers, last_seq), st).
       case get_idle (aw_sender w) of (idle, s) \<Rightarrow>
         Ok (PyDict [(''sent_data'', out_stats_dict (aw_sender w)), (''peer_stats'', PyList (map peer_report peers)),
                     (''last_ack'', last_ack_dict peers last_seq), (''last_nack'', PyInt (get_seq (aw_nacks w))),
                     (''idle'', py_l idle)],
             w\<lparr>aw_peers := take_samples st, aw_sender := s\<rparr>))"

section \<open>The cycle as a step relation\<close>

text \<open>
  \<open>tloc\<close> is where the timer thread stands, \<open>holder\<close> who has \<open>bwLock\<close>; the interpreter is between two
  reports or works on one, which is how the iterator is used.
\<close>

datatype tloc = TTop | TLock | TPost | TWait | TUnlock | TStop
datatype holder = Unheld | ByTimer | BySender
datatype pyloc = PyIdle | PyReport

record bws_sys =
  bs_bws :: bws
  bs_lock :: holder
  bs_at :: tloc
  bs_py :: pyloc
  bs_kill :: bool
  bs_aw :: ack_world

inductive timer_step :: "bws_sys \<Rightarrow> bws_sys \<Rightarrow> bool" where
  timer_sleep: "bs_at s = TTop \<Longrightarrow> \<not> bs_kill s \<Longrightarrow> timer_step s (s\<lparr>bs_at := TLock\<rparr>)"
| timer_stop: "bs_at s = TTop \<Longrightarrow> bs_kill s \<Longrightarrow> timer_step s (s\<lparr>bs_at := TStop\<rparr>)"
| timer_lock: "bs_at s = TLock \<Longrightarrow> bs_lock s = Unheld \<Longrightarrow> timer_step s (s\<lparr>bs_lock := ByTimer, bs_at := TPost\<rparr>)"
| timer_post: "bs_at s = TPost \<Longrightarrow>
    timer_step s (s\<lparr>bs_bws := (bs_bws s)\<lparr>s_bws_hasdata := s_bws_hasdata (bs_bws s) + 1\<rparr>, bs_at := TWait\<rparr>)"
| timer_wait: "bs_at s = TWait \<Longrightarrow> s_bws_processed (bs_bws s) > 0 \<Longrightarrow>
    timer_step s (s\<lparr>bs_bws := (bs_bws s)\<lparr>s_bws_processed := s_bws_processed (bs_bws s) - 1\<rparr>, bs_at := TUnlock\<rparr>)"
| timer_unlock: "bs_at s = TUnlock \<Longrightarrow> timer_step s (s\<lparr>bs_lock := Unheld, bs_at := TTop\<rparr>)"

inductive interpreter_step :: "bws_sys \<Rightarrow> bws_sys \<Rightarrow> bool" where
  py_report: "bs_py s = PyIdle \<Longrightarrow> s_bws_hasdata (bs_bws s) > 0 \<Longrightarrow> bws_report (bs_aw s) = Ok (report, w) \<Longrightarrow>
    interpreter_step s (s\<lparr>bs_bws := (bs_bws s)\<lparr>s_bws_hasdata := s_bws_hasdata (bs_bws s) - 1\<rparr>, bs_aw := w, bs_py := PyReport\<rparr>)"
| py_answer: "bs_py s = PyReport \<Longrightarrow> bws_set_call now rst bws_time (bs_bws s, bs_aw s) = Ok (b, w) \<Longrightarrow>
    interpreter_step s (s\<lparr>bs_bws := b, bs_aw := w, bs_py := PyIdle\<rparr>)"

text \<open>The other threads never touch the bandwidth, nor the statistics' lock while it is held.\<close>

inductive others_step :: "bws_sys \<Rightarrow> bws_sys \<Rightarrow> bool" where
  sender_enter: "bs_lock s = Unheld \<Longrightarrow> others_step s (s\<lparr>bs_lock := BySender\<rparr>)"
| sender_leave: "bs_lock s = BySender \<Longrightarrow> bandwidth (aw_sender w) = bandwidth (aw_sender (bs_aw s)) \<Longrightarrow>
    ack_list_held (aw_peers w) = ack_list_held (aw_peers (bs_aw s)) \<Longrightarrow> others_step s (s\<lparr>bs_lock := Unheld, bs_aw := w\<rparr>)"
| elsewhere: "bandwidth (aw_sender w) = bandwidth (aw_sender (bs_aw s)) \<Longrightarrow>
    ack_list_held (aw_peers w) = ack_list_held (aw_peers (bs_aw s)) \<Longrightarrow> others_step s (s\<lparr>bs_aw := w\<rparr>)"
| shut_down_bws: "\<not> bs_kill s \<Longrightarrow> others_step s (s\<lparr>bs_kill := True, bs_bws := bws_end_tokens (bs_bws s)\<rparr>)"

inductive bws_step :: "bws_sys \<Rightarrow> bws_sys \<Rightarrow> bool" where
  step_timer: "timer_step s s' \<Longrightarrow> bws_step s s'"
| step_interpreter: "interpreter_step s s' \<Longrightarrow> bws_step s s'"
| step_others: "others_step s s' \<Longrightarrow> bws_step s s'"

definition bws_start :: "int \<Rightarrow> ack_world \<Rightarrow> bws_sys" where
  "bws_start interval w = \<lparr>bs_bws = init_bws interval, bs_lock = Unheld, bs_at = TTop, bs_py = PyIdle, bs_kill = False, bs_aw = w\<rparr>"

inductive bws_reach :: "int \<Rightarrow> ack_world \<Rightarrow> bws_sys \<Rightarrow> bool" for interval w0 where
  bws_begin: "\<not> ack_list_held (aw_peers w0) \<Longrightarrow> bws_reach interval w0 (bws_start interval w0)"
| bws_next: "bws_reach interval w0 s \<Longrightarrow> bws_step s s' \<Longrightarrow> bws_reach interval w0 s'"

inductive_simps bws_step_iff: "bws_step s s'"

definition bws_inv :: "bws_sys \<Rightarrow> bool" where
  "bws_inv s \<longleftrightarrow> (\<not> bs_kill s \<longrightarrow>
     (bs_lock s = ByTimer \<longleftrightarrow> bs_at s \<in> {TPost, TWait, TUnlock}) \<and> bs_at s \<noteq> TStop \<and>
     (ack_list_held (aw_peers (bs_aw s)) \<longleftrightarrow> bs_py s = PyReport) \<and>
     s_bws_hasdata (bs_bws s) + s_bws_processed (bs_bws s) + (if bs_py s = PyReport then 1 else 0) =
       (if bs_at s = TWait then 1 else 0))"

lemma bws_report_held: "bws_report w = Ok (r, w') \<Longrightarrow> \<not> ack_list_held (aw_peers w) \<and> ack_list_held (aw_peers w') \<and>
    bandwidth (aw_sender w') = bandwidth (aw_sender w)"
  by (auto simp: bws_report_def get_ack_store_def get_idle_def take_samples_def bind_res_Ok_iff split: if_splits)

lemma bws_report_ready: "\<not> ack_list_held (aw_peers w) \<Longrightarrow> \<exists>r w'. bws_report w = Ok (r, w')"
  by (simp add: bws_report_def get_ack_store_def get_idle_def)

lemma bws_set_effect:
  assumes "bws_set_call now rst bws_time (b, w) = Ok (b', w')"
  shows "b' = \<lparr>s_bws_hasdata = s_bws_hasdata b, s_bws_processed = s_bws_processed b + 1, bws_timer = bws_time\<rparr>"
    "\<not> ack_list_held (aw_peers w')" "bandwidth (aw_sender w') = scast (word_of_int rst :: u32)"
    "stats_s (aw_sender w') = replicate NUM_STAT_S 0" "aw_peers w' = release_ack_store (aw_peers w)"
  using assms
  by (auto simp: bws_set_call_def map_res_Ok_iff bws_return_value_def set_bws_interval_def set_bandwidth_def
      reset_out_counters_def release_ack_store_def split: prod.splits)

lemma bws_inv_step:
  assumes "bws_step s s'" and inv: "bws_inv s"
  shows "bws_inv s'"
  using assms(1) unfolding bws_step_iff
proof (elim disjE)
  assume "timer_step s s'"
  then show ?thesis using inv by cases (auto simp: bws_inv_def split: if_splits)
next
  assume "interpreter_step s s'"
  then show ?thesis
  proof cases
    case (py_report report w)
    then show ?thesis using inv bws_report_held [OF py_report(4)] by (auto simp: bws_inv_def split: if_splits)
  next
    case (py_answer now rst bws_time b w)
    then show ?thesis using inv bws_set_effect(1,2) [OF py_answer(3)] by (auto simp: bws_inv_def split: if_splits)
  qed
next
  assume "others_step s s'"
  then show ?thesis using inv by cases (auto simp: bws_inv_def split: if_splits)
qed

lemma bws_inv_reach: "bws_reach interval w0 s \<Longrightarrow> bws_inv s"
proof (induction rule: bws_reach.induct)
  case bws_begin
  then show ?case by (simp add: bws_start_def init_bws_def bws_inv_def)
next
  case (bws_next s s')
  show ?case by (rule bws_inv_step [OF bws_next.hyps(2) bws_next.IH])
qed

text \<open>Only the answer of the interpreter changes the bandwidth.\<close>

lemma bandwidth_changed_by_answer:
  assumes "bws_step s s'" and "bandwidth (aw_sender (bs_aw s')) \<noteq> bandwidth (aw_sender (bs_aw s))"
  shows "bs_py s = PyReport"
  using assms(1) unfolding bws_step_iff
proof (elim disjE)
  assume "timer_step s s'"
  then show ?thesis using assms(2) by cases simp_all
next
  assume "interpreter_step s s'"
  then show ?thesis using assms(2) by cases (auto dest: bws_report_held)
next
  assume "others_step s s'"
  then show ?thesis using assms(2) by cases simp_all
qed

text \<open>The timer thread can go on by itself wherever it does not wait for someone.\<close>

lemma timer_ready:
  assumes "bs_at s \<notin> {TLock, TWait, TStop}" shows "\<exists>s'. timer_step s s'"
  using assms timer_sleep timer_stop timer_post timer_unlock by (cases "bs_at s"; cases "bs_kill s") blast+

text \<open>
  C20: the statistics cycle. As long as the interpreter answers each report with one \<open>bws_set\<close> and the threads are not
  told to stop, the bandwidth changes only while the timer thread holds its lock, so never while the sending thread computes with
  it; at most one report is announced and the statistics are locked exactly while the interpreter works on one; and the
  cycle never gets stuck: the timer thread can go on, or it waits for the sending thread to leave its locked section, or the
  interpreter has a report to fetch or to answer.
\<close>

theorem statistics_cycle:
  assumes "bws_reach interval w0 s" and "\<not> bs_kill s"
  shows "(\<forall>s'. bws_step s s' \<and> bandwidth (aw_sender (bs_aw s')) \<noteq> bandwidth (aw_sender (bs_aw s)) \<longrightarrow> bs_lock s = ByTimer) \<and>
    s_bws_hasdata (bs_bws s) \<le> 1 \<and> (ack_list_held (aw_peers (bs_aw s)) \<longleftrightarrow> bs_py s = PyReport) \<and>
    ((\<exists>s'. timer_step s s') \<or> (bs_at s = TLock \<and> bs_lock s = BySender) \<or>
     (bs_at s = TWait \<and> bs_py s = PyReport) \<or> (bs_at s = TWait \<and> bs_py s = PyIdle \<and> (\<exists>s'. interpreter_step s s')))"
proof -
  have inv: "bws_inv s" by (rule bws_inv_reach [OF assms(1)])
  then have lock: "bs_lock s = ByTimer \<longleftrightarrow> bs_at s \<in> {TPost, TWait, TUnlock}" and stop: "bs_at s \<noteq> TStop"
    and held: "ack_list_held (aw_peers (bs_aw s)) \<longleftrightarrow> bs_py s = PyReport"
    and count: "s_bws_hasdata (bs_bws s) + s_bws_processed (bs_bws s) + (if bs_py s = PyReport then 1 else 0) =
       (if bs_at s = TWait then 1 else 0)"
    using assms(2) by (simp_all add: bws_inv_def)
  have rep: "bs_at s = TWait" if "bs_py s = PyReport" using count that by (simp split: if_splits)
  have go: "(\<exists>s'. timer_step s s') \<or> (bs_at s = TLock \<and> bs_lock s = BySender) \<or>
     (bs_at s = TWait \<and> bs_py s = PyReport) \<or> (bs_at s = TWait \<and> bs_py s = PyIdle \<and> (\<exists>s'. interpreter_step s s'))"
  proof -
    consider "bs_at s \<notin> {TLock, TWait, TStop}" | "bs_at s = TLock" | "bs_at s = TWait" "bs_py s = PyReport"
      | "bs_at s = TWait" "bs_py s = PyIdle" "0 < s_bws_processed (bs_bws s)"
      | "bs_at s = TWait" "bs_py s = PyIdle" "0 < s_bws_hasdata (bs_bws s)"
      using stop count by (cases "bs_at s"; cases "bs_py s"; cases "s_bws_processed (bs_bws s)") auto
    then show ?thesis
    proof cases
      case 2
      then have "bs_lock s \<noteq> ByTimer" using lock by simp
      then show ?thesis using 2 timer_lock [OF 2] by (cases "bs_lock s") auto
    next
      case 5
      obtain r w where "bws_report (bs_aw s) = Ok (r, w)" using bws_report_ready [of "bs_aw s"] held 5(2) by auto
      then show ?thesis using py_report [OF 5(2,3)] 5 by blast
    qed (use timer_ready timer_wait in blast)+
  qed
  have "bs_lock s = ByTimer" if "bws_step s s'" "bandwidth (aw_sender (bs_aw s')) \<noteq> bandwidth (aw_sender (bs_aw s))" for s'
    using bandwidth_changed_by_answer [OF that] rep lock by simp
  moreover have "s_bws_hasdata (bs_bws s) \<le> 1" using count by (simp split: if_splits)
  ultimately show ?thesis using held go by blast
qed

end
