(* ===== verification/Receive_Ring.thy ===== *)
theory Receive_Ring
  imports Packet_Receiver
begin

text \<open>
  The two threads of \<open>packet_receiver.c\<close>. One stores datagrams in \<open>buffer[256]\<close>, the other
  processes them; each keeps its own 8-bit index and they meet only in the semaphores \<open>bEmpty\<close> and
  \<open>bFull\<close>. The interleaving is a step relation, one step per semaphore operation and per access to a
  slot. The other threads of the program act on the world between any two steps.
  \<open>got\<close> and \<open>handled\<close> record, for the statements only, what was stored and what was processed.
\<close>

section \<open>Model\<close>

definition BUF_N :: nat where "BUF_N = 256"

datatype rloc = RTop | RWait | RRecv | RPost | RStop
datatype ploc = PTop | PWait | PProc | PPost | PStop

record rx_ring =
  rb_buffer :: "IncomingData list"
  bEmpty :: nat
  bFull :: nat
  r_slot :: u8
  p_slot :: u8
  r_at :: rloc
  p_at :: ploc
  kill :: bool
  rx_world :: world
  got :: "IncomingData list"
  handled :: "IncomingData list"

definition next_slot :: "u8 \<Rightarrow> u8" where
  "next_slot c = of_nat ((BUF_N + 1 + unat c) mod BUF_N)"

text \<open>A datagram of at most 1500 bytes overwrites the front of the slot.\<close>

definition store_datagram :: "u8 list \<Rightarrow> sockaddr_in \<Rightarrow> timeval \<Rightarrow> IncomingData \<Rightarrow> IncomingData" where
  "store_datagram bytes from tv old =
     \<lparr>id_from = from, id_fromlen = 16, id_buf = bytes @ drop (length bytes) (id_buf old),
      id_buflen = of_nat (length bytes), id_tv = tv\<rparr>"

definition init_receiver :: "rx_ring \<Rightarrow> rx_ring" where
  "init_receiver s =
     s\<lparr>bEmpty := BUF_N, bFull := 0, r_slot := 0, p_slot := 0, r_at := RTop, p_at := PTop,
       rx_world := reset_in_counters (rx_world s), got := [], handled := []\<rparr>"

text \<open>The static variables when the program starts, and the buffer after its first initialisation.\<close>

definition static_ring :: "world \<Rightarrow> rx_ring" where
  "static_ring w =
     \<lparr>rb_buffer = replicate BUF_N zero_IncomingData, bEmpty = 0, bFull = 0, r_slot = 0, p_slot = 0,
      r_at = RStop, p_at = PStop, kill = False, rx_world = w, got = [], handled = []\<rparr>"

definition init_ring :: "world \<Rightarrow> rx_ring" where
  "init_ring w = init_receiver (static_ring w)"

definition receiver_end_tokens :: "rx_ring \<Rightarrow> rx_ring" where
  "receiver_end_tokens s = s\<lparr>bFull := bFull s + 1, bEmpty := bEmpty s + 1\<rparr>"

inductive receiver_step :: "rx_ring \<Rightarrow> rx_ring \<Rightarrow> bool" where
  recv_enter: "r_at s = RTop \<Longrightarrow> \<not> kill s \<Longrightarrow> receiver_step s (s\<lparr>r_at := RWait\<rparr>)"
| recv_leave: "r_at s = RTop \<Longrightarrow> kill s \<Longrightarrow> receiver_step s (s\<lparr>r_at := RStop\<rparr>)"
| recv_wait: "r_at s = RWait \<Longrightarrow> bEmpty s > 0 \<Longrightarrow> receiver_step s (s\<lparr>bEmpty := bEmpty s - 1, r_at := RRecv\<rparr>)"
| recv_error: "r_at s = RRecv \<Longrightarrow> receiver_step s (s\<lparr>r_at := RStop\<rparr>)"
| recv_store: "r_at s = RRecv \<Longrightarrow> length bytes \<le> BUFSIZE \<Longrightarrow>
    d = store_datagram bytes from tv (rb_buffer s ! unat (r_slot s)) \<Longrightarrow>
    receiver_step s (s\<lparr>rb_buffer := (rb_buffer s)[unat (r_slot s) := d], r_slot := next_slot (r_slot s),
                       got := got s @ [d], r_at := RPost\<rparr>)"
| recv_post: "r_at s = RPost \<Longrightarrow> receiver_step s (s\<lparr>bFull := bFull s + 1, r_at := RTop\<rparr>)"

inductive processor_step :: "rx_ring \<Rightarrow> rx_ring \<Rightarrow> bool" where
  proc_enter: "p_at s = PTop \<Longrightarrow> \<not> kill s \<Longrightarrow> processor_step s (s\<lparr>p_at := PWait\<rparr>)"
| proc_leave: "p_at s = PTop \<Longrightarrow> kill s \<Longrightarrow> processor_step s (s\<lparr>p_at := PStop\<rparr>)"
| proc_wait: "p_at s = PWait \<Longrightarrow> bFull s > 0 \<Longrightarrow> processor_step s (s\<lparr>bFull := bFull s - 1, p_at := PProc\<rparr>)"
| proc_run: "p_at s = PProc \<Longrightarrow> process_packet mem (rb_buffer s ! unat (p_slot s)) (rx_world s) = Ok (d, w) \<Longrightarrow>
    processor_step s (s\<lparr>rb_buffer := (rb_buffer s)[unat (p_slot s) := d], rx_world := w, p_slot := next_slot (p_slot s),
                        handled := handled s @ [rb_buffer s ! unat (p_slot s)], p_at := PPost\<rparr>)"
| proc_post: "p_at s = PPost \<Longrightarrow> processor_step s (s\<lparr>bEmpty := bEmpty s + 1, p_at := PTop\<rparr>)"

inductive ring_step :: "rx_ring \<Rightarrow> rx_ring \<Rightarrow> bool" where
  by_receiver: "receiver_step s s' \<Longrightarrow> ring_step s s'"
| by_processor: "processor_step s s' \<Longrightarrow> ring_step s s'"
| by_others: "ring_step s (s\<lparr>rx_world := w\<rparr>)"
| shut_down: "\<not> kill s \<Longrightarrow> ring_step s (receiver_end_tokens (s\<lparr>kill := True\<rparr>))"

inductive ring_reach :: "world \<Rightarrow> rx_ring \<Rightarrow> bool" for w where
  ring_start: "ring_reach w (init_ring w)"
| ring_next: "ring_reach w s \<Longrightarrow> ring_step s s' \<Longrightarrow> ring_reach w s'"

inductive_simps ring_step_iff: "ring_step s s'"

section \<open>Invariant\<close>

text \<open>
  While the threads run: every slot is free, being filled, full, being emptied or about to be freed; the
  indices count what was stored and processed, and the slots between them hold what was stored.
\<close>

definition stored_slots :: "rx_ring \<Rightarrow> bool" where
  "stored_slots s \<longleftrightarrow> length (rb_buffer s) = BUF_N \<and> r_slot s = of_nat (length (got s)) \<and>
     p_slot s = of_nat (length (handled s)) \<and> handled s = take (length (handled s)) (got s) \<and>
     length (handled s) \<le> length (got s) \<and>
     (\<forall>i. length (handled s) \<le> i \<and> i < length (got s) \<longrightarrow> rb_buffer s ! (i mod BUF_N) = got s ! i)"

definition counted_slots :: "rx_ring \<Rightarrow> bool" where
  "counted_slots s \<longleftrightarrow>
     length (got s) = length (handled s) + bFull s + (if r_at s = RPost then 1 else 0) + (if p_at s = PProc then 1 else 0) \<and>
     bEmpty s + (if r_at s = RRecv \<or> r_at s = RStop then 1 else 0) + length (got s) + (if p_at s = PPost then 1 else 0) =
       BUF_N + length (handled s) \<and> p_at s \<noteq> PStop"

definition ring_inv :: "rx_ring \<Rightarrow> bool" where
  "ring_inv s \<longleftrightarrow> (\<not> kill s \<longrightarrow> stored_slots s \<and> counted_slots s)"

lemma next_slot_eq: "next_slot c = c + 1"
proof -
  have "(257 + unat c) mod 256 = Suc (unat c) mod 256"
    using mod_add_self2 [of "Suc (unat c)" 256] by (simp add: add.commute)
  then have "unat (next_slot c) = unat (c + 1)"
    by (simp add: next_slot_def BUF_N_def unat_of_nat unat_word_ariths)
  then show ?thesis by (simp add: word_unat_eq_iff)
qed

lemma unat_slot: "unat (of_nat n :: u8) = n mod BUF_N"
  by (simp add: unat_of_nat BUF_N_def)

lemma slots_differ:
  assumes "i < j" and "j < i + BUF_N"
  shows "i mod BUF_N \<noteq> j mod BUF_N"
proof
  assume "i mod BUF_N = j mod BUF_N"
  then have "BUF_N dvd j - i" using assms(1) by (metis less_imp_le mod_eq_dvd_iff_nat)
  then have "BUF_N \<le> j - i" using assms(1) by (simp add: dvd_imp_le)
  then show False using assms by simp
qed

lemma stored_slots_store:
  assumes ok: "stored_slots s" and room: "length (got s) < length (handled s) + BUF_N"
  shows "stored_slots (s\<lparr>rb_buffer := (rb_buffer s)[unat (r_slot s) := d], r_slot := next_slot (r_slot s),
    got := got s @ [d], r_at := l\<rparr>)"
proof -
  let ?g = "length (got s)" and ?h = "length (handled s)"
  have slot: "unat (r_slot s) = ?g mod BUF_N" using ok by (simp add: stored_slots_def unat_slot)
  have buf: "length (rb_buffer s) = BUF_N" "0 < BUF_N" using ok by (simp_all add: stored_slots_def BUF_N_def)
  have "(rb_buffer s)[?g mod BUF_N := d] ! (i mod BUF_N) = (got s @ [d]) ! i" if "?h \<le> i" "i < Suc ?g" for i
  proof (cases "i = ?g")
    case True
    then show ?thesis using buf by simp
  next
    case False
    then have i: "i < ?g" using that(2) by simp
    then have "i mod BUF_N \<noteq> ?g mod BUF_N" using slots_differ [OF i] that(1) room by linarith
    then show ?thesis using ok i that(1) by (simp add: stored_slots_def nth_append)
  qed
  then show ?thesis using ok slot by (auto simp: stored_slots_def next_slot_eq)
qed

lemma stored_slots_run:
  assumes ok: "stored_slots s" and full: "length (handled s) < length (got s)" "length (got s) \<le> length (handled s) + BUF_N"
  shows "stored_slots (s\<lparr>rb_buffer := (rb_buffer s)[unat (p_slot s) := d], rx_world := w, p_slot := next_slot (p_slot s),
    handled := handled s @ [rb_buffer s ! unat (p_slot s)], p_at := l\<rparr>)"
proof -
  let ?g = "length (got s)" and ?h = "length (handled s)"
  have slot: "unat (p_slot s) = ?h mod BUF_N" using ok by (simp add: stored_slots_def unat_slot)
  have head: "rb_buffer s ! (?h mod BUF_N) = got s ! ?h" using ok full by (simp add: stored_slots_def)
  have rest: "(rb_buffer s)[?h mod BUF_N := d] ! (i mod BUF_N) = got s ! i" if "Suc ?h \<le> i" "i < ?g" for i
  proof -
    have "?h mod BUF_N \<noteq> i mod BUF_N" using slots_differ [of ?h i] that full(2) by linarith
    then show ?thesis using ok that by (simp add: stored_slots_def)
  qed
  have "handled s @ [got s ! ?h] = take (Suc ?h) (got s)"
    using ok full(1) by (simp add: stored_slots_def take_Suc_conv_app_nth)
  then show ?thesis using ok full(1) slot head rest by (auto simp: stored_slots_def next_slot_eq)
qed

lemma stored_slots_frame [simp]:
  "stored_slots (s\<lparr>r_at := x\<rparr>) = stored_slots s" "stored_slots (s\<lparr>p_at := y\<rparr>) = stored_slots s"
  "stored_slots (s\<lparr>bEmpty := n\<rparr>) = stored_slots s" "stored_slots (s\<lparr>bFull := n\<rparr>) = stored_slots s"
  "stored_slots (s\<lparr>rx_world := w\<rparr>) = stored_slots s"
  by (simp_all add: stored_slots_def)

lemma ring_inv_receiver:
  assumes "receiver_step s s'" and inv: "ring_inv s"
  shows "ring_inv s'"
  using assms(1)
proof cases
  case (recv_store bytes d "from" tv)
  then show ?thesis using inv stored_slots_store [where s = s and d = d and l = RPost]
    by (auto simp: ring_inv_def counted_slots_def)
qed (use inv in \<open>auto simp: ring_inv_def counted_slots_def split: if_splits\<close>)

lemma ring_inv_processor:
  assumes "processor_step s s'" and inv: "ring_inv s"
  shows "ring_inv s'"
  using assms(1)
proof cases
  case (proc_run mem d w)
  then show ?thesis using inv stored_slots_run [where s = s and d = d and w = w and l = PPost]
    by (auto simp: ring_inv_def counted_slots_def)
qed (use inv in \<open>auto simp: ring_inv_def counted_slots_def split: if_splits\<close>)

lemma ring_inv_init: "ring_inv (init_ring w)"
  by (simp add: ring_inv_def stored_slots_def counted_slots_def init_ring_def init_receiver_def static_ring_def)

lemma ring_inv_reach: "ring_reach w s \<Longrightarrow> ring_inv s"
proof (induction rule: ring_reach.induct)
  case ring_start
  show ?case by (rule ring_inv_init)
next
  case (ring_next s s')
  then show ?case
    by (auto simp: ring_step_iff ring_inv_def counted_slots_def receiver_end_tokens_def
        dest: ring_inv_receiver [unfolded ring_inv_def counted_slots_def] ring_inv_processor [unfolded ring_inv_def counted_slots_def])
qed

text \<open>
  C19: the receive buffer is a queue without races. In whatever order the two threads run, until they are told to
  stop, datagrams are processed in the order they arrived and none is lost or changed in between: what was
  processed, followed by what lies in the buffer, is what was received. The threads never touch one slot at
  the same time, at most 256 datagrams wait, and they never wait for each other.
\<close>

theorem receive_buffer_queue:
  assumes "ring_reach w s" and "\<not> kill s"
  shows "got s = handled s @ map (\<lambda>i. rb_buffer s ! (i mod BUF_N)) [length (handled s)..<length (got s)] \<and>
    (r_at s = RRecv \<and> p_at s = PProc \<longrightarrow> r_slot s \<noteq> p_slot s) \<and>
    length (got s) \<le> length (handled s) + BUF_N \<and>
    \<not> (r_at s = RWait \<and> bEmpty s = 0 \<and> p_at s = PWait \<and> bFull s = 0)"
proof -
  have inv: "stored_slots s" "counted_slots s" using ring_inv_reach [OF assms(1)] assms(2) by (simp_all add: ring_inv_def)
  let ?g = "length (got s)" and ?h = "length (handled s)"
  have le: "?h \<le> ?g" and bound: "?g \<le> ?h + BUF_N"
    using inv by (auto simp: stored_slots_def counted_slots_def split: if_splits)
  have "map (\<lambda>i. rb_buffer s ! (i mod BUF_N)) [?h..<?g] = map ((!) (got s)) [?h..<?g]"
    using inv(1) by (intro map_cong) (simp_all add: stored_slots_def)
  also have "\<dots> = drop ?h (got s)" by (rule nth_equalityI) simp_all
  finally have "got s = handled s @ map (\<lambda>i. rb_buffer s ! (i mod BUF_N)) [?h..<?g]"
    using inv(1) by (metis append_take_drop_id stored_slots_def)
  moreover have "r_slot s \<noteq> p_slot s" if "r_at s = RRecv" "p_at s = PProc"
  proof -
    have "?h < ?g" "?g < ?h + BUF_N" using inv(2) that by (simp_all add: counted_slots_def)
    then have "?h mod BUF_N \<noteq> ?g mod BUF_N" by (rule slots_differ)
    then show ?thesis using inv(1) unat_slot by (metis stored_slots_def)
  qed
  moreover have "\<not> (r_at s = RWait \<and> bEmpty s = 0 \<and> p_at s = PWait \<and> bFull s = 0)"
    using inv(2) by (auto simp: counted_slots_def BUF_N_def)
  ultimately show ?thesis using bound by simp
qed

text \<open>
  Stopping: the token that wakes the processing thread stands for no datagram. When the thread was waiting
  for one, it goes on to process the slot it reaches, although all that was received has been processed.
\<close>

lemma shutdown_processes_stale_slot:
  assumes "ring_reach w s" and "\<not> kill s" and "p_at s = PWait" and "bFull s = 0" and "r_at s \<noteq> RPost"
    and "s' = receiver_end_tokens (s\<lparr>kill := True\<rparr>)"
  shows "handled s' = got s' \<and> (\<exists>s''. processor_step s' s'' \<and> p_at s'' = PProc \<and> p_slot s'' = p_slot s')"
proof -
  have inv: "stored_slots s" "counted_slots s" using ring_inv_reach [OF assms(1)] assms(2) by (simp_all add: ring_inv_def)
  have "length (got s) = length (handled s)" using inv(2) assms(3-5) by (simp add: counted_slots_def)
  then have "handled s = got s" using inv(1) by (metis stored_slots_def take_all_iff order_refl)
  moreover have "processor_step s' (s'\<lparr>bFull := bFull s' - 1, p_at := PProc\<rparr>)"
    using assms(3,6) by (intro proc_wait) (simp_all add: receiver_end_tokens_def)
  ultimately show ?thesis using assms(6) by (auto simp: receiver_end_tokens_def)
qed

end
