(* ===== verification/Bora_Api.thy ===== *)
theory Bora_Api
  imports Handshake Bw_Stats Receive_Ring Inet
begin

text \<open>
  The module \<open>bora.c\<close> as its caller sees it: the guards of every call, the conversion of its arguments, the
  operations below it and the value it returns. A call takes the parsed arguments, or \<open>None\<close> when
  \<open>PyArg_ParseTuple\<close> fails. The address parser of the platform is an argument: \<open>inet_pton\<close>, or
  \<open>win32_inet_aton\<close> on Windows. Calls that wait are \<open>Err Blocked\<close> until they can go on.
\<close>

section \<open>State\<close>

record bora =
  b_sock :: int
  b_death :: bool
  b_bws_running :: bool
  b_ring :: rx_ring
  b_puller :: bpuller
  b_bws :: bws

definition AF_INET :: u16 where "AF_INET = 2"

abbreviation b_world :: "bora \<Rightarrow> world" where "b_world b \<equiv> rx_world (b_ring b)"

definition set_world :: "world \<Rightarrow> bora \<Rightarrow> bora" where
  "set_world w b = b\<lparr>b_ring := (b_ring b)\<lparr>rx_world := w\<rparr>\<rparr>"

definition set_ack :: "ack_world \<Rightarrow> bora \<Rightarrow> bora" where
  "set_ack aw b = set_world ((b_world b)\<lparr>w_ack := aw\<rparr>) b"

definition on_sender :: "(sender \<Rightarrow> sender) \<Rightarrow> bora \<Rightarrow> bora" where
  "on_sender f b = set_ack ((w_ack (b_world b))\<lparr>aw_sender := f (aw_sender (w_ack (b_world b)))\<rparr>) b"

definition on_cookies :: "(cookies \<Rightarrow> cookies) \<Rightarrow> bora \<Rightarrow> bora" where
  "on_cookies f b = set_ack ((w_ack (b_world b))\<lparr>aw_cookies := f (aw_cookies (w_ack (b_world b)))\<rparr>) b"

definition set_cache :: "bcache \<Rightarrow> bora \<Rightarrow> bora" where
  "set_cache bc b = set_world ((b_world b)\<lparr>w_cache := bc\<rparr>) b"

definition set_biter :: "biter \<Rightarrow> bora \<Rightarrow> bora" where
  "set_biter bi b = set_world ((b_world b)\<lparr>w_biter := bi\<rparr>) b"

abbreviation api_sender :: "bora \<Rightarrow> sender" where "api_sender b \<equiv> aw_sender (w_ack (b_world b))"
abbreviation api_cookies :: "bora \<Rightarrow> cookies" where "api_cookies b \<equiv> aw_cookies (w_ack (b_world b))"

section \<open>Opening and closing\<close>

text \<open>The initialisations in the order of \<open>listen_on\<close>; the receiver's threads start in the second.\<close>

definition init_modules :: "bora \<Rightarrow> bora" where
  "init_modules b =
     (let b = on_sender init_sender b;
          b = b\<lparr>b_ring := init_receiver (b_ring b)\<rparr>;
          b = set_biter (init_biter (w_biter (b_world b))) b;
          b = b\<lparr>b_puller := init_bpuller\<rparr>;
          b = set_world ((b_world b)\<lparr>w_est := init_recv_stats\<rparr>) b
      in on_cookies init_cksender b)"

text \<open>\<open>new_sock\<close> is what \<open>socket\<close> returns, \<open>bind_ok\<close> whether \<open>bind\<close> succeeds.\<close>

definition listen_on :: "int \<Rightarrow> bool \<Rightarrow> int option \<Rightarrow> bora \<Rightarrow> pycall \<times> bora" where
  "listen_on new_sock bind_ok value b =
     (if b_sock b \<noteq> 0 then (AttributeError ''Sock already open'', b)
      else case value of
        None \<Rightarrow> (AttributeError ''not an int'', b)
      | Some v \<Rightarrow>
          let port = sint (word_of_int v :: u32) in
          if port > 65535 \<or> port < 1
          then (AttributeError ''port has to be bigger than 0 and smaller than 65536'', b)
          else
            let b = b\<lparr>b_sock := new_sock\<rparr> in
            if new_sock = 0 \<or> new_sock = -1 then (AttributeError ''Can't create socket'', b)
            else if \<not> bind_ok then (AttributeError ''Can't bind'', b\<lparr>b_sock := 0\<rparr>)
            else (Return PyNone, init_modules b))"

text \<open>
  The statements of \<open>die\<close> without the joins between them: what the threads do once they are told to stop is
  in their own step relations.
\<close>

definition die :: "bora \<Rightarrow> pycall \<times> bora" where
  "die b =
     (if b_sock b = 0 then (AttributeError ''Sock is not open. Generators not running?'', b)
      else
        let b = on_sender (\<lambda>s. snd (set_nat_port 0 s)) (b\<lparr>b_death := True\<rparr>);
            b = (if b_bws_running b
                 then b\<lparr>b_bws_running := False,
                        b_bws := bws_end_tokens ((b_bws b)\<lparr>s_bws_hasdata := s_bws_hasdata (b_bws b) + 1\<rparr>)\<rparr>
                 else b);
            b = b\<lparr>b_puller := (b_puller b)\<lparr>s_bpuller_full := s_bpuller_full (b_puller b) + 1\<rparr>\<rparr>;
            b = set_biter ((w_biter (b_world b))\<lparr>s_biter_full := s_biter_full (w_biter (b_world b)) + 1\<rparr>) b;
            b = on_sender sender_end_tokens (on_cookies cookie_cleanup b);
            b = b\<lparr>b_ring := receiver_end_tokens (b_ring b)\<rparr>
        in (Return PyTrue, b\<lparr>b_sock := 0\<rparr>))"

section \<open>Sending\<close>

definition not_presentation :: string where "not_presentation = ''DEST IP: Not in presentation format''"

definition bad_port :: "int \<Rightarrow> bool" where
  "bad_port port_num \<longleftrightarrow> port_num > 65535 \<or> port_num < 1"

text \<open>The destination: first the address, then the port; \<open>a0\<close> is what the structure held before.\<close>

definition parse_dest :: "(string \<Rightarrow> u32 option) \<Rightarrow> sockaddr_in \<Rightarrow> string \<Rightarrow> int \<Rightarrow> string + sockaddr_in" where
  "parse_dest pton a0 dest port_num =
     (case pton dest of
        None \<Rightarrow> Inl not_presentation
      | Some addr \<Rightarrow>
          if bad_port port_num then Inl ''Port number not allowed''
          else Inr (a0\<lparr>sin_family := AF_INET, sin_addr := addr, sin_port := htons (word_of_int port_num)\<rparr>))"

definition send_block :: "(string \<Rightarrow> u32 option) \<Rightarrow> (nat \<Rightarrow> SendData) \<Rightarrow> (int \<times> int \<times> string \<times> int) option \<Rightarrow> bora \<Rightarrow> (pycall \<times> bora) res" where
  "send_block pton mem args b =
     (if b_death b then Ok (Return PyNone, b)
      else if b_sock b = 0 then Ok (AttributeError ''Sock not open'', b)
      else case args of
        None \<Rightarrow> Ok (AttributeError ''Wrong arguments'', b)
      | Some (sid, bid, dest, port_num) \<Rightarrow>
          (case parse_dest pton zero_addr dest port_num of
             Inl msg \<Rightarrow> Ok (AttributeError msg, b)
           | Inr destaddr \<Rightarrow>
               bind_res (sendblock mem (word_of_int sid) (word_of_int bid) destaddr (w_cache (b_world b), api_sender b))
                 (\<lambda>(retval, bc, s). Ok (Return (if retval \<noteq> 0 then PyTrue else PyNone), on_sender (\<lambda>_. s) (set_cache bc b)))))"

text \<open>A raw message: a zero byte, then the text. \<open>mem\<close> is the uninitialised local variable.\<close>

definition raw_message :: "SendData \<Rightarrow> u8 list \<Rightarrow> sockaddr_in \<Rightarrow> SendData" where
  "raw_message mem text dest =
     mem\<lparr>sd_data := patch ((sd_data mem)[0 := BLK_EMPTY]) 1 text, sd_length := of_nat (length text) + 1, sd_to := dest\<rparr>"

definition send_raw :: "(string \<Rightarrow> u32 option) \<Rightarrow> SendData \<Rightarrow> (u8 list \<times> string \<times> int) option \<Rightarrow> bora \<Rightarrow> pycall \<times> bora" where
  "send_raw pton mem args b =
     (if b_death b then (Return PyNone, b)
      else if b_sock b = 0 then (AttributeError ''Sock not open'', b)
      else case args of
        None \<Rightarrow> (AttributeError ''Wrong arguments'', b)
      | Some (text, dest, port_num) \<Rightarrow>
          if length text > 1400 then (AttributeError ''Message too long to fit one UDP packet'', b)
          else (case parse_dest pton (sd_to mem) dest port_num of
             Inl msg \<Rightarrow> (AttributeError msg, b)
           | Inr to \<Rightarrow>
               let message = raw_message mem text to
               in (Return (PyStr (take (unat (sd_length message)) (sd_data message))), on_sender (send_data message) b)))"

section \<open>The block cache\<close>

definition add_block :: "(int \<times> int \<times> u8 list) option \<Rightarrow> bora \<Rightarrow> (pycall \<times> bora) res" where
  "add_block args b =
     (if b_death b then Ok (Return PyNone, b)
      else case args of
        None \<Rightarrow> Ok (AttributeError ''Wrong arguments'', b)
      | Some (sid, bid, data) \<Rightarrow>
          bind_res (addblock (word_of_int sid) (word_of_int bid) \<lparr>bd_data = data, bd_length = of_nat (length data)\<rparr> (w_cache (b_world b)))
            (\<lambda>(r, bc). Ok (Return (if r \<noteq> 0 then PyTrue else PyNone), set_cache bc b)))"

definition del_block :: "(int \<times> int) option \<Rightarrow> bora \<Rightarrow> pycall \<times> bora" where
  "del_block args b =
     (if b_death b then (Return PyNone, b)
      else case args of
        None \<Rightarrow> (AttributeError ''Wrong arguments'', b)
      | Some (sid, bid) \<Rightarrow>
          (case deleteblock (word_of_int sid) (word_of_int bid) (w_cache (b_world b)) of
             (retval, bc) \<Rightarrow> (Return (if retval \<noteq> 0 then PyTrue else PyNone), set_cache bc b)))"

definition id_dict :: "BlockID \<Rightarrow> pyval" where
  "id_dict i = PyDict [(''sid'', PyInt (uint (bi_streamid i))), (''bid'', PyInt (sint (bi_blockid i)))]"

definition incomplete_block_list :: "bora \<Rightarrow> pycall res" where
  "incomplete_block_list b =
     (if b_death b then Ok (Return PyNone)
      else map_res (\<lambda>l. Return (PyList (map id_dict l))) (get_incomplete_block_list (w_cache (b_world b))))"

definition complete_block_list :: "bora \<Rightarrow> pycall res" where
  "complete_block_list b =
     (if b_death b then Ok (Return PyNone)
      else map_res (\<lambda>l. Return (PyList (map id_dict l))) (get_complete_block_list (w_cache (b_world b))))"

definition get_block_content :: "(int \<times> int) option \<Rightarrow> bora \<Rightarrow> (pycall \<times> bora) res" where
  "get_block_content args b =
     (if b_death b then Ok (Return PyNone, b)
      else case args of
        None \<Rightarrow> Ok (AttributeError ''Wrong arguments'', b)
      | Some (sid, bid) \<Rightarrow>
          bind_res (get_block_data (word_of_int sid) (word_of_int bid) (w_cache (b_world b))) (\<lambda>(bdata, bc).
            Ok (Return (case bdata of None \<Rightarrow> PyNone | Some d \<Rightarrow> PyStr (take (unat (bd_length d)) (bd_data d))), set_cache bc b)))"

section \<open>Statistics\<close>

definition in_stats_dict :: "u64 list \<Rightarrow> pyval" where
  "in_stats_dict st = PyDict
     [(''I_PKG_COUNTER'', py_i (st ! I_PKG_COUNTER)), (''I_DATA_COUNTER'', py_i (st ! I_DATA_COUNTER)),
      (''I_ACK_DATA_COUNTER'', py_i (st ! I_ACK_DATA_COUNTER)), (''I_ACK_COUNTER'', py_i (st ! I_ACK_COUNTER)),
      (''I_GARBAGE'', py_i (st ! I_GARBAGE)), (''I_DUPE_COUNTER'', py_i (st ! I_DUPE_COUNTER)),
      (''I_DUPE_DATA_COUNTER'', py_i (st ! I_DUPE_DATA_COUNTER)), (''I_BAD_ACK_COUNTER'', py_i (st ! I_BAD_ACK_COUNTER))]"

text \<open>
  The argument is \<open>None\<close> when \<open>PyInt_AsLong\<close> cannot make a \<open>long\<close> of the value: it then sets an exception and returns -1,
  and the two methods go on with that.
\<close>

definition as_long :: "int option \<Rightarrow> int" where
  "as_long value = (case value of None \<Rightarrow> - 1 | Some v \<Rightarrow> v)"

definition with_pending :: "int option \<Rightarrow> pyval \<Rightarrow> pycall" where
  "with_pending value v = (case value of None \<Rightarrow> ReturnPending v | Some _ \<Rightarrow> Return v)"

definition get_in_stats :: "int option \<Rightarrow> bora \<Rightarrow> pycall \<times> bora" where
  "get_in_stats value b =
     (if b_death b then (Return PyNone, b)
      else let rst = sint (word_of_int (as_long value) :: u32) in
           (with_pending value (in_stats_dict (w_stats_r (b_world b))),
            if rst \<noteq> 0 then set_world (reset_in_counters (b_world b)) b else b))"

definition get_out_stats :: "int option \<Rightarrow> bora \<Rightarrow> pycall \<times> bora" where
  "get_out_stats value b =
     (if b_death b then (Return PyNone, b)
      else let rst = sint (word_of_int (as_long value) :: u32) in
           (with_pending value (out_stats_dict (api_sender b)),
            if rst \<noteq> 0 then set_world (reset_in_counters (b_world b)) b else b))"

text \<open>\<open>(unsigned long int) b->bw\<close>: towards zero; out of range, infinite or not a number it is undefined.\<close>

fun double_to_ulong :: "double \<Rightarrow> int res" where
  "double_to_ulong (Fin m e) =
     (let v = (if 0 \<le> e then m * 2 ^ nat e else sgn m * (\<bar>m\<bar> div 2 ^ nat (- e))) in
      if 0 \<le> v \<and> v < 2 ^ 64 then Ok v else Err BadConversion)"
| "double_to_ulong _ = Err BadConversion"

primrec map_all :: "('a \<Rightarrow> 'b res) \<Rightarrow> 'a list \<Rightarrow> 'b list res" where
  "map_all f [] = Ok []"
| "map_all f (x # xs) = bind_res (f x) (\<lambda>y. map_res (\<lambda>ys. y # ys) (map_all f xs))"

definition bw_dict :: "BW \<Rightarrow> pyval res" where
  "bw_dict bw = map_res (\<lambda>n. PyDict [(''bw'', PyInt n), (''tv'', py_d (bw_tv bw))]) (double_to_ulong (bw_bw bw))"

definition estimation_dict :: "BWEstimation \<Rightarrow> pyval res" where
  "estimation_dict e =
     map_res (\<lambda>l. PyDict [(''ip'', py_host (be_from e)), (''port'', py_port (be_from e)), (''list'', PyList l)])
       (map_all bw_dict (be_bandwidth e))"

definition get_bw_stats :: "bora \<Rightarrow> (pycall \<times> bora) res" where
  "get_bw_stats b =
     (if b_death b then Ok (Return PyNone, b)
      else if b_sock b = 0 then Ok (AttributeError ''Sock not open'', b)
      else case fetch_bw_estimations (w_est (b_world b)) of (bwlist, est) \<Rightarrow>
        map_res (\<lambda>l. (Return (PyList l), set_world ((b_world b)\<lparr>w_est := est\<rparr>) b)) (map_all estimation_dict bwlist))"

definition get_que_size :: "bora \<Rightarrow> pycall" where
  "get_que_size b =
     (if b_sock b = 0 then AttributeError ''Sock not open'' else Return (PyInt (get_send_size (api_sender b))))"

section \<open>Bandwidth messages\<close>

definition bwmsg_dict :: "BWMsg \<Rightarrow> pyval" where
  "bwmsg_dict m = PyDict [(''ip'', py_host (bm_addr m)), (''port'', py_port (bm_addr m)), (''bw'', PyInt (uint (bm_bw m))),
     (''tv'', py_d (bm_recv_time m))]"

definition get_bw_msg :: "bora \<Rightarrow> pycall \<times> bora" where
  "get_bw_msg b =
     (if b_death b then (Return PyNone, b)
      else if b_sock b = 0 then (AttributeError ''Sock not open'', b)
      else case get_bwmsg_list (w_bwm (b_world b)) of (bwlist, l) \<Rightarrow>
        (Return (PyList (map bwmsg_dict bwlist)), set_world ((b_world b)\<lparr>w_bwm := l\<rparr>) b))"

text \<open>One entry of the list; an \<open>ip\<close> that is no string makes \<open>inet_pton\<close> read a null pointer.\<close>

definition send_bw_entry :: "(string \<Rightarrow> u32 option) \<Rightarrow> SendData \<Rightarrow> sockaddr_in \<Rightarrow> pyval \<Rightarrow> bora \<Rightarrow> (pycall \<times> bora) res" where
  "send_bw_entry pton mem a0 entry b =
     (case entry of
        PyDict d \<Rightarrow>
          (case (map_of d ''ip'', map_of d ''port'', map_of d ''bw'') of
             (Some ip, Some port, Some bw) \<Rightarrow>
               (case ip of
                  PyStr s \<Rightarrow>
                    (case pton (map (char_of \<circ> unat) (takeWhile (\<lambda>c. c \<noteq> 0) s)) of
                       None \<Rightarrow> Ok (AttributeError not_presentation, b)
                     | Some addr \<Rightarrow>
                         (case py_int port of
                            None \<Rightarrow> Ok (AttributeError ''PORT is not INT'', b)
                          | Some p \<Rightarrow>
                              (case py_int bw of
                                 None \<Rightarrow> Ok (AttributeError ''BW is not INT'', b)
                               | Some n \<Rightarrow>
                                   let host = a0\<lparr>sin_family := AF_INET, sin_addr := addr, sin_port := htons (word_of_int p)\<rparr>
                                   in Ok (Return PyTrue, on_sender (send_bwmsg mem host (word_of_int n)) b))))
                | _ \<Rightarrow> Err OutOfBounds)
           | _ \<Rightarrow> Ok (AttributeError ''bad dict entries'', b))
      | _ \<Rightarrow> Ok (AttributeError ''List has no-dict objects'', b))"

text \<open>The loop over the list returns in its first round.\<close>

definition send_bw_msg :: "(string \<Rightarrow> u32 option) \<Rightarrow> SendData \<Rightarrow> sockaddr_in \<Rightarrow> pyval option \<Rightarrow> bora \<Rightarrow> (pycall \<times> bora) res" where
  "send_bw_msg pton mem a0 args b =
     (if b_death b then Ok (Return PyNone, b)
      else if b_sock b = 0 then Ok (AttributeError ''Sock not open'', b)
      else case args of
        None \<Rightarrow> Ok (AttributeError ''Wrong arguments'', b)
      | Some (PyList []) \<Rightarrow> Ok (Return PyNone, b)
      | Some (PyList (entry # rest)) \<Rightarrow> send_bw_entry pton mem a0 entry b
      | Some _ \<Rightarrow> Ok (AttributeError ''First argument is not a list'', b))"

section \<open>Bandwidth, cookies and the port\<close>

definition bws_set :: "timeval \<Rightarrow> (int \<times> int) option \<Rightarrow> bora \<Rightarrow> (pycall \<times> bora) res" where
  "bws_set now args b =
     (if b_death b then Ok (Return PyNone, b)
      else case args of
        None \<Rightarrow> Ok (AttributeError ''Wrong arguments'', b)
      | Some (rst, bws_time) \<Rightarrow>
          map_res (\<lambda>(s, w). (Return PyNone, set_ack w (b\<lparr>b_bws := s\<rparr>)))
            (bws_set_call now rst bws_time (b_bws b, w_ack (b_world b))))"

text \<open>
  \<open>send_cookie\<close> up to its wait for the answers, and what it does when they are there or the second is over.
  Both addresses are parsed before either is judged, then both ports.
\<close>

definition send_cookie_begin :: "(string \<Rightarrow> u32 option) \<Rightarrow> (string \<times> int \<times> string \<times> int) option \<Rightarrow> bora \<Rightarrow> (pycall option \<times> bora) res" where
  "send_cookie_begin pton args b =
     (if b_sock b = 0 then Ok (Some (AttributeError ''Sock not open''), b)
      else case args of
        None \<Rightarrow> Ok (Some (AttributeError ''Wrong arguments''), b)
      | Some (dest1, port1, dest2, port2) \<Rightarrow>
          (case (pton dest1, pton dest2) of
             (Some a1, Some a2) \<Rightarrow>
               if bad_port port1 \<or> bad_port port2 then Ok (Some (AttributeError ''Port number not allowed''), b)
               else
                 map_res (\<lambda>(r, ck). (None, on_cookies (\<lambda>_. ck) b))
                   (send_cookie (zero_addr\<lparr>sin_family := AF_INET, sin_addr := a1, sin_port := htons (word_of_int port1)\<rparr>)
                                (zero_addr\<lparr>sin_family := AF_INET, sin_addr := a2, sin_port := htons (word_of_int port2)\<rparr>)
                                (api_cookies b))
           | _ \<Rightarrow> Ok (Some (AttributeError not_presentation), b)))"

definition cookie_dict :: "CookieAck \<Rightarrow> pyval" where
  "cookie_dict r = PyDict [(''host'', py_host (ca_addr r)), (''port'', py_port (ca_addr r)), (''sent'', py_d (ca_sent r)),
     (''RTT'', py_usec (ca_RTT r)), (''STT'', py_usec (ca_STT r)), (''seq'', PyInt (uint (ca_seq r))),
     (''sleep'', PyInt (sint (ca_sleeptime r)))]"

definition send_cookie_end :: "bool \<Rightarrow> bora \<Rightarrow> (pycall \<times> bora) res" where
  "send_cookie_end expired b =
     (if 0 < ckEmpty (api_cookies b) then Ok (Return (PyList (map cookie_dict (ckResult (api_cookies b)))), b)
      else if expired then Ok (Return (PyList []), on_cookies cookie_cleanup b)
      else Err Blocked)"

definition bora_set_nat_port :: "int option \<Rightarrow> bora \<Rightarrow> pycall \<times> bora" where
  "bora_set_nat_port args b =
     (if b_sock b = 0 then (AttributeError ''Sock not open'', b)
      else case args of
        None \<Rightarrow> (AttributeError ''Wrong arguments'', b)
      | Some port_num \<Rightarrow>
          if port_num < 0 \<or> port_num > 65535 then (AttributeError ''Port out of range'', b)
          else (Return PyNone, on_sender (\<lambda>s. snd (set_nat_port (word_of_int port_num) s)) b))"

section \<open>Iterators\<close>

definition bora_bpuller :: "bora \<Rightarrow> pycall option" where
  "bora_bpuller b = (if b_sock b = 0 then Some (AttributeError ''Sock not open'') else None)"

definition bora_biter :: "bora \<Rightarrow> pycall option" where
  "bora_biter b = (if b_sock b = 0 then Some (AttributeError ''Sock not open'') else None)"

definition bwiter_new :: "int option \<Rightarrow> bora \<Rightarrow> pycall option \<times> bora" where
  "bwiter_new value b =
     (if b_sock b = 0 then (Some (AttributeError ''Sock not open''), b)
      else case value of
        None \<Rightarrow> (Some (AttributeError ''not an int''), b)
      | Some v \<Rightarrow> (None, b\<lparr>b_bws := init_bws (sint (word_of_int v :: u32)), b_bws_running := True\<rparr>))"

text \<open>The part of each \<open>iternext\<close> after its wait, when the module may have been told to die meanwhile.\<close>

definition BPuller_resume :: "bora \<Rightarrow> (pycall \<times> bora) res" where
  "BPuller_resume b =
     map_res (\<lambda>bp. (if b_death b then StopIteration else Return (PyInt 1), b\<lparr>b_puller := bp\<rparr>)) (bpuller_next (b_puller b))"

definition BPuller_iternext :: "bora \<Rightarrow> (pycall \<times> bora) res" where
  "BPuller_iternext b = (if b_death b then Ok (StopIteration, b) else BPuller_resume b)"

definition incoming_dict :: "IncomingData \<Rightarrow> pyval" where
  "incoming_dict d = PyDict [(''host'', py_host (id_from d)), (''port'', py_port (id_from d)),
     (''message'', PyStr (bytes_at 1 (unat (id_buflen d) - 1) (id_buf d))), (''ts'', py_d (id_tv d))]"

definition BIter_resume :: "bora \<Rightarrow> (pycall \<times> bora) res" where
  "BIter_resume b =
     map_res (\<lambda>((s, n, d), bi).
         (if b_death b then StopIteration
          else Return (PyList (PyInt s # PyInt n # (case d of None \<Rightarrow> [] | Some d \<Rightarrow> [incoming_dict d]))),
          set_biter bi b))
       (biter_next (w_biter (b_world b)))"

definition BIter_iternext :: "bora \<Rightarrow> (pycall \<times> bora) res" where
  "BIter_iternext b = (if b_death b then Ok (StopIteration, b) else BIter_resume b)"

definition BWIter_resume :: "bora \<Rightarrow> (pycall \<times> bora) res" where
  "BWIter_resume b =
     (if s_bws_hasdata (b_bws b) = 0 then Err Blocked
      else
        let b = b\<lparr>b_bws := (b_bws b)\<lparr>s_bws_hasdata := s_bws_hasdata (b_bws b) - 1\<rparr>\<rparr> in
        if b_death b then Ok (StopIteration, b)
        else map_res (\<lambda>(report, w). (Return report, set_ack w b)) (bws_report (w_ack (b_world b))))"

definition BWIter_iternext :: "bora \<Rightarrow> (pycall \<times> bora) res" where
  "BWIter_iternext b = (if b_death b then Ok (StopIteration, b) else BWIter_resume b)"

section \<open>Frame facts\<close>

lemma set_world_simps [simp]:
  "b_ring (set_world w b) = (b_ring b)\<lparr>rx_world := w\<rparr>" "b_sock (set_world w b) = b_sock b"
  "b_death (set_world w b) = b_death b" "b_puller (set_world w b) = b_puller b" "b_bws (set_world w b) = b_bws b"
  "b_bws_running (set_world w b) = b_bws_running b"
  by (simp_all add: set_world_def)

lemmas api_state_defs = on_sender_def on_cookies_def set_cache_def set_biter_def set_ack_def

section \<open>Destinations\<close>

context address_format
begin

text \<open>A host and port reported by the module, given back to it, name the peer they came from.\<close>

lemma parse_reported:
  assumes "sin_port h \<noteq> 0"
  shows "parse_dest pton a0 (inet_ntop (sin_addr h)) (uint (ntohs (sin_port h))) =
    Inr (a0\<lparr>sin_family := AF_INET, sin_addr := sin_addr h, sin_port := sin_port h\<rparr>)"
proof -
  have "htons 0 = 0" by (simp add: htons_def bytes_of_u16_def u16_of_bytes_def)
  then have "ntohs (sin_port h) \<noteq> 0" using assms by (metis htons_htons)
  then have "0 < uint (ntohs (sin_port h))" by (metis uint_0_iff uint_ge_0 order_le_less)
  moreover have "uint (ntohs (sin_port h)) < 65536" using uint_lt2p [of "ntohs (sin_port h)"] by simp
  ultimately show ?thesis by (simp add: parse_dest_def pton_ntop bad_port_def)
qed

end

section \<open>Raw messages from end to end\<close>

lemma raw_message_fields:
  assumes "wf_sd mem" and "length text \<le> 1400" and "m = raw_message mem text to"
  shows "fits m" "sd_data m ! 0 = BLK_EMPTY" "unat (sd_length m) = Suc (length text)"
    "take (Suc (length text)) (sd_data m) = BLK_EMPTY # text" "sd_to m = to"
proof -
  have len: "length (sd_data mem) = 1500" using assms(1) by (simp add: wf_sd_def SENDBUF_def)
  have "unat (of_nat (Suc (length text)) :: u32) = Suc (length text)"
    unfolding unat_of_nat using assms(2) by simp
  then have "unat (of_nat (length text) + 1 :: u32) = Suc (length text)" by (simp add: add.commute)
  then show l: "unat (sd_length m) = Suc (length text)" by (simp add: assms(3) raw_message_def)
  obtain x xs where x: "sd_data mem = x # xs" using len by (cases "sd_data mem") auto
  have d: "sd_data m = BLK_EMPTY # text @ drop (length text) xs"
    using x len assms(2) by (simp add: assms(3) raw_message_def patch_def)
  then show "sd_data m ! 0 = BLK_EMPTY" "take (Suc (length text)) (sd_data m) = BLK_EMPTY # text" by simp_all
  show "sd_to m = to" by (simp add: assms(3) raw_message_def)
  show "fits m" using d x len l assms(2) by (simp add: fits_def wf_sd_def SENDBUF_def)
qed

lemma biter_next_raw:
  assumes "biter_ok bi" and "biter_contents bi = Raw d # es"
  obtains bi' where "biter_next bi = Ok ((- 1, - 1, Some d), bi')" "biter_ok bi'" "biter_contents bi' = es"
proof -
  have full: "0 < s_biter_full bi" using biter.fill_contents [OF assms(1)] assms(2) by simp
  have g: "fst (biter_get bi) = Raw d" "biter_contents (snd (biter_get bi)) = es" "biter_ok (snd (biter_get bi))"
    using biter_get_contents [OF assms(1) full] assms(2) by simp_all
  obtain s b o' bi' where l: "biter_load bi = ((s, b, o'), bi')" by (metis prod_cases3 surj_pair)
  have "o' = Some d" using g(1) l by (cases o') (simp_all add: biter_get_def)
  moreover have "s = - 1" "b = - 1" using l calculation by (auto simp: biter_load_def Let_def split: if_splits)
  ultimately show thesis using that [of bi'] g l full by (simp add: biter_get_def biter_next_def)
qed

text \<open>
  Sent as second of a back-to-back pair a raw message gets the consecutive mark, so it is no longer raw for the receiver: it loses what
  follows the text as the port trailer, none of the packet kinds fits, and it disappears.
\<close>

lemma raw_second_lost:
  assumes "carries d (wire_of True n port m)" and "fits m" and "sd_data m ! 0 = BLK_EMPTY"
  shows "\<exists>d' w'. process_packet mem d w = Ok (d', w') \<and> w_ack w' = w_ack w \<and> w_cache w' = w_cache w \<and> w_biter w' = w_biter w \<and>
    w_est w' = w_est w \<and> w_bwm w' = w_bwm w"
proof -
  let ?l = "unat (sd_length m)"
  have m: "length (sd_data m) = 1500" "1 \<le> ?l" "?l \<le> 1496" using assms(2) by (simp_all add: fits_def wf_sd_def SENDBUF_def)
  have f: "\<not> has BLOCK_CONSECUTIVE NEED_ACK" "\<not> has BLOCK_CONSECUTIVE BLK_ACK" "\<not> has BLOCK_CONSECUTIVE BW_MSG"
    "\<not> has BLOCK_CONSECUTIVE BLK_BLOCK" "BLOCK_CONSECUTIVE \<noteq> 0" by (simp_all add: has_def packet_defs)
  have w: "wire_of True n port m = BLOCK_CONSECUTIVE # tl (take ?l (sd_data m)) @ bytes_of_u16 port"
    using assms(3) f(5) by (simp add: wire_of_def has_def BLK_EMPTY_def Let_def)
  have b: "length (id_buf d) = 1500" "unat (id_buflen d) = ?l + 2" "id_buf d ! 0 = BLOCK_CONSECUTIVE"
    using assms(1) m nth_wire [OF assms(1), of 0] by (simp_all add: carries_def BUFSIZE_def w)
  have n: "unat (id_buflen d - 2) = ?l" using b(2) by (simp add: unat_minus_2)
  have "\<exists>d1. rx_port (d, w) = Ok (d1, w) \<and> id_buf d1 = id_buf d"
    using b(1,3) f(5) n m(3) by (cases "id_buf d ! ?l = 0") (simp_all add: rx_port_def Let_def)
  then obtain d1 where p: "rx_port (d, w) = Ok (d1, w)" "id_buf d1 = id_buf d" by blast
  have rest: "rx_need_ack mem (d1, w) = Ok (d1, w)" "rx_ack (d1, w) = Ok (d1, w)" "rx_bw (d1, w) = Ok (d1, w)" "rx_block mem (d1, w) = Ok (d1, w)"
    using p(2) b(3) f by (simp_all add: rx_need_ack_def rx_ack_def rx_bw_def rx_block_def)
  have "1 < id_buflen d" using b(2) m(2) by (simp add: word_less_nat_alt)
  then have "process_packet mem d w = Ok (d1, count_in I_PKG_COUNTER 1 (count_in I_DATA_COUNTER (id_buflen d1) w))"
    using p rest by (simp add: process_packet_def)
  then show ?thesis by (auto simp: count_in_def)
qed

text \<open>
  C17: a raw message that is sent on its own arrives as it was sent. On an open module \<open>send_raw\<close> files one packet for the printed destination and
  returns it with its leading zero byte; sent on its own, that is also the datagram. When this datagram is processed by a peer whose iterator has read
  everything, the iterator's next value is the message with the address it came from, and that address, given back to
  the module, names the sender again. A message of fewer than three bytes is dropped without a trace. A message that leaves as second of a back-to-back
  pair, behind a block's fragment for the same host, does not arrive: its datagram has the consecutive mark (4) in place of the zero
  byte and the port trailer behind the text, and the receiver does nothing with it.
\<close>

theorem raw_message_roundtrip:
  assumes "b_sock a \<noteq> 0" and "\<not> b_death a" and "wf_sd mem" and "length text \<le> 1400" and "\<not> bad_port port_num"
    and "\<not> b_death r" and "biter_ok (w_biter (b_world r))" and "biter_contents (w_biter (b_world r)) = []"
  shows "\<exists>m. send_raw win32_inet_aton mem (Some (text, inet_ntop addr, port_num)) a = (Return (PyStr (0 # text)), on_sender (send_data m) a) \<and>
    sin_addr (sd_to m) = addr \<and> sin_port (sd_to m) = htons (word_of_int port_num) \<and> (\<forall>n port. wire_of False n port m = 0 # text) \<and>
    (\<forall>n port. wire_of True n port m = 4 # text @ bytes_of_u16 port) \<and>
    (\<forall>d n port. carries d (wire_of True n port m) \<longrightarrow>
      (\<exists>d' w'. process_packet rmem d (b_world r) = Ok (d', w') \<and> w_ack w' = w_ack (b_world r) \<and> w_cache w' = w_cache (b_world r) \<and>
        w_biter w' = w_biter (b_world r) \<and> w_est w' = w_est (b_world r) \<and> w_bwm w' = w_bwm (b_world r))) \<and>
    (\<forall>d n port. carries d (wire_of False n port m) \<longrightarrow>
      (\<exists>d' w'. process_packet rmem d (b_world r) = Ok (d', w') \<and> w_ack w' = w_ack (b_world r) \<and> w_cache w' = w_cache (b_world r) \<and>
        (if 3 \<le> length text
         then \<exists>r'. BIter_iternext (set_world w' r) = Ok (Return (PyList [PyInt (- 1), PyInt (- 1),
             PyDict [(''host'', py_host (id_from d)), (''port'', py_port (id_from d)), (''message'', PyStr text), (''ts'', py_d (id_tv d))]]), r') \<and>
             biter_contents (w_biter (b_world r')) = []
         else biter_contents (w_biter w') = [] \<and> BIter_iternext (set_world w' r) = Err Blocked))) \<and>
    (sin_port h \<noteq> 0 \<longrightarrow> parse_dest win32_inet_aton a0 (inet_ntop (sin_addr h)) (uint (ntohs (sin_port h))) =
      Inr (a0\<lparr>sin_family := AF_INET, sin_addr := sin_addr h, sin_port := sin_port h\<rparr>))"
proof -
  let ?to = "(sd_to mem)\<lparr>sin_family := AF_INET, sin_addr := addr, sin_port := htons (word_of_int port_num)\<rparr>"
  let ?m = "raw_message mem text ?to"
  note m = raw_message_fields [OF assms(3,4) refl, of ?to]
  have send: "send_raw win32_inet_aton mem (Some (text, inet_ntop addr, port_num)) a = (Return (PyStr (0 # text)), on_sender (send_data ?m) a)"
    using assms(1,2,4,5) m(3,4) by (simp add: send_raw_def parse_dest_def aton.pton_ntop BLK_EMPTY_def)
  have arrive: "\<exists>d' w'. process_packet rmem d (b_world r) = Ok (d', w') \<and> w_ack w' = w_ack (b_world r) \<and> w_cache w' = w_cache (b_world r) \<and>
      (if 3 \<le> length text
       then \<exists>r'. BIter_iternext (set_world w' r) = Ok (Return (PyList [PyInt (- 1), PyInt (- 1),
           PyDict [(''host'', py_host (id_from d)), (''port'', py_port (id_from d)), (''message'', PyStr text), (''ts'', py_d (id_tv d))]]), r') \<and>
           biter_contents (w_biter (b_world r')) = []
       else biter_contents (w_biter w') = [] \<and> BIter_iternext (set_world w' r) = Err Blocked)"
    if c: "carries d (wire_of False n port ?m)" for d n port
  proof -
    note rd = raw_delivered [OF c m(1,2) assms(7)]
    have z: "length (biter_contents (w_biter (b_world r))) < 20" using assms(8) by simp
    obtain d' w' where p: "process_packet rmem d (b_world r) = Ok (d', w')" "w_ack w' = w_ack (b_world r)" "w_cache w' = w_cache (b_world r)"
      "biter_ok (w_biter w')" "biter_contents (w_biter w') = (if 3 \<le> length text then [Raw d] else [])"
      using rd(3) [OF z, of rmem] m(3) assms(8) by fastforce
    have t: "take (Suc (length text)) (id_buf d) = 0 # text" and bl: "unat (id_buflen d) = Suc (length text)"
      using rd(1,2) [OF z] m(3,4) by (simp_all add: BLK_EMPTY_def)
    have "take (length text) (drop 1 (id_buf d)) = drop 1 (take (Suc (length text)) (id_buf d))" by (simp add: drop_take)
    then have msg: "bytes_at 1 (unat (id_buflen d) - 1) (id_buf d) = text" using t bl by (simp add: bytes_at_def)
    show ?thesis
    proof (cases "3 \<le> length text")
      case True
      then have c1: "biter_contents (w_biter w') = [Raw d]" using p(5) by simp
      obtain bi where bi: "biter_next (w_biter w') = Ok ((- 1, - 1, Some d), bi)" "biter_contents bi = []"
        by (rule biter_next_raw [OF p(4) c1])
      have "BIter_iternext (set_world w' r) = Ok (Return (PyList [PyInt (- 1), PyInt (- 1), incoming_dict d]), set_biter bi (set_world w' r))"
        using bi(1) assms(6) by (simp add: BIter_iternext_def BIter_resume_def)
      then show ?thesis using p(1-3) True bi(2) msg by (simp add: incoming_dict_def set_biter_def)
    next
      case False
      then have e: "biter_contents (w_biter w') = []" using p(5) by simp
      then have "s_biter_full (w_biter w') = 0" using biter.fill_contents [OF p(4)] by simp
      then have "BIter_iternext (set_world w' r) = Err Blocked" using assms(6) by (simp add: BIter_iternext_def BIter_resume_def biter_next_def)
      then show ?thesis using p(1-3) False e by simp
    qed
  qed
  have to: "sin_addr (sd_to ?m) = addr" "sin_port (sd_to ?m) = htons (word_of_int port_num)" by (simp_all add: m(5))
  have wire: "\<forall>n port. wire_of False n port ?m = 0 # text" "\<forall>n port. wire_of True n port ?m = 4 # text @ bytes_of_u16 port"
    using m(2-4) by (simp_all add: wire_of_def has_def BLK_EMPTY_def BLOCK_CONSECUTIVE_def)
  show ?thesis
    by (rule exI [of _ ?m], intro conjI, rule send, rule to(1), rule to(2), rule wire(1), rule wire(2), intro allI impI, erule raw_second_lost [OF _ m(1,2)],
        intro allI impI, erule arrive,
        intro impI, erule aton.parse_reported)
qed

end
