(* ===== verification/Bora_System.thy ===== *)
theory Bora_System
  imports Bora_Api
begin

text \<open>
  The module as a whole: the method table of \<open>bora.c\<close> as one function, and the program as a step
  relation in which calls of the interpreter, the two halves of a round of the sending thread (before and after its pause), processed
  datagrams and requests for blocks follow each other in any order. Calls that wait in the middle (\<open>send_cookie\<close> and the
  iterators) are split at the wait, so that anything can happen meanwhile.
\<close>

section \<open>The method table\<close>

datatype bora_method =
    M_biter
  | M_bpuller
  | M_listen_on "int option"
  | M_get_in_stats "int option"
  | M_get_out_stats "int option"
  | M_get_bw_stats
  | M_die
  | M_send_block "(int \<times> int \<times> string \<times> int) option"
  | M_send_raw "(u8 list \<times> string \<times> int) option"
  | M_add_block "(int \<times> int \<times> u8 list) option"
  | M_del_block "(int \<times> int) option"
  | M_incomplete_block_list
  | M_complete_block_list
  | M_get_block_content "(int \<times> int) option"
  | M_bwsiter "int option"
  | M_bws_set "(int \<times> int) option"
  | M_send_bw_msg "pyval option"
  | M_get_bw_msg
  | M_send_cookie "(string \<times> int \<times> string \<times> int) option"
  | M_send_cookie_wait bool
  | M_set_nat_port "int option"
  | M_get_que_size
  | M_BIter_next
  | M_BPuller_next
  | M_BWIter_next

text \<open>What a call gets from outside: the address parser, the clock, the answers of the system, uninitialised memory.\<close>

record api_env =
  e_pton :: "string \<Rightarrow> u32 option"
  e_now :: timeval
  e_sock :: int
  e_bind :: bool
  e_mem :: SendData
  e_packets :: "nat \<Rightarrow> SendData"
  e_addr :: sockaddr_in

definition answer :: "pycall \<times> bora \<Rightarrow> (pycall option \<times> bora) res" where
  "answer rb = Ok (Some (fst rb), snd rb)"

definition answers :: "(pycall \<times> bora) res \<Rightarrow> (pycall option \<times> bora) res" where
  "answers r = bind_res r answer"

text \<open>The result is \<open>None\<close> for a new iterator object, and while \<open>send_cookie\<close> waits.\<close>

fun call_method :: "api_env \<Rightarrow> bora_method \<Rightarrow> bora \<Rightarrow> (pycall option \<times> bora) res" where
  "call_method e M_biter b = Ok (bora_biter b, b)"
| "call_method e M_bpuller b = Ok (bora_bpuller b, b)"
| "call_method e (M_listen_on v) b = answer (listen_on (e_sock e) (e_bind e) v b)"
| "call_method e (M_get_in_stats rst) b = answer (get_in_stats rst b)"
| "call_method e (M_get_out_stats rst) b = answer (get_out_stats rst b)"
| "call_method e M_get_bw_stats b = answers (get_bw_stats b)"
| "call_method e M_die b = answer (die b)"
| "call_method e (M_send_block a) b = answers (send_block (e_pton e) (e_packets e) a b)"
| "call_method e (M_send_raw a) b = answer (send_raw (e_pton e) (e_mem e) a b)"
| "call_method e (M_add_block a) b = answers (add_block a b)"
| "call_method e (M_del_block a) b = answer (del_block a b)"
| "call_method e M_incomplete_block_list b = map_res (\<lambda>r. (Some r, b)) (incomplete_block_list b)"
| "call_method e M_complete_block_list b = map_res (\<lambda>r. (Some r, b)) (complete_block_list b)"
| "call_method e (M_get_block_content a) b = answers (get_block_content a b)"
| "call_method e (M_bwsiter v) b = Ok (bwiter_new v b)"
| "call_method e (M_bws_set a) b = answers (bws_set (e_now e) a b)"
| "call_method e (M_send_bw_msg a) b = answers (send_bw_msg (e_pton e) (e_mem e) (e_addr e) a b)"
| "call_method e M_get_bw_msg b = answer (get_bw_msg b)"
| "call_method e (M_send_cookie a) b = send_cookie_begin (e_pton e) a b"
| "call_method e (M_send_cookie_wait expired) b = answers (send_cookie_end expired b)"
| "call_method e (M_set_nat_port a) b = answer (bora_set_nat_port a b)"
| "call_method e M_get_que_size b = Ok (Some (get_que_size b), b)"
| "call_method e M_BIter_next b = answers (BIter_iternext b)"
| "call_method e M_BPuller_next b = answers (BPuller_iternext b)"
| "call_method e M_BWIter_next b = answers (BWIter_iternext b)"

primrec run_methods :: "(api_env \<times> bora_method) list \<Rightarrow> bora \<Rightarrow> (pycall option list \<times> bora) res" where
  "run_methods [] b = Ok ([], b)"
| "run_methods (em # ems) b =
     bind_res (call_method (fst em) (snd em) b) (\<lambda>(r, b). map_res (apfst (Cons r)) (run_methods ems b))"

section \<open>The program as a step relation\<close>

definition env_ok :: "api_env \<Rightarrow> bool" where
  "env_ok e \<longleftrightarrow> wf_sd (e_mem e) \<and> (\<forall>i. wf_sd (e_packets e i))"

inductive bora_step :: "bora \<Rightarrow> bora \<Rightarrow> bool" where
  by_call: "call_method e m b = Ok (r, b') \<Longrightarrow> env_ok e \<Longrightarrow> m \<noteq> M_die \<Longrightarrow> bora_step b b'"
| by_datagram: "process_packet mem d (b_world b) = Ok (d', w) \<Longrightarrow> length (id_buf d) = BUFSIZE \<Longrightarrow> wf_sd (mem_send mem) \<Longrightarrow>
    bora_step b (set_world w b)"
| by_pair: "send_pair env (w_ack (b_world b)) = Ok (os, aw) \<Longrightarrow> bora_step b (set_ack (aw\<lparr>aw_sender := (aw_sender aw)\<lparr>z := False\<rparr>\<rparr>) b)"
| by_packet: "packet_send env (w_ack (b_world b)) = Ok (out, aw) \<Longrightarrow> bora_step b (set_ack aw b)"
| by_pulling: "block_pull (b_puller b) = Ok bp \<Longrightarrow> bora_step b (b\<lparr>b_puller := bp\<rparr>)"

text \<open>The module when it is loaded, with whatever was put in the cache before the socket is opened.\<close>

definition fresh :: "bora \<Rightarrow> bool" where
  "fresh b \<longleftrightarrow> b_sock b = 0 \<and> \<not> b_death b \<and> \<not> b_bws_running b \<and>
     (let w = b_world b; aw = w_ack w in
      aw_sender aw = static_sender \<and> aw_nacks aw = static_nacks \<and> aw_peers aw = static_peer_stats \<and>
      aw_cookies aw = static_cookies \<and> w_biter w = static_biter)"

inductive bora_reach :: "bora \<Rightarrow> bool" where
  reach_open: "fresh b \<Longrightarrow> listen_on s True (Some v) b = (Return PyNone, b') \<Longrightarrow> bora_reach b'"
| reach_step: "bora_reach b \<Longrightarrow> bora_step b b' \<Longrightarrow> bora_reach b'"

inductive_cases bora_step_cases: "bora_step b b'"

section \<open>Invariant\<close>

definition opened :: "bora \<Rightarrow> bool" where
  "opened b \<longleftrightarrow> b_sock b \<noteq> 0 \<and> \<not> b_death b \<and> world_ok (b_world b) \<and> \<not> z (api_sender b) \<and>
     s_bpuller_full (b_puller b) + s_bpuller_empty (b_puller b) = N_BPULLER"

declare queue_of.simps [simp del]

lemma sender_ok_frame [simp]:
  "sender_ok (s\<lparr>sleeptime := a\<rparr>) = sender_ok s" "sender_ok (s\<lparr>lasthost := h\<rparr>) = sender_ok s"
  "sender_ok (s\<lparr>idleTime := t\<rparr>) = sender_ok s" "sender_ok (s\<lparr>z := y\<rparr>) = sender_ok s"
  "sender_ok (s\<lparr>natPort := p\<rparr>) = sender_ok s" "sender_ok (s\<lparr>bandwidth := bw\<rparr>) = sender_ok s"
  by (simp_all add: sender_ok_def tx_abs_def)

lemma sender_ok_reset [simp]: "sender_ok s \<Longrightarrow> sender_ok (reset_out_counters s)"
  by (simp add: sender_ok_def tx_abs_def reset_out_counters_def)

subsection \<open>The sending thread\<close>

text \<open>Whatever is taken is a whole packet, and at most one packet leaves a queue.\<close>

lemma take_packet_ok:
  assumes rings: "rings_ok (aw_sender w)" and wf: "\<forall>c. list_all wf_sd (queue_of c (aw_sender w))"
    and pos: "0 < tx_total (tx_abs (aw_sender w))" and zz: "z (aw_sender w) \<Longrightarrow> queue_of Data (aw_sender w) \<noteq> []"
    and ck: "cookies_shape (aw_cookies w)" and t: "take_packet w = Ok (c, d, w')"
  shows "wf_sd d \<and> rings_ok (aw_sender w') \<and> (\<forall>c. list_all wf_sd (queue_of c (aw_sender w'))) \<and>
    tx_total (tx_abs (aw_sender w)) \<le> Suc (tx_total (tx_abs (aw_sender w'))) \<and> cookies_shape (aw_cookies w') \<and>
    aw_nacks w' = aw_nacks w \<and> aw_peers w' = aw_peers w \<and> sFull (aw_sender w') = sFull (aw_sender w) \<and>
    qEmpty (aw_sender w') = qEmpty (aw_sender w) \<and> stats_s (aw_sender w') = stats_s (aw_sender w) \<and> z (aw_sender w') = z (aw_sender w)"
proof -
  have hd: "queue_of k (aw_sender w) \<noteq> [] \<Longrightarrow> wf_sd (hd (queue_of k (aw_sender w)))" for k
    using spec [OF wf, of k] by (cases "queue_of k (aw_sender w)") simp_all
  have tl: "list_all wf_sd (tl (queue_of k (aw_sender w)))" for k using wf fits_tl by blast
  consider (pair) "z (aw_sender w)" | (cookie) "\<not> z (aw_sender w)" "0 < ckFull (aw_cookies w)"
    | (queues) "\<not> z (aw_sender w)" "ckFull (aw_cookies w) = 0" by blast
  then show ?thesis
  proof cases
    case pair
    obtain s where s: "take_data w = (hd (queue_of Data (aw_sender w)), w\<lparr>aw_sender := s\<rparr>)" "rings_ok s" "s = (aw_sender w)\<lparr>send_q := send_q s\<rparr>"
      "tx_abs s = (tx_abs (aw_sender w))\<lparr>tx_queue := (tx_queue (tx_abs (aw_sender w)))(Data := tl (queue_of Data (aw_sender w)))\<rparr>"
      using take_data_ok [OF rings zz [OF pair]] by blast
    have q: "queue_of k s = (if k = Data then tl (queue_of Data (aw_sender w)) else queue_of k (aw_sender w))" for k
      using fun_cong [OF arg_cong [OF s(4), of tx_queue], of k] by (simp add: tx_abs_def)
    have f: "sFull s = sFull (aw_sender w)" "qEmpty s = qEmpty (aw_sender w)" "stats_s s = stats_s (aw_sender w)" "z s = z (aw_sender w)"
      by (subst s(3), simp)+
    show ?thesis using t s(1,2) pair hd zz tl wf q f ck by (auto simp: take_packet_def tx_total_def tx_abs_def)
  next
    case cookie
    obtain ck' where g: "get_cookie_data ((aw_cookies w)\<lparr>ckFull := ckFull (aw_cookies w) - 1\<rparr>) = Ok (d, ck')"
      "w' = w\<lparr>aw_sender := (aw_sender w)\<lparr>lasthost := None\<rparr>, aw_cookies := ck'\<rparr>"
      using t cookie by (auto simp: take_packet_def Let_def bind_res_Ok_iff)
    have "cookies_shape ((aw_cookies w)\<lparr>ckFull := ckFull (aw_cookies w) - 1\<rparr>)" using ck by (simp add: cookies_shape_def)
    then show ?thesis using cookies_shape_ops(2) [OF _ g(1)] g(2) rings wf by (simp add: tx_total_def tx_abs_def)
  next
    case queues
    define k where "k = next_class (tx_abs (aw_sender w))"
    obtain s where s: "take_packet w = Ok (class_code k, hd (queue_of k (aw_sender w)), w\<lparr>aw_sender := s\<rparr>)"
      "queue_of k (aw_sender w) \<noteq> []" "rings_ok s"
      "s = (aw_sender w)\<lparr>lasthost := None, send_q := send_q s, retr_q := retr_q s, prio_q := prio_q s\<rparr>"
      "tx_queue (tx_abs s) = (tx_queue (tx_abs (aw_sender w)))(k := tl (queue_of k (aw_sender w)))"
      using take_packet_queues [OF rings queues pos] unfolding k_def by blast
    have q: "queue_of j s = (if j = k then tl (queue_of k (aw_sender w)) else queue_of j (aw_sender w))" for j
      using fun_cong [OF s(5), of j] by (simp add: tx_abs_def)
    have f: "sFull s = sFull (aw_sender w)" "qEmpty s = qEmpty (aw_sender w)" "stats_s s = stats_s (aw_sender w)" "z s = z (aw_sender w)"
      by (subst s(4), simp)+
    show ?thesis using t s(1-3) hd tl wf q f ck by (auto simp: tx_total_def tx_abs_def)
  qed
qed

lemma emit_packet_keeps:
  assumes ok: "rings_ok (aw_sender w)" "\<forall>c. list_all wf_sd (queue_of c (aw_sender w))" "length (stats_s (aw_sender w)) = NUM_STAT_S"
    and n: "nacks_wf (aw_nacks w)" and d: "wf_sd d" and e: "emit_packet env hit c d w = Ok (o', w')"
  shows "rings_ok (aw_sender w') \<and> (\<forall>c. queue_of c (aw_sender w') = queue_of c (aw_sender w)) \<and>
    length (stats_s (aw_sender w')) = NUM_STAT_S \<and> nacks_wf (aw_nacks w') \<and> aw_peers w' = aw_peers w \<and>
    aw_cookies w' = aw_cookies w \<and> sFull (aw_sender w') = sFull (aw_sender w) \<and>
    qEmpty (aw_sender w') = Suc (qEmpty (aw_sender w)) \<and> z (aw_sender w') = z (aw_sender w)"
proof -
  let ?s = "(aw_sender w)\<lparr>sleeptime := (1000000 * ucast (sd_length d)) div bandwidth (aw_sender w)\<rparr>"
  have bw: "bandwidth (aw_sender w) \<noteq> 0" using e by (auto simp: emit_packet_def Let_def)
  obtain d1 w1 where st: "stamp_packet env d (w\<lparr>aw_sender := ?s\<rparr>) = Ok (d1, w1)"
    using e bw by (cases "stamp_packet env d (w\<lparr>aw_sender := ?s\<rparr>)") (auto simp: emit_packet_def Let_def)
  obtain d2 where ap: "append_port (natPort (aw_sender w1)) (mark_consecutive (z (aw_sender w1)) d1) = Ok d2"
    using e bw st by (cases "append_port (natPort (aw_sender w1)) (mark_consecutive (z (aw_sender w1)) d1)") (auto simp: emit_packet_def Let_def)
  have w': "w' = w1\<lparr>aw_sender := (aw_sender w1)\<lparr>lasthost := next_lasthost env c d2 (aw_sender w1), qEmpty := qEmpty (aw_sender w1) + 1,
      idleTime := timeradd (timersub (t_end env) (t_start env)) (idleTime (aw_sender w1)),
      stats_s := count_sent c (ucast (sd_length d2)) (stats_s (aw_sender w1))\<rparr>\<rparr>"
    using e bw st ap by (simp add: emit_packet_def Let_def split: if_splits)
  have "\<exists>ns. w1 = w\<lparr>aw_sender := ?s, aw_nacks := ns\<rparr> \<and> nacks_wf ns"
  proof (cases "has (sd_data d ! 0) NEED_ACK")
    case True
    then obtain l d2 ns where a: "append_ack d (t_end env) (ucast (sleeptime ?s)) (aw_nacks w) = Ok (l, d2, ns)"
      "w1 = w\<lparr>aw_sender := ?s, aw_nacks := ns\<rparr>"
      using st by (auto simp: stamp_packet_def bind_res_Ok_iff)
    have "peers_distinct (aw_nacks w)" using n by (simp add: nacks_wf_def)
    then have "nacks_wf ns" using append_ack_outstanding(1,3) [OF _ a(1)] n d by (simp add: nacks_wf_def)
    then show ?thesis using a(2) by blast
  next
    case False
    then have "w1 = w\<lparr>aw_sender := ?s, aw_nacks := aw_nacks w\<rparr>" using st by (auto simp: stamp_packet_def)
    then show ?thesis using n by blast
  qed
  then show ?thesis using w' ok by auto
qed

lemma packet_send_keeps:
  assumes ok: "ack_world_ok w" and zz: "z (aw_sender w) \<Longrightarrow> queue_of Data (aw_sender w) \<noteq> []"
    and p: "packet_send env w = Ok (o', w')"
  shows "ack_world_ok w' \<and> z (aw_sender w') = z (aw_sender w)"
proof -
  let ?s = "(aw_sender w)\<lparr>sFull := sFull (aw_sender w) - 1\<rparr>"
  let ?w = "w\<lparr>aw_sender := ?s\<rparr>"
  obtain hit c d w1 where t: "take_packet ?w = Ok (c, d, w1)" "emit_packet env hit c d w1 = Ok (o', w')" "0 < sFull (aw_sender w)"
    using p by (auto simp: packet_send_def Let_def bind_res_Ok_iff split: if_splits)
  have v: "rings_ok (aw_sender w)" "\<forall>c. list_all wf_sd (queue_of c (aw_sender w))" "qEmpty (aw_sender w) + sFull (aw_sender w) = 6000"
    "sFull (aw_sender w) \<le> tx_total (tx_abs (aw_sender w))" "length (stats_s (aw_sender w)) = NUM_STAT_S"
    "nacks_wf (aw_nacks w)" "cookies_shape (aw_cookies w)" "peer_stats_ok (aw_peers w)"
    using ok by (simp_all add: ack_world_ok_def sender_ok_def view_ok_def tx_abs_def)
  have tot: "tx_total (tx_abs ?s) = tx_total (tx_abs (aw_sender w))" by (simp add: tx_total_def tx_abs_def)
  have "wf_sd d \<and> rings_ok (aw_sender w1) \<and> (\<forall>c. list_all wf_sd (queue_of c (aw_sender w1))) \<and>
      tx_total (tx_abs ?s) \<le> Suc (tx_total (tx_abs (aw_sender w1))) \<and> cookies_shape (aw_cookies w1) \<and>
      aw_nacks w1 = aw_nacks w \<and> aw_peers w1 = aw_peers w \<and> sFull (aw_sender w1) = sFull (aw_sender w) - 1 \<and>
      qEmpty (aw_sender w1) = qEmpty (aw_sender w) \<and> stats_s (aw_sender w1) = stats_s (aw_sender w) \<and> z (aw_sender w1) = z (aw_sender w)"
    using take_packet_ok [of ?w c d w1] v t(1,3) zz tot by simp
  note w1 = this [THEN conjunct1] this [THEN conjunct2]
  note e = emit_packet_keeps [OF _ _ _ _ w1(1) t(2)]
  show ?thesis using e w1(2) v t(3) tot
    by (auto simp: ack_world_ok_def sender_ok_def view_ok_def tx_abs_def tx_total_def)
qed

lemma send_pair_keeps:
  assumes ok: "ack_world_ok w" and zz: "\<not> z (aw_sender w)" and p: "send_pair env w = Ok (os, w1)"
  shows "ack_world_ok (w1\<lparr>aw_sender := (aw_sender w1)\<lparr>z := False\<rparr>\<rparr>)"
proof -
  have "ack_world_ok w1"
  proof (cases "lasthost (aw_sender w)")
    case None
    then show ?thesis using p ok by (simp add: send_pair_def)
  next
    case (Some h)
    show ?thesis
    proof (cases "next_is_consecutive (aw_sender w) h")
      case True
      let ?w = "w\<lparr>aw_sender := (aw_sender w)\<lparr>z := True\<rparr>\<rparr>"
      obtain o1 w2 where s: "packet_send env ?w = Ok (o1, w2)"
        "w1 = w2\<lparr>aw_sender := (aw_sender w2)\<lparr>sleeptime := sleeptime (aw_sender w) + sleeptime (aw_sender w2)\<rparr>\<rparr>"
        using p Some True by (auto simp: send_pair_def Let_def bind_res_Ok_iff)
      have ok2: "ack_world_ok ?w" using ok by (simp add: ack_world_ok_def)
      have "rings_ok (aw_sender w)" using ok by (simp add: ack_world_ok_def sender_ok_def)
      then have "queue_of Data (aw_sender w) \<noteq> []" using True fill_class(3) [of "aw_sender w"] by (auto simp: next_is_consecutive_def)
      then show ?thesis using packet_send_keeps [OF ok2 _ s(1)] s(2) by (simp add: ack_world_ok_def)
    next
      case False
      then show ?thesis using p Some zz ok by (auto simp: send_pair_def Let_def ack_world_ok_def)
    qed
  qed
  then show ?thesis by (simp add: ack_world_ok_def)
qed

subsection \<open>The processing thread\<close>

lemma resend_z: "z (foldl (\<lambda>s a. resend_one a s) s as) = z s"
  by (induction "as" arbitrary: s) (simp_all add: resend_one_def)

lemma ack_received_z: "ack_received ack_s ack_r t from w = Ok (r, w') \<Longrightarrow> z (aw_sender w') = z (aw_sender w)"
proof -
  have "z (snd (resend_ooo_nacks a s ns)) = z s" for a s ns
    by (auto simp: resend_ooo_nacks_def on_peer_def walk_eqs resend_z split: option.split)
  then have "resend_ooo_nacks a s ns = (x, s') \<Longrightarrow> z s' = z s" for a s ns x s' by (metis snd_conv)
  then show "ack_received ack_s ack_r t from w = Ok (r, w') \<Longrightarrow> z (aw_sender w') = z (aw_sender w)"
    by (auto simp: ack_received_def Let_def split: if_splits option.splits prod.splits)
qed

lemma rx_z:
  "rx_port dw = Ok dw' \<Longrightarrow> w_ack (snd dw') = w_ack (snd dw)"
  "rx_need_ack mem dw = Ok dw' \<Longrightarrow> z (aw_sender (w_ack (snd dw'))) = z (aw_sender (w_ack (snd dw)))"
  "rx_ack dw = Ok dw' \<Longrightarrow> z (aw_sender (w_ack (snd dw'))) = z (aw_sender (w_ack (snd dw)))"
  "rx_bw dw = Ok dw' \<Longrightarrow> w_ack (snd dw') = w_ack (snd dw)"
  "rx_block mem dw = Ok dw' \<Longrightarrow> w_ack (snd dw') = w_ack (snd dw)"
proof -
  show "rx_port dw = Ok dw' \<Longrightarrow> w_ack (snd dw') = w_ack (snd dw)"
    by (cases dw) (auto simp: rx_port_def Let_def bind_res_Ok_iff split: if_splits)
  show "rx_need_ack mem dw = Ok dw' \<Longrightarrow> z (aw_sender (w_ack (snd dw'))) = z (aw_sender (w_ack (snd dw)))"
    by (cases dw) (auto simp: rx_need_ack_def garbage_def Let_def bind_res_Ok_iff split: if_splits)
  show "rx_ack dw = Ok dw' \<Longrightarrow> z (aw_sender (w_ack (snd dw'))) = z (aw_sender (w_ack (snd dw)))"
    by (cases dw) (auto simp: rx_ack_def garbage_def Let_def bind_res_Ok_iff dest: ack_received_z split: if_splits option.splits prod.splits)
  show "rx_bw dw = Ok dw' \<Longrightarrow> w_ack (snd dw') = w_ack (snd dw)"
    by (cases dw) (auto simp: rx_bw_def garbage_def split: if_splits option.splits)
  have "rx_fragment mem d fd w = Ok w' \<Longrightarrow> w_ack w' = w_ack w" for d fd w w'
    by (auto simp: rx_fragment_def rx_added_def Let_def bind_res_Ok_iff split: if_splits)
  then show "rx_block mem dw = Ok dw' \<Longrightarrow> w_ack (snd dw') = w_ack (snd dw)"
    by (cases dw) (auto simp: rx_block_def garbage_def bind_res_Ok_iff map_res_Ok_iff split: if_splits option.splits)
qed

lemma process_packet_z:
  assumes "process_packet mem d w = Ok (d', w')"
  shows "z (aw_sender (w_ack w')) = z (aw_sender (w_ack w))"
proof -
  obtain d1 w1 where w1: "w_ack w' = w_ack w1" "(if id_buflen d > 1
        then bind_res (rx_port (d, w)) (\<lambda>dw. bind_res (rx_need_ack mem dw) (\<lambda>dw. bind_res (rx_ack dw) (\<lambda>dw.
             bind_res (rx_bw dw) (rx_block mem)))) else Ok (d, w)) = Ok (d1, w1)"
    using assms by (auto simp: process_packet_def bind_res_Ok_iff)
  then show ?thesis by (auto simp: bind_res_Ok_iff dest!: rx_z split: if_splits)
qed

subsection \<open>The timeout sweep and the report\<close>

lemma resend_timeouts_keeps:
  "resend_timeouts ps now s ns = Ok ((n, ns'), s') \<Longrightarrow> sender_ok s \<Longrightarrow> \<forall>p \<in> set ns. \<forall>a \<in> set (np_nacks p). wf_sd (a_d a) \<Longrightarrow>
    sender_ok s' \<and> z s' = z s \<and> map np_addr ns' = map np_addr ns \<and> (\<forall>p \<in> set ns'. \<forall>a \<in> set (np_nacks p). wf_sd (a_d a))"
proof (induction ns arbitrary: s n ns')
  case (Cons p ns)
  obtain t where "get_timeout_value (np_addr p) ps = Ok t" using Cons.prems(1) by (auto simp: bind_res_Ok_iff)
  then obtain m rest where r: "resend_timeouts ps now (foldl (\<lambda>s a. resend_one a s) s (filter (timed_out now t) (np_nacks p))) ns = Ok ((m, rest), s')"
    "ns' = p\<lparr>np_nacks := filter (Not \<circ> timed_out now t) (np_nacks p)\<rparr> # rest"
    using Cons.prems(1) by (auto simp: bind_res_Ok_iff map_res_Ok_iff walk_eqs)
  have "sender_ok (foldl (\<lambda>s a. resend_one a s) s (filter (timed_out now t) (np_nacks p)))"
    using Cons.prems by (intro sender_ok_resend) auto
  then show ?case using Cons.IH [OF r(1)] Cons.prems(3) r(2) by (auto simp: resend_z)
qed simp

lemma outstanding_lists:
  assumes "peers_distinct st"
  shows "(\<forall>h. \<forall>a \<in> set (outstanding st h). P a) \<longleftrightarrow> (\<forall>p \<in> set (nacklist st). \<forall>a \<in> set (np_nacks p). P a)"
proof -
  have "outstanding st (np_addr p) = np_nacks p" if "p \<in> set (nacklist st)" for p
    using that assms nacks.find_nth [of "nacklist st"] by (auto simp: peers_distinct_def outstanding_def in_set_conv_nth)
  moreover have "a \<in> set (outstanding st h) \<Longrightarrow> \<exists>p \<in> set (nacklist st). a \<in> set (np_nacks p)" for a h
    using nacks.find_SomeD [of h "nacklist st"] by (cases "nack_find_by_host h (nacklist st)") (auto simp: outstanding_def)
  ultimately show ?thesis by metis
qed

lemma bws_set_keeps:
  assumes "ack_world_ok w" and "bws_set_call now rst t (b, w) = Ok (b', w')"
  shows "ack_world_ok w' \<and> z (aw_sender w') = z (aw_sender w)"
proof -
  obtain n ns s where r: "resend_timeouts (peeracklist (aw_peers w)) (time_to_usec now) (aw_sender w) (nacklist (aw_nacks w)) = Ok ((n, ns), s)"
    and w': "w' = snd (bws_return_value (word_of_int rst) (set_bws_interval t b, w\<lparr>aw_nacks := (aw_nacks w)\<lparr>nacklist := ns\<rparr>, aw_sender := s\<rparr>))"
    using assms(2) by (auto simp: bws_set_call_def resend_timeout_nacks_def map_res_Ok_iff) (metis snd_conv)
  have ok: "sender_ok (aw_sender w)" "peers_distinct (aw_nacks w)" "peer_stats_ok (aw_peers w)" "cookies_shape (aw_cookies w)"
    "\<forall>p \<in> set (nacklist (aw_nacks w)). \<forall>a \<in> set (np_nacks p). wf_sd (a_d a)"
    using assms(1) outstanding_lists [of "aw_nacks w" "\<lambda>a. wf_sd (a_d a)"] by (auto simp: ack_world_ok_def nacks_wf_def)
  note k = resend_timeouts_keeps [OF r ok(1,5)]
  have d: "peers_distinct ((aw_nacks w)\<lparr>nacklist := ns\<rparr>)" using k ok(2) by (simp add: peers_distinct_def)
  then have "nacks_wf ((aw_nacks w)\<lparr>nacklist := ns\<rparr>)"
    using k outstanding_lists [OF d, of "\<lambda>a. wf_sd (a_d a)"] by (simp add: nacks_wf_def)
  moreover have "peer_stats_ok (release_ack_store (aw_peers w))"
    using ok(3) by (simp add: peer_stats_ok_def release_ack_store_def peer_ok_def o_def)
  ultimately show ?thesis using w' k ok by (simp add: bws_return_value_def ack_world_ok_def set_bandwidth_def reset_out_counters_def sender_ok_def tx_abs_def)
qed

lemma bws_report_keeps:
  assumes "ack_world_ok w" and "bws_report w = Ok (r, w')"
  shows "ack_world_ok w' \<and> z (aw_sender w') = z (aw_sender w)"
  using assms by (auto simp: bws_report_def get_ack_store_def get_idle_def bind_res_Ok_iff ack_world_ok_def peer_stats_ok_def
      take_samples_def peer_ok_def o_def split: if_splits)

subsection \<open>Calls\<close>

lemma send_fragments_keeps:
  "send_fragments mem frag dest is s = Ok s' \<Longrightarrow> sender_ok s \<Longrightarrow> \<forall>i. wf_sd (mem i) \<Longrightarrow> sender_ok s' \<and> z s' = z s"
proof (induction "is" arbitrary: s)
  case (Cons i "is")
  obtain d where d: "encode_fragment (mem i) (frag i) = Ok d"
    "send_fragments mem frag dest is (send_data (d\<lparr>sd_to := dest, sd_data := (sd_data d)[0 := BLK_BLOCK_ACK]\<rparr>) s) = Ok s'"
    using Cons.prems(1) by (auto simp: bind_res_Ok_iff)
  have "wf_sd d" using d(1) Cons.prems(3)
    by (auto simp: encode_fragment_def Let_def bind_res_Ok_iff memcpy_Ok_iff wf_sd_def mem_simps SENDBUF_def)
  then have "wf_sd (d\<lparr>sd_to := dest, sd_data := (sd_data d)[0 := BLK_BLOCK_ACK]\<rparr>)" by (simp add: wf_sd_def)
  then show ?case using Cons.IH [OF d(2)] Cons.prems sender_ok_send_data by simp
qed simp

lemma sendblock_keeps:
  "sendblock mem sid bid dest (bc, s) = Ok (r, bc', s') \<Longrightarrow> sender_ok s \<Longrightarrow> \<forall>i. wf_sd (mem i) \<Longrightarrow> sender_ok s' \<and> z s' = z s"
  by (auto simp: sendblock_def Let_def bind_res_Ok_iff dest: send_fragments_keeps split: option.splits)

lemma opened_simps:
  "opened b \<Longrightarrow> ack_world_ok aw \<Longrightarrow> \<not> z (aw_sender aw) \<Longrightarrow> opened (set_ack aw b)"
  "opened b \<Longrightarrow> sender_ok (f (api_sender b)) \<Longrightarrow> z (f (api_sender b)) = z (api_sender b) \<Longrightarrow> opened (on_sender f b)"
  "opened b \<Longrightarrow> cookies_shape (g (api_cookies b)) \<Longrightarrow> opened (on_cookies g b)"
  "opened b \<Longrightarrow> opened (set_cache bc b)"
  "opened b \<Longrightarrow> biter_ok bi \<Longrightarrow> opened (set_biter bi b)"
  "opened b \<Longrightarrow> opened (set_world (reset_in_counters (b_world b)) b)"
  "opened b \<Longrightarrow> opened (set_world ((b_world b)\<lparr>w_est := []\<rparr>) b)"
  "opened b \<Longrightarrow> opened (set_world ((b_world b)\<lparr>w_bwm := l\<rparr>) b)"
  "opened b \<Longrightarrow> opened (b\<lparr>b_bws := x\<rparr>)" "opened b \<Longrightarrow> opened (b\<lparr>b_bws := x, b_bws_running := y\<rparr>)"
  "opened b \<Longrightarrow> s_bpuller_full bp + s_bpuller_empty bp = N_BPULLER \<Longrightarrow> opened (b\<lparr>b_puller := bp\<rparr>)"
  by (simp_all add: opened_def api_state_defs world_ok_def ack_world_ok_def reset_in_counters_def estimates_ok_def)

lemma opened_parts:
  assumes "opened b"
  shows "b_sock b \<noteq> 0" "\<not> b_death b" "sender_ok (api_sender b)" "cookies_shape (api_cookies b)" "ack_world_ok (w_ack (b_world b))"
    "biter_ok (w_biter (b_world b))" "\<not> z (api_sender b)" "s_bpuller_full (b_puller b) + s_bpuller_empty (b_puller b) = N_BPULLER"
  using assms by (simp_all add: opened_def world_ok_def ack_world_ok_def)

lemma opened_sending:
  assumes "opened b" and "wf_sd d"
  shows "opened (on_sender (send_data d) b)"
  using assms opened_parts [OF assms(1)] by (intro opened_simps(2)) (simp_all add: sender_ok_send_data)

lemma send_block_opened:
  assumes "opened b" and "\<forall>i. wf_sd (mem i)" and "send_block pton mem a b = Ok (r, b')"
  shows "opened b'"
proof -
  note o = opened_parts [OF assms(1)]
  have "b' = b \<or> (\<exists>sid bid dest n bc s. sendblock mem sid bid dest (w_cache (b_world b), api_sender b) = Ok (n, bc, s) \<and>
      b' = on_sender (\<lambda>_. s) (set_cache bc b))"
    using assms(3) o(1,2) by (auto simp: send_block_def bind_res_Ok_iff split: option.splits sum.splits) blast+
  then show ?thesis
  proof (elim disjE exE conjE)
    fix sid bid dest n bc s
    assume "sendblock mem sid bid dest (w_cache (b_world b), api_sender b) = Ok (n, bc, s)" and b': "b' = on_sender (\<lambda>_. s) (set_cache bc b)"
    then have "sender_ok s" "z s = z (api_sender b)" using sendblock_keeps o(3) assms(2) by blast+
    moreover have "api_sender (set_cache bc b) = api_sender b" by (simp add: set_cache_def)
    ultimately show ?thesis using b' opened_simps(4) [OF assms(1)] by (simp add: opened_simps(2))
  qed (simp add: assms(1))
qed

lemma send_raw_opened:
  assumes "opened b" and "wf_sd mem" and "send_raw pton mem a b = (r, b')"
  shows "opened b'"
proof -
  have "wf_sd (raw_message mem msg to)" if "length msg \<le> 1400" for msg to
    using raw_message_fields(1) [OF assms(2) that refl] by (simp add: fits_def)
  then show ?thesis using assms opened_sending [OF assms(1)]
    by (auto simp: send_raw_def Let_def not_less split: if_splits option.splits sum.splits)
qed

lemma send_bw_opened:
  assumes "opened b" and "wf_sd mem" and "send_bw_msg pton mem a0 a b = Ok (r, b')"
  shows "opened b'"
proof -
  have w: "wf_sd ((encode_bw mem n)\<lparr>sd_to := h\<rparr>)" for n h
    using assms(2) by (simp add: wf_sd_def encode_bw_def mem_simps SENDBUF_def)
  have f: "on_sender (send_bwmsg mem h n) b = on_sender (send_data ((encode_bw mem n)\<lparr>sd_to := h\<rparr>)) b" for h n
    by (simp add: on_sender_def send_bwmsg_def)
  have "opened (on_sender (send_bwmsg mem h n) b)" for h n unfolding f by (rule opened_sending [OF assms(1) w])
  then have "send_bw_entry pton mem a0 x b = Ok (r, b') \<Longrightarrow> opened b'" for x
    using assms(1) by (auto simp: send_bw_entry_def Let_def split: pyval.splits option.splits)
  then show ?thesis using assms(1,3) by (auto simp: send_bw_msg_def split: if_splits option.splits pyval.splits list.splits)
qed

lemma cookie_calls_opened:
  assumes "opened b"
  shows "send_cookie_begin pton a b = Ok (r, b') \<Longrightarrow> opened b'" "send_cookie_end expired b = Ok (q, b') \<Longrightarrow> opened b'"
proof -
  note o = opened_parts [OF assms]
  have "send_cookie x y (api_cookies b) = Ok (n, ck) \<Longrightarrow> opened (on_cookies (\<lambda>_. ck) b)" for x y n ck
    using cookies_shape_ops(1) [OF o(4)] opened_simps(3) [OF assms, of "\<lambda>_. ck"] by simp
  then show "send_cookie_begin pton a b = Ok (r, b') \<Longrightarrow> opened b'"
    using assms o(1) by (auto simp: send_cookie_begin_def map_res_Ok_iff split: if_splits option.splits)
  show "send_cookie_end expired b = Ok (q, b') \<Longrightarrow> opened b'"
    using assms o cookies_shape_ops(4) [OF o(4)] by (auto simp: send_cookie_end_def intro: opened_simps(3) split: if_splits)
qed

lemma iterators_opened:
  assumes "opened b"
  shows "BIter_iternext b = Ok (r, b') \<Longrightarrow> opened b'" "BPuller_iternext b = Ok (r, b') \<Longrightarrow> opened b'" "BWIter_iternext b = Ok (r, b') \<Longrightarrow> opened b'"
proof -
  note o = opened_parts [OF assms]
  have "biter_ok (snd (biter_load bi))" if "biter_ok bi" "0 < s_biter_full bi" for bi
    using biter_get_contents(2) [OF that] by (simp add: biter_get_def)
  then have "biter_next (w_biter (b_world b)) = Ok (x, bi) \<Longrightarrow> biter_ok bi" for x bi
    using o(6) by (auto simp: biter_next_def split: if_splits) (metis snd_conv)
  then show "BIter_iternext b = Ok (r, b') \<Longrightarrow> opened b'"
    using o assms by (auto simp: BIter_iternext_def BIter_resume_def map_res_Ok_iff intro: opened_simps(5))
  show "BPuller_iternext b = Ok (r, b') \<Longrightarrow> opened b'"
    using o assms by (auto simp: BPuller_iternext_def BPuller_resume_def map_res_Ok_iff bpuller_next_def intro: opened_simps(11) split: if_splits)
  have "bws_report (w_ack (b_world b)) = Ok (x, w) \<Longrightarrow> opened (set_ack w (b\<lparr>b_bws := y\<rparr>))" for x w y
    using bws_report_keeps [OF o(5)] o(7) opened_simps(9) [OF assms, of y] opened_simps(1) by simp
  then show "BWIter_iternext b = Ok (r, b') \<Longrightarrow> opened b'"
    using o assms by (auto simp: BWIter_iternext_def BWIter_resume_def Let_def map_res_Ok_iff split: if_splits)
qed

text \<open>Every call but \<open>die\<close> keeps an open module open and consistent.\<close>

lemma call_keeps_open:
  assumes b: "opened b" and e: "env_ok e" and c: "call_method e m b = Ok (r, b')" and m: "m \<noteq> M_die"
  shows "opened b'"
proof -
  note o = opened_parts [OF b] and fr = opened_simps(4,6-8) [OF b]
  note ans = answer_def answers_def bind_res_Ok_iff map_res_Ok_iff
  show ?thesis
  proof (cases m)
    case (M_listen_on v) then show ?thesis using c o(1) b by (auto simp: ans listen_on_def)
  next
    case (M_get_in_stats rst) then show ?thesis using c o(2) b fr by (auto simp: ans get_in_stats_def Let_def)
  next
    case (M_get_out_stats rst) then show ?thesis using c o(2) b fr by (auto simp: ans get_out_stats_def Let_def)
  next
    case M_get_bw_stats then show ?thesis using c o(1,2) fr by (auto simp: ans get_bw_stats_def fetch_bw_estimations_def)
  next
    case (M_send_block a) then show ?thesis using c e send_block_opened [OF b] by (auto simp: ans env_ok_def)
  next
    case (M_send_raw a) then show ?thesis using c e send_raw_opened [OF b] by (auto simp: ans env_ok_def) (metis prod.collapse)
  next
    case (M_add_block a) then show ?thesis using c o(2) b fr(1) by (auto simp: ans add_block_def split: option.splits)
  next
    case (M_del_block a) then show ?thesis using c o(2) b fr(1) by (auto simp: ans del_block_def split: option.splits prod.splits)
  next
    case (M_get_block_content a) then show ?thesis using c o(2) b fr(1) by (auto simp: ans get_block_content_def split: option.splits)
  next
    case (M_bwsiter v) then show ?thesis using c o(1) b opened_simps(10) [OF b] by (auto simp: bwiter_new_def split: option.splits)
  next
    case (M_bws_set a)
    have "bws_set_call t x y (b_bws b, w_ack (b_world b)) = Ok (s, w) \<Longrightarrow> opened (set_ack w (b\<lparr>b_bws := s\<rparr>))" for t x y s w
      using bws_set_keeps [OF o(5)] o(7) opened_simps(9) [OF b, of s] opened_simps(1) by simp
    then show ?thesis using M_bws_set c o(2) b by (auto simp: ans bws_set_def split: option.splits)
  next
    case (M_send_bw_msg a) then show ?thesis using c e send_bw_opened [OF b] by (auto simp: ans env_ok_def)
  next
    case M_get_bw_msg then show ?thesis using c o(1,2) fr by (auto simp: ans get_bw_msg_def get_bwmsg_list_def)
  next
    case (M_send_cookie a) then show ?thesis using c cookie_calls_opened(1) [OF b] by simp
  next
    case (M_send_cookie_wait x) then show ?thesis using c cookie_calls_opened(2) [OF b] by (auto simp: ans)
  next
    case (M_set_nat_port a)
    have "opened (on_sender (\<lambda>s. snd (set_nat_port n s)) b)" for n
      using o(3) by (intro opened_simps(2) [OF b]) (simp_all add: set_nat_port_def)
    then show ?thesis using M_set_nat_port c o(1) b by (auto simp: ans bora_set_nat_port_def split: option.splits if_splits)
  next
    case M_BIter_next then show ?thesis using c iterators_opened(1) [OF b] by (auto simp: ans)
  next
    case M_BPuller_next then show ?thesis using c iterators_opened(2) [OF b] by (auto simp: ans)
  next
    case M_BWIter_next then show ?thesis using c iterators_opened(3) [OF b] by (auto simp: ans)
  qed (use c m b in \<open>auto simp: ans\<close>)
qed

lemma step_keeps_open: "bora_step b b' \<Longrightarrow> opened b \<Longrightarrow> opened b'"
proof (induction rule: bora_step.induct)
  case (by_call e m b r b')
  then show ?case by (blast intro: call_keeps_open)
next
  case (by_datagram mem d b d' w)
  have "world_ok (b_world b)" using by_datagram.prems by (simp add: opened_def)
  then show ?case using process_packet_keeps [OF _ by_datagram(2,3,1)] process_packet_z [OF by_datagram(1)] by_datagram.prems by (simp add: opened_def)
next
  case (by_pair env b os aw)
  note o = opened_parts [OF by_pair.prems]
  show ?case by (rule opened_simps(1) [OF by_pair.prems send_pair_keeps [OF o(5,7) by_pair(1)]]) simp
next
  case (by_packet env b out aw)
  note o = opened_parts [OF by_packet.prems]
  show ?case using packet_send_keeps [OF o(5) _ by_packet(1)] o(7) by_packet.prems by (intro opened_simps(1)) auto
next
  case (by_pulling b bp)
  then show ?case by (auto simp: block_pull_def opened_def split: if_splits)
qed

lemma listen_opens:
  assumes "fresh b" and "listen_on s True (Some v) b = (Return PyNone, b')"
  shows "opened b'"
proof -
  have b': "b' = init_modules (b\<lparr>b_sock := s\<rparr>)" "s \<noteq> 0" using assms by (auto simp: listen_on_def Let_def split: if_splits)
  have "sender_ok (init_sender static_sender)" "cookies_shape (init_cksender static_cookies)"
    by (simp_all add: sender_ok_init cookies_shape_init cookies_shape_static)
  moreover have "biter_ok (init_biter static_biter)" by (simp add: biter_ok_def init_biter_def static_biter_def N_BITER_def)
  moreover have "nacks_wf static_nacks" "peer_stats_ok static_peer_stats"
    by (simp_all add: nacks_wf_def static_nacks_def peers_distinct_def outstanding_def nack_find_by_host_def peer_stats_ok_def static_peer_stats_def)
  moreover have "\<not> z (init_sender static_sender)" by (simp add: init_sender_def static_sender_def)
  ultimately show ?thesis using assms(1) b'
    by (simp add: opened_def fresh_def Let_def init_modules_def api_state_defs world_ok_def ack_world_ok_def init_receiver_def
        reset_in_counters_def init_bpuller_def init_recv_stats_def estimates_ok_def)
qed

text \<open>
  C9: from the moment a freshly loaded module has opened its socket until it is told to die, whatever the interpreter calls, whatever
  datagrams arrive and whatever is sent, in any order: all components but the block cache and the list of received bandwidth messages, of which nothing is said here, are consistent, every free slot and token of the sending queues is
  accounted for, no queue is longer than its buffer, and the reported queue size is a true one.
\<close>

theorem system_invariant:
  assumes "bora_reach b"
  shows "opened b \<and> qEmpty (api_sender b) + sFull (api_sender b) = 6000 \<and>
    sFull (api_sender b) \<le> (\<Sum>c \<in> {Prio, Retr, Data}. length (queue_of c (api_sender b))) \<and>
    (\<forall>c. length (queue_of c (api_sender b)) \<le> 2000) \<and> length (biter_contents (w_biter (b_world b))) \<le> 20 \<and>
    get_que_size b = Return (PyInt (int (length (queue_of Data (api_sender b)))))"
proof -
  have o: "opened b" using assms by (induction rule: bora_reach.induct) (auto intro: listen_opens step_keeps_open)
  note p = opened_parts [OF o]
  have r: "rings_ok (api_sender b)" "view_ok (tx_abs (api_sender b))" using p(3) by (simp_all add: sender_ok_def)
  have q: "length (queue_of c (api_sender b)) \<le> 2000" for c by (rule length_queue_le [OF r(1)])
  have b: "length (biter_contents (w_biter (b_world b))) \<le> 20" using p(6) by (simp add: biter_contents_def biter_ok_def N_BITER_def)
  have s: "get_que_size b = Return (PyInt (int (length (queue_of Data (api_sender b)))))"
    using p(1) fill_class(3) [OF r(1)] by (simp add: get_que_size_def get_send_size_def)
  show ?thesis using r(2) o q b s by (simp add: view_ok_def tx_abs_def tx_total_def)
qed

section \<open>Errors\<close>

text \<open>
  Opening the socket. A call on a module that is open, without an integer or with a port out of range raises an exception and changes
  nothing, and so does a failed \<open>bind\<close>; a call that succeeds opens a fresh module. But when \<open>socket\<close> returns -1 the exception leaves the module
  marked as open: every later \<open>listen_on\<close> is refused, and messages are accepted that no thread will send.
\<close>

lemma listen_on_outcomes:
  assumes "fresh b"
  shows "(\<forall>v. v < 1 \<or> 65535 < v \<longrightarrow> - (2 ^ 31) \<le> v \<longrightarrow> v < 2 ^ 31 \<longrightarrow> (\<exists>msg. listen_on s ok (Some v) b = (AttributeError msg, b))) \<and>
    (\<exists>msg. listen_on s ok None b = (AttributeError msg, b)) \<and>
    (1 \<le> port \<longrightarrow> port \<le> 65535 \<longrightarrow>
      (s \<notin> {0, - 1} \<longrightarrow> (\<exists>b'. listen_on s True (Some port) b = (Return PyNone, b') \<and> opened b' \<and> b_sock b' = s) \<and>
         (\<exists>msg. listen_on s False (Some port) b = (AttributeError msg, b))) \<and>
      (\<exists>msg b'. listen_on (- 1) ok (Some port) b = (AttributeError msg, b') \<and>
         (\<forall>s' ok' v. \<exists>msg'. listen_on s' ok' v b' = (AttributeError msg', b')) \<and>
         (\<forall>mem body a p. length body \<le> 1400 \<longrightarrow> \<not> bad_port p \<longrightarrow>
            (\<exists>m b2. send_raw win32_inet_aton mem (Some (body, inet_ntop a, p)) b' = (Return (PyStr m), b2)))))"
proof -
  have f: "b_sock b = 0" "\<not> b_death b" using assms by (simp_all add: fresh_def)
  have small: "sint (word_of_int v :: u32) = v" if "- (2 ^ 31) \<le> v" "v < 2 ^ 31" for v :: int
    using that by (simp add: sint_sbintrunc' signed_take_bit_int_eq_self)
  have out: "\<exists>msg. listen_on s ok (Some v) b = (AttributeError msg, b)" if "v < 1 \<or> 65535 < v" "- (2 ^ 31) \<le> v" "v < 2 ^ 31" for v
    using small [OF that(2,3)] that(1) f by (auto simp: listen_on_def Let_def)
  have none: "\<exists>msg. listen_on s ok None b = (AttributeError msg, b)" using f by (simp add: listen_on_def)
  have opens: "\<exists>b'. listen_on s True (Some port) b = (Return PyNone, b') \<and> opened b' \<and> b_sock b' = s"
    if "1 \<le> port" "port \<le> 65535" "s \<notin> {0, - 1}"
  proof -
    have l: "listen_on s True (Some port) b = (Return PyNone, init_modules (b\<lparr>b_sock := s\<rparr>))"
      using f small [of port] that by (auto simp: listen_on_def Let_def)
    then show ?thesis using listen_opens [OF assms l] by (auto simp: init_modules_def api_state_defs Let_def)
  qed
  have bind: "\<exists>msg. listen_on s False (Some port) b = (AttributeError msg, b)" if "1 \<le> port" "port \<le> 65535" "s \<notin> {0, - 1}"
    using f small [of port] that by (cases b) (auto simp: listen_on_def Let_def)
  let ?b = "b\<lparr>b_sock := - 1\<rparr>"
  have fail: "\<exists>msg. listen_on (- 1) ok (Some port) b = (AttributeError msg, ?b)" if "1 \<le> port" "port \<le> 65535"
    using f small [of port] that by (auto simp: listen_on_def Let_def)
  have stuck: "\<exists>msg. listen_on s' ok' v ?b = (AttributeError msg, ?b)" for s' ok' v by (simp add: listen_on_def)
  have send: "\<exists>m b2. send_raw win32_inet_aton mem (Some (body, inet_ntop a, p)) ?b = (Return (PyStr m), b2)"
    if "length body \<le> 1400" "\<not> bad_port p" for mem body a p
    using that f by (simp add: send_raw_def parse_dest_def aton.pton_ntop Let_def)
  have "\<exists>msg b'. listen_on (- 1) ok (Some port) b = (AttributeError msg, b') \<and>
         (\<forall>s' ok' v. \<exists>msg'. listen_on s' ok' v b' = (AttributeError msg', b')) \<and>
         (\<forall>mem body a p. length body \<le> 1400 \<longrightarrow> \<not> bad_port p \<longrightarrow>
            (\<exists>m b2. send_raw win32_inet_aton mem (Some (body, inet_ntop a, p)) b' = (Return (PyStr m), b2)))"
    if "1 \<le> port" "port \<le> 65535"
    using fail [OF that] stuck send by blast
  then show ?thesis using out none opens bind by blast
qed

text \<open>What \<open>die\<close> silences: the methods that first look at \<open>death\<close>.\<close>

fun silenced :: "bora_method \<Rightarrow> bool" where
  "silenced (M_get_in_stats _) = True"
| "silenced (M_get_out_stats _) = True"
| "silenced M_get_bw_stats = True"
| "silenced (M_send_block _) = True"
| "silenced (M_send_raw _) = True"
| "silenced (M_add_block _) = True"
| "silenced (M_del_block _) = True"
| "silenced M_incomplete_block_list = True"
| "silenced M_complete_block_list = True"
| "silenced (M_get_block_content _) = True"
| "silenced (M_bws_set _) = True"
| "silenced (M_send_bw_msg _) = True"
| "silenced M_get_bw_msg = True"
| "silenced _ = False"

lemma dead_silenced: "b_death b \<Longrightarrow> silenced m \<Longrightarrow> call_method e m b = Ok (Some (Return PyNone), b)"
  by (cases m) (simp_all add: answer_def answers_def get_in_stats_def get_out_stats_def get_bw_stats_def send_block_def send_raw_def
      add_block_def del_block_def incomplete_block_list_def complete_block_list_def get_block_content_def bws_set_def
      send_bw_msg_def get_bw_msg_def)

text \<open>What stays as it was in a dead module.\<close>

definition same_store :: "bora \<Rightarrow> bora \<Rightarrow> bool" where
  "same_store b b' \<longleftrightarrow> b_death b' = b_death b \<and> w_cache (b_world b') = w_cache (b_world b) \<and>
     (\<forall>c. queue_of c (api_sender b') = queue_of c (api_sender b))"

lemma same_store_ops:
  "same_store b b" "same_store a b \<Longrightarrow> same_store b c \<Longrightarrow> same_store a c"
  "(\<And>c s. queue_of c (f s) = queue_of c s) \<Longrightarrow> same_store b (on_sender f b)" "same_store b (on_cookies g b)"
  "same_store b (set_biter bi b)" "same_store b (set_world ((b_world b)\<lparr>w_est := es\<rparr>) b)"
  "same_store b (b\<lparr>b_puller := bp\<rparr>)" "same_store b (b\<lparr>b_bws := bw\<rparr>)" "same_store b (b\<lparr>b_bws_running := rn\<rparr>)" "same_store b (b\<lparr>b_sock := sk\<rparr>)"
  "same_store b (b\<lparr>b_ring := init_receiver (b_ring b)\<rparr>)" "same_store b (b\<lparr>b_ring := receiver_end_tokens (b_ring b)\<rparr>)"
  by (simp_all add: same_store_def api_state_defs init_receiver_def reset_in_counters_def receiver_end_tokens_def)

lemma init_modules_store: "same_store b (init_modules b)"
  by (simp add: init_modules_def Let_def same_store_def api_state_defs init_receiver_def reset_in_counters_def init_sender_def)

lemma die_store:
  assumes "b_death b"
  shows "same_store b (snd (die b))"
proof -
  have q: "queue_of c (snd (set_nat_port n s)) = queue_of c s" "queue_of c (sender_end_tokens s) = queue_of c s" for c n s
    by (simp_all add: set_nat_port_def sender_end_tokens_def)
  have "b\<lparr>b_death := True\<rparr> = b" using assms by (cases b) simp
  then show ?thesis using q by (auto simp: die_def Let_def same_store_def api_state_defs receiver_end_tokens_def)
qed

lemma dead_call:
  assumes d: "b_death b" and c: "call_method e m b = Ok (r, b')"
  shows "same_store b b'"
proof (cases "silenced m")
  case True
  then show ?thesis using dead_silenced [OF d True, of e] c by (simp add: same_store_ops(1))
next
  case False
  note ans = answer_def answers_def bind_res_Ok_iff map_res_Ok_iff
  have n: "queue_of k (snd (set_nat_port p s)) = queue_of k s" for k p s by (simp add: set_nat_port_def)
  have p: "same_store b (on_sender (\<lambda>s. snd (set_nat_port p s)) b)" for p using n by (rule same_store_ops(3))
  have i: "same_store b (init_modules (b\<lparr>b_sock := s\<rparr>))" for s
    by (rule same_store_ops(2) [OF same_store_ops(10) init_modules_store])
  have w: "same_store b (b\<lparr>b_bws := x, b_bws_running := y\<rparr>)" for x y by (simp add: same_store_def)
  show ?thesis
  proof (cases m)
    case (M_listen_on v) then show ?thesis using c i by (auto simp: ans listen_on_def Let_def same_store_ops split: option.splits)
  next
    case M_die then show ?thesis using c die_store [OF d] by (simp add: ans)
  next
    case (M_bwsiter v) then show ?thesis using c w by (auto simp: bwiter_new_def same_store_ops(1) split: option.splits if_splits)
  next
    case (M_send_cookie a) then show ?thesis using c
      by (auto simp: send_cookie_begin_def map_res_Ok_iff same_store_ops(1,4) split: option.splits if_splits)
  next
    case (M_send_cookie_wait x) then show ?thesis using c by (auto simp: ans send_cookie_end_def same_store_ops(1,4) split: if_splits)
  next
    case (M_set_nat_port a) then show ?thesis using c p by (auto simp: ans bora_set_nat_port_def same_store_ops(1) split: option.splits if_splits)
  qed (use c d False in \<open>simp_all add: ans same_store_ops(1) BIter_iternext_def BPuller_iternext_def BWIter_iternext_def\<close>)
qed

lemma dead_run: "run_methods ems b = Ok (rs, b') \<Longrightarrow> b_death b \<Longrightarrow> same_store b b'"
proof (induction ems arbitrary: b rs)
  case (Cons em ems)
  obtain r b1 rs1 where c: "call_method (fst em) (snd em) b = Ok (r, b1)" "run_methods ems b1 = Ok (rs1, b')"
    using Cons.prems(1) by (auto simp: bind_res_Ok_iff map_res_Ok_iff)
  have s: "same_store b b1" by (rule dead_call [OF Cons.prems(2) c(1)])
  then have "same_store b1 b'" using Cons.IH [OF c(2)] Cons.prems(2) by (simp add: same_store_def)
  with s show ?case by (rule same_store_ops(2))
qed (simp add: same_store_ops(1))

text \<open>
  C37: \<open>die\<close> is final for the interpreter. It closes the socket and wakes the iterators, which then stop. Whatever is called afterwards,
  and in whatever order, a new \<open>listen_on\<close> included, as far as the calls return: the methods that look at \<open>death\<close> return \<open>None\<close> and
  do nothing, the iterators are exhausted, and none of the calls queues a packet or touches the block cache. The threads that a second
  \<open>listen_on\<close> starts are not calls of the interpreter: what they receive can still change the cache and queue acknowledgements.
\<close>

theorem die_is_final:
  assumes "b_sock b \<noteq> 0" and "die b = (r, b1)" and "run_methods ems b1 = Ok (rs, b2)"
  shows "r = Return PyTrue \<and> b_sock b1 = 0 \<and>
    (\<exists>b'. BIter_resume b1 = Ok (StopIteration, b')) \<and> (\<exists>b'. BPuller_resume b1 = Ok (StopIteration, b')) \<and>
    (b_bws_running b \<longrightarrow> (\<exists>b'. BWIter_resume b1 = Ok (StopIteration, b'))) \<and>
    (\<forall>e m. silenced m \<longrightarrow> call_method e m b2 = Ok (Some (Return PyNone), b2)) \<and>
    (\<forall>e. \<forall>m \<in> {M_BIter_next, M_BPuller_next, M_BWIter_next}. call_method e m b2 = Ok (Some StopIteration, b2)) \<and>
    w_cache (b_world b2) = w_cache (b_world b) \<and> (\<forall>c. queue_of c (api_sender b2) = queue_of c (api_sender b))"
proof -
  have q: "queue_of c (snd (set_nat_port n s)) = queue_of c s" "queue_of c (sender_end_tokens s) = queue_of c s" for c n s
    by (simp_all add: set_nat_port_def sender_end_tokens_def)
  have b1: "r = Return PyTrue" "b_sock b1 = 0" "b_death b1" "w_cache (b_world b1) = w_cache (b_world b)"
    "\<forall>c. queue_of c (api_sender b1) = queue_of c (api_sender b)" "0 < s_biter_full (w_biter (b_world b1))"
    "0 < s_bpuller_full (b_puller b1)" "b_bws_running b \<Longrightarrow> 0 < s_bws_hasdata (b_bws b1)"
    using assms(1,2) q by (auto simp: die_def Let_def api_state_defs receiver_end_tokens_def bws_end_tokens_def split: if_splits)
  have s: "same_store b1 b2" by (rule dead_run [OF assms(3) b1(3)])
  then have d: "b_death b2" using b1(3) by (simp add: same_store_def)
  have "\<exists>b'. BIter_resume b1 = Ok (StopIteration, b')" using b1(3,6)
    by (cases "biter_load (w_biter (b_world b1))") (auto simp: BIter_resume_def biter_next_def)
  moreover have "\<exists>b'. BPuller_resume b1 = Ok (StopIteration, b')" using b1(3,7) by (simp add: BPuller_resume_def bpuller_next_def)
  moreover have "b_bws_running b \<Longrightarrow> \<exists>b'. BWIter_resume b1 = Ok (StopIteration, b')" using b1(3,8) by (simp add: BWIter_resume_def Let_def)
  moreover have "\<forall>e. \<forall>m \<in> {M_BIter_next, M_BPuller_next, M_BWIter_next}. call_method e m b2 = Ok (Some StopIteration, b2)"
    using d by (simp add: answers_def answer_def BIter_iternext_def BPuller_iternext_def BWIter_iternext_def)
  ultimately show ?thesis using b1 dead_silenced [OF d] s by (simp add: same_store_def)
qed

end
