(* ===== verification/Puller.thy ===== *)
theory Puller
  imports Bridges
begin

text \<open>
  The puller thread of \<open>packet_sender.c\<close> (\<open>send_pull\<close>). It sleeps on \<open>produceBlock\<close> until the sending thread finds the data
  queue nearly empty, asks the interpreter for a block, and sleeps on \<open>blockProduced\<close> until \<open>sendblock\<close> has run. The
  signals are sent without a lock and without a flag, so a signal that comes while the thread does not
  sleep is lost. The mutexes \<open>pbLock\<close> and \<open>bpLock\<close> are taken by this thread only. Wake-ups without a signal, which POSIX
  allows, are left out. \<open>asked\<close> and \<open>answered\<close> count, for the statements only, the requests and the signals that ended a wait for a block.
\<close>

section \<open>Model\<close>

datatype qloc = QTop | QChecked | QWaitPB | QAwake | QPull | QDone | QWaitBP | QStop

record pull_sys =
  q_at :: qloc
  q_kill :: bool
  q_bp :: bpuller
  asked :: nat
  answered :: nat

inductive puller_step :: "pull_sys \<Rightarrow> pull_sys \<Rightarrow> bool" where
  pull_enter: "q_at s = QTop \<Longrightarrow> \<not> q_kill s \<Longrightarrow> puller_step s (s\<lparr>q_at := QChecked\<rparr>)"
| pull_leave: "q_at s = QTop \<Longrightarrow> q_kill s \<Longrightarrow> puller_step s (s\<lparr>q_at := QStop\<rparr>)"
| pull_sleep: "q_at s = QChecked \<Longrightarrow> puller_step s (s\<lparr>q_at := QWaitPB\<rparr>)"
| pull_break: "q_at s = QAwake \<Longrightarrow> q_kill s \<Longrightarrow> puller_step s (s\<lparr>q_at := QStop\<rparr>)"
| pull_go: "q_at s = QAwake \<Longrightarrow> \<not> q_kill s \<Longrightarrow> puller_step s (s\<lparr>q_at := QPull\<rparr>)"
| pull_ask: "q_at s = QPull \<Longrightarrow> block_pull (q_bp s) = Ok bp \<Longrightarrow> puller_step s (s\<lparr>q_bp := bp, asked := asked s + 1, q_at := QDone\<rparr>)"
| pull_rest: "q_at s = QDone \<Longrightarrow> puller_step s (s\<lparr>q_at := QWaitBP\<rparr>)"

definition signal_produceBlock :: "pull_sys \<Rightarrow> pull_sys" where
  "signal_produceBlock s = (if q_at s = QWaitPB then s\<lparr>q_at := QAwake\<rparr> else s)"

definition signal_blockProduced :: "pull_sys \<Rightarrow> pull_sys" where
  "signal_blockProduced s = (if q_at s = QWaitBP then s\<lparr>q_at := QTop, answered := answered s + 1\<rparr> else s)"

definition sender_end_signals :: "pull_sys \<Rightarrow> pull_sys" where
  "sender_end_signals s = signal_produceBlock (signal_blockProduced (signal_produceBlock (signal_blockProduced s)))"

inductive pull_others :: "pull_sys \<Rightarrow> pull_sys \<Rightarrow> bool" where
  other_threshold: "pull_others s (signal_produceBlock s)"
| other_sent: "pull_others s (signal_blockProduced s)"
| other_fetch: "bpuller_next (q_bp s) = Ok bp \<Longrightarrow> pull_others s (s\<lparr>q_bp := bp\<rparr>)"

definition start_pull :: pull_sys where
  "start_pull = \<lparr>q_at = QTop, q_kill = False, q_bp = init_bpuller, asked = 0, answered = 0\<rparr>"

inductive pull_reach :: "pull_sys \<Rightarrow> bool" where
  pull_start: "pull_reach start_pull"
| pull_next: "pull_reach s \<Longrightarrow> puller_step s s' \<or> pull_others s s' \<Longrightarrow> pull_reach s'"

inductive_simps puller_step_iff: "puller_step s s'"
inductive_simps pull_others_iff: "pull_others s s'"

section \<open>Requests\<close>

definition pull_inv :: "pull_sys \<Rightarrow> bool" where
  "pull_inv s \<longleftrightarrow> \<not> q_kill s \<and> q_at s \<noteq> QStop \<and> s_bpuller_full (q_bp s) + s_bpuller_empty (q_bp s) = N_BPULLER \<and>
     asked s = answered s + (if q_at s \<in> {QDone, QWaitBP} then 1 else 0)"

lemma pull_inv_reach: "pull_reach s \<Longrightarrow> pull_inv s"
proof (induction rule: pull_reach.induct)
  case pull_start
  then show ?case by (simp add: pull_inv_def start_pull_def init_bpuller_def)
next
  case (pull_next s s')
  from pull_next.hyps(2) show ?case
  proof
    assume "puller_step s s'"
    then show ?thesis using pull_next.IH by cases (auto simp: pull_inv_def block_pull_def split: if_splits)
  next
    assume "pull_others s s'"
    then show ?thesis using pull_next.IH
      by cases (auto simp: pull_inv_def signal_produceBlock_def signal_blockProduced_def bpuller_next_def split: if_splits)
  qed
qed

section \<open>Stopping\<close>

text \<open>
  After its signals, \<open>sender_end_threads\<close> waits for the two threads, inside \<open>die\<close>, which holds the interpreter's lock: no \<open>sendblock\<close> runs
  that could signal \<open>blockProduced\<close>. What can still happen beside the puller's own steps is that the sending thread, in its last round,
  signals \<open>produceBlock\<close>, and that a reader of the requests takes one.
\<close>

inductive puller_or_fetch :: "pull_sys \<Rightarrow> pull_sys \<Rightarrow> bool" where
  stop_step: "puller_step s s' \<Longrightarrow> puller_or_fetch s s'"
| stop_fetch: "bpuller_next (q_bp s) = Ok bp \<Longrightarrow> puller_or_fetch s (s\<lparr>q_bp := bp\<rparr>)"

inductive after_signals :: "pull_sys \<Rightarrow> pull_sys \<Rightarrow> bool" where
  late_step: "puller_or_fetch s s' \<Longrightarrow> after_signals s s'"
| late_threshold: "after_signals s (signal_produceBlock s)"

text \<open>Past its request, the thread waits for a block that nobody announces any more, whatever \<open>produceBlock\<close> does.\<close>

lemma waits_for_block: "after_signals\<^sup>*\<^sup>* t s \<Longrightarrow> q_at t \<in> {QPull, QDone, QWaitBP} \<Longrightarrow> q_at s \<in> {QPull, QDone, QWaitBP}"
  by (induction rule: rtranclp_induct)
    (auto simp: after_signals.simps puller_or_fetch.simps puller_step_iff signal_produceBlock_def)

text \<open>Past its test of the flag and not asleep, it falls asleep, and only a signal wakes it.\<close>

lemma sleeps_unless_woken: "puller_or_fetch\<^sup>*\<^sup>* t s \<Longrightarrow> q_at t \<in> {QChecked, QWaitPB} \<Longrightarrow>
    q_at s \<in> {QChecked, QWaitPB} \<and> q_kill s = q_kill t"
  by (induction rule: rtranclp_induct) (auto simp: puller_or_fetch.simps puller_step_iff)

lemma end_signals_at:
  "q_at (sender_end_signals s) = (if q_at s = QWaitPB then QAwake else if q_at s = QWaitBP then QTop else q_at s)"
  "q_kill (sender_end_signals s) = q_kill s"
  by (simp_all add: sender_end_signals_def signal_produceBlock_def signal_blockProduced_def)

text \<open>
  C36: the puller thread. While the program runs, the thread asks for a block only after the previous request was
  answered, and every request is either waiting for the interpreter or one of 20 free places. When it is told to stop, the signals of
  \<open>sender_end_threads\<close> end it if it sleeps, or has not passed its test of the flag yet: its next step is to stop. If they come when it is
  about to ask for a block or has asked and not yet gone to sleep, they are lost: it waits for a block, never ends, whatever signals the sending thread still
  gives, and \<open>die\<close> waits for it forever. If they come when it is past the test and not yet asleep, they are lost too: it never ends
  unless the sending thread, in its last round, once more finds its queue short and signals while the puller sleeps; then its next step is to stop.
\<close>

theorem puller_protocol:
  assumes "pull_reach s"
  shows "asked s = answered s + (if q_at s \<in> {QDone, QWaitBP} then 1 else 0) \<and>
    s_bpuller_full (q_bp s) + s_bpuller_empty (q_bp s) = 20 \<and>
    (let t = sender_end_signals (s\<lparr>q_kill := True\<rparr>) in
     (q_at s \<in> {QTop, QWaitPB, QAwake, QWaitBP} \<longrightarrow>
        (\<exists>s'. puller_step t s') \<and> (\<forall>s'. puller_step t s' \<longrightarrow> q_at s' = QStop)) \<and>
     (q_at s \<in> {QPull, QDone} \<longrightarrow> (\<forall>s'. after_signals\<^sup>*\<^sup>* t s' \<longrightarrow> q_at s' \<noteq> QStop)) \<and>
     (q_at s = QChecked \<longrightarrow> (\<forall>s'. puller_or_fetch\<^sup>*\<^sup>* t s' \<longrightarrow> q_at s' \<noteq> QStop \<and>
        (q_at s' = QWaitPB \<longrightarrow> (\<exists>s''. puller_step (signal_produceBlock s') s'') \<and>
           (\<forall>s''. puller_step (signal_produceBlock s') s'' \<longrightarrow> q_at s'' = QStop)))))"
proof -
  let ?t = "sender_end_signals (s\<lparr>q_kill := True\<rparr>)"
  have inv: "pull_inv s" by (rule pull_inv_reach [OF assms])
  have k: "q_kill ?t" by (simp add: end_signals_at)
  have stops: "(\<exists>s'. puller_step u s') \<and> (\<forall>s'. puller_step u s' \<longrightarrow> q_at s' = QStop)"
    if "q_kill u" "q_at u = QTop \<or> q_at u = QAwake" for u
    using that by (auto simp: puller_step_iff)
  have "(\<exists>s'. puller_step ?t s') \<and> (\<forall>s'. puller_step ?t s' \<longrightarrow> q_at s' = QStop)" if "q_at s \<in> {QTop, QWaitPB, QAwake, QWaitBP}"
    using that by (intro stops k) (auto simp: end_signals_at)
  moreover have "q_at s' \<noteq> QStop" if "q_at s \<in> {QPull, QDone}" "after_signals\<^sup>*\<^sup>* ?t s'" for s'
    using waits_for_block [OF that(2)] that(1) by (auto simp: end_signals_at)
  moreover have "q_at s' \<noteq> QStop \<and> (q_at s' = QWaitPB \<longrightarrow> (\<exists>s''. puller_step (signal_produceBlock s') s'') \<and>
      (\<forall>s''. puller_step (signal_produceBlock s') s'' \<longrightarrow> q_at s'' = QStop))"
    if c: "q_at s = QChecked" and r: "puller_or_fetch\<^sup>*\<^sup>* ?t s'" for s'
  proof -
    have q: "q_at s' \<in> {QChecked, QWaitPB}" "q_kill s'" using sleeps_unless_woken [OF r] c k by (auto simp: end_signals_at)
    have "q_kill (signal_produceBlock s')" "q_at s' = QWaitPB \<Longrightarrow> q_at (signal_produceBlock s') = QTop \<or> q_at (signal_produceBlock s') = QAwake"
      using q(2) by (simp_all add: signal_produceBlock_def)
    then show ?thesis using stops [of "signal_produceBlock s'"] q(1) by (metis insertE qloc.distinct singletonD)
  qed
  moreover have "asked s = answered s + (if q_at s \<in> {QDone, QWaitBP} then 1 else 0)"
    "s_bpuller_full (q_bp s) + s_bpuller_empty (q_bp s) = 20" using inv by (simp_all add: pull_inv_def N_BPULLER_def)
  ultimately show ?thesis unfolding Let_def by blast
qed

end
