(* ===== verification/Module_Scenarios.thy ===== *)
theory Module_Scenarios
  imports Scenarios Bora_System Puller
begin

text \<open>
  The same two peers, seen from the module: the datagrams of acknowledgements, of an announced port and of a raw
  message, the receive buffer, the statistics cycle, and the module from opening to its end.
\<close>

section \<open>Datagrams\<close>

definition from_peer :: "sockaddr_in \<Rightarrow> u8 list \<Rightarrow> IncomingData" where
  "from_peer h wire = \<lparr>id_from = h, id_fromlen = 16, id_buf = wire @ replicate (1500 - length wire) 0,
     id_buflen = of_nat (length wire), id_tv = Timeval 6 0\<rparr>"

lemma from_peer_carries: "length wire \<le> 1500 \<Longrightarrow> carries (from_peer h wire) wire"
  by (simp add: carries_def from_peer_def BUFSIZE_def unat_of_nat)

text \<open>Bob acknowledges the second packet; Alice has heard of Bob before.\<close>

definition alice_world :: world where
  "alice_world = bob_world\<lparr>w_ack := world2\<rparr>"

theorem acknowledgement_settles_packet_witness:
  "\<exists>d' w'. process_packet rx_mem0 (from_peer bob (wire_of False 0 0 ((make_ack zero_SendData 2 0 (Timeval 5 500))\<lparr>sd_to := alice\<rparr>))) alice_world = Ok (d', w') \<and>
     outstanding (aw_nacks (w_ack w')) bob = []"
proof -
  let ?h = "(make_ack zero_SendData 2 0 (Timeval 5 500))\<lparr>sd_to := alice\<rparr>"
  let ?d = "from_peer bob (wire_of False 0 0 ?h)"
  have "length (wire_of False 0 0 ?h) \<le> 1500" unfolding ack_wire [OF wf_zero_SendData refl] by simp
  then have c: "carries ?d (wire_of False 0 0 ?h)" by (rule from_peer_carries)
  have w: "w_ack alice_world = world2" "id_from ?d = bob" by (simp_all add: alice_world_def from_peer_def)
  have n: "peers_distinct (aw_nacks (w_ack alice_world))" "\<not> ack_list_held (aw_peers (w_ack alice_world))"
    "\<forall>a \<in> set (outstanding (aw_nacks (w_ack alice_world)) bob). sd_to (a_d a) = bob" by (simp_all add: w packet_props)
  have p: "bytes_of_u16 0 ! 0 = 0" by (simp add: bytes_of_u16_def)
  have "List.find (\<lambda>a. a_seq a = 2) [unacked 1, unacked 0] = Some (unacked 1)"
    "filter (\<lambda>b. a_sendtime (unacked 1) \<le> a_sendtime b) (drop_first (\<lambda>b. a_seq b = 2) [unacked 1, unacked 0]) = []"
    by (simp_all add: drop_first_def less_eq_timeval_def)
  then show ?thesis
    using acknowledgement_settles_packet [OF wf_zero_SendData c p n(1,2) w(2) [symmetric] n(3), where mem = rx_mem0] by (auto simp: w)
qed

text \<open>The first fragment again, from a peer that announces port 8080.\<close>

theorem announced_port_loses_fragment_witness:
  "\<exists>d' w'. process_packet rx_mem0 (from_peer alice (wire_of False 1 0x1f90 (packet 0))) bob_world = Ok (d', w') \<and> w_cache w' = [] \<and>
     w_ack w' = w_ack bob_world \<and> w_stats_r w' ! I_GARBAGE = 1413"
proof -
  let ?d = "from_peer alice (wire_of False 1 0x1f90 (packet 0))"
  have f: "fragment_packet (frag 0) (packet 0)" by (rule packet_is_fragment) simp
  have "length (wire_of False 1 0x1f90 (packet 0)) \<le> 1500"
    using wire_shape(2) [OF f] wire_shape(4) [OF f, of False 1 "0x1f90"] by simp
  then have c: "carries ?d (wire_of False 1 0x1f90 (packet 0))" by (rule from_peer_carries)
  have p: "bytes_of_u16 0x1f90 ! 0 \<noteq> 0" by (simp add: bytes_of_u16_def)
  have s: "length (w_stats_r bob_world) = NUM_STAT_R" by (simp add: bob_world_def)
  have "unat (ucast (sd_length (packet 0)) :: u64) = unat (1413 :: u64)"
    using packet_props(6) [of 0] by (simp add: unsigned_ucast_eq take_bit_nat_eq_self)
  then have l: "(ucast (sd_length (packet 0)) :: u64) = 1413" by (simp only: word_unat_eq_iff)
  show ?thesis using announced_port_loses_fragment [OF f c p s, where mem = rx_mem0] l by (auto simp: bob_world_def in_stat_defs)
qed

theorem inet_aton_roundtrip_witness:
  "win32_inet_aton (inet_ntop 0x0100007f) = Some 0x0100007f \<and> win32_inet_aton (inet_ntop 0x0100007f @ '' '') = Some 0x0100007f \<and>
   win32_inet_aton (inet_ntop 0x0100007f @ ''.1'') = None \<and> inet_ntop 0x0100007f \<noteq> inet_ntop 0x0200007f"
proof -
  have s: "separated '' ''" "separated ''.1''" "isspace (CHR '' '')" "\<not> isspace (CHR ''.'')"
    by (simp_all add: separated_def isspace_def isdigit_def)
  show ?thesis using inet_aton_roundtrip [of "0x0100007f" "0x0200007f" "'' ''"] inet_aton_roundtrip [of "0x0100007f" "0x0200007f" "''.1''"] s by auto
qed

section \<open>Threads\<close>

definition ring1 :: rx_ring where
  "ring1 = (let s = init_ring bob_world; d = store_datagram [1, 2, 3] alice (Timeval 6 0) (rb_buffer s ! 0) in
     s\<lparr>r_at := RPost, bEmpty := 255, rb_buffer := (rb_buffer s)[0 := d], r_slot := next_slot 0, got := [d]\<rparr>)"

lemmas ring_init_defs = init_ring_def init_receiver_def static_ring_def

lemma ring1_reached: "ring_reach bob_world ring1"
proof -
  let ?s0 = "init_ring bob_world"
  let ?s1 = "?s0\<lparr>r_at := RWait\<rparr>"
  let ?s2 = "?s1\<lparr>bEmpty := bEmpty ?s1 - 1, r_at := RRecv\<rparr>"
  have "ring_step ?s0 ?s1" by (intro by_receiver recv_enter) (simp_all add: ring_init_defs)
  then have r1: "ring_reach bob_world ?s1" by (rule ring_next [OF ring_start])
  have "ring_step ?s1 ?s2" by (intro by_receiver recv_wait) (simp_all add: ring_init_defs BUF_N_def)
  then have r2: "ring_reach bob_world ?s2" by (rule ring_next [OF r1])
  have "ring_step ?s2 ring1"
    unfolding ring1_def Let_def
    by (rule by_receiver, rule back_subst [of "receiver_step ?s2", OF recv_store [OF _ _ refl, of _ "[1, 2, 3]" alice "Timeval 6 0"]])
      (simp_all add: ring_init_defs BUF_N_def BUFSIZE_def)
  then show ?thesis by (rule ring_next [OF r2])
qed

theorem receive_buffer_queue_witness:
  "ring_reach bob_world ring1 \<and> got ring1 = [rb_buffer ring1 ! 0] \<and> length (got ring1) = 1"
proof -
  have k: "\<not> kill ring1" "handled ring1 = []" "length (got ring1) = 1" by (simp_all add: ring1_def ring_init_defs Let_def)
  show ?thesis using receive_buffer_queue [OF ring1_reached k(1)] ring1_reached k by simp
qed

definition waiting :: bws_sys where
  "waiting = (bws_start 1000 world0)\<lparr>bs_lock := ByTimer, bs_bws := (init_bws 1000)\<lparr>s_bws_hasdata := 1\<rparr>, bs_at := TWait\<rparr>"

lemma waiting_reached: "bws_reach 1000 world0 waiting"
proof -
  let ?s0 = "bws_start 1000 world0"
  have "bws_reach 1000 world0 ?s0" by (rule bws_begin) (simp add: world0_def static_peer_stats_def)
  moreover have "bws_step ?s0 (?s0\<lparr>bs_at := TLock\<rparr>)" by (intro step_timer timer_sleep) (simp_all add: bws_start_def)
  moreover have "bws_step (?s0\<lparr>bs_at := TLock\<rparr>) (?s0\<lparr>bs_lock := ByTimer, bs_at := TPost\<rparr>)"
    using step_timer [OF timer_lock [of "?s0\<lparr>bs_at := TLock\<rparr>"]] by (simp add: bws_start_def)
  moreover have "bws_step (?s0\<lparr>bs_lock := ByTimer, bs_at := TPost\<rparr>) waiting"
    using step_timer [OF timer_post [of "?s0\<lparr>bs_lock := ByTimer, bs_at := TPost\<rparr>"]] by (simp add: bws_start_def init_bws_def waiting_def)
  ultimately show ?thesis by (blast intro: bws_next)
qed

theorem statistics_cycle_witness:
  "bws_reach 1000 world0 waiting \<and> (\<exists>s'. timer_step waiting s' \<or> interpreter_step waiting s') \<and> \<not> ack_list_held (aw_peers (bs_aw waiting))"
proof -
  have w: "\<not> bs_kill waiting" "bs_at waiting = TWait" "bs_py waiting = PyIdle" by (simp_all add: waiting_def bws_start_def)
  show ?thesis using statistics_cycle [OF waiting_reached w(1)] waiting_reached w(2,3) by auto
qed

text \<open>The puller has asked for a block and is about to sleep.\<close>

definition pulled :: pull_sys where
  "pulled = start_pull\<lparr>q_at := QDone, q_bp := \<lparr>s_bpuller_full = 1, s_bpuller_empty = 19\<rparr>, asked := 1\<rparr>"

lemma pulled_reached: "pull_reach pulled"
proof -
  let ?s = "\<lambda>l. start_pull\<lparr>q_at := l\<rparr>"
  have s: "puller_step start_pull (?s QChecked)" "puller_step (?s QChecked) (?s QWaitPB)" "puller_step (?s QAwake) (?s QPull)" "puller_step (?s QPull) pulled"
    by (simp_all add: puller_step_iff start_pull_def pulled_def block_pull_def init_bpuller_def N_BPULLER_def)
  have "pull_others (?s QWaitPB) (?s QAwake)" using other_threshold [of "?s QWaitPB"] by (simp add: signal_produceBlock_def)
  then show ?thesis using s by (meson pull_start pull_next)
qed

theorem puller_protocol_witness:
  "asked pulled = answered pulled + 1 \<and> \<not> (\<exists>s'. after_signals\<^sup>*\<^sup>* (sender_end_signals (pulled\<lparr>q_kill := True\<rparr>)) s' \<and> q_at s' = QStop)"
proof -
  have q: "q_at pulled \<in> {QPull, QDone}" "asked pulled = 1" "answered pulled = 0" by (simp_all add: pulled_def start_pull_def)
  note p = puller_protocol [OF pulled_reached, unfolded Let_def]
  have "q_at pulled \<in> {QPull, QDone} \<longrightarrow> (\<forall>s'. after_signals\<^sup>*\<^sup>* (sender_end_signals (pulled\<lparr>q_kill := True\<rparr>)) s' \<longrightarrow> q_at s' \<noteq> QStop)"
    using p by (elim conjE) assumption
  then have "\<forall>s'. after_signals\<^sup>*\<^sup>* (sender_end_signals (pulled\<lparr>q_kill := True\<rparr>)) s' \<longrightarrow> q_at s' \<noteq> QStop" using q(1) by (rule mp)
  moreover have "asked pulled = answered pulled + 1" using q(2,3) by simp
  ultimately show ?thesis by blast
qed

section \<open>The module\<close>

text \<open>The module as loaded, and after it has opened socket 3 on port 8080.\<close>

definition loaded :: bora where
  "loaded = \<lparr>b_sock = 0, b_death = False, b_bws_running = False,
     b_ring = static_ring \<lparr>w_ack = \<lparr>aw_peers = static_peer_stats, aw_nacks = static_nacks, aw_sender = static_sender, aw_cookies = static_cookies\<rparr>,
       w_cache = [], w_est = [], w_bwm = [], w_biter = static_biter, w_stats_r = replicate NUM_STAT_R 0\<rparr>,
     b_puller = \<lparr>s_bpuller_full = 0, s_bpuller_empty = 0\<rparr>, b_bws = init_bws 0\<rparr>"

definition open0 :: bora where
  "open0 = init_modules (loaded\<lparr>b_sock := 3\<rparr>)"

definition env1 :: api_env where
  "env1 = \<lparr>e_pton = win32_inet_aton, e_now = Timeval 7 0, e_sock = 3, e_bind = True, e_mem = zero_SendData,
     e_packets = (\<lambda>_. zero_SendData), e_addr = zero_addr\<rparr>"

lemma loaded_fresh: "fresh loaded"
  by (simp add: fresh_def loaded_def static_ring_def Let_def)

lemma listen_open0: "listen_on 3 True (Some 8080) loaded = (Return PyNone, open0)"
  by (simp add: listen_on_def open0_def loaded_def Let_def)

lemma open0_reached: "bora_reach open0"
  by (rule reach_open [OF loaded_fresh listen_open0])

lemma open0_fields [simp]:
  "b_sock open0 = 3" "\<not> b_death open0" "\<not> b_bws_running open0" "api_sender open0 = sender0" "w_biter (b_world open0) = init_biter static_biter"
  by (simp_all add: open0_def init_modules_def loaded_def Let_def api_state_defs init_receiver_def static_ring_def reset_in_counters_def sender0_def)

abbreviation hello :: "u8 list" where "hello \<equiv> [104, 101, 108, 108, 111]"

theorem raw_message_roundtrip_witness:
  "\<exists>m w' d' r'. send_raw win32_inet_aton zero_SendData (Some (hello, inet_ntop 0x0200007f, 8081)) open0 = (Return (PyStr (0 # hello)), on_sender (send_data m) open0) \<and>
     process_packet rx_mem0 (from_peer alice (wire_of False 0 0 m)) (b_world open0) = Ok (d', w') \<and>
     BIter_iternext (set_world w' open0) = Ok (Return (PyList [PyInt (- 1), PyInt (- 1),
       PyDict [(''host'', py_host alice), (''port'', py_port alice), (''message'', PyStr hello), (''ts'', py_d (Timeval 6 0))]]), r')"
proof -
  have h: "b_sock open0 \<noteq> 0" "\<not> bad_port 8081" "biter_ok (w_biter (b_world open0))" "biter_contents (w_biter (b_world open0)) = []" "length hello \<le> 1400"
    using biter0 by (simp_all add: bad_port_def)
  obtain m where m: "send_raw win32_inet_aton zero_SendData (Some (hello, inet_ntop 0x0200007f, 8081)) open0 = (Return (PyStr (0 # hello)), on_sender (send_data m) open0)"
    "\<forall>n port. wire_of False n port m = 0 # hello"
    "\<forall>d n port. carries d (wire_of False n port m) \<longrightarrow> (\<exists>d' w'. process_packet rx_mem0 d (b_world open0) = Ok (d', w') \<and>
       w_ack w' = w_ack (b_world open0) \<and> w_cache w' = w_cache (b_world open0) \<and>
       (if 3 \<le> length hello
        then \<exists>r'. BIter_iternext (set_world w' open0) = Ok (Return (PyList [PyInt (- 1), PyInt (- 1),
          PyDict [(''host'', py_host (id_from d)), (''port'', py_port (id_from d)), (''message'', PyStr hello), (''ts'', py_d (id_tv d))]]), r') \<and>
          biter_contents (w_biter (b_world r')) = []
        else biter_contents (w_biter w') = [] \<and> BIter_iternext (set_world w' open0) = Err Blocked))"
    using raw_message_roundtrip [OF h(1) open0_fields(2) wf_zero_SendData h(5,2) open0_fields(2) h(3,4), where addr = "0x0200007f" and rmem = rx_mem0 and h = zero_addr and ?a0.0 = zero_addr]
    by (elim exE conjE) (rule that)
  have h3: "3 \<le> length hello" by simp
  have "length (wire_of False 0 0 m) \<le> 1500" unfolding m(2) [rule_format] by simp
  then have c: "carries (from_peer alice (wire_of False 0 0 m)) (wire_of False 0 0 m)" by (rule from_peer_carries)
  have f: "id_from (from_peer alice x) = alice" "id_tv (from_peer alice x) = Timeval 6 0" for x by (simp_all add: from_peer_def)
  show ?thesis using m(1) m(3) [rule_format, OF c, unfolded if_P [OF h3] f] by blast
qed

text \<open>One message waits in the data queue.\<close>

definition open1 :: bora where
  "open1 = snd (send_raw win32_inet_aton zero_SendData (Some (hello, inet_ntop 0x0200007f, 8081)) open0)"

lemma open1_reached: "bora_reach open1"
proof -
  have "\<exists>r. call_method env1 (M_send_raw (Some (hello, inet_ntop 0x0200007f, 8081))) open0 = Ok (r, open1)"
    by (simp add: answer_def env1_def open1_def)
  moreover have "env_ok env1" by (simp add: env_ok_def env1_def)
  ultimately have "bora_step open0 open1" using by_call by blast
  then show ?thesis by (rule reach_step [OF open0_reached])
qed

theorem system_invariant_witness:
  "opened open1 \<and> (\<forall>c. length (queue_of c (api_sender open1)) \<le> 2000) \<and> qEmpty (api_sender open1) + sFull (api_sender open1) = 6000"
  using system_invariant [OF open1_reached] by blast

theorem die_is_final_witness:
  "\<exists>b1 b2. die open0 = (Return PyTrue, b1) \<and> call_method env1 (M_listen_on (Some 8080)) b1 = Ok (Some (Return PyNone), b2) \<and>
     call_method env1 (M_add_block (Some (1, 7, hello))) b2 = Ok (Some (Return PyNone), b2)"
proof -
  obtain r b1 where d: "die open0 = (r, b1)" by fastforce
  have s: "b_sock open0 \<noteq> 0" by simp
  have "b_sock b1 = 0" using d by (auto simp: die_def Let_def)
  then have c: "call_method env1 (M_listen_on (Some 8080)) b1 = Ok (Some (Return PyNone), init_modules (b1\<lparr>b_sock := 3\<rparr>))"
    by (simp add: answer_def env1_def listen_on_def Let_def)
  then have "run_methods [(env1, M_listen_on (Some 8080))] b1 = Ok ([Some (Return PyNone)], init_modules (b1\<lparr>b_sock := 3\<rparr>))"
    by simp
  note f = die_is_final [OF s d this]
  let ?b2 = "init_modules (b1\<lparr>b_sock := 3\<rparr>)"
  have r: "r = Return PyTrue" using f by (rule conjunct1)
  have "silenced (M_add_block (Some (1, 7, hello)))" by simp
  then have a: "call_method env1 (M_add_block (Some (1, 7, hello))) ?b2 = Ok (Some (Return PyNone), ?b2)" using f by blast
  show ?thesis by (intro exI conjI, rule d [unfolded r], rule c, rule a)
qed

end
