(* ===== verification/Sending_Thread.thy ===== *)
theory Sending_Thread
  imports Packet_Sender
begin

text \<open>
  The loop of \<open>send_packet\<close> as a whole (\<open>packet_sender.c\<close>): what it puts on the wire when its queues hold
  a given list of packets, in which order, under which sequence numbers, and what it remembers of it.
\<close>

section \<open>The loop of the sending thread\<close>

text \<open>
  \<open>send_packet\<close> for as long as packets are sent, one entry of the list of environments for each. The flag says
  where the loop is: at its top, where it looks for a second packet to the host just served, or behind that.
\<close>

fun send_thread :: "send_env list \<Rightarrow> bool \<Rightarrow> ack_world \<Rightarrow> (sent list \<times> bool \<times> ack_world) res" where
  "send_thread [] ltop w = Ok ([], ltop, w)"
| "send_thread (env # envs) ltop w =
     bind_res (if ltop then send_pair env w else Ok ([], w)) (\<lambda>(os, w).
       let w = w\<lparr>aw_sender := (aw_sender w)\<lparr>z := False\<rparr>\<rparr> in
       if os \<noteq> [] then map_res (\<lambda>(rest, ltop, w). (os @ rest, ltop, w)) (send_thread envs False w)
       else bind_res (packet_send env w) (\<lambda>(o1, w).
              map_res (\<lambda>(rest, ltop, w). (o1 # rest, ltop, w)) (send_thread envs True w)))"

text \<open>A full round of the loop is what \<open>send_packet_round\<close> says, the pauses apart.\<close>

lemma round_in_thread:
  assumes "send_packet_round env1 env2 w = Ok (os, slept, hit, w')"
  shows "length os = 1 \<and> send_thread [env2] True w = Ok (os, True, w') \<or>
    length os = 2 \<and> send_thread [env1, env2] True w = Ok (os, True, w')"
proof -
  obtain ps w1 where p: "send_pair env1 w = Ok (ps, w1)"
    using assms by (auto simp: send_packet_round_def bind_res_Ok_iff)
  let ?w1 = "w1\<lparr>aw_sender := (aw_sender w1)\<lparr>z := False\<rparr>\<rparr>"
  obtain o2 where o2: "packet_send env2 ?w1 = Ok (o2, w')" "os = ps @ [o2]"
    using assms p by (auto simp: send_packet_round_def bind_res_Ok_iff Let_def)
  have e: "send_pair env2 w = Ok ([], w1)" if "ps = []"
    using p that by (auto simp: send_pair_def Let_def bind_res_Ok_iff split: option.splits if_splits)
  have "ps = [] \<or> length ps = 1"
    using p by (auto simp: send_pair_def Let_def bind_res_Ok_iff split: option.splits if_splits)
  then show ?thesis
  proof
    assume "ps = []"
    then show ?thesis using e o2 by (simp add: Let_def)
  next
    assume "length ps = 1"
    then obtain o1 where "ps = [o1]" by (cases ps) auto
    then show ?thesis using p o2 by (simp add: Let_def)
  qed
qed

text \<open>The thread may go on: no cookie is waiting and no pair is half sent.\<close>

definition ready_to_send :: "ack_world \<Rightarrow> bool" where
  "ready_to_send w \<longleftrightarrow> sending_ok w \<and> \<not> z (aw_sender w) \<and> ckFull (aw_cookies w) = 0"

text \<open>What one packet on the wire changes.\<close>

definition sends_one :: "send_env \<Rightarrow> tx_class \<Rightarrow> SendData \<Rightarrow> sent \<Rightarrow> ack_world \<Rightarrow> ack_world \<Rightarrow> bool" where
  "sends_one env c d o1 w w' \<longleftrightarrow>
     (\<exists>zz. (zz \<longrightarrow> c = Data) \<and> so_wire o1 = wire_of zz (seq_num (aw_nacks w) + 1) (natPort (aw_sender w)) d) \<and> so_to o1 = sd_to d \<and>
     tx_abs (aw_sender w') = spec_take c (tx_abs (aw_sender w)) \<and> natPort (aw_sender w') = natPort (aw_sender w) \<and>
     aw_peers w' = aw_peers w \<and>
     seq_num (aw_nacks w') = (if has (sd_data d ! 0) NEED_ACK then seq_num (aw_nacks w) + 1 else seq_num (aw_nacks w)) \<and>
     (\<exists>sl. outstanding (aw_nacks w') = (if has (sd_data d ! 0) NEED_ACK
        then (outstanding (aw_nacks w))(sd_to d := \<lparr>a_seq = seq_num (aw_nacks w) + 1, a_sendtime = t_end env, a_sleeptime = sl, a_d = d\<rparr> #
               outstanding (aw_nacks w) (sd_to d))
        else outstanding (aw_nacks w)))"

lemma send_scheduled:
  assumes "ready_to_send w" and "0 < sFull (aw_sender w)"
  shows "\<exists>c d rest o1 w'. queue_of c (aw_sender w) = d # rest \<and> packet_send env w = Ok (o1, w') \<and> ready_to_send w' \<and> sends_one env c d o1 w w'"
proof -
  let ?c = "next_class (tx_abs (aw_sender w))"
  have w: "sending_ok w" "\<not> z (aw_sender w)" "ckFull (aw_cookies w) = 0" using assms(1) by (simp_all add: ready_to_send_def)
  obtain d rest o1 w' where s: "queue_of ?c (aw_sender w) = d # rest" "packet_send env w = Ok (o1, w')" "sending_ok w'"
    "tx_abs (aw_sender w') = spec_take ?c (tx_abs (aw_sender w))"
    "so_wire o1 = wire_of False (seq_num (aw_nacks w) + 1) (natPort (aw_sender w)) d" "so_to o1 = sd_to d"
    "outstanding (aw_nacks w') = (if has (sd_data d ! 0) NEED_ACK
      then (outstanding (aw_nacks w))(sd_to d := \<lparr>a_seq = seq_num (aw_nacks w) + 1, a_sendtime = t_end env,
             a_sleeptime = ucast (sleeptime (aw_sender w')), a_d = d\<rparr> # outstanding (aw_nacks w) (sd_to d))
      else outstanding (aw_nacks w))"
    "seq_num (aw_nacks w') = (if has (sd_data d ! 0) NEED_ACK then seq_num (aw_nacks w) + 1 else seq_num (aw_nacks w))"
    "natPort (aw_sender w') = natPort (aw_sender w)" "aw_cookies w' = aw_cookies w" "aw_peers w' = aw_peers w" "\<not> z (aw_sender w')"
    using packet_send_scheduled [OF w(1) assms(2) w(2,3) refl, of env] by blast
  have "(False \<longrightarrow> ?c = Data) \<and> so_wire o1 = wire_of False (seq_num (aw_nacks w) + 1) (natPort (aw_sender w)) d" using s(5) by simp
  then have "sends_one env ?c d o1 w w'" unfolding sends_one_def using s(4,6-9,11) by blast
  moreover have "ready_to_send w'" using s(3,10,12) w(3) by (simp add: ready_to_send_def)
  ultimately show ?thesis using s(1,2) by blast
qed

lemma ready_quiet:
  "ready_to_send w \<Longrightarrow> ready_to_send (w\<lparr>aw_sender := (aw_sender w)\<lparr>lasthost := h, z := False\<rparr>\<rparr>)"
  "ready_to_send w \<Longrightarrow> ready_to_send (w\<lparr>aw_sender := (aw_sender w)\<lparr>z := False\<rparr>\<rparr>)"
  by (simp_all add: ready_to_send_def sending_ok_def sender_ok_def sends_fit_def) (simp_all add: tx_abs_def)

lemma sends_one_frame:
  assumes "sends_one env c d o1 (w\<lparr>aw_sender := s\<rparr>) w'" and "tx_abs s = tx_abs (aw_sender w)" and "natPort s = natPort (aw_sender w)"
  shows "sends_one env c d o1 w w'"
  using assms by (cases "has (sd_data d ! 0) NEED_ACK") (auto simp: sends_one_def)

lemma thread_step:
  assumes "ready_to_send w" and "0 < sFull (aw_sender w)"
  shows "\<exists>c d rest o1 ltop' w'. queue_of c (aw_sender w) = d # rest \<and> ready_to_send w' \<and> sends_one env c d o1 w w' \<and>
    (\<forall>envs. send_thread (env # envs) ltop w = map_res (\<lambda>(rest, t, w). (o1 # rest, t, w)) (send_thread envs ltop' w'))"
proof -
  have w: "sending_ok w" "\<not> z (aw_sender w)" "ckFull (aw_cookies w) = 0" using assms(1) by (simp_all add: ready_to_send_def)
  have alone: ?thesis if s: "(if ltop then send_pair env w else Ok ([], w)) = Ok ([], w\<lparr>aw_sender := s\<rparr>)"
    and f: "tx_abs s = tx_abs (aw_sender w)" "natPort s = natPort (aw_sender w)" "s = (aw_sender w)\<lparr>lasthost := h\<rparr>" for s h
  proof -
    let ?w = "w\<lparr>aw_sender := s\<lparr>z := False\<rparr>\<rparr>"
    have r: "ready_to_send ?w" using ready_quiet(1) [OF assms(1), of h] f(3) by simp
    have t: "0 < sFull (aw_sender ?w)" using assms(2) f(3) by simp
    obtain c d rest o1 w' where o: "queue_of c (aw_sender ?w) = d # rest" "packet_send env ?w = Ok (o1, w')" "ready_to_send w'"
      "sends_one env c d o1 ?w w'" using send_scheduled [OF r t, of env] by blast
    have a: "tx_abs (s\<lparr>z := False\<rparr>) = tx_abs (aw_sender w)" using f(1) by (simp add: tx_abs_def)
    have q: "queue_of c (aw_sender w) = d # rest" using o(1) arg_cong [OF a, of "\<lambda>v. tx_queue v c"] by (simp add: tx_abs_def)
    have one: "sends_one env c d o1 w w'" by (rule sends_one_frame [OF o(4) a]) (use f(2) in simp)
    have "send_thread (env # envs) ltop w = map_res (\<lambda>(rest, t, w). (o1 # rest, t, w)) (send_thread envs True w')" for envs
      using s o(2) by (simp add: Let_def)
    then show ?thesis using q o(3) one by blast
  qed
  show ?thesis
  proof (cases "ltop \<and> (\<exists>h. lasthost (aw_sender w) = Some h \<and> next_is_consecutive (aw_sender w) h)")
    case False
    have "w = w\<lparr>aw_sender := (aw_sender w)\<lparr>lasthost := lasthost (aw_sender w)\<rparr>\<rparr>" by simp
    then have "(if ltop then send_pair env w else Ok ([], w)) =
        Ok ([], w\<lparr>aw_sender := (aw_sender w)\<lparr>lasthost := if ltop then None else lasthost (aw_sender w)\<rparr>\<rparr>)"
      using False w(2) by (cases "lasthost (aw_sender w)") (auto simp: send_pair_def Let_def)
    then show ?thesis by (rule alone) (simp_all add: tx_abs_def)
  next
    case True
    then obtain h where h: "ltop" "lasthost (aw_sender w) = Some h" "next_is_consecutive (aw_sender w) h" by blast
    have "rings_ok (aw_sender w)" using w(1) by (simp add: sending_ok_def sender_ok_def)
    then have "queue_of Data (aw_sender w) \<noteq> []" using h(3) fill_class(3) by (auto simp: next_is_consecutive_def)
    then obtain d rest where q: "queue_of Data (aw_sender w) = d # rest" by (cases "queue_of Data (aw_sender w)") auto
    let ?w1 = "w\<lparr>aw_sender := (aw_sender w)\<lparr>z := True\<rparr>\<rparr>"
    obtain o1 w1 where e: "packet_send env ?w1 = Ok (o1, w1)" "tx_abs (aw_sender w1) = spec_take Data (tx_abs (aw_sender w))"
      "so_wire o1 = wire_of True (seq_num (aw_nacks w) + 1) (natPort (aw_sender w)) d" "so_to o1 = sd_to d"
      "sender_ok (aw_sender w1)" "sends_fit (aw_sender w1)" "peers_distinct (aw_nacks w1)"
      "bandwidth (aw_sender w1) = bandwidth (aw_sender w)" "natPort (aw_sender w1) = natPort (aw_sender w)"
      "aw_cookies w1 = aw_cookies w"
      "outstanding (aw_nacks w1) = (if has (sd_data d ! 0) NEED_ACK
        then (outstanding (aw_nacks w))(sd_to d := \<lparr>a_seq = seq_num (aw_nacks w) + 1, a_sendtime = t_end env,
               a_sleeptime = ucast (sleeptime (aw_sender w1)), a_d = d\<rparr> # outstanding (aw_nacks w) (sd_to d))
        else outstanding (aw_nacks w))"
      "seq_num (aw_nacks w1) = (if has (sd_data d ! 0) NEED_ACK then seq_num (aw_nacks w) + 1 else seq_num (aw_nacks w))"
      "aw_peers w1 = aw_peers w"
      using packet_send_pair_first [OF w(1) assms(2) q, of env] by blast
    let ?s = "(aw_sender w1)\<lparr>sleeptime := sleeptime (aw_sender w) + sleeptime (aw_sender w1), z := False\<rparr>"
    let ?w' = "w1\<lparr>aw_sender := ?s\<rparr>"
    have abs: "tx_abs ?s = tx_abs (aw_sender w1)" by (simp add: tx_abs_def)
    have "bandwidth (aw_sender w) \<noteq> 0" using w(1) by (simp add: sending_ok_def)
    then have "ready_to_send ?w'" using e(5-8,10) w(3)
      by (simp add: ready_to_send_def sending_ok_def sender_ok_def sends_fit_def) (simp add: tx_abs_def)
    moreover have "sends_one env Data d o1 w ?w'" unfolding sends_one_def using e abs by auto
    moreover have "send_pair env w = Ok ([o1], w1\<lparr>aw_sender := (aw_sender w1)\<lparr>sleeptime := sleeptime (aw_sender w) + sleeptime (aw_sender w1)\<rparr>\<rparr>)"
      using e(1) h(2,3) by (simp add: send_pair_def Let_def)
    then have "send_thread (env # envs) ltop w = map_res (\<lambda>(rest, t, w). (o1 # rest, t, w)) (send_thread envs False ?w')" for envs
      using h(1) by (simp add: Let_def)
    ultimately show ?thesis using q by blast
  qed
qed

text \<open>
  When only one queue holds packets and each has its token, as many rounds as there are packets empty it, in order. Only
  a data packet is ever marked as the first of a pair.
\<close>

definition queued_only :: "tx_class \<Rightarrow> SendData list \<Rightarrow> sender \<Rightarrow> bool" where
  "queued_only c ps s \<longleftrightarrow> (\<forall>k. queue_of k s = (if k = c then ps else [])) \<and> sFull s = length ps"

text \<open>How the queue came to hold them: they were filed when all queues were empty.\<close>

lemma files_all:
  assumes "ready_to_send w" and "queued_only k [] (aw_sender w)" and "list_all (\<lambda>d. fits d \<and> class_of d = c) ps" and "length ps \<le> 2000"
  defines "s \<equiv> foldl (\<lambda>s d. send_data d s) (aw_sender w) ps"
  shows "ready_to_send (w\<lparr>aw_sender := s\<rparr>)" "queued_only c ps s" "natPort s = natPort (aw_sender w)"
proof -
  have sok: "sender_ok (aw_sender w)" "sFull (aw_sender w) = 0" "\<And>c. queue_of c (aw_sender w) = []"
    using assms(1,2) by (auto simp: ready_to_send_def sending_ok_def queued_only_def simp del: queue_of.simps)
  have cls: "list_all (\<lambda>d. wf_sd d \<and> class_of d = c) ps" "list_all fits ps" using assms(3) by (auto simp: list_all_iff fits_def)
  have room: "length (queue_of c (aw_sender w)) + length ps \<le> 2000" "length ps \<le> qEmpty (aw_sender w)"
    using sok assms(4) by (simp_all add: sender_ok_def view_ok_def del: queue_of.simps) (simp add: tx_abs_def)
  note sa = send_all [OF sok(1) cls(1) room, folded s_def] and st = send_all_tokens [OF sok(1) cls(1) room, folded s_def]
  show q: "queued_only c ps s" using sa st sok(2,3) by (simp add: queued_only_def del: queue_of.simps)
  then have "sends_fit s" unfolding sends_fit_def using cls(2) by (simp add: queued_only_def del: queue_of.simps)
  then show "ready_to_send (w\<lparr>aw_sender := s\<rparr>)" using assms(1) sa
    by (simp add: ready_to_send_def sending_ok_def s_def send_all_frame del: queue_of.simps)
  show "natPort s = natPort (aw_sender w)" by (simp add: s_def send_all_frame)
qed

definition on_wire :: "tx_class \<Rightarrow> u16 \<Rightarrow> SendData \<Rightarrow> sent \<Rightarrow> bool" where
  "on_wire c port p o1 \<longleftrightarrow> so_to o1 = sd_to p \<and> (\<exists>zz seq. (zz \<longrightarrow> c = Data) \<and> so_wire o1 = wire_of zz seq port p)"

lemma sends_one_effect:
  assumes "sends_one env c d o1 w w'" and "queued_only c (d # ps) (aw_sender w)"
  shows "queued_only c ps (aw_sender w')" "on_wire c (natPort (aw_sender w)) d o1"
proof -
  have t: "tx_abs (aw_sender w') = spec_take c (tx_abs (aw_sender w))" using assms(1) by (simp add: sends_one_def)
  have "queue_of k (aw_sender w') = (if k = c then ps else [])" for k
    using arg_cong [OF t, of "\<lambda>v. tx_queue v k"] assms(2) by (simp add: tx_abs_def spec_take_def queued_only_def)
  moreover have "sFull (aw_sender w') = length ps"
    using arg_cong [OF t, of tx_tokens] assms(2) by (simp add: tx_abs_def spec_take_def queued_only_def)
  ultimately show "queued_only c ps (aw_sender w')" by (simp add: queued_only_def)
  show "on_wire c (natPort (aw_sender w)) d o1" using assms(1) by (auto simp: sends_one_def on_wire_def)
qed

text \<open>One round when \<open>d\<close> is the next packet.\<close>

lemma thread_takes:
  assumes "ready_to_send w" and "queued_only c (d # ps) (aw_sender w)"
  shows "\<exists>o1 ltop' w'. ready_to_send w' \<and> sends_one env c d o1 w w' \<and>
    (\<forall>envs. send_thread (env # envs) ltop w = map_res (\<lambda>(rest, t, w). (o1 # rest, t, w)) (send_thread envs ltop' w'))"
proof -
  have "0 < sFull (aw_sender w)" using assms(2) by (simp add: queued_only_def)
  then obtain c' d' rest o1 ltop' w1 where s: "queue_of c' (aw_sender w) = d' # rest" "ready_to_send w1" "sends_one env c' d' o1 w w1"
    "\<And>envs. send_thread (env # envs) ltop w = map_res (\<lambda>(rest, t, w). (o1 # rest, t, w)) (send_thread envs ltop' w1)"
    using thread_step [OF assms(1), of env ltop] by blast
  have "queue_of c' (aw_sender w) = (if c' = c then d # ps else [])" using assms(2) by (simp add: queued_only_def)
  then have "c' = c" "d' = d" using s(1) by (auto split: if_splits)
  then show ?thesis using s by blast
qed

lemma thread_drains:
  assumes "ready_to_send w" and "queued_only c ps (aw_sender w)" and "length envs = length ps"
  shows "\<exists>outs ltop' w'. send_thread envs ltop w = Ok (outs, ltop', w') \<and> ready_to_send w' \<and> queued_only c [] (aw_sender w') \<and>
    list_all2 (on_wire c (natPort (aw_sender w))) ps outs \<and> natPort (aw_sender w') = natPort (aw_sender w) \<and> aw_peers w' = aw_peers w"
  using assms
proof (induction envs arbitrary: ltop w ps)
  case Nil
  then show ?case by auto
next
  case (Cons env envs)
  obtain d qs where ps: "ps = d # qs" using Cons.prems(3) by (cases ps) auto
  note q = Cons.prems(2) [unfolded ps]
  obtain o1 ltop' w1 where s: "ready_to_send w1" "sends_one env c d o1 w w1"
    "\<And>envs. send_thread (env # envs) ltop w = map_res (\<lambda>(rest, t, w). (o1 # rest, t, w)) (send_thread envs ltop' w1)"
    using thread_takes [OF Cons.prems(1) q, of env ltop] by blast
  note e = sends_one_effect [OF s(2) q]
  have n: "natPort (aw_sender w1) = natPort (aw_sender w)" "aw_peers w1 = aw_peers w" using s(2) by (simp_all add: sends_one_def)
  have len: "length envs = length qs" using Cons.prems(3) ps by simp
  obtain outs t w' where r: "send_thread envs ltop' w1 = Ok (outs, t, w')" "ready_to_send w'" "queued_only c [] (aw_sender w')"
    "list_all2 (on_wire c (natPort (aw_sender w1))) qs outs" "natPort (aw_sender w') = natPort (aw_sender w1)" "aw_peers w' = aw_peers w1"
    using Cons.IH [OF s(1) e(1) len, of ltop'] by blast
  have "send_thread (env # envs) ltop w = Ok (o1 # outs, t, w')" using s(3) [of envs] r(1) by simp
  then show ?case using r(2-6) e(2) n ps by (intro exI [of _ "o1 # outs"] exI [of _ t] exI [of _ w']) simp
qed

text \<open>
  Packets that all ask one host for an acknowledgement are remembered with consecutive sequence numbers and the times they left;
  the numbers are those on the wire.
\<close>

definition asks :: "sockaddr_in \<Rightarrow> SendData \<Rightarrow> bool" where
  "asks h p \<longleftrightarrow> has (sd_data p ! 0) NEED_ACK \<and> sd_to p = h"

primrec numbered :: "u16 \<Rightarrow> Ack list \<Rightarrow> bool" where
  "numbered seq [] \<longleftrightarrow> True"
| "numbered seq (a # as) \<longleftrightarrow> a_seq a = seq \<and> numbered (seq + 1) as"

definition recorded :: "u16 \<Rightarrow> send_env list \<Rightarrow> sent list \<Rightarrow> SendData list \<Rightarrow> Ack list \<Rightarrow> bool" where
  "recorded seq envs outs ps as \<longleftrightarrow> numbered seq as \<and> map a_sendtime as = map t_end envs \<and> map a_d as = ps \<and>
     list_all2 (\<lambda>o1 a. \<exists>zz port. so_wire o1 = wire_of zz (a_seq a) port (a_d a)) outs as"

lemma recorded_Cons:
  "recorded seq (env # envs) (o1 # outs) (p # ps) (a # as) \<longleftrightarrow> a_seq a = seq \<and> a_sendtime a = t_end env \<and> a_d a = p \<and>
     (\<exists>zz port. so_wire o1 = wire_of zz (a_seq a) port (a_d a)) \<and> recorded (seq + 1) envs outs ps as"
  by (auto simp: recorded_def)

lemma thread_records:
  assumes "ready_to_send w" and "queued_only c ps (aw_sender w)" and "length envs = length ps" and "\<forall>p \<in> set ps. asks h p"
    and "send_thread envs ltop w = Ok (outs, ltop', w')"
  shows "\<exists>as. recorded (seq_num (aw_nacks w) + 1) envs outs ps as \<and>
    (\<forall>k. outstanding (aw_nacks w') k = (if k = h then rev as else []) @ outstanding (aw_nacks w) k)"
  using assms
proof (induction envs arbitrary: ltop w ps outs)
  case Nil
  then show ?case by (auto simp: recorded_def)
next
  case (Cons env envs)
  obtain d qs where ps: "ps = d # qs" using Cons.prems(3) by (cases ps) auto
  note q = Cons.prems(2) [unfolded ps]
  obtain o1 t w1 where s: "ready_to_send w1" "sends_one env c d o1 w w1"
    "\<And>envs. send_thread (env # envs) ltop w = map_res (\<lambda>(rest, t, w). (o1 # rest, t, w)) (send_thread envs t w1)"
    using thread_takes [OF Cons.prems(1) q, of env ltop] by blast
  have len: "length envs = length qs" and asks: "\<forall>p \<in> set qs. asks h p" and d: "has (sd_data d ! 0) NEED_ACK" "sd_to d = h"
    using Cons.prems(3,4) ps by (simp_all add: asks_def)
  obtain zz sl where one: "so_wire o1 = wire_of zz (seq_num (aw_nacks w) + 1) (natPort (aw_sender w)) d"
    "seq_num (aw_nacks w1) = seq_num (aw_nacks w) + 1"
    "outstanding (aw_nacks w1) = (outstanding (aw_nacks w))(h := \<lparr>a_seq = seq_num (aw_nacks w) + 1, a_sendtime = t_end env,
       a_sleeptime = sl, a_d = d\<rparr> # outstanding (aw_nacks w) h)"
    using s(2) d unfolding sends_one_def by auto
  let ?a = "\<lparr>a_seq = seq_num (aw_nacks w) + 1, a_sendtime = t_end env, a_sleeptime = sl, a_d = d\<rparr>"
  obtain outs' where o: "outs = o1 # outs'" "send_thread envs t w1 = Ok (outs', ltop', w')"
    using Cons.prems(5) unfolding s(3) by (auto simp: map_res_Ok_iff)
  obtain as where r: "recorded (seq_num (aw_nacks w1) + 1) envs outs' qs as"
    "\<And>k. outstanding (aw_nacks w') k = (if k = h then rev as else []) @ outstanding (aw_nacks w1) k"
    using Cons.IH [OF s(1) sends_one_effect(1) [OF s(2) q] len asks o(2)] by blast
  have "recorded (seq_num (aw_nacks w) + 1) (env # envs) outs ps (?a # as)"
    using r(1) one(1,2) unfolding o(1) ps recorded_Cons by auto
  moreover have "outstanding (aw_nacks w') k = (if k = h then rev (?a # as) else []) @ outstanding (aw_nacks w) k" for k
    using r(2) [of k] one(3) by simp
  ultimately show ?case by blast
qed

end
