(* ===== verification/Block_Transfer.thy ===== *)
theory Block_Transfer
  imports Handshake Sending_Thread Reassembly
begin

text \<open>
  A whole block from one peer to another: \<open>sendblock\<close> splits it and files the packets, the sending
  thread puts them on the wire, the network delivers the datagrams in some order, some of them
  more than once, the processing thread of the other peer takes them one by one. The theories below this one
  treat these stages each for itself; here they are run one after the other.
\<close>

section \<open>The processing thread\<close>

primrec process_all :: "(rx_mem \<times> IncomingData) list \<Rightarrow> world \<Rightarrow> world res" where
  "process_all [] w = Ok w"
| "process_all (md # mds) w = bind_res (process_packet (fst md) (snd md) w) (\<lambda>(d, w). process_all mds w)"

text \<open>A datagram that carries fragment \<open>i\<close>, first sent or sent again, from a peer without a NAT port; and the acknowledgement it gets.\<close>

definition brings :: "u16 \<Rightarrow> u32 \<Rightarrow> u8 list \<Rightarrow> nat \<Rightarrow> rx_mem \<times> IncomingData \<Rightarrow> bool" where
  "brings streamid blockid data i md \<longleftrightarrow> (\<exists>zz seq port pkt. fragment_packet (piece streamid blockid data i) pkt \<and>
     carries (snd md) (wire_of zz seq port pkt) \<and> bytes_of_u16 port ! 0 = 0)"

definition acknowledges :: "rx_mem \<times> IncomingData \<Rightarrow> SendData \<Rightarrow> bool" where
  "acknowledges md a \<longleftrightarrow> (\<exists>fd zz seq port pkt cons. fragment_packet fd pkt \<and> carries (snd md) (wire_of zz seq port pkt) \<and>
     a = (make_ack (mem_send (fst md)) seq cons (id_tv (snd md)))\<lparr>sd_to := id_from (snd md)\<rparr>)"

lemma piece_safe:
  assumes "sendable data" and "i < num_frags data" and "find_pos streamid blockid bc = None"
    and "\<forall>b \<in> set bs. holds_pieces streamid blockid data got b"
  shows "safe_fragment (piece streamid blockid data i) (bs @ bc)"
proof -
  note pf = piece_fields [OF assms(1,2), of streamid blockid]
  have "i < b_fn b" if "b \<in> set (bs @ bc)" "b_id b = bkey streamid blockid" for b
  proof (cases "b \<in> set bs")
    case True
    then show ?thesis using assms(2,4) holds_piecesD(3) by fastforce
  next
    case False
    then have "bkey streamid blockid \<in> b_id ` set bc" using that by force
    then show ?thesis using assms(3) find_pos_None_iff [of streamid blockid bc] by simp
  qed
  then show ?thesis unfolding safe_fragment_def pf(1-3) using assms(2) pf(5,6) by blast
qed

text \<open>One datagram: \<open>bs\<close> is the block so far, if there is one.\<close>

lemma process_piece:
  assumes "sendable data" and "i < num_frags data" and new: "find_pos streamid blockid bc = None" and ok: "cache_ok (bs @ bc)"
    and c: "w_cache w = bs @ bc" and bs: "\<forall>b \<in> set bs. holds_pieces streamid blockid data got b"
    and biter: "biter_ok (w_biter w)" and d: "brings streamid blockid data i md"
    and add: "\<And>mem host ts. addfragment mem (piece streamid blockid data i) host ts (bs @ bc) = Ok (rc, bc' mem host ts)"
    and room: "rc = F_ADDED \<Longrightarrow> length (biter_contents (w_biter w)) < 20"
  shows "\<exists>d' w' a mem host ts. process_packet (fst md) (snd md) w = Ok (d', w') \<and> w_cache w' = bc' mem host ts \<and> biter_ok (w_biter w') \<and>
    cache_ok (w_cache w') \<and>
    w_ack w' = (w_ack w)\<lparr>aw_sender := send_data a (aw_sender (w_ack w))\<rparr> \<and> acknowledges md a \<and>
    biter_contents (w_biter w') = biter_contents (w_biter w) @
      (if rc = F_ADDED \<and> iscomplete streamid blockid (w_cache w') = Ok (True, w_cache w') then [Completed streamid blockid] else [])"
proof -
  let ?fd = "piece streamid blockid data i"
  obtain zz seq port pkt where p: "fragment_packet ?fd pkt" "carries (snd md) (wire_of zz seq port pkt)" "bytes_of_u16 port ! 0 = 0"
    using d by (auto simp: brings_def)
  have s: "cache_ok (w_cache w)" "safe_fragment ?fd (w_cache w)" using ok piece_safe [OF assms(1,2) new bs] c by simp_all
  have rc: "fst (spec_addfragment ?fd (abs_cache (w_cache w))) = rc"
    using addfragment_refines [OF s, of undefined undefined undefined] add c by auto
  have key: "fd_streamid ?fd = streamid" "fd_blockid ?fd = blockid" by (simp_all add: piece_def Let_def)
  obtain d' w' cons where w': "process_packet (fst md) (snd md) w = Ok (d', w')" "cache_ok (w_cache w')" "biter_ok (w_biter w')"
    "addfragment (mem_block (fst md)) ?fd (id_from (snd md)) (id_tv (snd md)) (w_cache w) = Ok (rc, w_cache w')"
    "w_ack w' = (w_ack w)\<lparr>aw_sender :=
       send_data ((make_ack (mem_send (fst md)) seq cons (id_tv (snd md)))\<lparr>sd_to := id_from (snd md)\<rparr>) (aw_sender (w_ack w))\<rparr>"
    "biter_contents (w_biter w') = biter_contents (w_biter w) @
      (if rc = F_ADDED \<and> iscomplete streamid blockid (w_cache w') = Ok (True, w_cache w') then [Completed streamid blockid] else [])"
    using fragment_processed [OF p s biter, of "fst md"] room add c unfolding rc key by auto
  let ?a = "(make_ack (mem_send (fst md)) seq cons (id_tv (snd md)))\<lparr>sd_to := id_from (snd md)\<rparr>"
  have "w_cache w' = bc' (mem_block (fst md)) (id_from (snd md)) (id_tv (snd md))"
    using w'(4) add [of "mem_block (fst md)" "id_from (snd md)" "id_tv (snd md)"] c by simp
  moreover have "acknowledges md ?a" using p(1,2) unfolding acknowledges_def by blast
  ultimately show ?thesis using w' by (intro exI [of _ d'] exI [of _ w'] exI [of _ ?a] exI [of _ "mem_block (fst md)"]
        exI [of _ "id_from (snd md)"] exI [of _ "id_tv (snd md)"]) simp
qed

definition acked_by :: "(rx_mem \<times> IncomingData) list \<Rightarrow> world \<Rightarrow> world \<Rightarrow> bool" where
  "acked_by mds w w' \<longleftrightarrow> (\<exists>as. list_all2 acknowledges mds as \<and>
     w_ack w' = (w_ack w)\<lparr>aw_sender := foldl (\<lambda>s a. send_data a s) (aw_sender (w_ack w)) as\<rparr>)"

lemma acked_by_Cons:
  assumes "acknowledges md a" and "w_ack w1 = (w_ack w)\<lparr>aw_sender := send_data a (aw_sender (w_ack w))\<rparr>" and "acked_by mds w1 w'"
  shows "acked_by (md # mds) w w'"
proof -
  obtain as where "list_all2 acknowledges mds as"
    "w_ack w' = (w_ack w1)\<lparr>aw_sender := foldl (\<lambda>s a. send_data a s) (aw_sender (w_ack w1)) as\<rparr>"
    using assms(3) by (auto simp: acked_by_def)
  then show ?thesis using assms(1,2) unfolding acked_by_def by (intro exI [of _ "a # as"]) simp
qed

context growing_block
begin

lemma process_rest:
  assumes "sendable data" and ok: "cache_ok bc" and new: "find_pos streamid blockid bc = None" and old: "length old < 20"
  shows "grows streamid blockid data got b \<Longrightarrow> got \<subseteq> {..<num_frags data} \<Longrightarrow> w_cache w = b # bc \<Longrightarrow> biter_ok (w_biter w) \<Longrightarrow>
    biter_contents (w_biter w) = old @ (if got = {..<num_frags data} then [Completed streamid blockid] else []) \<Longrightarrow>
    list_all2 (brings streamid blockid data) is mds \<Longrightarrow> set is \<subseteq> {..<num_frags data} \<Longrightarrow>
    \<exists>w' b'. process_all mds w = Ok w' \<and> grows streamid blockid data (got \<union> set is) b' \<and> w_cache w' = b' # bc \<and> biter_ok (w_biter w') \<and>
      biter_contents (w_biter w') = old @ (if got \<union> set is = {..<num_frags data} then [Completed streamid blockid] else []) \<and>
      acked_by mds w w'"
proof (induction "is" arbitrary: got b w mds)
  case Nil
  then show ?case by (auto simp: acked_by_def)
next
  case (Cons i "is")
  let ?N = "{..<num_frags data}"
  obtain md mds' where md: "mds = md # mds'" "brings streamid blockid data i md" "list_all2 (brings streamid blockid data) is mds'"
    using Cons.prems(6) by (cases mds) auto
  have i: "i < num_frags data" "set is \<subseteq> ?N" "insert i got \<subseteq> ?N" using Cons.prems(2,7) by auto
  have cok: "cache_ok (b # bc)" by (rule holds_cache_ok [OF grows_holds [OF Cons.prems(1)] ok new])
  have "\<exists>rc b'. \<forall>mem host ts. addfragment mem (piece streamid blockid data i) host ts ([b] @ bc) = Ok (rc, b' mem host ts # bc) \<and>
      grows streamid blockid data (insert i got) (b' mem host ts) \<and> rc = (if i \<in> got then F_DUPLICATE else F_ADDED)"
  proof (cases "i \<in> got")
    case True
    then have "addfragment mem (piece streamid blockid data i) host ts ([b] @ bc) = Ok (F_DUPLICATE, b # bc)" for mem host ts
      using receive_again [OF assms(1) i(1) True cok grows_holds [OF Cons.prems(1)]] by simp
    then show ?thesis using True Cons.prems(1) by (intro exI [of _ F_DUPLICATE] exI [of _ "\<lambda>_ _ _. b"]) (simp add: insert_absorb)
  next
    case False
    have "\<forall>mem host ts. \<exists>b'. addfragment mem (piece streamid blockid data i) host ts ([b] @ bc) = Ok (F_ADDED, b' # bc) \<and>
        grows streamid blockid data (insert i got) b'"
      using grows_next [OF assms(1) i(1) False cok Cons.prems(1)] by simp
    then show ?thesis using False by metis
  qed
  then obtain rc b' where b': "\<And>mem host ts. addfragment mem (piece streamid blockid data i) host ts ([b] @ bc) = Ok (rc, b' mem host ts # bc)"
    "\<And>mem host ts. grows streamid blockid data (insert i got) (b' mem host ts)" "rc = (if i \<in> got then F_DUPLICATE else F_ADDED)"
    by blast
  have added: "rc = F_ADDED \<longleftrightarrow> i \<notin> got" using b'(3) by (simp add: code_defs)
  have room: "rc = F_ADDED \<Longrightarrow> length (biter_contents (w_biter w)) < 20" using added i(1) old Cons.prems(5) by auto
  have pre: "cache_ok ([b] @ bc)" "w_cache w = [b] @ bc" "\<forall>x \<in> set [b]. holds_pieces streamid blockid data got x" using cok grows_holds [OF Cons.prems(1)] Cons.prems(3) by simp_all
  obtain d' w1 a mem host ts where w1: "process_packet (fst md) (snd md) w = Ok (d', w1)" "w_cache w1 = b' mem host ts # bc"
    "biter_ok (w_biter w1)" "w_ack w1 = (w_ack w)\<lparr>aw_sender := send_data a (aw_sender (w_ack w))\<rparr>" "acknowledges md a"
    "biter_contents (w_biter w1) = biter_contents (w_biter w) @
      (if rc = F_ADDED \<and> iscomplete streamid blockid (w_cache w1) = Ok (True, w_cache w1) then [Completed streamid blockid] else [])"
    using process_piece [OF assms(1) i(1) new pre Cons.prems(4) md(2) b'(1) room] by blast
  let ?b = "b' mem host ts"
  have comp: "iscomplete streamid blockid (?b # bc) = Ok (insert i got = ?N, ?b # bc)"
    by (rule holds_iscomplete [OF grows_holds [OF b'(2)] holds_cache_ok [OF grows_holds [OF b'(2)] ok new] i(3)])
  have "biter_contents (w_biter w1) = old @ (if insert i got = ?N then [Completed streamid blockid] else [])"
    using w1(2,6) comp added Cons.prems(2,5) i(1) by (auto simp: insert_absorb)
  then obtain w' b2 where w': "process_all mds' w1 = Ok w'" "grows streamid blockid data (insert i got \<union> set is) b2" "w_cache w' = b2 # bc"
    "biter_ok (w_biter w')"
    "biter_contents (w_biter w') = old @ (if insert i got \<union> set is = ?N then [Completed streamid blockid] else [])" "acked_by mds' w1 w'"
    using Cons.IH [OF b'(2) i(3) w1(2,3) _ md(3) i(2)] by blast
  have "acked_by mds w w'" using acked_by_Cons [OF w1(5,4) w'(6)] md(1) by simp
  then show ?case using w' w1(1) md(1) by (intro exI [of _ w'] exI [of _ b2]) simp
qed

text \<open>\<open>first\<close> says what the first fragment makes of the cache.\<close>

lemma process_from:
  assumes "sendable data" and ok: "cache_ok (w_cache w)" and new: "find_pos streamid blockid (w_cache w) = None"
    and biter: "biter_ok (w_biter w)" and room: "length (biter_contents (w_biter w)) < 20"
    and mds: "list_all2 (brings streamid blockid data) (i # js) mds" and js: "set (i # js) = {..<num_frags data}"
    and first: "\<And>mem host ts. \<exists>b. addfragment mem (piece streamid blockid data i) host ts (w_cache w) = Ok (F_ADDED, b # w_cache w) \<and>
      grows streamid blockid data {i} b"
  shows "\<exists>w' b'. process_all mds w = Ok w' \<and> w_cache w' = b' # w_cache w \<and> cache_ok (w_cache w') \<and> biter_ok (w_biter w') \<and>
    grows streamid blockid data {..<num_frags data} b' \<and> iscomplete streamid blockid (w_cache w') = Ok (True, w_cache w') \<and>
    biter_contents (w_biter w') = biter_contents (w_biter w) @ [Completed streamid blockid] \<and> acked_by mds w w'"
proof -
  let ?N = "{..<num_frags data}" and ?bc = "w_cache w"
  obtain md mds' where md: "mds = md # mds'" "brings streamid blockid data i md" "list_all2 (brings streamid blockid data) js mds'"
    using mds by (cases mds) auto
  have i: "i < num_frags data" "set js \<subseteq> ?N" "{i} \<subseteq> ?N" "insert i (set js) = ?N" using js by auto
  obtain b where b: "\<And>mem host ts. addfragment mem (piece streamid blockid data i) host ts ([] @ ?bc) = Ok (F_ADDED, b mem host ts # ?bc)"
    "\<And>mem host ts. grows streamid blockid data {i} (b mem host ts)"
    using first by (simp only: append_Nil) metis
  have pre: "cache_ok ([] @ ?bc)" "?bc = [] @ ?bc" "\<forall>x \<in> set []. holds_pieces streamid blockid data {} x" using ok by simp_all
  obtain d' w1 a mem host ts where w1: "process_packet (fst md) (snd md) w = Ok (d', w1)" "w_cache w1 = b mem host ts # ?bc"
    "biter_ok (w_biter w1)" "w_ack w1 = (w_ack w)\<lparr>aw_sender := send_data a (aw_sender (w_ack w))\<rparr>" "acknowledges md a"
    "biter_contents (w_biter w1) = biter_contents (w_biter w) @
      (if F_ADDED = F_ADDED \<and> iscomplete streamid blockid (w_cache w1) = Ok (True, w_cache w1) then [Completed streamid blockid] else [])"
    using process_piece [OF assms(1) i(1) new pre biter md(2) b(1) room] by blast
  note h1 = grows_holds [OF b(2)]
  have "iscomplete streamid blockid (b mem host ts # ?bc) = Ok ({i} = ?N, b mem host ts # ?bc)"
    by (rule holds_iscomplete [OF h1 holds_cache_ok [OF h1 ok new] i(3)])
  then have e: "biter_contents (w_biter w1) = biter_contents (w_biter w) @ (if {i} = ?N then [Completed streamid blockid] else [])"
    using w1(2,6) by simp
  obtain w' b' where w': "process_all mds' w1 = Ok w'" "grows streamid blockid data ({i} \<union> set js) b'" "w_cache w' = b' # ?bc"
    "biter_ok (w_biter w')" "biter_contents (w_biter w') = biter_contents (w_biter w) @ (if {i} \<union> set js = ?N then [Completed streamid blockid] else [])" "acked_by mds' w1 w'"
    using process_rest [OF assms(1) ok new room b(2) i(3) w1(2,3) e md(3) i(2)] by blast
  have n: "{i} \<union> set js = ?N" using i(4) by simp
  have rcv: "grows streamid blockid data ?N b'" using w'(2) unfolding n .
  note h = grows_holds [OF rcv]
  have cok: "cache_ok (b' # ?bc)" by (rule holds_cache_ok [OF h ok new])
  have "process_all mds w = Ok w'" using w1(1) w'(1) md(1) by simp
  moreover have "acked_by mds w w'" using acked_by_Cons [OF w1(5,4) w'(6)] md(1) by simp
  ultimately show ?thesis using holds_iscomplete [OF h cok] cok rcv w'(3-5) n by (intro exI [of _ w'] exI [of _ b']) simp
qed

end

text \<open>
  A peer that can take the block, and what it has made of it: the bytes that \<open>get_block_data\<close> returns, one announcement to the
  interpreter and an acknowledgement for each datagram.
\<close>

definition can_receive :: "u16 \<Rightarrow> u32 \<Rightarrow> world \<Rightarrow> bool" where
  "can_receive streamid blockid w \<longleftrightarrow> cache_ok (w_cache w) \<and> find_pos streamid blockid (w_cache w) = None \<and> biter_ok (w_biter w) \<and>
     length (biter_contents (w_biter w)) < 20"

definition received_as :: "u16 \<Rightarrow> u32 \<Rightarrow> u8 list \<Rightarrow> (rx_mem \<times> IncomingData) list \<Rightarrow> world \<Rightarrow> bool" where
  "received_as streamid blockid bytes mds w \<longleftrightarrow> (\<exists>w'. process_all mds w = Ok w' \<and> cache_ok (w_cache w') \<and> biter_ok (w_biter w') \<and>
     iscomplete streamid blockid (w_cache w') = Ok (True, w_cache w') \<and>
     get_block_data streamid blockid (w_cache w') = Ok (Some \<lparr>bd_data = bytes, bd_length = of_nat (length bytes)\<rparr>, w_cache w') \<and>
     biter_contents (w_biter w') = biter_contents (w_biter w) @ [Completed streamid blockid] \<and> acked_by mds w w')"

definition padded :: "u8 list \<Rightarrow> u8 list" where
  "padded data = data @ replicate (MTU * num_frags data - length data) 0"

lemma padded_length:
  assumes "sendable data"
  shows "length data \<le> MTU * num_frags data" "length (padded data) = MTU * num_frags data"
proof -
  note sp = split_exact [OF assms]
  show "length data \<le> MTU * num_frags data" using mult_index_le [of "num_frags data - 1" "num_frags data" "last_len data"] sp(1,4,5) by simp
  then show "length (padded data) = MTU * num_frags data" by (simp add: padded_def)
qed

lemma block_processed:
  assumes "sendable data" and "can_receive streamid blockid w" and "list_all2 (brings streamid blockid data) is mds" and "set is = {..<num_frags data}"
  shows "received_as streamid blockid (if hd is + 1 = num_frags data then padded data else data) mds w"
proof -
  note sp = split_exact [OF assms(1)]
  have r: "cache_ok (w_cache w)" "find_pos streamid blockid (w_cache w) = None" "biter_ok (w_biter w)" "length (biter_contents (w_biter w)) < 20"
    using assms(2) by (simp_all add: can_receive_def)
  have "0 \<in> set is" using assms(4) sp(1) by simp
  then obtain i js where is_Cons: "is = i # js" by (cases "is") auto
  note is2 = assms(3,4) [unfolded is_Cons]
  note l = padded_length(2) [OF assms(1)]
  have "i < num_frags data" using is2(2) by auto
  then consider "i + 1 < num_frags data" | "i = num_frags data - 1" by linarith
  then show ?thesis
  proof cases
    case 1
    obtain w' b' where "process_all mds w = Ok w'" "w_cache w' = b' # w_cache w" "cache_ok (w_cache w')" "biter_ok (w_biter w')"
      "partial_block streamid blockid data {..<num_frags data} b'" "iscomplete streamid blockid (w_cache w') = Ok (True, w_cache w')"
      "biter_contents (w_biter w') = biter_contents (w_biter w) @ [Completed streamid blockid]" "acked_by mds w w'"
      using tail_later.process_from [OF assms(1) r is2] receive_first [OF assms(1) 1 r(1,2)] by blast
    then show ?thesis using whole_block_read [OF assms(1), of streamid blockid b' "w_cache w"] 1 is_Cons by (auto simp: received_as_def)
  next
    case 2
    obtain w' b' where "process_all mds w = Ok w'" "w_cache w' = b' # w_cache w" "cache_ok (w_cache w')" "biter_ok (w_biter w')"
      "padded_block streamid blockid data {..<num_frags data} b'" "iscomplete streamid blockid (w_cache w') = Ok (True, w_cache w')"
      "biter_contents (w_biter w') = biter_contents (w_biter w) @ [Completed streamid blockid]" "acked_by mds w w'"
      using tail_first.process_from [OF assms(1) r is2] receive_last_first [OF assms(1) r(1,2)] 2 by blast
    then show ?thesis using padded_block_read [OF assms(1), of streamid blockid b' "w_cache w"] 2 is_Cons sp(1) l
      by (auto simp: received_as_def padded_def [symmetric])
  qed
qed

section \<open>From cache to cache\<close>

text \<open>A datagram the sending thread emitted for fragment \<open>i\<close>, and a network that delivers copies of some of the datagrams, in the order of \<open>js\<close>.\<close>

definition emits :: "u16 \<Rightarrow> u32 \<Rightarrow> u8 list \<Rightarrow> nat \<Rightarrow> sent \<Rightarrow> bool" where
  "emits streamid blockid data i o1 \<longleftrightarrow> (\<exists>zz seq port pkt. fragment_packet (piece streamid blockid data i) pkt \<and>
     so_wire o1 = wire_of zz seq port pkt \<and> bytes_of_u16 port ! 0 = 0)"

definition delivers :: "sent list \<Rightarrow> nat list \<Rightarrow> (rx_mem \<times> IncomingData) list \<Rightarrow> bool" where
  "delivers outs js mds \<longleftrightarrow> list_all (\<lambda>j. j < length outs) js \<and> list_all2 (\<lambda>j md. carries (snd md) (so_wire (outs ! j))) js mds"

lemma delivers_brings:
  assumes "delivers outs js mds" and "\<And>j. j < length outs \<Longrightarrow> emits streamid blockid data (frag j) (outs ! j)"
  shows "list_all2 (brings streamid blockid data) (map frag js) mds"
proof -
  have "brings streamid blockid data (frag j) md" if "j < length outs" "carries (snd md) (so_wire (outs ! j))" for j md
    using assms(2) [OF that(1)] that(2) unfolding emits_def brings_def by metis
  then show ?thesis using assms(1) by (auto simp: delivers_def list_all2_conv_all_nth list_all_length)
qed

lemma piece_fragment:
  assumes "sendable data" and "i < num_frags data" and "piece_packet streamid blockid data dest i d"
  shows "fragment_packet (piece streamid blockid data i) d" "asks h d \<longleftrightarrow> h = dest"
    "a_d a = d \<Longrightarrow> resendable a"
proof -
  have p: "wf_sd d" "sd_data d ! 0 = BLK_BLOCK_ACK" "sd_to d = dest"
    "decode_fragment (sd_data d) (uint (sd_length d)) = Ok (Some (piece streamid blockid data i))"
    using assms(3) by (simp_all add: piece_packet_def)
  have f: "block_flags BLK_BLOCK_ACK" "has BLK_BLOCK_ACK NEED_ACK" "\<not> has BLK_BLOCK_ACK BLK_ACK" "\<not> has BLK_BLOCK_ACK BW_MSG"
    by (simp_all add: block_flags_def has_def packet_defs)
  have "unat (fd_length (piece streamid blockid data i)) \<le> 1400"
    using piece_fields(5) [OF assms(1,2), of streamid blockid] by (simp add: MTU_def)
  then have "uint (fd_length (piece streamid blockid data i)) \<le> 1400" unfolding uint_nat by linarith
  then have "13 \<le> uint (sd_length d)" "uint (sd_length d) \<le> 1413"
    using decode_fragment_Some(1) [OF p(4)] uint_ge_0 [of "fd_length (piece streamid blockid data i)"] by linarith+
  then have "fits d" using p(1) unfolding fits_def uint_nat by linarith
  then show "fragment_packet (piece streamid blockid data i) d" using f p by (simp add: fragment_packet_def)
  show "asks h d \<longleftrightarrow> h = dest" using f p by (auto simp: asks_def)
  show "a_d a = d \<Longrightarrow> resendable a" using f p by (auto simp: resendable_def)
qed

lemma emitted:
  assumes "on_wire c port pkt o1" and "fragment_packet (piece streamid blockid data i) pkt" and "bytes_of_u16 port ! 0 = 0"
  shows "emits streamid blockid data i o1"
  using assms unfolding on_wire_def emits_def by blast

lemma emits_fit: "emits streamid blockid data i o1 \<Longrightarrow> length (so_wire o1) \<le> BUFSIZE"
  using wire_shape(2,4) by (fastforce simp: emits_def BUFSIZE_def)

definition fit_for :: "sockaddr_in \<Rightarrow> sent \<Rightarrow> bool" where
  "fit_for dest o1 \<longleftrightarrow> so_to o1 = dest \<and> length (so_wire o1) \<le> BUFSIZE"

text \<open>A peer with nothing to send, and the block in its cache.\<close>

definition can_send :: "u16 \<Rightarrow> u32 \<Rightarrow> u8 list \<Rightarrow> bcache \<Rightarrow> ack_world \<Rightarrow> bool" where
  "can_send streamid blockid data bc w \<longleftrightarrow> ready_to_send w \<and> queued_only Data [] (aw_sender w) \<and>
     (\<exists>bc0. cache_ok bc0 \<and> find_pos streamid blockid bc0 = None \<and>
        addblock streamid blockid \<lparr>bd_data = data, bd_length = of_nat (length data)\<rparr> bc0 = Ok (1, bc))"

lemma block_sent:
  assumes "sendable data" and "can_send streamid blockid data bc w" and "num_frags data \<le> 2000" and "\<forall>i. wf_sd (mem i)"
    and "length envs = num_frags data" and "bytes_of_u16 (natPort (aw_sender w)) ! 0 = 0"
  shows "\<exists>ps as s' outs ltop w1. sendblock mem streamid blockid dest (bc, aw_sender w) = Ok (int (num_frags data), bc, s') \<and>
    send_thread envs True (w\<lparr>aw_sender := s'\<rparr>) = Ok (outs, ltop, w1) \<and>
    length ps = num_frags data \<and> length outs = num_frags data \<and>
    (\<forall>i < num_frags data. piece_packet streamid blockid data dest i (ps ! i)) \<and>
    (\<forall>i < num_frags data. so_to (outs ! i) = dest \<and> emits streamid blockid data i (outs ! i)) \<and>
    ready_to_send w1 \<and> queued_only Data [] (aw_sender w1) \<and> natPort (aw_sender w1) = natPort (aw_sender w) \<and> aw_peers w1 = aw_peers w \<and>
    recorded (seq_num (aw_nacks w) + 1) envs outs ps as \<and>
    (\<forall>h. outstanding (aw_nacks w1) h = (if h = dest then rev as else []) @ outstanding (aw_nacks w) h)"
proof -
  let ?n = "num_frags data"
  have w: "ready_to_send w" "queued_only Data [] (aw_sender w)" "bytes_of_u16 (natPort (aw_sender w)) ! 0 = 0"
    using assms(2,6) by (simp_all add: can_send_def)
  obtain bc0 where bc0: "cache_ok bc0" "find_pos streamid blockid bc0 = None"
    "addblock streamid blockid \<lparr>bd_data = data, bd_length = of_nat (length data)\<rparr> bc0 = Ok (1, bc)"
    using assms(2) by (auto simp: can_send_def)
  obtain ps where ps: "sendblock mem streamid blockid dest (bc, aw_sender w) = Ok (int ?n, bc, foldl (\<lambda>s d. send_data d s) (aw_sender w) ps)"
    "length ps = ?n" "\<And>i. i < ?n \<Longrightarrow> piece_packet streamid blockid data dest i (ps ! i)"
    using sendblock_files_pieces [OF assms(1) bc0 assms(4), of dest "aw_sender w"] by blast
  let ?s = "foldl (\<lambda>s d. send_data d s) (aw_sender w) ps" and ?w = "w\<lparr>aw_sender := foldl (\<lambda>s d. send_data d s) (aw_sender w) ps\<rparr>"
  have frag: "fragment_packet (piece streamid blockid data i) (ps ! i)" if "i < ?n" for i
    by (rule piece_fragment(1) [OF assms(1) that ps(3) [OF that]])
  have cls: "list_all (\<lambda>d. fits d \<and> class_of d = Data) ps" "length ps \<le> 2000"
    using ps(2,3) frag assms(3) by (auto simp: list_all_length piece_packet_def fragment_packet_def)
  note fa = files_all [OF w(1,2) cls]
  note r = fa(1) and q = fa(2)
  have len: "length envs = length ps" using assms(5) ps(2) by simp
  have q1: "queued_only Data ps (aw_sender ?w)" using q by simp
  obtain outs lt w1 where o: "send_thread envs True ?w = Ok (outs, lt, w1)" "ready_to_send w1" "queued_only Data [] (aw_sender w1)"
    "list_all2 (on_wire Data (natPort (aw_sender w))) ps outs" "natPort (aw_sender w1) = natPort (aw_sender w)" "aw_peers w1 = aw_peers w"
    using thread_drains [OF r q1 len, of True] by (auto simp: send_all_frame)
  have asks: "\<forall>p \<in> set ps. asks dest p" using piece_fragment(2) [OF assms(1) _ ps(3)] ps(2) by (auto simp: in_set_conv_nth)
  obtain as where as: "recorded (seq_num (aw_nacks w) + 1) envs outs ps as"
    "\<And>h. outstanding (aw_nacks w1) h = (if h = dest then rev as else []) @ outstanding (aw_nacks w) h"
    using thread_records [OF r q1 len asks o(1)] by auto
  have ol: "length outs = ?n" using list_all2_lengthD [OF o(4)] ps(2) by simp
  have "so_to (outs ! i) = dest \<and> emits streamid blockid data i (outs ! i)" if "i < ?n" for i
  proof -
    have ow: "on_wire Data (natPort (aw_sender w)) (ps ! i) (outs ! i)" using list_all2_nthD [OF o(4)] that ps(2) by simp
    then show ?thesis using emitted [OF ow frag [OF that] w(3)] ps(3) [OF that] by (simp add: on_wire_def piece_packet_def)
  qed
  then show ?thesis using ps o ol as by blast
qed

text \<open>
  A block of more than 2000 fragments: \<open>send_data\<close> drops every packet that finds its queue full, without telling anyone, and
  \<open>sendblock\<close> returns the number of all fragments.
\<close>

lemma send_all_cut:
  "sender_ok s \<Longrightarrow> list_all (\<lambda>d. wf_sd d \<and> class_of d = c) ds \<Longrightarrow> length (queue_of c s) \<le> 2000 \<Longrightarrow>
     2000 \<le> length (queue_of c s) + qEmpty s \<Longrightarrow>
     queue_of c (foldl (\<lambda>s d. send_data d s) s ds) = take 2000 (queue_of c s @ ds)"
proof (induction ds arbitrary: s)
  case (Cons d ds)
  have v: "tx_abs (send_data d s) = spec_send d (tx_abs s)" "sender_ok (send_data d s)"
    using Cons.prems by (simp add: sender_ok_def send_data_refines, simp add: sender_ok_send_data)
  show ?case
  proof (cases "length (queue_of c s) = 2000")
    case True
    then have "queue_of c (send_data d s) = queue_of c s" "qEmpty (send_data d s) = qEmpty s"
      using v(1) Cons.prems by (auto simp: tx_abs_def spec_send_def fun_eq_iff)
    then show ?thesis using Cons.IH [OF v(2)] Cons.prems True by simp
  next
    case False
    then have "queue_of c (send_data d s) = queue_of c s @ [d]" "qEmpty (send_data d s) = qEmpty s - 1"
      using v(1) Cons.prems by (auto simp: tx_abs_def spec_send_def fun_eq_iff)
    then show ?thesis using Cons.IH [OF v(2)] Cons.prems False by simp
  qed
qed simp

lemma long_block_cut:
  assumes "sendable data" and "can_send streamid blockid data bc w" and "2000 < num_frags data" and "\<forall>i. wf_sd (mem i)"
  shows "\<exists>ps s'. sendblock mem streamid blockid dest (bc, aw_sender w) = Ok (int (num_frags data), bc, s') \<and>
    length ps = num_frags data \<and> (\<forall>i < num_frags data. piece_packet streamid blockid data dest i (ps ! i)) \<and>
    queue_of Data s' = take 2000 ps"
proof -
  have w: "sender_ok (aw_sender w)" "sFull (aw_sender w) = 0" "\<And>c. queue_of c (aw_sender w) = []"
    using assms(2) by (auto simp: can_send_def ready_to_send_def sending_ok_def queued_only_def simp del: queue_of.simps)
  obtain bc0 where bc0: "cache_ok bc0" "find_pos streamid blockid bc0 = None"
    "addblock streamid blockid \<lparr>bd_data = data, bd_length = of_nat (length data)\<rparr> bc0 = Ok (1, bc)"
    using assms(2) by (auto simp: can_send_def)
  obtain ps where ps: "sendblock mem streamid blockid dest (bc, aw_sender w) = Ok (int (num_frags data), bc, foldl (\<lambda>s d. send_data d s) (aw_sender w) ps)"
    "length ps = num_frags data" "\<And>i. i < num_frags data \<Longrightarrow> piece_packet streamid blockid data dest i (ps ! i)"
    using sendblock_files_pieces [OF assms(1) bc0 assms(4), of dest "aw_sender w"] by blast
  have "list_all (\<lambda>d. wf_sd d \<and> class_of d = Data) ps" using ps(2,3) by (auto simp: list_all_length piece_packet_def)
  moreover have "2000 \<le> qEmpty (aw_sender w)"
    using w by (simp add: sender_ok_def view_ok_def del: queue_of.simps) (simp add: tx_abs_def)
  ultimately have "queue_of Data (foldl (\<lambda>s d. send_data d s) (aw_sender w) ps) = take 2000 ps"
    using send_all_cut [OF w(1), of Data ps] by (simp add: w(3) del: queue_of.simps)
  then show ?thesis using ps by blast
qed

lemma block_sent_and_received:
  assumes "sendable data" and "can_send streamid blockid data bc wa" and "num_frags data \<le> 2000" and "\<forall>i. wf_sd (mem i)"
    and "length envs = num_frags data" and "bytes_of_u16 (natPort (aw_sender wa)) ! 0 = 0" and "can_receive streamid blockid wb"
  shows "\<exists>s' outs ltop w1. sendblock mem streamid blockid dest (bc, aw_sender wa) = Ok (int (num_frags data), bc, s') \<and>
    send_thread envs True (wa\<lparr>aw_sender := s'\<rparr>) = Ok (outs, ltop, w1) \<and> length outs = num_frags data \<and>
    list_all (fit_for dest) outs \<and>
    (\<forall>js mds. delivers outs js mds \<and> set js = {..<num_frags data} \<longrightarrow>
       received_as streamid blockid (if hd js + 1 = num_frags data then padded data else data) mds wb)"
proof -
  obtain s' outs lt w1 where o: "sendblock mem streamid blockid dest (bc, aw_sender wa) = Ok (int (num_frags data), bc, s')"
    "send_thread envs True (wa\<lparr>aw_sender := s'\<rparr>) = Ok (outs, lt, w1)" "length outs = num_frags data"
    "\<And>i. i < num_frags data \<Longrightarrow> so_to (outs ! i) = dest \<and> emits streamid blockid data i (outs ! i)"
    using block_sent [OF assms(1-6), of dest] by blast
  have "received_as streamid blockid (if hd js + 1 = num_frags data then padded data else data) mds wb"
    if d: "delivers outs js mds" "set js = {..<num_frags data}" for js mds
    using block_processed [OF assms(1,7), of js mds] delivers_brings [OF d(1), of streamid blockid data id] o(3,4) d(2) by simp
  moreover have "list_all (fit_for dest) outs" unfolding list_all_length fit_for_def using o(3,4) emits_fit by metis
  ultimately show ?thesis using o(1-3) by blast
qed

text \<open>
  C2: a block goes from cache to cache. A peer with nothing to send (its queues are empty, no cookie waits, its bandwidth is not 0), that has put a block
  of at most 2000 fragments into its cache and has announced no NAT port of 256 or more (the first byte of the port trailer is 0), calls \<open>sendblock\<close>.
  Its sending thread puts exactly one datagram per fragment on the wire, all to the given host and short enough for a receive buffer. Whatever the
  network does with them, as long as one copy of each gets through - reordered and repeated as it likes - another peer that
  does not know the block yet and has a free place among its 20 finished blocks processes them without a fault, acknowledges every
  copy, announces the block to its interpreter once, and has exactly the bytes that were sent; unless
  the last fragment arrived before all others, when the bytes are followed by zeros up to a multiple of \<open>MTU\<close>. (Of a longer block
  only the first 2000 fragments are queued, lemma \<open>long_block_cut\<close>; fragments of a peer that announced another port are lost, see the section on the port trailer in \<open>Handshake\<close>.)
\<close>

theorem block_transfer:
  assumes "sendable data" and "can_send streamid blockid data bc wa" and "num_frags data \<le> 2000" and "\<forall>i. wf_sd (mem i)"
    and "length envs = num_frags data" and "bytes_of_u16 (natPort (aw_sender wa)) ! 0 = 0" and "can_receive streamid blockid wb"
  shows "\<exists>s' outs ltop w1. sendblock mem streamid blockid dest (bc, aw_sender wa) = Ok (int (num_frags data), bc, s') \<and>
    send_thread envs True (wa\<lparr>aw_sender := s'\<rparr>) = Ok (outs, ltop, w1) \<and> length outs = num_frags data \<and>
    list_all (fit_for dest) outs \<and>
    (\<forall>js mds. delivers outs js mds \<and> set js = {..<num_frags data} \<longrightarrow>
       received_as streamid blockid (if hd js + 1 = num_frags data then padded data else data) mds wb)"
  by (rule block_sent_and_received [OF assms])

section \<open>Loss and retransmission\<close>

lemma resent_fragment:
  assumes "fragment_packet fd d"
  shows "fragment_packet fd (mark_resend d)" "sd_to (mark_resend d) = sd_to d"
proof -
  have p: "fits d" "block_flags (sd_data d ! 0)" "has (sd_data d ! 0) NEED_ACK"
    "decode_fragment (sd_data d) (uint (sd_length d)) = Ok (Some fd)" using assms by (simp_all add: fragment_packet_def)
  have w: "wf_sd d" "length (sd_data d) = 1500" using p(1) by (simp_all add: fits_def wf_sd_def SENDBUF_def)
  note m = mark_resend_data [OF w(1) p(3)] and k = retransmission_preserves_fragment [OF w(1) p(2-4)]
  have "NEED_ACK AND BLOCK_MASK_CONSECUTIVE = NEED_ACK" by (simp add: packet_defs)
  then have "has ((sd_data d ! 0 AND BLOCK_MASK_CONSECUTIVE) OR BLOCK_RETRANSMISSION) NEED_ACK"
    using p(3) by (simp add: has_or has_mask_other)
  then show "fragment_packet fd (mark_resend d)"
    using k p(1) w block_flags_resend [OF p(2)] by (simp add: fragment_packet_def m fits_def wf_sd_def)
  show "sd_to (mark_resend d) = sd_to d" by (simp add: m)
qed

lemma packets_of_one_host:
  assumes "peers_distinct st" and "\<And>h. h \<noteq> dest \<Longrightarrow> outstanding st h = []"
  shows "concat (map np_nacks (nacklist st)) = outstanding st dest"
proof -
  have "distinct (map np_addr ns) \<Longrightarrow> (\<And>p. p \<in> set ns \<Longrightarrow> np_addr p \<noteq> dest \<Longrightarrow> np_nacks p = []) \<Longrightarrow>
      concat (map np_nacks ns) = (case nack_find_by_host dest ns of None \<Rightarrow> [] | Some i \<Rightarrow> np_nacks (ns ! i))" for ns
  proof (induction ns)
    case (Cons p ns)
    have rest: "concat (map np_nacks ns) = (case nack_find_by_host dest ns of None \<Rightarrow> [] | Some i \<Rightarrow> np_nacks (ns ! i))"
      using Cons by simp
    show ?case
    proof (cases "np_addr p = dest")
      case True
      have "np_nacks q = []" if "q \<in> set ns" for q
      proof -
        have "np_addr q \<noteq> dest" using Cons.prems(1) True that by (metis distinct.simps(2) image_eqI list.set_map list.simps(9))
        then show ?thesis using Cons.prems(2) that by simp
      qed
      then show ?thesis using True by (simp add: nack_find_by_host_def)
    next
      case False
      then show ?thesis using rest Cons.prems(2) by (auto simp: nack_find_by_host_def split: option.split)
    qed
  qed (simp add: nack_find_by_host_def)
  moreover have "np_nacks p = []" if p: "p \<in> set (nacklist st)" "np_addr p \<noteq> dest" for p
  proof -
    have "outstanding st (np_addr p) = np_nacks p"
      using assms(1) p(1) nacks.find_nth [of "nacklist st"] by (auto simp: peers_distinct_def outstanding_def in_set_conv_nth)
    then show ?thesis using assms(2) [OF p(2)] by simp
  qed
  ultimately show ?thesis using assms(1) by (simp add: peers_distinct_def outstanding_def)
qed

text \<open>The sweep when every outstanding packet went to one host and is late: all are filed again, the newest first.\<close>

lemma sweep_all:
  assumes "peers_distinct st" and "\<And>h. get_timeout_value h ps = Ok (t h)" and "\<And>h. h \<noteq> dest \<Longrightarrow> outstanding st h = []"
    and "\<And>a. a \<in> set (outstanding st dest) \<Longrightarrow> timed_out (time_to_usec now) (t dest) a"
  shows "\<exists>st'. resend_timeout_nacks now ps s st = Ok ((int (length (outstanding st dest)), st'), foldl (\<lambda>s a. resend_one a s) s (outstanding st dest)) \<and>
    peers_distinct st' \<and> (\<forall>h. outstanding st' h = [])"
proof -
  let ?all = "concat (map (\<lambda>p. map (Pair (np_addr p)) (np_nacks p)) (nacklist st))"
  have snd_all: "map snd ?all = concat (map np_nacks (nacklist st))" by (simp add: map_concat o_def)
  have "timed_out (time_to_usec now) (t (np_addr p)) a" if p: "p \<in> set (nacklist st)" "a \<in> set (np_nacks p)" for p a
  proof -
    have o: "outstanding st (np_addr p) = np_nacks p"
      using assms(1) p(1) nacks.find_nth [of "nacklist st"] by (auto simp: peers_distinct_def outstanding_def in_set_conv_nth)
    then have "np_addr p = dest" using assms(3) [of "np_addr p"] p(2) by fastforce
    then show ?thesis using assms(4) o p(2) by simp
  qed
  then have "filter (\<lambda>(h, a). timed_out (time_to_usec now) (t h) a) ?all = ?all" by (auto simp: filter_id_conv)
  then have late: "map snd (filter (\<lambda>(h, a). timed_out (time_to_usec now) (t h) a) ?all) = outstanding st dest"
    using snd_all packets_of_one_host [OF assms(1,3)] by simp
  have "\<forall>p \<in> set (nacklist st). get_timeout_value (np_addr p) ps = Ok (t (np_addr p))" using assms(2) by simp
  from timeout_sweep_late [OF assms(1) this, of now s, unfolded late]
  obtain st' where st': "resend_timeout_nacks now ps s st =
      Ok ((int (length (outstanding st dest)), st'), foldl (\<lambda>s a. resend_one a s) s (outstanding st dest))" "peers_distinct st'"
    "\<And>h. outstanding st' h = filter (\<lambda>a. \<not> timed_out (time_to_usec now) (t h) a) (outstanding st h)" by blast
  have "outstanding st' h = []" for h using st'(3) [of h] assms(3,4) by (cases "h = dest") (auto simp: filter_empty_conv)
  then show ?thesis using st'(1,2) by blast
qed

text \<open>The sweep when it finds the whole block late, and the second run of the sending thread.\<close>

lemma block_resent:
  assumes "sendable data" and n: "num_frags data \<le> 2000" and ps: "\<And>i. i < num_frags data \<Longrightarrow> piece_packet streamid blockid data dest i (ps ! i)"
    and w: "ready_to_send w" "queued_only Data [] (aw_sender w)" "bytes_of_u16 (natPort (aw_sender w)) ! 0 = 0"
    and o: "\<And>h. outstanding (aw_nacks w) h = (if h = dest then rev as else [])" and as: "map a_d as = ps" "length as = num_frags data"
    and t: "\<And>h. get_timeout_value h (peeracklist (aw_peers w)) = Ok (t h)" and late: "\<And>a. a \<in> set as \<Longrightarrow> timed_out (time_to_usec now) (t dest) a"
    and envs: "length envs = num_frags data"
  shows "\<exists>st s outs ltop' w'.
    resend_timeout_nacks now (peeracklist (aw_peers w)) (aw_sender w) (aw_nacks w) = Ok ((int (num_frags data), st), s) \<and>
    send_thread envs ltop (w\<lparr>aw_nacks := st, aw_sender := s\<rparr>) = Ok (outs, ltop', w') \<and> length outs = num_frags data \<and>
    (\<forall>k < num_frags data. so_to (outs ! k) = dest \<and> emits streamid blockid data (num_frags data - 1 - k) (outs ! k))"
proof -
  let ?n = "num_frags data"
  have pf: "fragment_packet (piece streamid blockid data i) (ps ! i)" "sd_to (ps ! i) = dest" "a_d a = ps ! i \<Longrightarrow> resendable a"
    if "i < ?n" for i a using piece_fragment(1,3) [OF assms(1) that ps [OF that]] ps [OF that] by (auto simp: piece_packet_def)
  have lp: "length ps = ?n" using as by auto
  have "resendable (as ! i)" if "i < ?n" for i using pf(3) [OF that, of "as ! i"] that as by auto
  then have rs: "list_all resendable (rev as)" using as(2) by (simp add: list_all_length rev_nth)
  have pd: "peers_distinct (aw_nacks w)" using w(1) by (simp add: ready_to_send_def sending_ok_def)
  let ?qs = "map (mark_resend \<circ> a_d) (rev as)" and ?s = "foldl (\<lambda>s a. resend_one a s) (aw_sender w) (rev as)"
  have lq: "length ?qs = ?n" using as(2) by simp
  have "outstanding (aw_nacks w) h = []" if "h \<noteq> dest" for h using o that by simp
  moreover have "timed_out (time_to_usec now) (t dest) a" if "a \<in> set (outstanding (aw_nacks w) dest)" for a using o late that by simp
  ultimately obtain st where sw: "resend_timeout_nacks now (peeracklist (aw_peers w)) (aw_sender w) (aw_nacks w) = Ok ((int ?n, st), ?s)" "peers_distinct st"
    using sweep_all [OF pd t, of dest now "aw_sender w"] as(2) o [of dest] by auto
  have s: "?s = foldl (\<lambda>s d. send_data d s) (aw_sender w) ?qs" by (rule resend_foldl(1) [OF rs])
  have qs: "?qs ! k = mark_resend (ps ! (?n - 1 - k))" "?n - 1 - k < ?n" if "k < ?n" for k
    using that as by (auto simp: rev_nth)
  have fq: "fragment_packet (piece streamid blockid data (?n - 1 - k)) (?qs ! k)" "sd_to (?qs ! k) = dest" if "k < ?n" for k
    using resent_fragment [OF pf(1)] pf(2) qs [OF that] by simp_all
  have cls: "list_all (\<lambda>d. fits d \<and> class_of d = Retr) ?qs" "length ?qs \<le> 2000"
    using resend_foldl(2) [OF rs] fq(1) lq n by (auto simp: list_all_length fragment_packet_def)
  let ?v = "w\<lparr>aw_nacks := st\<rparr>" and ?w = "w\<lparr>aw_nacks := st, aw_sender := ?s\<rparr>"
  have w0: "ready_to_send ?v" "queued_only Data [] (aw_sender ?v)" "aw_sender ?v = aw_sender w"
    using w(1,2) sw(2) by (simp_all add: ready_to_send_def sending_ok_def)
  note fa = files_all [OF w0(1,2) cls, unfolded w0(3), folded s]
  have r: "ready_to_send ?w" using fa(1) by simp
  have q1: "queued_only Retr ?qs (aw_sender ?w)" "length envs = length ?qs" using fa(2) envs lq by simp_all
  obtain outs lt w' where o2: "send_thread envs ltop ?w = Ok (outs, lt, w')" "list_all2 (on_wire Retr (natPort (aw_sender ?w))) ?qs outs"
    using thread_drains [OF r q1, of ltop] by blast
  have l: "length outs = ?n" using list_all2_lengthD [OF o2(2)] lq by simp
  have port: "bytes_of_u16 (natPort (aw_sender ?w)) ! 0 = 0" using w(3) fa(3) by simp
  have "so_to (outs ! k) = dest \<and> emits streamid blockid data (?n - 1 - k) (outs ! k)" if "k < ?n" for k
  proof -
    have ow: "on_wire Retr (natPort (aw_sender ?w)) (?qs ! k) (outs ! k)" using list_all2_nthD [OF o2(2)] that lq by simp
    then show ?thesis using emitted [OF ow fq(1) [OF that] port] fq(2) [OF that] by (simp add: on_wire_def)
  qed
  then show ?thesis using sw(1) o2(1) l by blast
qed

text \<open>Which fragment datagram \<open>j\<close> carries, when all packets were sent and then all sent again.\<close>

definition fragment_of :: "nat \<Rightarrow> nat \<Rightarrow> nat" where
  "fragment_of n j = (if j < n then j else 2 * n - 1 - j)"

text \<open>
  C3: loss is made good. When no acknowledgement has come back within the timeout, the sweep files every packet of the block again and the
  sending thread puts a second datagram for each fragment on the wire, in the opposite order. Whichever of the
  datagrams get through, originals or retransmissions, as long as each fragment is among them, the other peer has the block as
  in the transfer without loss: exactly the bytes that were sent, unless the last fragment came before all others. The second run starts with the last fragment:
  when every original was lost and the retransmissions arrive in order, the block is padded. Conditions: as there, the block has at most 2000 fragments,
  the sending peer has nothing else to send and has announced no NAT port of 256 or more, and the other peer does not know the block and has a free place
  among its 20 finished blocks; moreover nothing was outstanding before, and the timeout of every peer can be computed.
\<close>

theorem lost_fragments_recovered:
  assumes "sendable data" and "can_send streamid blockid data bc wa" and "num_frags data \<le> 2000" and "\<forall>i. wf_sd (mem i)"
    and "length envs = num_frags data" and port: "bytes_of_u16 (natPort (aw_sender wa)) ! 0 = 0"
    and "length envs2 = num_frags data" and "can_receive streamid blockid wb"
    and none: "\<forall>h. outstanding (aw_nacks wa) h = []" and t: "\<forall>h. get_timeout_value h (peeracklist (aw_peers wa)) = Ok (t h)"
    and late: "\<forall>env \<in> set envs. time_to_usec now > time_to_usec (t_end env) + t dest"
  shows "\<exists>s' outs ltop w1 st2 s2 outs2 ltop2 w2.
    sendblock mem streamid blockid dest (bc, aw_sender wa) = Ok (int (num_frags data), bc, s') \<and>
    send_thread envs True (wa\<lparr>aw_sender := s'\<rparr>) = Ok (outs, ltop, w1) \<and>
    resend_timeout_nacks now (peeracklist (aw_peers w1)) (aw_sender w1) (aw_nacks w1) = Ok ((int (num_frags data), st2), s2) \<and>
    send_thread envs2 ltop (w1\<lparr>aw_nacks := st2, aw_sender := s2\<rparr>) = Ok (outs2, ltop2, w2) \<and>
    length outs = num_frags data \<and> length outs2 = num_frags data \<and> list_all (fit_for dest) (outs @ outs2) \<and>
    (\<forall>js mds. delivers (outs @ outs2) js mds \<and> fragment_of (num_frags data) ` set js = {..<num_frags data} \<longrightarrow>
       received_as streamid blockid (if fragment_of (num_frags data) (hd js) + 1 = num_frags data then padded data else data) mds wb)"
proof -
  let ?n = "num_frags data"
  obtain ps as s' outs lt w1 where o: "sendblock mem streamid blockid dest (bc, aw_sender wa) = Ok (int ?n, bc, s')"
    "send_thread envs True (wa\<lparr>aw_sender := s'\<rparr>) = Ok (outs, lt, w1)" "length ps = ?n" "length outs = ?n"
    "\<And>i. i < ?n \<Longrightarrow> piece_packet streamid blockid data dest i (ps ! i)"
    "\<And>i. i < ?n \<Longrightarrow> so_to (outs ! i) = dest \<and> emits streamid blockid data i (outs ! i)"
    "ready_to_send w1" "queued_only Data [] (aw_sender w1)" "natPort (aw_sender w1) = natPort (aw_sender wa)" "aw_peers w1 = aw_peers wa"
    "recorded (seq_num (aw_nacks wa) + 1) envs outs ps as"
    "\<And>h. outstanding (aw_nacks w1) h = (if h = dest then rev as else []) @ outstanding (aw_nacks wa) h"
    using block_sent [OF assms(1-6), of dest] by blast
  have as: "map a_d as = ps" "map a_sendtime as = map t_end envs" "length as = ?n" using o(3,11) by (auto simp: recorded_def)
  have "timed_out (time_to_usec now) (t dest) a" if "a \<in> set as" for a
  proof -
    have "a_sendtime a \<in> t_end ` set envs" using arg_cong [OF as(2), of set] that by auto
    then show ?thesis using late by (auto simp: timed_out_def)
  qed
  moreover have "bytes_of_u16 (natPort (aw_sender w1)) ! 0 = 0" using port o(9) by simp
  moreover have "outstanding (aw_nacks w1) h = (if h = dest then rev as else [])" for h using o(12) none by simp
  moreover have "get_timeout_value h (peeracklist (aw_peers w1)) = Ok (t h)" for h using t o(10) by simp
  ultimately obtain st2 s2 outs2 lt2 w2 where r:
    "resend_timeout_nacks now (peeracklist (aw_peers w1)) (aw_sender w1) (aw_nacks w1) = Ok ((int ?n, st2), s2)"
    "send_thread envs2 lt (w1\<lparr>aw_nacks := st2, aw_sender := s2\<rparr>) = Ok (outs2, lt2, w2)" "length outs2 = ?n"
    "\<And>k. k < ?n \<Longrightarrow> so_to (outs2 ! k) = dest \<and> emits streamid blockid data (?n - 1 - k) (outs2 ! k)"
    using block_resent [OF assms(1,3) o(5) o(7,8) _ _ as(1,3) _ _ assms(7)] by blast
  have all: "so_to ((outs @ outs2) ! j) = dest \<and> emits streamid blockid data (fragment_of ?n j) ((outs @ outs2) ! j)" if "j < length (outs @ outs2)" for j
  proof (cases "j < ?n")
    case True
    then show ?thesis using o(4,6) by (simp add: fragment_of_def nth_append)
  next
    case False
    then have j: "j - ?n < ?n" "2 * ?n - 1 - j = ?n - 1 - (j - ?n)" using that o(4) r(3) by simp_all
    show ?thesis using r(4) [OF j(1)] False o(4) unfolding fragment_of_def j(2) by (simp add: nth_append)
  qed
  have dest: "list_all (fit_for dest) (outs @ outs2)" unfolding list_all_length fit_for_def using all emits_fit by blast
  have "received_as streamid blockid (if fragment_of ?n (hd js) + 1 = ?n then padded data else data) mds wb"
    if d: "delivers (outs @ outs2) js mds" "fragment_of ?n ` set js = {..<?n}" for js mds
  proof -
    have "0 \<in> fragment_of ?n ` set js" using d(2) split_exact(1) [OF assms(1)] by simp
    then have "js \<noteq> []" by auto
    moreover have "list_all2 (brings streamid blockid data) (map (fragment_of ?n) js) mds" by (rule delivers_brings [OF d(1)]) (use all in blast)
    ultimately show ?thesis using block_processed [OF assms(1,8), of "map (fragment_of ?n) js" mds] d(2) by (simp add: hd_map)
  qed
  then show ?thesis using o(1,2,4) r(1-3) dest by blast
qed

end
