(* ===== verification/Block_Settled.thy ===== *)
theory Block_Settled
  imports Block_Transfer
begin

text \<open>
  The way back: the acknowledgements that the other peer has queued go through its sending thread, and
  the peer that sent the block processes them.
\<close>

section \<open>Sequence numbers\<close>

lemma numbered_seq: "numbered seq as \<Longrightarrow> i < length as \<Longrightarrow> a_seq (as ! i) = seq + of_nat i"
  by (induction as arbitrary: seq i) (auto simp: nth_Cons' algebra_simps)

lemma numbered_distinct:
  assumes "numbered seq as" and "length as \<le> 2 ^ 16"
  shows "distinct (map a_seq as)"
proof -
  have "i = j" if "i < length as" "j < length as" "a_seq (as ! i) = a_seq (as ! j)" for i j
  proof -
    have "(of_nat i :: u16) = of_nat j" using numbered_seq [OF assms(1)] that by simp
    then have "unat (of_nat i :: u16) = unat (of_nat j :: u16)" by simp
    then show ?thesis using that assms(2) by (simp add: unat_of_nat)
  qed
  then show ?thesis by (auto simp: distinct_conv_nth)
qed

text \<open>A datagram tells the sequence number it carries.\<close>

lemma carried_seq:
  assumes "fragment_packet fd pkt" and "carries d (wire_of zz seq port pkt)"
    and "fragment_packet fd' pkt'" and "carries d (wire_of zz' seq' port' pkt')"
  shows "seq = seq'"
  using carried_fields(2,4) [OF assms(1,2)] carried_fields(2,4) [OF assms(3,4)] by simp

section \<open>The acknowledgements leave\<close>

lemma ack_packet:
  assumes "acknowledges md a" and "wf_sd (mem_send (fst md))"
  shows "fits a" "class_of a = Prio" "sd_to a = id_from (snd md)"
proof -
  obtain seq cons where a: "a = (make_ack (mem_send (fst md)) seq cons (id_tv (snd md)))\<lparr>sd_to := id_from (snd md)\<rparr>"
    using assms(1) by (auto simp: acknowledges_def)
  have f: "sd_data a ! 0 = BLK_ACK" "unat (sd_length a) = 13" "wf_sd a"
    using assms(2) by (simp_all add: a make_ack_def encode_defs wf_sd_def SENDBUF_def mem_simps sizeof_defs)
  then show "fits a" "class_of a = Prio" "sd_to a = id_from (snd md)"
    by (simp_all add: fits_def class_of_def has_def packet_defs a)
qed

text \<open>An acknowledgement for the packet that \<open>a\<close> remembers, as a datagram from \<open>h\<close>.\<close>

definition answers :: "sockaddr_in \<Rightarrow> Ack \<Rightarrow> rx_mem \<times> IncomingData \<Rightarrow> bool" where
  "answers h a md \<longleftrightarrow> id_from (snd md) = h \<and> (\<exists>s n port cons ts x. wf_sd s \<and> bytes_of_u16 port ! 0 = 0 \<and>
     carries (snd md) (wire_of False n port ((make_ack s (a_seq a) cons ts)\<lparr>sd_to := x\<rparr>)))"

lemma acks_leave:
  assumes w: "ready_to_send w" "queued_only k [] (aw_sender w)" "bytes_of_u16 (natPort (aw_sender w)) ! 0 = 0"
    and as: "list_all2 acknowledges mds as" "\<forall>md \<in> set mds. wf_sd (mem_send (fst md))" "length mds \<le> 2000"
    and envs: "length envs = length mds"
  shows "\<exists>outs ltop' w'. send_thread envs ltop (w\<lparr>aw_sender := foldl (\<lambda>s a. send_data a s) (aw_sender w) as\<rparr>) = Ok (outs, ltop', w') \<and>
    length outs = length mds \<and>
    (\<forall>i < length mds. so_to (outs ! i) = id_from (snd (mds ! i)) \<and> length (so_wire (outs ! i)) \<le> BUFSIZE \<and>
       (\<exists>n port. bytes_of_u16 port ! 0 = 0 \<and> so_wire (outs ! i) = wire_of False n port (as ! i)))"
proof -
  have l: "length as = length mds" using list_all2_lengthD [OF as(1)] by simp
  have ap: "fits (as ! i)" "class_of (as ! i) = Prio" "sd_to (as ! i) = id_from (snd (mds ! i))" if "i < length mds" for i
    using ack_packet [OF list_all2_nthD [OF as(1) that]] as(2) that by simp_all
  have cls: "list_all (\<lambda>d. fits d \<and> class_of d = Prio) as" "length as \<le> 2000" using ap l as(3) by (simp_all add: list_all_length)
  note fa = files_all [OF w(1,2) cls]
  let ?w = "w\<lparr>aw_sender := foldl (\<lambda>s a. send_data a s) (aw_sender w) as\<rparr>"
  have q: "queued_only Prio as (aw_sender ?w)" "length envs = length as" using fa(2) envs l by simp_all
  obtain outs lt w' where o: "send_thread envs ltop ?w = Ok (outs, lt, w')" "list_all2 (on_wire Prio (natPort (aw_sender ?w))) as outs"
    using thread_drains [OF fa(1) q, of ltop] by blast
  have "so_to (outs ! i) = id_from (snd (mds ! i)) \<and> length (so_wire (outs ! i)) \<le> BUFSIZE \<and>
      (\<exists>n port. bytes_of_u16 port ! 0 = 0 \<and> so_wire (outs ! i) = wire_of False n port (as ! i))" if i: "i < length mds" for i
  proof -
    obtain n where n: "so_to (outs ! i) = sd_to (as ! i)" "so_wire (outs ! i) = wire_of False n (natPort (aw_sender ?w)) (as ! i)"
      using list_all2_nthD [OF o(2), of i] i l unfolding on_wire_def by (metis (full_types) tx_class.distinct(3) tx_class.distinct(1))
    have "length (wire_of False n (natPort (aw_sender ?w)) (as ! i)) \<le> 1500"
      using ap(1) [OF i] by (auto simp: wire_of_def Let_def fits_def wf_sd_def SENDBUF_def)
    then show ?thesis using n ap(3) [OF i] w(3) fa(3) by (auto simp: BUFSIZE_def)
  qed
  then show ?thesis using o list_all2_lengthD [OF o(2)] l by auto
qed

section \<open>The acknowledgements arrive\<close>

lemma find_oldest:
  assumes "distinct (map a_seq (a # as))"
  shows "List.find (\<lambda>b. a_seq b = a_seq a) (rev (a # as)) = Some a" "drop_first (\<lambda>b. a_seq b = a_seq a) (rev (a # as)) = rev as"
proof -
  have "\<forall>b \<in> set bs. a_seq b \<noteq> a_seq a \<Longrightarrow>
      List.find (\<lambda>b. a_seq b = a_seq a) (bs @ [a]) = Some a \<and> drop_first (\<lambda>b. a_seq b = a_seq a) (bs @ [a]) = bs" for bs
    by (induction bs) (auto simp: drop_first_def)
  moreover have "\<forall>b \<in> set (rev as). a_seq b \<noteq> a_seq a" using assms by (auto simp: image_iff)
  ultimately show "List.find (\<lambda>b. a_seq b = a_seq a) (rev (a # as)) = Some a" "drop_first (\<lambda>b. a_seq b = a_seq a) (rev (a # as)) = rev as"
    by simp_all
qed

definition awaits :: "sockaddr_in \<Rightarrow> Ack list \<Rightarrow> world \<Rightarrow> bool" where
  "awaits h as w \<longleftrightarrow> peers_distinct (aw_nacks (w_ack w)) \<and> \<not> ack_list_held (aw_peers (w_ack w)) \<and>
     (\<forall>k. outstanding (aw_nacks (w_ack w)) k = (if k = h then rev as else []))"

lemma ack_settles:
  assumes "answers h a md" and "awaits h (a # as) w" and "distinct (map a_seq (a # as))" and "sorted (map a_sendtime (a # as))"
    and "\<forall>b \<in> set (a # as). sd_to (a_d b) = h"
  shows "\<exists>d' w'. process_packet (fst md) (snd md) w = Ok (d', w') \<and> awaits h as w' \<and> aw_sender (w_ack w') = aw_sender (w_ack w) \<and>
    w_cache w' = w_cache w \<and> w_biter w' = w_biter w"
proof -
  obtain s n port cons ts x where m: "id_from (snd md) = h" "wf_sd s" "bytes_of_u16 port ! 0 = 0"
    "carries (snd md) (wire_of False n port ((make_ack s (a_seq a) cons ts)\<lparr>sd_to := x\<rparr>))"
    using assms(1) by (auto simp: answers_def)
  have w: "peers_distinct (aw_nacks (w_ack w))" "\<not> ack_list_held (aw_peers (w_ack w))"
    "outstanding (aw_nacks (w_ack w)) = (\<lambda>k. if k = h then rev (a # as) else [])"
    using assms(2) by (auto simp: awaits_def)
  have to: "\<forall>b \<in> set (outstanding (aw_nacks (w_ack w)) h). sd_to (a_d b) = h" using assms(5) by (simp add: w(3))
  note f = find_oldest [OF assms(3)]
  have oh: "outstanding (aw_nacks (w_ack w)) h = rev (a # as)" by (simp add: w(3))
  obtain d' w' st where p: "process_packet (fst md) (snd md) w = Ok (d', w')" "w_cache w' = w_cache w" "w_biter w' = w_biter w"
    "peers_distinct st" "outstanding st = (outstanding (aw_nacks (w_ack w)))(h := rev as)"
    "\<exists>r. ack_received a r (id_tv (snd md)) h ((w_ack w)\<lparr>aw_nacks := st\<rparr>) = Ok (1, w_ack w')"
    using ack_processed [OF m(2,4,3) w(1,2) m(1) [symmetric] to, of "fst md", unfolded oh f] by auto
  obtain r where r: "ack_received a r (id_tv (snd md)) h ((w_ack w)\<lparr>aw_nacks := st\<rparr>) = Ok (1, w_ack w')" using p(6) by blast
  have "\<forall>b \<in> set (outstanding st h). a_sendtime a \<le> a_sendtime b" using assms(4) p(5) by auto
  then obtain w2 where "ack_received a r (id_tv (snd md)) h ((w_ack w)\<lparr>aw_nacks := st\<rparr>) = Ok (1, w2)" "peers_distinct (aw_nacks w2)"
    "outstanding (aw_nacks w2) = outstanding st" "aw_sender w2 = aw_sender (w_ack w)" "\<not> ack_list_held (aw_peers w2)"
    using ack_received_in_order [of "(w_ack w)\<lparr>aw_nacks := st\<rparr>" h a r "id_tv (snd md)" h] w(2) p(4) assms(5) by auto
  then show ?thesis using p(1-3,5) r w(3) by (intro exI [of _ d'] exI [of _ w']) (auto simp: awaits_def)
qed

lemma acks_settle:
  "list_all2 (answers h) as mds \<Longrightarrow> awaits h as w \<Longrightarrow> distinct (map a_seq as) \<Longrightarrow> sorted (map a_sendtime as) \<Longrightarrow>
     \<forall>b \<in> set as. sd_to (a_d b) = h \<Longrightarrow>
   \<exists>w'. process_all mds w = Ok w' \<and> awaits h [] w' \<and> aw_sender (w_ack w') = aw_sender (w_ack w) \<and>
     w_cache w' = w_cache w \<and> w_biter w' = w_biter w"
proof (induction as arbitrary: w mds)
  case (Cons a as)
  obtain md mds' where md: "mds = md # mds'" "answers h a md" "list_all2 (answers h) as mds'" using Cons.prems(1) by (cases mds) auto
  obtain d' w1 where w1: "process_packet (fst md) (snd md) w = Ok (d', w1)" "awaits h as w1" "aw_sender (w_ack w1) = aw_sender (w_ack w)"
    "w_cache w1 = w_cache w" "w_biter w1 = w_biter w"
    using ack_settles [OF md(2) Cons.prems(2-5)] by blast
  obtain w' where "process_all mds' w1 = Ok w'" "awaits h [] w'" "aw_sender (w_ack w') = aw_sender (w_ack w1)"
    "w_cache w' = w_cache w1" "w_biter w' = w_biter w1"
    using Cons.IH [OF md(3) w1(2)] Cons.prems(3-5) by auto
  then show ?case using w1 md(1) by simp
qed auto

section \<open>There and back\<close>

text \<open>A peer whose sending thread has nothing else to do when the block comes.\<close>

definition can_reply :: "world \<Rightarrow> bool" where
  "can_reply w \<longleftrightarrow> ready_to_send (w_ack w) \<and> queued_only Data [] (aw_sender (w_ack w))"

text \<open>The acknowledgements of the datagrams answer the packets, one by one.\<close>

lemma acks_answer:
  assumes out: "list_all2 (\<lambda>o1 a. \<exists>zz port. so_wire o1 = wire_of zz (a_seq a) port (a_d a)) outs as"
    and frag: "\<And>i. i < length as \<Longrightarrow> \<exists>fd. fragment_packet fd (a_d (as ! i))"
    and mds: "list_all2 (\<lambda>o1 md. carries (snd md) (so_wire o1)) outs mds" and wf: "\<forall>md \<in> set mds. wf_sd (mem_send (fst md))"
    and acks: "list_all2 acknowledges mds rs"
    and wire: "\<And>i. i < length mds \<Longrightarrow> \<exists>n port. bytes_of_u16 port ! 0 = 0 \<and> so_wire (bouts ! i) = wire_of False n port (rs ! i)"
    and mds': "length mds' = length mds" "\<And>i. i < length mds \<Longrightarrow> carries (snd (mds' ! i)) (so_wire (bouts ! i))" "\<forall>md \<in> set mds'. id_from (snd md) = h"
  shows "list_all2 (answers h) as mds'"
proof (rule list_all2_all_nthI)
  have l: "length as = length mds" using list_all2_lengthD [OF out] list_all2_lengthD [OF mds] by simp
  then show "length as = length mds'" using mds'(1) by simp
  fix i assume "i < length as"
  then have i: "i < length as" "i < length mds" "i < length outs" using l list_all2_lengthD [OF out] by simp_all
  obtain zz port where o: "so_wire (outs ! i) = wire_of zz (a_seq (as ! i)) port (a_d (as ! i))"
    using list_all2_nthD2 [OF out i(1)] by blast
  obtain fd where fd: "fragment_packet fd (a_d (as ! i))" using frag [OF i(1)] by blast
  have c: "carries (snd (mds ! i)) (wire_of zz (a_seq (as ! i)) port (a_d (as ! i)))" using list_all2_nthD2 [OF mds i(2)] o by simp
  obtain fd' zz' seq port' pkt cons where a: "fragment_packet fd' pkt" "carries (snd (mds ! i)) (wire_of zz' seq port' pkt)"
    "rs ! i = (make_ack (mem_send (fst (mds ! i))) seq cons (id_tv (snd (mds ! i))))\<lparr>sd_to := id_from (snd (mds ! i))\<rparr>"
    using list_all2_nthD [OF acks i(2)] by (auto simp: acknowledges_def)
  have seq: "seq = a_seq (as ! i)" by (rule carried_seq [OF a(1,2) fd c])
  obtain n q where w: "bytes_of_u16 q ! 0 = 0" "so_wire (bouts ! i) = wire_of False n q (rs ! i)" using wire [OF i(2)] by blast
  have "id_from (snd (mds' ! i)) = h" "wf_sd (mem_send (fst (mds ! i)))" using mds'(1,3) wf i by simp_all
  then show "answers h (as ! i) (mds' ! i)"
    using mds'(2) [OF i(2)] w(1) unfolding answers_def w(2) a(3) seq by blast
qed

lemma delivers_all:
  assumes "delivers outs [0..<length outs] mds"
  shows "list_all2 (\<lambda>o1 md. carries (snd md) (so_wire o1)) outs mds"
  using assms by (auto simp: delivers_def list_all2_conv_all_nth)

text \<open>The other peer's part: it processes the datagrams and its sending thread answers each.\<close>

lemma block_answered:
  assumes "sendable data" and "num_frags data \<le> 2000" and "can_receive streamid blockid wb" and "can_reply wb"
    and port: "bytes_of_u16 (natPort (aw_sender (w_ack wb))) ! 0 = 0"
    and outs: "length outs = num_frags data" "\<And>i. i < num_frags data \<Longrightarrow> emits streamid blockid data i (outs ! i)"
    and d: "delivers outs [0..<num_frags data] mds" "\<forall>md \<in> set mds. wf_sd (mem_send (fst md))" and envs: "length envs = num_frags data"
  shows "\<exists>wb' rs acks ltop' wb2. process_all mds wb = Ok wb' \<and> send_thread envs ltop (w_ack wb') = Ok (acks, ltop', wb2) \<and>
    list_all2 acknowledges mds rs \<and> length acks = num_frags data \<and> length mds = num_frags data \<and>
    list_all2 (\<lambda>md. fit_for (id_from (snd md))) mds acks \<and>
    (\<forall>i < length mds. \<exists>n port. bytes_of_u16 port ! 0 = 0 \<and> so_wire (acks ! i) = wire_of False n port (rs ! i))"
proof -
  let ?n = "num_frags data"
  have lm: "length mds = ?n" using list_all2_lengthD [OF d(1) [unfolded delivers_def, THEN conjunct2]] by simp
  have "list_all2 (brings streamid blockid data) [0..<?n] mds" using delivers_brings [OF d(1), of streamid blockid data id] outs by simp
  moreover have "set [0..<?n] = {..<?n}" by auto
  ultimately obtain wb' rs where b: "process_all mds wb = Ok wb'" "list_all2 acknowledges mds rs"
    "w_ack wb' = (w_ack wb)\<lparr>aw_sender := foldl (\<lambda>s a. send_data a s) (aw_sender (w_ack wb)) rs\<rparr>"
    using block_processed [OF assms(1,3), of "[0..<?n]" mds] by (auto simp: received_as_def acked_by_def)
  have w: "ready_to_send (w_ack wb)" "queued_only Data [] (aw_sender (w_ack wb))" "bytes_of_u16 (natPort (aw_sender (w_ack wb))) ! 0 = 0"
    and le: "length mds \<le> 2000" "length envs = length mds" using assms(2,4) port envs lm by (simp_all add: can_reply_def)
  obtain acks lt wb2 where k: "send_thread envs ltop (w_ack wb') = Ok (acks, lt, wb2)" "length acks = length mds"
    "\<And>i. i < length mds \<Longrightarrow> so_to (acks ! i) = id_from (snd (mds ! i)) \<and> length (so_wire (acks ! i)) \<le> BUFSIZE"
    "\<forall>i < length mds. \<exists>n port. bytes_of_u16 port ! 0 = 0 \<and> so_wire (acks ! i) = wire_of False n port (rs ! i)"
    using acks_leave [OF w b(2) d(2) le, of ltop, folded b(3)] by blast
  have "list_all2 (\<lambda>md. fit_for (id_from (snd md))) mds acks" using k(2,3) by (auto simp: list_all2_conv_all_nth fit_for_def)
  then show ?thesis using b(1,2) k(1,2,4) lm by (intro exI [of _ wb'] exI [of _ rs] exI [of _ acks] exI [of _ lt] exI [of _ wb2]) simp
qed

text \<open>
  C4: an undisturbed transfer ends where it began. When every datagram of a block arrives once and in order, and the
  acknowledgements come back once and in order, the sending peer has nothing outstanding afterwards, nothing was retransmitted and its queues
  are empty; each datagram was answered by exactly one acknowledgement, sent to the host the datagram came from. So the
  next sweep finds nothing to do. The acknowledgements must come from the address the block was sent to. Conditions: the block has at most 2000
  fragments; both peers have nothing else to send and have announced no NAT port of 256 or more; the other peer does not know the block and has a free place
  among its 20 finished blocks; on the sending side nothing was outstanding before, the interpreter does not hold the statistics, and the times
  at which the packets leave do not decrease.
\<close>

theorem transfer_settled:
  assumes "sendable data" and "can_send streamid blockid data bc wa" and "num_frags data \<le> 2000" and "\<forall>i. wf_sd (mem i)"
    and "length envs = num_frags data" and "bytes_of_u16 (natPort (aw_sender wa)) ! 0 = 0" and "length envs2 = num_frags data"
    and "can_receive streamid blockid wb" and "can_reply wb" and "bytes_of_u16 (natPort (aw_sender (w_ack wb))) ! 0 = 0"
    and none: "\<forall>h. outstanding (aw_nacks wa) h = []" and free: "\<not> ack_list_held (aw_peers wa)" and times: "sorted (map t_end envs)"
  shows "\<exists>s' outs ltop w1. sendblock mem streamid blockid dest (bc, aw_sender wa) = Ok (int (num_frags data), bc, s') \<and>
    send_thread envs True (wa\<lparr>aw_sender := s'\<rparr>) = Ok (outs, ltop, w1) \<and> length outs = num_frags data \<and> list_all (fit_for dest) outs \<and>
    (\<forall>mds. delivers outs [0..<num_frags data] mds \<and> (\<forall>md \<in> set mds. wf_sd (mem_send (fst md))) \<longrightarrow>
      (\<exists>wb' acks ltop2 wb2. process_all mds wb = Ok wb' \<and> send_thread envs2 lt (w_ack wb') = Ok (acks, ltop2, wb2) \<and>
         length acks = num_frags data \<and> list_all2 (\<lambda>md. fit_for (id_from (snd md))) mds acks \<and>
         (\<forall>mds' w. delivers acks [0..<num_frags data] mds' \<and> (\<forall>md \<in> set mds'. id_from (snd md) = dest) \<and> w_ack w = w1 \<longrightarrow>
           (\<exists>w'. process_all mds' w = Ok w' \<and> w_cache w' = w_cache w \<and> w_biter w' = w_biter w \<and>
              aw_sender (w_ack w') = aw_sender w1 \<and> queued_only Data [] (aw_sender w1) \<and>
              (\<forall>h. outstanding (aw_nacks (w_ack w')) h = [])))))"
proof -
  let ?n = "num_frags data"
  obtain ps as s' outs ltop w1 where o: "sendblock mem streamid blockid dest (bc, aw_sender wa) = Ok (int ?n, bc, s')"
    "send_thread envs True (wa\<lparr>aw_sender := s'\<rparr>) = Ok (outs, ltop, w1)" "length ps = ?n" "length outs = ?n"
    "\<And>i. i < ?n \<Longrightarrow> piece_packet streamid blockid data dest i (ps ! i)"
    "\<And>i. i < ?n \<Longrightarrow> so_to (outs ! i) = dest \<and> emits streamid blockid data i (outs ! i)"
    "ready_to_send w1" "queued_only Data [] (aw_sender w1)" "aw_peers w1 = aw_peers wa"
    "recorded (seq_num (aw_nacks wa) + 1) envs outs ps as"
    "\<And>h. outstanding (aw_nacks w1) h = (if h = dest then rev as else []) @ outstanding (aw_nacks wa) h"
    using block_sent [OF assms(1-6), of dest] by blast
  have fit: "list_all (fit_for dest) outs" unfolding list_all_length fit_for_def using o(4,6) emits_fit by metis
  have as: "numbered (seq_num (aw_nacks wa) + 1) as" "map a_d as = ps" "map a_sendtime as = map t_end envs" "length as = ?n"
    "list_all2 (\<lambda>o1 a. \<exists>zz port. so_wire o1 = wire_of zz (a_seq a) port (a_d a)) outs as"
    using o(3,10) by (auto simp: recorded_def)
  have ad: "a_d (as ! i) = ps ! i" if "i < ?n" for i using as(2,4) that by auto
  have frag: "\<exists>fd. fragment_packet fd (a_d (as ! i))" if "i < length as" for i
    using piece_fragment(1) [OF assms(1) _ o(5)] ad as(4) that by auto
  have "sd_to (a_d (as ! i)) = dest" if "i < ?n" for i using o(5) [OF that] ad [OF that] by (simp add: piece_packet_def)
  then have to: "\<forall>b \<in> set as. sd_to (a_d b) = dest" using as(4) by (auto simp: in_set_conv_nth)
  have dist: "distinct (map a_seq as)" "sorted (map a_sendtime as)"
    using numbered_distinct [OF as(1)] as(3,4) assms(3) times by simp_all
  have wait: "awaits dest as w" if "w_ack w = w1" for w
    using that o(7,9,11) none free by (simp add: awaits_def ready_to_send_def sending_ok_def)
  have "\<exists>wb' acks ltop2 wb2. process_all mds wb = Ok wb' \<and> send_thread envs2 lt (w_ack wb') = Ok (acks, ltop2, wb2) \<and>
      length acks = ?n \<and> list_all2 (\<lambda>md. fit_for (id_from (snd md))) mds acks \<and>
      (\<forall>mds' w. delivers acks [0..<?n] mds' \<and> (\<forall>md \<in> set mds'. id_from (snd md) = dest) \<and> w_ack w = w1 \<longrightarrow>
        (\<exists>w'. process_all mds' w = Ok w' \<and> w_cache w' = w_cache w \<and> w_biter w' = w_biter w \<and>
           aw_sender (w_ack w') = aw_sender w1 \<and> queued_only Data [] (aw_sender w1) \<and> (\<forall>h. outstanding (aw_nacks (w_ack w')) h = [])))"
    if d: "delivers outs [0..<?n] mds" "\<forall>md \<in> set mds. wf_sd (mem_send (fst md))" for mds
  proof -
    obtain wb' rs acks lt2 wb2 where k: "process_all mds wb = Ok wb'" "send_thread envs2 lt (w_ack wb') = Ok (acks, lt2, wb2)"
      "list_all2 acknowledges mds rs" "length acks = ?n" "length mds = ?n" "list_all2 (\<lambda>md. fit_for (id_from (snd md))) mds acks"
      "\<And>i. i < length mds \<Longrightarrow> \<exists>n port. bytes_of_u16 port ! 0 = 0 \<and> so_wire (acks ! i) = wire_of False n port (rs ! i)"
      using block_answered [OF assms(1,3,8-10) o(4) _ d assms(7), of lt] o(6) by blast
    have "\<exists>w'. process_all mds' w = Ok w' \<and> w_cache w' = w_cache w \<and> w_biter w' = w_biter w \<and>
        aw_sender (w_ack w') = aw_sender w1 \<and> queued_only Data [] (aw_sender w1) \<and> (\<forall>h. outstanding (aw_nacks (w_ack w')) h = [])"
      if e: "delivers acks [0..<?n] mds'" "\<forall>md \<in> set mds'. id_from (snd md) = dest" "w_ack w = w1" for mds' w
    proof -
      have "length mds' = length mds" "\<And>i. i < length mds \<Longrightarrow> carries (snd (mds' ! i)) (so_wire (acks ! i))"
        using delivers_all [of acks mds'] e(1) k(4,5) by (auto simp: list_all2_conv_all_nth)
      then have "list_all2 (answers dest) as mds'"
        using acks_answer [OF as(5) frag delivers_all [of outs mds] d(2) k(3,7)] d(1) o(4) e(2) by simp
      then obtain w' where "process_all mds' w = Ok w'" "awaits dest [] w'" "aw_sender (w_ack w') = aw_sender (w_ack w)"
        "w_cache w' = w_cache w" "w_biter w' = w_biter w"
        using acks_settle [OF _ wait [OF e(3)] dist to] by blast
      then show ?thesis using o(8) e(3) by (intro exI [of _ w']) (simp add: awaits_def)
    qed
    then show ?thesis using k(1,2,4,6) by blast
  qed
  then show ?thesis using o(1,2,4,8) fit by blast
qed

end
