(* ===== verification/Module_Transfer.thy ===== *)
theory Module_Transfer
  imports Bora_Api Block_Settled
begin

text \<open>
  A block from program to program: one program gives it to its module with \<open>add_block\<close> and \<open>send_block\<close>, the other learns of it from
  the iterator and fetches it with \<open>get_block_content\<close>.
\<close>

text \<open>The iterator's next value for a finished block.\<close>

lemma biter_next_completed:
  assumes "biter_ok bi" and "biter_contents bi = Completed sid bid # es"
  obtains s b bi' where "biter_next bi = Ok ((s, b, None), bi')" "word_of_int s = sid" "word_of_int b = bid" "biter_contents bi' = es"
proof -
  have full: "0 < s_biter_full bi" using biter.fill_contents [OF assms(1)] assms(2) by simp
  have g: "fst (biter_get bi) = Completed sid bid" "biter_contents (snd (biter_get bi)) = es"
    using biter_get_contents [OF assms(1) full] assms(2) by simp_all
  obtain s b o' bi' where l: "biter_load bi = ((s, b, o'), bi')" by (metis prod_cases3 surj_pair)
  have "o' = None" "word_of_int s = sid" "word_of_int b = bid" using g(1) l by (cases o'; simp add: biter_get_def)+
  then show thesis using that [of s b bi'] g(2) l full by (simp add: biter_get_def biter_next_def)
qed

lemma iternext_completed:
  assumes "\<not> b_death r" and "biter_ok (w_biter w)" and "biter_contents (w_biter w) = [Completed sid bid]"
  shows "\<exists>s b r'. BIter_iternext (set_world w r) = Ok (Return (PyList [PyInt s, PyInt b]), r') \<and> word_of_int s = sid \<and> word_of_int b = bid \<and>
    w_cache (b_world r') = w_cache w \<and> \<not> b_death r' \<and> biter_contents (w_biter (b_world r')) = []"
proof -
  obtain s b bi where n: "biter_next (w_biter w) = Ok ((s, b, None), bi)" "word_of_int s = sid" "word_of_int b = bid" "biter_contents bi = []"
    by (rule biter_next_completed [OF assms(2,3)])
  have "BIter_iternext (set_world w r) = Ok (Return (PyList [PyInt s, PyInt b]), set_biter bi (set_world w r))"
    using n(1) assms(1) by (simp add: BIter_iternext_def BIter_resume_def)
  then show ?thesis using n(2-4) assms(1) by (intro exI [of _ s] exI [of _ b]) (simp add: set_biter_def)
qed

text \<open>A module that is open and has nothing to send.\<close>

definition idle_module :: "bora \<Rightarrow> bool" where
  "idle_module b \<longleftrightarrow> b_sock b \<noteq> 0 \<and> \<not> b_death b \<and> ready_to_send (w_ack (b_world b)) \<and> queued_only Data [] (api_sender b) \<and>
     cache_ok (w_cache (b_world b))"

lemma added_can_send:
  assumes "idle_module a" and "find_pos (word_of_int sid) (word_of_int bid) (w_cache (b_world a)) = None" and "sendable text"
  shows "\<exists>bc. add_block (Some (sid, bid, text)) a = Ok (Return PyTrue, set_cache bc a) \<and>
    can_send (word_of_int sid) (word_of_int bid) text bc (w_ack (b_world a))"
proof -
  have a: "\<not> b_death a" "ready_to_send (w_ack (b_world a))" "queued_only Data [] (api_sender a)" "cache_ok (w_cache (b_world a))"
    using assms(1) by (simp_all add: idle_module_def)
  obtain bc where bc: "addblock (word_of_int sid) (word_of_int bid) \<lparr>bd_data = text, bd_length = of_nat (length text)\<rparr> (w_cache (b_world a)) = Ok (1, bc)"
    using addblock_absent [OF a(4) assms(2,3)] by blast
  have "add_block (Some (sid, bid, text)) a = Ok (Return PyTrue, set_cache bc a)" using a(1) bc by (simp add: add_block_def)
  moreover have "can_send (word_of_int sid) (word_of_int bid) text bc (w_ack (b_world a))"
    unfolding can_send_def using a(2-4) assms(2) bc by blast
  ultimately show ?thesis by blast
qed

text \<open>
  C1: a block of at most 2000 fragments goes from one program to another. On an open module with nothing to send, which does not know the block yet and
  has announced no NAT port of 256 or more (the first byte of the port trailer is 0), \<open>add_block\<close> stores the block and \<open>send_block\<close> hands it to the
  sending thread, which emits one datagram per fragment to the printed destination. Whatever the network does with them, as long as a
  copy of each gets through, the iterator of a peer that does not know the block and has no other news returns one pair of
  numbers, and \<open>get_block_content\<close> with these two numbers returns the string that was given to \<open>add_block\<close>,
  followed by zeros if the last fragment came before all others. (Of a longer block
  only the first 2000 fragments are queued, lemma \<open>Block_Transfer.long_block_cut\<close>; fragments of a peer that announced another port are lost, see the section on the port trailer in \<open>Handshake\<close>.)
\<close>

theorem block_between_programs:
  assumes "idle_module a" and "find_pos (word_of_int sid) (word_of_int bid) (w_cache (b_world a)) = None"
    and "sendable text" and "num_frags text \<le> 2000" and "\<forall>i. wf_sd (mem i)" and "length envs = num_frags text"
    and port: "bytes_of_u16 (natPort (api_sender a)) ! 0 = 0" and "\<not> bad_port port_num"
    and "\<not> b_death r" and "can_receive (word_of_int sid) (word_of_int bid) (b_world r)" and "biter_contents (w_biter (b_world r)) = []"
  shows "\<exists>a1 a2 outs ltop w1 dest. add_block (Some (sid, bid, text)) a = Ok (Return PyTrue, a1) \<and>
    send_block win32_inet_aton mem (Some (sid, bid, inet_ntop addr, port_num)) a1 = Ok (Return PyTrue, a2) \<and>
    send_thread envs True (w_ack (b_world a2)) = Ok (outs, ltop, w1) \<and> length outs = num_frags text \<and>
    list_all (fit_for dest) outs \<and> sin_addr dest = addr \<and> sin_port dest = htons (word_of_int port_num) \<and>
    (\<forall>js mds. delivers outs js mds \<and> set js = {..<num_frags text} \<longrightarrow>
      (\<exists>w' s b r'. process_all mds (b_world r) = Ok w' \<and> BIter_iternext (set_world w' r) = Ok (Return (PyList [PyInt s, PyInt b]), r') \<and>
         word_of_int s = (word_of_int sid :: u16) \<and> word_of_int b = (word_of_int bid :: u32) \<and> biter_contents (w_biter (b_world r')) = [] \<and>
         get_block_content (Some (s, b)) r' =
           Ok (Return (PyStr (if hd js + 1 = num_frags text then padded text else text)), set_cache (w_cache w') r')))"
proof -
  obtain bc where bc: "add_block (Some (sid, bid, text)) a = Ok (Return PyTrue, set_cache bc a)"
    "can_send (word_of_int sid) (word_of_int bid) text bc (w_ack (b_world a))"
    using added_can_send [OF assms(1-3)] by blast
  let ?a1 = "set_cache bc a" and ?dest = "zero_addr\<lparr>sin_family := AF_INET, sin_addr := addr, sin_port := htons (word_of_int port_num)\<rparr>"
  have a1: "w_ack (b_world ?a1) = w_ack (b_world a)" "w_cache (b_world ?a1) = bc" "b_sock ?a1 \<noteq> 0" "\<not> b_death ?a1"
    using assms(1) by (simp_all add: idle_module_def set_cache_def)
  obtain s' outs lt w1 where o: "sendblock mem (word_of_int sid) (word_of_int bid) ?dest (bc, api_sender a) = Ok (int (num_frags text), bc, s')"
    "send_thread envs True ((w_ack (b_world a))\<lparr>aw_sender := s'\<rparr>) = Ok (outs, lt, w1)" "length outs = num_frags text" "list_all (fit_for ?dest) outs"
    "\<And>js mds. delivers outs js mds \<Longrightarrow> set js = {..<num_frags text} \<Longrightarrow>
       received_as (word_of_int sid) (word_of_int bid) (if hd js + 1 = num_frags text then padded text else text) mds (b_world r)"
    using block_sent_and_received [OF assms(3) bc(2) assms(4-7) assms(10), of ?dest] by blast
  have n: "int (num_frags text) \<noteq> 0" using split_exact(1) [OF assms(3)] by simp
  let ?a2 = "on_sender (\<lambda>_. s') (set_cache bc ?a1)"
  have "send_block win32_inet_aton mem (Some (sid, bid, inet_ntop addr, port_num)) ?a1 = Ok (Return PyTrue, ?a2)"
    using o(1) n a1 assms(8) by (simp add: send_block_def parse_dest_def aton.pton_ntop)
  moreover have "w_ack (b_world ?a2) = (w_ack (b_world a))\<lparr>aw_sender := s'\<rparr>" by (simp add: api_state_defs)
  moreover have "\<exists>w' s b r'. process_all mds (b_world r) = Ok w' \<and> BIter_iternext (set_world w' r) = Ok (Return (PyList [PyInt s, PyInt b]), r') \<and>
      word_of_int s = (word_of_int sid :: u16) \<and> word_of_int b = (word_of_int bid :: u32) \<and> biter_contents (w_biter (b_world r')) = [] \<and>
      get_block_content (Some (s, b)) r' = Ok (Return (PyStr (if hd js + 1 = num_frags text then padded text else text)), set_cache (w_cache w') r')"
    if d: "delivers outs js mds" "set js = {..<num_frags text}" for js mds
  proof -
    let ?bytes = "if hd js + 1 = num_frags text then padded text else text"
    obtain w' where w: "process_all mds (b_world r) = Ok w'" "biter_contents (w_biter w') = [Completed (word_of_int sid) (word_of_int bid)]"
      "biter_ok (w_biter w')"
      "get_block_data (word_of_int sid) (word_of_int bid) (w_cache w') = Ok (Some \<lparr>bd_data = ?bytes, bd_length = of_nat (length ?bytes)\<rparr>, w_cache w')"
      using o(5) [OF d] assms(11) unfolding received_as_def by auto
    obtain s b r' where i: "BIter_iternext (set_world w' r) = Ok (Return (PyList [PyInt s, PyInt b]), r')" "word_of_int s = (word_of_int sid :: u16)"
      "word_of_int b = (word_of_int bid :: u32)" "w_cache (b_world r') = w_cache w'" "\<not> b_death r'" "biter_contents (w_biter (b_world r')) = []"
      using iternext_completed [OF assms(9) w(3,2)] by blast
    have "length ?bytes \<le> 1400 * 2000" using padded_length [OF assms(3)] assms(4) by (simp add: MTU_def)
    then have "unat (of_nat (length ?bytes) :: u32) = length ?bytes" by (simp only: unat_of_nat) simp
    then have "get_block_content (Some (s, b)) r' = Ok (Return (PyStr ?bytes), set_cache (w_cache w') r')"
      using i(2-5) w(4) by (simp add: get_block_content_def)
    then show ?thesis using w(1) i by blast
  qed
  ultimately show ?thesis using bc(1) o(2-4) by (intro exI [of _ ?a1] exI [of _ ?a2] exI [of _ outs] exI [of _ lt] exI [of _ w1] exI [of _ ?dest]) simp
qed

end
