(* ===== verification/Block_Scenarios.thy ===== *)
theory Block_Scenarios
  imports Module_Scenarios Module_Transfer
begin

text \<open>
  The block of 1500 bytes goes from Alice to Bob: once with both datagrams arriving in order, once with the second one lost and
  sent again after the timeout, and once with the acknowledgements on their way back.
\<close>

section \<open>The situation\<close>

text \<open>A copy of a datagram from \<open>h\<close> in a receive buffer.\<close>

definition copy :: "sockaddr_in \<Rightarrow> sent \<Rightarrow> rx_mem \<times> IncomingData" where
  "copy h o1 = (rx_mem0, datagram\<lparr>id_from := h, id_buf := so_wire o1 @ replicate (BUFSIZE - length (so_wire o1)) 0,
     id_buflen := of_nat (length (so_wire o1))\<rparr>)"

lemma copy_carries:
  assumes "fit_for dest o1"
  shows "carries (snd (copy h o1)) (so_wire o1)"
proof -
  have "length (so_wire o1) \<le> 1500" using assms by (simp add: fit_for_def BUFSIZE_def)
  then have "unat (of_nat (length (so_wire o1)) :: u64) = length (so_wire o1)" by (simp add: unat_of_nat)
  then show ?thesis using assms by (simp add: carries_def copy_def fit_for_def)
qed

lemma copies_delivered:
  assumes "list_all (fit_for dest) outs" and "list_all (\<lambda>j. j < length outs) js"
  shows "delivers outs js (map (\<lambda>j. copy h (outs ! j)) js)"
  using assms by (auto simp: delivers_def list_all2_map2 list_all2_same list_all_length in_set_conv_nth intro!: copy_carries [of dest])

lemma world0_fields [simp]:
  "aw_sender world0 = sender0" "aw_nacks world0 = static_nacks" "aw_peers world0 = static_peer_stats"
  "aw_cookies world0 = init_cksender static_cookies"
  by (simp_all add: world0_def)

lemma alice_can_send: "can_send 1 7 bytes1500 cache1 world0"
proof -
  have "ready_to_send world0" using sender0_ok
    by (simp add: ready_to_send_def sending_ok_def sends_fit_def init_cksender_def static_cookies_def Let_def del: queue_of.simps)
  moreover have "queued_only Data [] (aw_sender world0)" by (simp add: queued_only_def del: queue_of.simps)
  moreover have "find_pos 1 7 [] = None" by simp
  ultimately show ?thesis unfolding can_send_def using empty_cache_ok addblock_cache1 by blast
qed

lemma no_port: "bytes_of_u16 (natPort (aw_sender world0)) ! 0 = 0" "bytes_of_u16 (natPort (aw_sender (w_ack bob_world))) ! 0 = 0"
  by (simp_all add: bytes_of_u16_def bob_world_def)

lemma bob_can_receive: "can_receive 1 7 bob_world"
  using biter0 by (simp add: can_receive_def bob_world_def)

lemma bob_can_reply: "can_reply bob_world"
  using alice_can_send by (simp add: can_reply_def can_send_def bob_world_def del: queue_of.simps)

lemma wf_zero_mem: "\<forall>i :: nat. wf_sd ((\<lambda>_. zero_SendData) i)"
  by simp

section \<open>The transfers\<close>

theorem block_transfer_witness:
  "\<exists>s' outs ltop w1. sendblock (\<lambda>_. zero_SendData) 1 7 bob (cache1, sender0) = Ok (2, cache1, s') \<and>
     send_thread [env0, env0] True (world0\<lparr>aw_sender := s'\<rparr>) = Ok (outs, ltop, w1) \<and> length outs = 2 \<and>
     received_as 1 7 bytes1500 [copy alice (outs ! 0), copy alice (outs ! 1), copy alice (outs ! 0)] bob_world \<and>
     received_as 1 7 (padded bytes1500) [copy alice (outs ! 1), copy alice (outs ! 0)] bob_world"
proof -
  have n: "num_frags bytes1500 \<le> 2000" "length [env0, env0] = num_frags bytes1500" by simp_all
  obtain s' outs lt w1 where o: "sendblock (\<lambda>_. zero_SendData) 1 7 bob (cache1, sender0) = Ok (2, cache1, s')"
    "send_thread [env0, env0] True (world0\<lparr>aw_sender := s'\<rparr>) = Ok (outs, lt, w1)" "length outs = 2" "list_all (fit_for bob) outs"
    "\<And>js mds. delivers outs js mds \<Longrightarrow> set js = {..<num_frags bytes1500} \<Longrightarrow>
       received_as 1 7 (if hd js + 1 = num_frags bytes1500 then padded bytes1500 else bytes1500) mds bob_world"
    using block_transfer [OF sendable_bytes1500 alice_can_send n(1) wf_zero_mem n(2) no_port(1) bob_can_receive, of bob] by auto
  have s: "set [0, 1, 0] = {..<num_frags bytes1500}" "set [1, 0] = {..<num_frags bytes1500}" by auto
  have l: "list_all (\<lambda>j. j < length outs) [0, 1, 0]" "list_all (\<lambda>j. j < length outs) [1, 0]" using o(3) by simp_all
  show ?thesis using o(1-3) o(5) [OF copies_delivered [OF o(4) l(1)] s(1)] o(5) [OF copies_delivered [OF o(4) l(2)] s(2)] by simp
qed

theorem lost_fragments_recovered_witness:
  "\<exists>s' outs ltop w1 st2 s2 outs2 ltop2 w2. sendblock (\<lambda>_. zero_SendData) 1 7 bob (cache1, sender0) = Ok (2, cache1, s') \<and>
     send_thread [env0, env0] True (world0\<lparr>aw_sender := s'\<rparr>) = Ok (outs, ltop, w1) \<and>
     resend_timeout_nacks (Timeval 5 1000) (peeracklist (aw_peers w1)) (aw_sender w1) (aw_nacks w1) = Ok ((2, st2), s2) \<and>
     send_thread [env0, env0] ltop (w1\<lparr>aw_nacks := st2, aw_sender := s2\<rparr>) = Ok (outs2, ltop2, w2) \<and>
     received_as 1 7 bytes1500 [copy alice (outs ! 0), copy alice (outs2 ! 0)] bob_world \<and>
     received_as 1 7 (padded bytes1500) [copy alice (outs2 ! 0), copy alice (outs2 ! 1)] bob_world"
proof -
  have n: "num_frags bytes1500 \<le> 2000" "length [env0, env0] = num_frags bytes1500" by simp_all
  have none: "\<forall>h. outstanding (aw_nacks world0) h = []" by (simp add: static_nacks_def outstanding_def nack_find_by_host_def)
  have t: "\<forall>h. get_timeout_value h (peeracklist (aw_peers world0)) = Ok ((\<lambda>_. 0) h)"
    by (simp add: static_peer_stats_def get_timeout_value_def find_peer_by_host_def)
  have late: "\<forall>env \<in> set [env0, env0]. time_to_usec (Timeval 5 1000) > time_to_usec (t_end env) + (\<lambda>_. 0) bob"
    by (simp add: env0_def time_to_usec_def)
  obtain s' outs lt w1 st2 s2 outs2 lt2 w2 where o: "sendblock (\<lambda>_. zero_SendData) 1 7 bob (cache1, sender0) = Ok (2, cache1, s')"
    "send_thread [env0, env0] True (world0\<lparr>aw_sender := s'\<rparr>) = Ok (outs, lt, w1)"
    "resend_timeout_nacks (Timeval 5 1000) (peeracklist (aw_peers w1)) (aw_sender w1) (aw_nacks w1) = Ok ((2, st2), s2)"
    "send_thread [env0, env0] lt (w1\<lparr>aw_nacks := st2, aw_sender := s2\<rparr>) = Ok (outs2, lt2, w2)"
    "length outs = 2" "length outs2 = 2" "list_all (fit_for bob) (outs @ outs2)"
    "\<And>js mds. delivers (outs @ outs2) js mds \<Longrightarrow> fragment_of 2 ` set js = {..<2} \<Longrightarrow>
       received_as 1 7 (if fragment_of 2 (hd js) + 1 = 2 then padded bytes1500 else bytes1500) mds bob_world"
    using lost_fragments_recovered [where dest = bob, OF sendable_bytes1500 alice_can_send n(1) wf_zero_mem n(2) no_port(1) n(2) bob_can_receive none t late]
    by (auto simp del: send_thread.simps)
  have s: "fragment_of 2 ` set [0, 2] = {..<2}" "fragment_of 2 ` set [2, 3] = {..<2}" by (auto simp: fragment_of_def)
  have l: "list_all (\<lambda>j. j < length (outs @ outs2)) [0, 2]" "list_all (\<lambda>j. j < length (outs @ outs2)) [2, 3]" using o(5,6) by simp_all
  have x: "(outs @ outs2) ! 0 = outs ! 0" "(outs @ outs2) ! 2 = outs2 ! 0" "(outs @ outs2) ! 3 = outs2 ! 1"
    using o(5) by (simp_all add: nth_append)
  have "received_as 1 7 bytes1500 [copy alice (outs ! 0), copy alice (outs2 ! 0)] bob_world"
    using o(8) [OF copies_delivered [OF o(7) l(1)] s(1)] x by (simp add: fragment_of_def)
  moreover have "received_as 1 7 (padded bytes1500) [copy alice (outs2 ! 0), copy alice (outs2 ! 1)] bob_world"
    using o(8) [OF copies_delivered [OF o(7) l(2)] s(2)] x by (simp add: fragment_of_def)
  ultimately show ?thesis using o(1-4) by blast
qed

theorem transfer_settled_witness:
  "\<exists>s' outs ltop w1 wb' acks ltop2 wb2 w'. sendblock (\<lambda>_. zero_SendData) 1 7 bob (cache1, sender0) = Ok (2, cache1, s') \<and>
     send_thread [env0, env0] True (world0\<lparr>aw_sender := s'\<rparr>) = Ok (outs, ltop, w1) \<and>
     process_all [copy alice (outs ! 0), copy alice (outs ! 1)] bob_world = Ok wb' \<and>
     send_thread [env0, env0] True (w_ack wb') = Ok (acks, ltop2, wb2) \<and> length acks = 2 \<and> so_to (acks ! 0) = alice \<and>
     process_all [copy bob (acks ! 0), copy bob (acks ! 1)] (bob_world\<lparr>w_ack := w1\<rparr>) = Ok w' \<and>
     aw_sender (w_ack w') = aw_sender w1 \<and> outstanding (aw_nacks (w_ack w')) bob = []"
proof -
  have n: "num_frags bytes1500 \<le> 2000" "length [env0, env0] = num_frags bytes1500" by simp_all
  have none: "\<forall>h. outstanding (aw_nacks world0) h = []" by (simp add: static_nacks_def outstanding_def nack_find_by_host_def)
  have free: "\<not> ack_list_held (aw_peers world0)" and sorted: "sorted (map t_end [env0, env0])" by (simp_all add: static_peer_stats_def)
  have u: "[0..<num_frags bytes1500] = [0, 1]" by (simp add: upt_rec)
  obtain s' outs lt w1 where o: "sendblock (\<lambda>_. zero_SendData) 1 7 bob (cache1, sender0) = Ok (2, cache1, s')"
    "send_thread [env0, env0] True (world0\<lparr>aw_sender := s'\<rparr>) = Ok (outs, lt, w1)" "length outs = 2" "list_all (fit_for bob) outs"
    "\<And>mds. delivers outs [0, 1] mds \<Longrightarrow> \<forall>md \<in> set mds. wf_sd (mem_send (fst md)) \<Longrightarrow>
      \<exists>wb' acks ltop2 wb2. process_all mds bob_world = Ok wb' \<and> send_thread [env0, env0] True (w_ack wb') = Ok (acks, ltop2, wb2) \<and>
         length acks = 2 \<and> list_all2 (\<lambda>md. fit_for (id_from (snd md))) mds acks \<and>
         (\<forall>mds' w. delivers acks [0, 1] mds' \<and> (\<forall>md \<in> set mds'. id_from (snd md) = bob) \<and> w_ack w = w1 \<longrightarrow>
           (\<exists>w'. process_all mds' w = Ok w' \<and> w_cache w' = w_cache w \<and> w_biter w' = w_biter w \<and>
              aw_sender (w_ack w') = aw_sender w1 \<and> queued_only Data [] (aw_sender w1) \<and>
              (\<forall>h. outstanding (aw_nacks (w_ack w')) h = [])))"
    using transfer_settled [where dest = bob and lt = True, OF sendable_bytes1500 alice_can_send n(1) wf_zero_mem n(2) no_port(1) n(2) bob_can_receive
        bob_can_reply no_port(2) none free sorted, unfolded u]
    by (auto simp del: send_thread.simps process_all.simps)
  have l: "list_all (\<lambda>j. j < length outs) [0, 1]" using o(3) by simp
  have d: "delivers outs [0, 1] [copy alice (outs ! 0), copy alice (outs ! 1)]" using copies_delivered [OF o(4) l, of alice] by simp
  have wf: "\<forall>md \<in> set [copy alice (outs ! 0), copy alice (outs ! 1)]. wf_sd (mem_send (fst md))" by (simp add: copy_def rx_mem0_def)
  obtain wb' acks lt2 wb2 where b: "process_all [copy alice (outs ! 0), copy alice (outs ! 1)] bob_world = Ok wb'"
    "send_thread [env0, env0] True (w_ack wb') = Ok (acks, lt2, wb2)" "length acks = 2"
    "list_all2 (\<lambda>md. fit_for (id_from (snd md))) [copy alice (outs ! 0), copy alice (outs ! 1)] acks"
    "\<And>mds' w. delivers acks [0, 1] mds' \<Longrightarrow> \<forall>md \<in> set mds'. id_from (snd md) = bob \<Longrightarrow> w_ack w = w1 \<Longrightarrow>
      \<exists>w'. process_all mds' w = Ok w' \<and> aw_sender (w_ack w') = aw_sender w1 \<and> (\<forall>h. outstanding (aw_nacks (w_ack w')) h = [])"
    using o(5) [OF d wf] by blast
  obtain a1 a2 where a: "acks = [a1, a2]" using b(3) by (auto simp: numeral_2_eq_2 length_Suc_conv)
  have f: "fit_for alice a1" "fit_for alice a2" using b(4) unfolding a by (simp_all add: copy_def)
  then have "list_all (fit_for alice) acks" by (simp add: a)
  moreover have "list_all (\<lambda>j. j < length acks) [0, 1]" by (simp add: a)
  ultimately have "delivers acks [0, 1] [copy bob (acks ! 0), copy bob (acks ! 1)]" using copies_delivered [of alice acks "[0, 1]" bob] by simp
  moreover have "\<forall>md \<in> set [copy bob (acks ! 0), copy bob (acks ! 1)]. id_from (snd md) = bob" by (simp add: copy_def)
  moreover have "w_ack (bob_world\<lparr>w_ack := w1\<rparr>) = w1" by simp
  ultimately obtain w' where w': "process_all [copy bob (acks ! 0), copy bob (acks ! 1)] (bob_world\<lparr>w_ack := w1\<rparr>) = Ok w'"
    "aw_sender (w_ack w') = aw_sender w1" "\<forall>h. outstanding (aw_nacks (w_ack w')) h = []" using b(5) by blast
  have "so_to (acks ! 0) = alice" using f(1) by (simp add: a fit_for_def)
  then show ?thesis using o(1,2) b(1-3) w' by blast
qed

section \<open>From program to program\<close>

lemma open0_idle: "idle_module open0"
proof -
  have "aw_nacks (w_ack (b_world open0)) = static_nacks" "aw_cookies (w_ack (b_world open0)) = init_cksender static_cookies" "w_cache (b_world open0) = []"
    by (simp_all add: open0_def init_modules_def loaded_def Let_def api_state_defs init_receiver_def static_ring_def reset_in_counters_def)
  then show ?thesis using sender0_ok
    by (simp add: idle_module_def ready_to_send_def sending_ok_def sends_fit_def queued_only_def bytes_of_u16_def init_cksender_def
        static_cookies_def Let_def del: queue_of.simps)
qed

lemma open0_no_port: "bytes_of_u16 (natPort (api_sender open0)) ! 0 = 0"
  by (simp add: bytes_of_u16_def)

lemma open0_cache: "w_cache (b_world open0) = []"
  by (simp add: open0_def init_modules_def loaded_def Let_def api_state_defs init_receiver_def static_ring_def reset_in_counters_def)

lemma open0_can_receive: "can_receive 1 7 (b_world open0)" "biter_contents (w_biter (b_world open0)) = []"
  using open0_idle biter0 by (simp_all add: can_receive_def idle_module_def open0_cache)

theorem block_between_programs_witness:
  "\<exists>a1 a2 outs ltop w1 w' s b r'. add_block (Some (1, 7, bytes1500)) open0 = Ok (Return PyTrue, a1) \<and>
     send_block win32_inet_aton (\<lambda>_. zero_SendData) (Some (1, 7, inet_ntop 0x0200007f, 8081)) a1 = Ok (Return PyTrue, a2) \<and>
     send_thread [env0, env0] True (w_ack (b_world a2)) = Ok (outs, ltop, w1) \<and>
     process_all [copy alice (outs ! 0), copy alice (outs ! 1)] (b_world open0) = Ok w' \<and>
     BIter_iternext (set_world w' open0) = Ok (Return (PyList [PyInt s, PyInt b]), r') \<and> word_of_int s = (word_of_int 1 :: u16) \<and>
     get_block_content (Some (s, b)) r' = Ok (Return (PyStr bytes1500), set_cache (w_cache w') r')"
proof -
  have n: "num_frags bytes1500 \<le> 2000" "length [env0, env0] = num_frags bytes1500" "\<not> bad_port 8081" by (simp_all add: bad_port_def)
  have f: "find_pos (word_of_int 1) (word_of_int 7) (w_cache (b_world open0)) = None" by (simp add: open0_cache)
  have r: "can_receive (word_of_int 1) (word_of_int 7) (b_world open0)" using open0_can_receive(1) by simp
  obtain a1 a2 outs lt w1 dest where o: "add_block (Some (1, 7, bytes1500)) open0 = Ok (Return PyTrue, a1)"
    "send_block win32_inet_aton (\<lambda>_. zero_SendData) (Some (1, 7, inet_ntop 0x0200007f, 8081)) a1 = Ok (Return PyTrue, a2)"
    "send_thread [env0, env0] True (w_ack (b_world a2)) = Ok (outs, lt, w1)" "length outs = num_frags bytes1500" "list_all (fit_for dest) outs"
    "\<forall>js mds. delivers outs js mds \<and> set js = {..<num_frags bytes1500} \<longrightarrow>
      (\<exists>w' s b r'. process_all mds (b_world open0) = Ok w' \<and> BIter_iternext (set_world w' open0) = Ok (Return (PyList [PyInt s, PyInt b]), r') \<and>
        word_of_int s = (word_of_int 1 :: u16) \<and> word_of_int b = (word_of_int 7 :: u32) \<and> biter_contents (w_biter (b_world r')) = [] \<and>
        get_block_content (Some (s, b)) r' =
          Ok (Return (PyStr (if hd js + 1 = num_frags bytes1500 then padded bytes1500 else bytes1500)), set_cache (w_cache w') r'))"
    using block_between_programs [where addr = "0x0200007f", OF open0_idle f sendable_bytes1500 n(1) wf_zero_mem n(2) open0_no_port n(3) open0_fields(2) r open0_can_receive(2)]
    by (elim exE conjE) (rule that)
  have s: "set [0, 1] = {..<num_frags bytes1500}" by auto
  have l: "list_all (\<lambda>j. j < length outs) [0, 1]" using o(4) by simp
  have h: "(if hd [0, 1] + 1 = num_frags bytes1500 then padded bytes1500 else bytes1500) = bytes1500" by simp
  obtain w' s b r' where w': "process_all [copy alice (outs ! 0), copy alice (outs ! 1)] (b_world open0) = Ok w'"
    "BIter_iternext (set_world w' open0) = Ok (Return (PyList [PyInt s, PyInt b]), r')" "word_of_int s = (word_of_int 1 :: u16)"
    "get_block_content (Some (s, b)) r' = Ok (Return (PyStr bytes1500), set_cache (w_cache w') r')"
    using o(6) [THEN spec, THEN spec, THEN mp, OF conjI [OF copies_delivered [OF o(5) l, of alice] s], unfolded h list.map] by (elim exE conjE) (rule that)
  show ?thesis using o(1-3) w' by blast
qed

end
