(* ===== verification/Slist.thy ===== *)
theory Slist
  imports Bora_Prelude
begin

text \<open>
  \<open>queue.h\<close>: the singly linked lists the program keeps its peers, packets and statistics in,
  as the macros treat them, on a store from addresses to cells. A cell is the payload of a
  structure with its \<open>MYSLIST_ENTRY\<close>; a list head is the address in \<open>slh_first\<close>; reading or
  writing through \<open>NULL\<close> or through an address that is not allocated is the outcome
  \<open>OutOfBounds\<close>. The loops of the macros are \<open>partial_function\<close>s: a walk round a cyclic list
  has no value. The other components use Isabelle lists; the lemmas here say that the
  macros terminate on every proper list and do to it what the list functions do.
\<close>

section \<open>Model\<close>

type_synonym addr = nat

abbreviation (input) NULL :: addr where "NULL \<equiv> 0"

record 'a cell =
  c_data :: 'a
  sle_next :: addr

type_synonym 'a store = "addr \<Rightarrow> 'a cell option"

definition deref :: "'a store \<Rightarrow> addr \<Rightarrow> 'a cell res" where
  "deref h p = (if p = NULL then Err OutOfBounds else case h p of None \<Rightarrow> Err OutOfBounds | Some c \<Rightarrow> Ok c)"

definition assign :: "addr \<Rightarrow> ('a cell \<Rightarrow> 'a cell) \<Rightarrow> 'a store \<Rightarrow> 'a store res" where
  "assign p f h = map_res (\<lambda>c. h(p \<mapsto> f c)) (deref h p)"

definition free_cell :: "addr \<Rightarrow> 'a store \<Rightarrow> 'a store res" where
  "free_cell p h = map_res (\<lambda>_. h(p := None)) (deref h p)"

text \<open>Sequencing of code that contains a loop: no value, a fault, or a result.\<close>

definition then_run :: "'a res option \<Rightarrow> ('a \<Rightarrow> 'b res option) \<Rightarrow> 'b res option" where
  "then_run m f = (case m of None \<Rightarrow> None | Some (Err e) \<Rightarrow> Some (Err e) | Some (Ok x) \<Rightarrow> f x)"

lemma then_run_simps [simp]: "then_run (Some (Ok x)) f = f x" "then_run (Some (Err e)) f = Some (Err e)" "then_run None f = None"
  by (simp_all add: then_run_def)

definition MYSLIST_EMPTY :: "addr \<Rightarrow> bool" where
  "MYSLIST_EMPTY slh_first \<longleftrightarrow> slh_first = NULL"

definition MYSLIST_INIT :: addr where
  "MYSLIST_INIT = NULL"

definition MYSLIST_NEXT :: "'a store \<Rightarrow> addr \<Rightarrow> addr res" where
  "MYSLIST_NEXT h elm = map_res sle_next (deref h elm)"

definition MYSLIST_INSERT_HEAD :: "addr \<Rightarrow> addr \<Rightarrow> 'a store \<Rightarrow> (addr \<times> 'a store) res" where
  "MYSLIST_INSERT_HEAD slh_first elm h =
     map_res (\<lambda>h. (elm, h)) (assign elm (\<lambda>c. c\<lparr>sle_next := slh_first\<rparr>) h)"

definition MYSLIST_INSERT_AFTER :: "addr \<Rightarrow> addr \<Rightarrow> 'a store \<Rightarrow> 'a store res" where
  "MYSLIST_INSERT_AFTER slistelm elm h =
     bind_res (MYSLIST_NEXT h slistelm) (\<lambda>n.
     bind_res (assign elm (\<lambda>c. c\<lparr>sle_next := n\<rparr>) h) (\<lambda>h.
     assign slistelm (\<lambda>c. c\<lparr>sle_next := elm\<rparr>) h))"

definition MYSLIST_REMOVE_HEAD :: "addr \<Rightarrow> 'a store \<Rightarrow> addr res" where
  "MYSLIST_REMOVE_HEAD slh_first h = MYSLIST_NEXT h slh_first"

text \<open>The loop of \<open>MYSLIST_REMOVE\<close> that looks for the predecessor of \<open>elm\<close>.\<close>

partial_function (option) find_prev :: "'a store \<Rightarrow> addr \<Rightarrow> addr \<Rightarrow> addr res option" where
  "find_prev h elm curelm =
     (case MYSLIST_NEXT h curelm of
        Err e \<Rightarrow> Some (Err e)
      | Ok n \<Rightarrow> if n = elm then Some (Ok curelm) else find_prev h elm n)"

definition MYSLIST_REMOVE :: "addr \<Rightarrow> addr \<Rightarrow> 'a store \<Rightarrow> (addr \<times> 'a store) res option" where
  "MYSLIST_REMOVE slh_first elm h =
     (if slh_first = elm then Some (map_res (\<lambda>n. (n, h)) (MYSLIST_REMOVE_HEAD slh_first h))
      else map_option (\<lambda>r.
             bind_res r (\<lambda>curelm.
             bind_res (MYSLIST_NEXT h curelm) (\<lambda>n.
             bind_res (MYSLIST_NEXT h n) (\<lambda>m.
             map_res (\<lambda>h. (slh_first, h)) (assign curelm (\<lambda>c. c\<lparr>sle_next := m\<rparr>) h)))))
           (find_prev h elm slh_first))"

text \<open>
  The two loop heads, with the loop body as an argument. The state may hold more than one store,
  so the reading of \<open>MYSLIST_NEXT\<close> in it is an argument as well. The body of \<open>MYSLIST_FOREACH\<close> says
  whether it left the loop by \<open>break\<close>; the result is the loop variable at the end.
\<close>

partial_function (option) MYSLIST_FOREACH ::
    "('s \<Rightarrow> addr \<Rightarrow> addr res) \<Rightarrow> (addr \<Rightarrow> 's \<Rightarrow> (bool \<times> 's) res option) \<Rightarrow> addr \<Rightarrow> 's \<Rightarrow> (addr \<times> 's) res option" where
  "MYSLIST_FOREACH nx body var s =
     (if var = NULL then Some (Ok (NULL, s))
      else case body var s of
             None \<Rightarrow> None
           | Some (Err e) \<Rightarrow> Some (Err e)
           | Some (Ok (stop, s)) \<Rightarrow>
               if stop then Some (Ok (var, s))
               else case nx s var of
                      Err e \<Rightarrow> Some (Err e)
                    | Ok n \<Rightarrow> MYSLIST_FOREACH nx body n s)"

partial_function (option) MYSLIST_FOREACH_SAFE ::
    "('s \<Rightarrow> addr \<Rightarrow> addr res) \<Rightarrow> (addr \<Rightarrow> 's \<Rightarrow> 's res option) \<Rightarrow> addr \<Rightarrow> 's \<Rightarrow> 's res option" where
  "MYSLIST_FOREACH_SAFE nx body var s =
     (if var = NULL then Some (Ok s)
      else case nx s var of
             Err e \<Rightarrow> Some (Err e)
           | Ok tvar \<Rightarrow>
               (case body var s of
                  None \<Rightarrow> None
                | Some (Err e) \<Rightarrow> Some (Err e)
                | Some (Ok s) \<Rightarrow> MYSLIST_FOREACH_SAFE nx body tvar s))"

section \<open>Proper lists\<close>

text \<open>
  \<open>slist h p xs\<close>: from \<open>p\<close> the links run through the addresses of \<open>xs\<close>, which hold its payloads,
  and end in \<open>NULL\<close>. \<open>lseg h p xs q\<close> is a piece of such a list that ends in \<open>q\<close>.
\<close>

fun lseg :: "'a store \<Rightarrow> addr \<Rightarrow> (addr \<times> 'a) list \<Rightarrow> addr \<Rightarrow> bool" where
  "lseg h p [] q \<longleftrightarrow> p = q"
| "lseg h p ((a, x) # xs) q \<longleftrightarrow> p = a \<and> a \<noteq> NULL \<and>
     (case h a of None \<Rightarrow> False | Some c \<Rightarrow> c_data c = x \<and> lseg h (sle_next c) xs q)"

definition slist :: "'a store \<Rightarrow> addr \<Rightarrow> (addr \<times> 'a) list \<Rightarrow> bool" where
  "slist h p xs \<longleftrightarrow> lseg h p xs NULL"

definition addrs :: "(addr \<times> 'a) list \<Rightarrow> addr set" where
  "addrs xs = fst ` set xs"

lemma addrs_simps [simp]:
  "addrs [] = {}" "addrs (y # ys) = insert (fst y) (addrs ys)" "addrs (us @ vs) = addrs us \<union> addrs vs"
  "fst ` set xs = addrs xs"
  by (auto simp: addrs_def)

lemma addrs_split: "a \<in> addrs xs \<Longrightarrow> \<exists>us x vs. xs = us @ (a, x) # vs"
  unfolding addrs_def by (force simp del: addrs_simps(4) dest: split_list)

definition first_of :: "(addr \<times> 'a) list \<Rightarrow> addr" where
  "first_of xs = (case xs of [] \<Rightarrow> NULL | (a, x) # _ \<Rightarrow> a)"

lemma first_of_simps [simp]: "first_of [] = NULL" "first_of (y # ys) = fst y"
  by (auto simp: first_of_def split: prod.split)

lemma lseg_append [simp]: "lseg h p (xs @ ys) r \<longleftrightarrow> (\<exists>q. lseg h p xs q \<and> lseg h q ys r)"
proof (induction xs arbitrary: p)
  case (Cons y xs)
  then show ?case by (cases y; cases "h (fst y)") auto
qed simp

lemma lseg_cong:
  "(\<And>a. a \<in> addrs xs \<Longrightarrow> h' a = h a) \<Longrightarrow> lseg h' p xs q = lseg h p xs q"
proof (induction xs arbitrary: p)
  case (Cons y xs)
  then show ?case by (cases y; cases "h (fst y)") auto
qed simp

lemma slist_cong: "(\<And>a. a \<in> addrs xs \<Longrightarrow> h' a = h a) \<Longrightarrow> slist h' p xs = slist h p xs"
  unfolding slist_def by (rule lseg_cong)

lemma slist_first: "slist h p xs \<Longrightarrow> p = first_of xs"
  by (cases xs) (auto simp: slist_def)

lemma slist_Nil [simp]: "slist h p [] \<longleftrightarrow> p = NULL"
  by (simp add: slist_def)

lemma slist_Cons:
  "slist h p ((a, x) # xs) \<longleftrightarrow> p = a \<and> a \<noteq> NULL \<and> (\<exists>c. h a = Some c \<and> c_data c = x \<and> slist h (sle_next c) xs)"
  by (auto simp: slist_def split: option.split)

lemma slist_ConsD:
  assumes "slist h p ((a, x) # xs)"
  shows "p = a" "a \<noteq> NULL" "h a = Some \<lparr>c_data = x, sle_next = first_of xs\<rparr>" "slist h (first_of xs) xs"
  using assms slist_first [of h _ xs] by (auto simp: slist_Cons)

lemma slist_append: "slist h p (xs @ ys) \<longleftrightarrow> lseg h p xs (first_of ys) \<and> slist h (first_of ys) ys"
  using slist_first [of h _ ys] by (auto simp: slist_def)

lemma slist_not_null: "slist h p xs \<Longrightarrow> y \<in> set xs \<Longrightarrow> fst y \<noteq> NULL"
  by (induction xs arbitrary: p) (auto simp: slist_Cons)

lemma slist_allocated: "slist h p xs \<Longrightarrow> addrs xs \<subseteq> dom h"
  by (induction xs arbitrary: p) (fastforce simp: slist_Cons)+

lemma slist_unique: "slist h p xs \<Longrightarrow> slist h p ys \<Longrightarrow> xs = ys"
proof (induction xs arbitrary: p ys)
  case Nil
  then show ?case by (cases ys) (auto simp: slist_Cons)
next
  case (Cons y xs)
  then show ?case by (cases y; cases ys) (auto simp: slist_Cons)
qed

text \<open>A list that ends in \<open>NULL\<close> never comes back to an address.\<close>

lemma slist_distinct: "slist h p xs \<Longrightarrow> distinct (map fst xs)"
proof (induction xs arbitrary: p)
  case (Cons y xs)
  obtain a x where y: "y = (a, x)" by (cases y)
  note d = slist_ConsD [OF Cons.prems [unfolded y]]
  have "a \<notin> addrs xs"
  proof
    assume "a \<in> addrs xs"
    then obtain us x' vs where xs: "xs = us @ (a, x') # vs" using addrs_split by blast
    have "slist h a ((a, x') # vs)" using d(4) by (simp add: xs slist_append)
    moreover have "slist h a ((a, x) # xs)" using Cons.prems d(1) by (simp add: y)
    ultimately have "(a, x') # vs = (a, x) # xs" by (rule slist_unique)
    then show False by (simp add: xs)
  qed
  then show ?case using Cons.IH [OF d(4)] by (simp add: y)
qed simp

lemma slist_nth:
  "slist h p xs \<Longrightarrow> i < length xs \<Longrightarrow>
     fst (xs ! i) \<noteq> NULL \<and> h (fst (xs ! i)) = Some \<lparr>c_data = snd (xs ! i), sle_next = first_of (drop (Suc i) xs)\<rparr>"
proof (induction xs arbitrary: p i)
  case (Cons y xs)
  obtain a x where y: "y = (a, x)" by (cases y)
  note d = slist_ConsD [OF Cons.prems(1) [unfolded y]]
  show ?case using Cons.IH [OF d(4), of "i - 1"] Cons.prems(2) d by (cases i) (auto simp: y)
qed simp

lemma slist_member:
  assumes "slist h p (us @ (a, x) # ys)"
  shows "a \<noteq> NULL" "h a = Some \<lparr>c_data = x, sle_next = first_of ys\<rparr>" "a \<notin> addrs us" "a \<notin> addrs ys"
  using slist_nth [OF assms, of "length us"] slist_distinct [OF assms] by (auto simp: nth_append)

lemma slist_around:
  assumes "slist h p (us @ (a, x) # ys)" shows "lseg h p us a" "slist h (first_of ys) ys"
  using assms slist_ConsD(4) [of h a a x ys] by (simp_all add: slist_append)

lemma MYSLIST_NEXT_member:
  "slist h p (us @ (a, x) # ys) \<Longrightarrow> MYSLIST_NEXT h a = Ok (first_of ys)"
  using slist_member [of h p us a x ys] by (simp add: MYSLIST_NEXT_def deref_def)

lemma deref_member: "slist h p (us @ (a, x) # ys) \<Longrightarrow> deref h a = Ok \<lparr>c_data = x, sle_next = first_of ys\<rparr>"
  using slist_member [of h p us a x ys] by (simp add: deref_def)

lemma slist_payload:
  assumes "slist h p (us @ (a, x) # ys)"
  shows "slist (h(a \<mapsto> \<lparr>c_data = x', sle_next = first_of ys\<rparr>)) p (us @ (a, x') # ys)"
proof -
  let ?h = "h(a \<mapsto> \<lparr>c_data = x', sle_next = first_of ys\<rparr>)"
  note m = slist_member [OF assms] and l = slist_around [OF assms]
  have "lseg ?h p us a" using l(1) by (subst lseg_cong) (use m in auto)
  moreover have "slist ?h (first_of ys) ys" using l(2) by (subst slist_cong) (use m in auto)
  ultimately show ?thesis using m(1) by (simp add: slist_append slist_Cons)
qed

lemma deref_upd: "deref h a = Ok c \<Longrightarrow> h(a \<mapsto> c) = h"
  by (auto simp: deref_def split: if_splits option.splits)

lemma deref_X: "deref h a = Ok c \<Longrightarrow> a \<in> X \<Longrightarrow> \<forall>b \<in> X. h' b = h b \<Longrightarrow> deref h' a = Ok c"
  by (auto simp: deref_def split: if_splits)

section \<open>The operations\<close>

lemma insert_head_slist:
  assumes "slist h p xs" and "a \<noteq> NULL" and "h a = Some c" and "a \<notin> addrs xs"
  shows "\<exists>h'. MYSLIST_INSERT_HEAD p a h = Ok (a, h') \<and> slist h' a ((a, c_data c) # xs) \<and> (\<forall>b. b \<noteq> a \<longrightarrow> h' b = h b)"
proof -
  let ?h = "h(a \<mapsto> c\<lparr>sle_next := p\<rparr>)"
  have "slist ?h p xs" using assms(1) by (rule slist_cong [THEN iffD2, rotated]) (use assms(4) in auto)
  then show ?thesis using assms(2,3) by (auto simp: MYSLIST_INSERT_HEAD_def assign_def deref_def slist_Cons)
qed

lemma insert_after_slist:
  assumes "slist h p (us @ (b, y) # ys)" and "a \<noteq> NULL" and "h a = Some c" and "a \<notin> addrs (us @ (b, y) # ys)"
  shows "\<exists>h'. MYSLIST_INSERT_AFTER b a h = Ok h' \<and> slist h' p (us @ (b, y) # (a, c_data c) # ys)"
proof -
  let ?h = "h(a \<mapsto> c\<lparr>sle_next := first_of ys\<rparr>, b \<mapsto> \<lparr>c_data = y, sle_next = a\<rparr>)"
  note m = slist_member [OF assms(1)]
  note l = slist_around [OF assms(1)]
  have "lseg ?h p us b" using l(1) by (subst lseg_cong) (use m assms(4) in auto)
  moreover have "slist ?h (first_of ys) ys" using l(2) by (subst slist_cong) (use m assms(4) in auto)
  ultimately show ?thesis using m assms(2-4)
    by (auto simp: MYSLIST_INSERT_AFTER_def MYSLIST_NEXT_def assign_def deref_def slist_append slist_Cons)
qed

lemma find_prev_slist:
  "slist h p ((us @ [(b, y)]) @ (a, x) # ys) \<Longrightarrow> find_prev h a p = Some (Ok b)"
proof (induction us arbitrary: p)
  case Nil
  note d = slist_ConsD [of h p b y "(a, x) # ys"]
  have p: "p = b" using Nil d(1) by simp
  have n: "MYSLIST_NEXT h p = Ok a" using Nil d by (simp add: MYSLIST_NEXT_def deref_def)
  show ?case by (subst find_prev.simps) (simp add: n, simp add: p)
next
  case (Cons u us)
  let ?r = "(us @ [(b, y)]) @ (a, x) # ys"
  obtain e z where u: "u = (e, z)" by (cases u)
  note d = slist_ConsD [of h p e z ?r]
  have r: "slist h (first_of ?r) ?r" using Cons.prems d(4) by (simp add: u)
  have n: "MYSLIST_NEXT h p = Ok (first_of ?r)" using Cons.prems d by (simp add: u MYSLIST_NEXT_def deref_def)
  have "first_of ?r \<noteq> a" using slist_distinct [OF r] by (cases us) auto
  then show ?case using Cons.IH [OF r] by (subst find_prev.simps) (simp add: n)
qed

text \<open>
  \<open>MYSLIST_REMOVE\<close> of a member ends, unlinks exactly that cell, keeps every payload and writes at
  most to the cell in front.
\<close>

lemma remove_slist:
  assumes "slist h p (us @ (a, x) # ys)"
  shows "\<exists>p' h'. MYSLIST_REMOVE p a h = Some (Ok (p', h')) \<and> slist h' p' (us @ ys) \<and>
    (\<forall>b. b \<notin> addrs us \<longrightarrow> h' b = h b) \<and> dom h' = dom h"
proof (cases us rule: rev_cases)
  case Nil
  then show ?thesis
    using assms slist_ConsD [of h p a x ys] by (auto simp: MYSLIST_REMOVE_def MYSLIST_REMOVE_HEAD_def MYSLIST_NEXT_def deref_def)
next
  case (snoc vs u)
  obtain b y where u: "u = (b, y)" by (cases u)
  have s: "slist h p (vs @ (b, y) # (a, x) # ys)" "slist h p ((vs @ [(b, y)]) @ (a, x) # ys)"
    using assms by (simp_all add: snoc u)
  note m = slist_member [OF s(1)] and n = slist_member [OF s(2)]
  let ?h = "h(b \<mapsto> \<lparr>c_data = y, sle_next = first_of ys\<rparr>)"
  have "p \<noteq> a" using slist_first [OF s(1)] n(3) by (cases vs) auto
  then have e: "MYSLIST_REMOVE p a h = Some (Ok (p, ?h))"
    using find_prev_slist [OF s(2)] m(1,2) n(1,2)
    by (simp add: MYSLIST_REMOVE_def MYSLIST_NEXT_def assign_def deref_def)
  note l = slist_around(1) [OF s(1)] slist_around(2) [OF s(2)]
  have "lseg ?h p vs b" using l(1) by (subst lseg_cong) (use m in auto)
  moreover have "slist ?h (first_of ys) ys" using l(2) by (subst slist_cong) (use m in auto)
  ultimately have "slist ?h p (us @ ys)" using m(1) by (simp add: snoc u slist_append slist_Cons)
  then show ?thesis using e m(2) by (auto simp: snoc u)
qed

lemma find_prev_missing:
  "slist h p xs \<Longrightarrow> p \<noteq> a \<Longrightarrow> a \<notin> addrs xs \<Longrightarrow> \<exists>r. find_prev h a p = Some r \<and>
     bind_res r (\<lambda>cur. bind_res (MYSLIST_NEXT h cur) (MYSLIST_NEXT h)) = Err OutOfBounds"
proof (induction xs arbitrary: p)
  case Nil
  then show ?case by (subst find_prev.simps) (simp add: MYSLIST_NEXT_def deref_def)
next
  case (Cons y xs)
  obtain b z where y: "y = (b, z)" by (cases y)
  note d = slist_ConsD [OF Cons.prems(1) [unfolded y]]
  have n: "MYSLIST_NEXT h p = Ok (first_of xs)" using d by (simp add: MYSLIST_NEXT_def deref_def)
  show ?case
  proof (cases "first_of xs = a")
    case True
    then have "a = NULL" using Cons.prems(3) by (cases xs) auto
    then show ?thesis using n True by (subst find_prev.simps) (simp add: MYSLIST_NEXT_def [of h NULL] deref_def)
  next
    case False
    then show ?thesis using Cons.IH [OF d(4)] Cons.prems(3) n by (subst find_prev.simps) simp
  qed
qed

text \<open>
  C32: \<open>MYSLIST_REMOVE\<close> is deletion from a list. On every proper list it ends: a member is unlinked,
  whatever its position, the other elements keep their order, their addresses and their payloads, no
  cell outside the part of the list in front of the member is written and none is freed;
  an address that is not in the list runs the search off the end and through a null pointer.
\<close>

theorem myslist_remove_is_deletion:
  assumes "slist h p xs"
  shows "if a \<in> addrs xs
    then \<exists>us x ys p' h'. xs = us @ (a, x) # ys \<and> MYSLIST_REMOVE p a h = Some (Ok (p', h')) \<and> slist h' p' (us @ ys) \<and>
      (\<forall>b. b \<notin> addrs us \<longrightarrow> h' b = h b) \<and> dom h' = dom h
    else MYSLIST_REMOVE p a h = Some (Err OutOfBounds)"
proof (cases "a \<in> addrs xs")
  case True
  then obtain us x ys where xs: "xs = us @ (a, x) # ys" using addrs_split by blast
  show ?thesis using True remove_slist [OF assms [unfolded xs]] xs
    by (simp only: if_True) (intro exI [of _ us] exI [of _ x] exI [of _ ys], auto)
next
  case False
  have "MYSLIST_REMOVE p a h = Some (Err OutOfBounds)"
  proof (cases "p = a")
    case True
    then have "p = NULL" using slist_first [OF assms] False by (cases xs) auto
    then show ?thesis using True by (simp add: MYSLIST_REMOVE_def MYSLIST_REMOVE_HEAD_def MYSLIST_NEXT_def deref_def)
  next
    case ne: False
    obtain r where r: "find_prev h a p = Some r" "bind_res r (\<lambda>cur. bind_res (MYSLIST_NEXT h cur) (MYSLIST_NEXT h)) = Err OutOfBounds"
      using find_prev_missing [OF assms ne False] by blast
    show ?thesis
    proof (cases r)
      case (Ok cur)
      then show ?thesis using ne r by (cases "MYSLIST_NEXT h cur") (simp_all add: MYSLIST_REMOVE_def)
    qed (use ne r in \<open>simp add: MYSLIST_REMOVE_def\<close>)
  qed
  then show ?thesis using False by simp
qed

section \<open>The loops\<close>

text \<open>
  Total correctness of the two loops: a body that runs without fault at every element and keeps
  an invariant over the elements done and to do gives a loop that ends.
\<close>

lemma foreach_safe_rule:
  assumes "\<And>xs y ys s. I xs (y # ys) s \<Longrightarrow>
      fst y \<noteq> NULL \<and> nx s (fst y) = Ok (first_of ys) \<and> (\<exists>s'. body (fst y) s = Some (Ok s') \<and> I (xs @ [y]) ys s')"
    and "I xs ys s"
  shows "\<exists>s'. MYSLIST_FOREACH_SAFE nx body (first_of ys) s = Some (Ok s') \<and> I (xs @ ys) [] s'"
  using assms(2)
proof (induction ys arbitrary: xs s)
  case Nil
  then show ?case by (subst MYSLIST_FOREACH_SAFE.simps) simp
next
  case (Cons y ys)
  then obtain s' where s: "fst y \<noteq> NULL" "nx s (fst y) = Ok (first_of ys)"
    "body (fst y) s = Some (Ok s')" "I (xs @ [y]) ys s'" using assms(1) by blast
  then show ?case using Cons.IH [OF s(4)] by (subst MYSLIST_FOREACH_SAFE.simps) simp
qed

lemma foreach_rule:
  assumes "\<And>xs y ys s. I xs (y # ys) s \<Longrightarrow> fst y \<noteq> NULL \<and>
      (\<exists>s'. body (fst y) s = Some (Ok (False, s')) \<and> nx s' (fst y) = Ok (first_of ys) \<and> I (xs @ [y]) ys s')"
    and "I xs ys s"
  shows "\<exists>s'. MYSLIST_FOREACH nx body (first_of ys) s = Some (Ok (NULL, s')) \<and> I (xs @ ys) [] s'"
  using assms(2)
proof (induction ys arbitrary: xs s)
  case Nil
  then show ?case by (subst MYSLIST_FOREACH.simps) simp
next
  case (Cons y ys)
  then obtain s' where s: "fst y \<noteq> NULL" "nx s' (fst y) = Ok (first_of ys)"
    "body (fst y) s = Some (Ok (False, s'))" "I (xs @ [y]) ys s'" using assms(1) by blast
  then show ?case using Cons.IH [OF s(4)] by (subst MYSLIST_FOREACH.simps) simp
qed

text \<open>The lookup loop: \<open>break\<close> at the first element whose payload satisfies \<open>P\<close>.\<close>

definition slist_find :: "('a \<Rightarrow> bool) \<Rightarrow> addr \<Rightarrow> 'a store \<Rightarrow> addr res option" where
  "slist_find P p h =
     map_option (map_res fst) (MYSLIST_FOREACH MYSLIST_NEXT
       (\<lambda>var h. Some (map_res (\<lambda>c. (P (c_data c), h)) (deref h var))) p h)"

lemma foreach_find:
  "slist h p xs \<Longrightarrow> MYSLIST_FOREACH MYSLIST_NEXT (\<lambda>var h. Some (map_res (\<lambda>c. (P (c_data c), h)) (deref h var))) p h =
     Some (Ok (first_of (dropWhile (\<lambda>y. \<not> P (snd y)) xs), h))"
proof (induction xs arbitrary: p)
  case Nil
  then show ?case by (subst MYSLIST_FOREACH.simps) simp
next
  case (Cons y xs)
  obtain a x where y: "y = (a, x)" by (cases y)
  note d = slist_ConsD [OF Cons.prems [unfolded y]]
  have "deref h p = Ok \<lparr>c_data = x, sle_next = first_of xs\<rparr>" using d by (simp add: deref_def)
  moreover have "MYSLIST_NEXT h p = Ok (first_of xs)" using calculation by (simp add: MYSLIST_NEXT_def)
  ultimately show ?case using d(1,2) Cons.IH [OF d(4)]
    by (subst MYSLIST_FOREACH.simps) (simp add: y)
qed

lemma slist_find_eq: "slist h p xs \<Longrightarrow> slist_find P p h = Some (Ok (first_of (dropWhile (\<lambda>y. \<not> P (snd y)) xs)))"
  by (simp add: slist_find_def foreach_find)

end
