(* ===== verification/Ack_Heap.thy ===== *)
theory Ack_Heap
  imports Ack Slist
begin

text \<open>
  \<open>ack.c\<close> once more, on the pointers it is written with: peers and packets are cells of two
  stores, \<open>Nack_peer\<close> holds the head of its list of packets, the loops are those of \<open>queue.h\<close>,
  packets are unlinked and freed while their list is being walked. The theory \<open>Ack\<close> describes the
  same operations on Isabelle lists; here the pointer code is shown to end, to touch no memory
  it does not own, to free each packet once and to leak none, and to have the results of
  the list model.
\<close>

section \<open>Model\<close>

record Nack_peer_c =
  pc_addr :: sockaddr_in
  pc_nacks :: addr

record nack_heap =
  nl_first :: addr
  nl_peers :: "Nack_peer_c store"
  nl_acks :: "Ack store"
  nl_seq :: u16

definition static_nack_heap :: nack_heap where
  "static_nack_heap = \<lparr>nl_first = MYSLIST_INIT, nl_peers = Map.empty, nl_acks = Map.empty, nl_seq = 0\<rparr>"

definition nack_find_by_host_h :: "sockaddr_in \<Rightarrow> nack_heap \<Rightarrow> addr res option" where
  "nack_find_by_host_h from H = slist_find (\<lambda>p. pc_addr p = from) (nl_first H) (nl_peers H)"

text \<open>
  The macros applied to \<open>&peer->nacks\<close>: the head is read from the peer's cell and written back.
  \<open>malloc\<close> returns the addresses given as arguments; a cell is uninitialised until it is assigned.
\<close>

definition insert_nack :: "addr \<Rightarrow> addr \<Rightarrow> nack_heap \<Rightarrow> nack_heap res" where
  "insert_nack peer nack H =
     bind_res (deref (nl_peers H) peer) (\<lambda>p.
     bind_res (MYSLIST_INSERT_HEAD (pc_nacks (c_data p)) nack (nl_acks H)) (\<lambda>(slh_first, acks).
     map_res (\<lambda>peers. H\<lparr>nl_peers := peers, nl_acks := acks\<rparr>)
       (assign peer (\<lambda>c. c\<lparr>c_data := (c_data c)\<lparr>pc_nacks := slh_first\<rparr>\<rparr>) (nl_peers H))))"

definition remove_nack :: "addr \<Rightarrow> addr \<Rightarrow> nack_heap \<Rightarrow> nack_heap res option" where
  "remove_nack peer cur H =
     then_run (Some (deref (nl_peers H) peer)) (\<lambda>p.
     then_run (MYSLIST_REMOVE (pc_nacks (c_data p)) cur (nl_acks H)) (\<lambda>(slh_first, acks).
     Some (map_res (\<lambda>peers. H\<lparr>nl_peers := peers, nl_acks := acks\<rparr>)
       (assign peer (\<lambda>c. c\<lparr>c_data := (c_data c)\<lparr>pc_nacks := slh_first\<rparr>\<rparr>) (nl_peers H)))))"

definition free_nack :: "addr \<Rightarrow> nack_heap \<Rightarrow> nack_heap res" where
  "free_nack cur H = map_res (\<lambda>acks. H\<lparr>nl_acks := acks\<rparr>) (free_cell cur (nl_acks H))"

definition drop_nack :: "addr \<Rightarrow> addr \<Rightarrow> nack_heap \<Rightarrow> nack_heap res option" where
  "drop_nack peer cur H = then_run (remove_nack peer cur H) (\<lambda>H. Some (free_nack cur H))"

definition new_peer_h :: "addr \<Rightarrow> sockaddr_in \<Rightarrow> nack_heap \<Rightarrow> (addr \<times> nack_heap) res" where
  "new_peer_h m host H =
     (if m = NULL then Err ProcessExit
      else map_res (\<lambda>(slh_first, peers). (m, H\<lparr>nl_first := slh_first, nl_peers := peers\<rparr>))
             (MYSLIST_INSERT_HEAD (nl_first H) m
               ((nl_peers H)(m \<mapsto> \<lparr>c_data = \<lparr>pc_addr = host, pc_nacks = MYSLIST_INIT\<rparr>, sle_next = NULL\<rparr>))))"

definition append_ack_h :: "addr \<Rightarrow> addr \<Rightarrow> SendData \<Rightarrow> timeval \<Rightarrow> u32 \<Rightarrow> nack_heap \<Rightarrow>
    (u32 \<times> SendData \<times> nack_heap) res option" where
  "append_ack_h m1 m2 d sendtime sleep H =
     (let H = H\<lparr>nl_seq := nl_seq H + 1\<rparr> in
      then_run (nack_find_by_host_h (sd_to d) H) (\<lambda>peer. Some (
      bind_res (if peer = NULL then new_peer_h m1 (sd_to d) H else Ok (peer, H)) (\<lambda>(peer, H).
      if m2 = NULL then Err ProcessExit
      else let nack = \<lparr>a_seq = nl_seq H, a_sendtime = sendtime, a_sleeptime = sleep, a_d = d\<rparr> in
        bind_res (insert_nack peer m2 (H\<lparr>nl_acks := (nl_acks H)(m2 \<mapsto> \<lparr>c_data = nack, sle_next = NULL\<rparr>)\<rparr>)) (\<lambda>H.
        bind_res (memcpy (sd_data d) (unat (sd_length d)) (bytes_of_u16 (nl_seq H)) 2) (\<lambda>data.
        Ok (sd_length d + 2, d\<lparr>sd_data := data\<rparr>, H)))))))"

definition pop_ack_h :: "u16 \<Rightarrow> sockaddr_in \<Rightarrow> nack_heap \<Rightarrow> (addr \<times> nack_heap) res option" where
  "pop_ack_h seq from H =
     then_run (nack_find_by_host_h from H) (\<lambda>peer.
     if peer = NULL then Some (Ok (NULL, H))
     else then_run (Some (deref (nl_peers H) peer)) (\<lambda>p.
          then_run (slist_find (\<lambda>a. a_seq a = seq) (pc_nacks (c_data p)) (nl_acks H)) (\<lambda>ret.
          if ret \<noteq> NULL then map_option (map_res (\<lambda>H. (ret, H))) (remove_nack peer ret H)
          else Some (Ok (ret, H)))))"

text \<open>The walk over the packets of one peer; \<open>body\<close> gets the peer and the current packet.\<close>

definition walk_nacks :: "(addr \<Rightarrow> addr \<Rightarrow> 'r \<times> nack_heap \<Rightarrow> ('r \<times> nack_heap) res option) \<Rightarrow> addr \<Rightarrow>
    'r \<times> nack_heap \<Rightarrow> ('r \<times> nack_heap) res option" where
  "walk_nacks body peer st =
     then_run (Some (deref (nl_peers (snd st)) peer)) (\<lambda>p.
       MYSLIST_FOREACH_SAFE (\<lambda>st. MYSLIST_NEXT (nl_acks (snd st))) (body peer) (pc_nacks (c_data p)) st)"

definition remove_ooo_body :: "addr \<Rightarrow> addr \<Rightarrow> addr \<Rightarrow> int \<times> nack_heap \<Rightarrow> (int \<times> nack_heap) res option" where
  "remove_ooo_body ack peer cur = (\<lambda>(ret, H).
     then_run (Some (deref (nl_acks H) cur)) (\<lambda>c. then_run (Some (deref (nl_acks H) ack)) (\<lambda>a.
     if timercmp_lt (a_sendtime (c_data c)) (a_sendtime (c_data a))
     then map_option (map_res (\<lambda>H. (ret + 1, H))) (drop_nack peer cur H)
     else Some (Ok (ret, H)))))"

definition remove_ooo_nacks_h :: "addr \<Rightarrow> nack_heap \<Rightarrow> (int \<times> nack_heap) res option" where
  "remove_ooo_nacks_h ack H =
     then_run (Some (deref (nl_acks H) ack)) (\<lambda>a.
     then_run (nack_find_by_host_h (sd_to (a_d (c_data a))) H) (\<lambda>peer.
     if peer \<noteq> NULL then walk_nacks (remove_ooo_body ack) peer (0, H) else Some (Ok (0, H))))"

definition remove_lost_body :: "addr \<Rightarrow> u16 \<Rightarrow> FragmentID \<Rightarrow> addr \<Rightarrow> addr \<Rightarrow> int \<times> nack_heap \<Rightarrow> (int \<times> nack_heap) res option" where
  "remove_lost_body ack cons ack_content peer cur = (\<lambda>(ret, H).
     then_run (Some (deref (nl_acks H) cur)) (\<lambda>c. then_run (Some (deref (nl_acks H) ack)) (\<lambda>a.
     if timercmp_lt (a_sendtime (c_data c)) (a_sendtime (c_data a))
     then let content = ack_fragment (c_data c) in
          if fi_streamid content = fi_streamid ack_content \<and> fi_blockid content = fi_blockid ack_content \<and>
             fi_fragmentid content < fi_fragmentid ack_content \<and>
             uint (fi_fragmentid ack_content) - uint (fi_fragmentid content) \<le> uint cons
          then map_option (map_res (\<lambda>H. (ret, H))) (drop_nack peer cur H)
          else Some (Ok (ret, H))
     else Some (Ok (ret, H)))))"

definition remove_lost_acks_h :: "addr \<Rightarrow> u16 \<Rightarrow> nack_heap \<Rightarrow> (int \<times> nack_heap) res option" where
  "remove_lost_acks_h ack cons H =
     then_run (Some (deref (nl_acks H) ack)) (\<lambda>a.
     then_run (nack_find_by_host_h (sd_to (a_d (c_data a))) H) (\<lambda>peer.
     if peer \<noteq> NULL then walk_nacks (remove_lost_body ack cons (ack_fragment (c_data a))) peer (0, H)
     else Some (Ok (0, H))))"

text \<open>
  A packet to be sent again has its first byte rewritten in its cell, is handed to \<open>send_data\<close> from
  there when it was a block packet or wanted an acknowledgement, and is then unlinked and freed.
\<close>

definition set_first_byte :: "(u8 \<Rightarrow> u8) \<Rightarrow> Ack cell \<Rightarrow> Ack cell" where
  "set_first_byte f c = c\<lparr>c_data := (c_data c)\<lparr>a_d := (a_d (c_data c))
     \<lparr>sd_data := (sd_data (a_d (c_data c)))[0 := f (sd_data (a_d (c_data c)) ! 0)]\<rparr>\<rparr>\<rparr>"

definition resend_cell :: "addr \<Rightarrow> addr \<Rightarrow> sender \<Rightarrow> nack_heap \<Rightarrow> (sender \<times> nack_heap) res option" where
  "resend_cell peer cur s H =
     then_run (Some (bind_res (assign cur (set_first_byte (\<lambda>b. b AND BLOCK_MASK_CONSECUTIVE)) (nl_acks H)) (\<lambda>acks.
       bind_res (deref acks cur) (\<lambda>c.
       if has (sd_data (a_d (c_data c)) ! 0) BLK_BLOCK_ACK
       then bind_res (assign cur (set_first_byte (\<lambda>b. b OR BLOCK_RETRANSMISSION)) acks) (\<lambda>acks.
              map_res (\<lambda>c. (send_data (a_d (c_data c)) s, acks)) (deref acks cur))
       else Ok (s, acks))))) (\<lambda>(s, acks).
     map_option (map_res (Pair s)) (drop_nack peer cur (H\<lparr>nl_acks := acks\<rparr>)))"

definition resend_ooo_body :: "addr \<Rightarrow> addr \<Rightarrow> addr \<Rightarrow> (int \<times> sender) \<times> nack_heap \<Rightarrow> ((int \<times> sender) \<times> nack_heap) res option" where
  "resend_ooo_body ack peer cur = (\<lambda>((ret, s), H).
     then_run (Some (deref (nl_acks H) cur)) (\<lambda>c. then_run (Some (deref (nl_acks H) ack)) (\<lambda>a.
     if timercmp_lt (a_sendtime (c_data c)) (a_sendtime (c_data a))
     then map_option (map_res (\<lambda>(s, H). ((ret + 1, s), H))) (resend_cell peer cur s H)
     else Some (Ok ((ret, s), H)))))"

definition resend_ooo_nacks_h :: "addr \<Rightarrow> sender \<Rightarrow> nack_heap \<Rightarrow> ((int \<times> sender) \<times> nack_heap) res option" where
  "resend_ooo_nacks_h ack s H =
     then_run (Some (deref (nl_acks H) ack)) (\<lambda>a.
     then_run (nack_find_by_host_h (sd_to (a_d (c_data a))) H) (\<lambda>peer.
     if peer \<noteq> NULL then walk_nacks (resend_ooo_body ack) peer ((0, s), H) else Some (Ok ((0, s), H))))"

definition resend_timeout_body :: "u64 \<Rightarrow> u64 \<Rightarrow> addr \<Rightarrow> addr \<Rightarrow> (int \<times> sender) \<times> nack_heap \<Rightarrow> ((int \<times> sender) \<times> nack_heap) res option" where
  "resend_timeout_body now_usec timeout peer cur = (\<lambda>((ret, s), H).
     then_run (Some (deref (nl_acks H) cur)) (\<lambda>c.
     if now_usec > time_to_usec (a_sendtime (c_data c)) + timeout
     then map_option (map_res (\<lambda>(s, H). ((ret + 1, s), H))) (resend_cell peer cur s H)
     else Some (Ok ((ret, s), H))))"

definition resend_timeout_nacks_h ::
    "timeval \<Rightarrow> PeerAckStore list \<Rightarrow> sender \<Rightarrow> nack_heap \<Rightarrow> ((int \<times> sender) \<times> nack_heap) res option" where
  "resend_timeout_nacks_h now ps s H =
     map_option (map_res snd)
       (MYSLIST_FOREACH (\<lambda>st. MYSLIST_NEXT (nl_peers (snd st)))
         (\<lambda>peer st. then_run (Some (deref (nl_peers (snd st)) peer)) (\<lambda>p.
            then_run (Some (get_timeout_value (pc_addr (c_data p)) ps)) (\<lambda>timeout.
            map_option (map_res (Pair False)) (walk_nacks (resend_timeout_body (time_to_usec now) timeout) peer st))))
         (nl_first H) ((0, s), H))"

definition get_n_nack_h :: "nack_heap \<Rightarrow> int res option" where
  "get_n_nack_h H =
     map_option (map_res snd)
       (MYSLIST_FOREACH (\<lambda>_. MYSLIST_NEXT (nl_peers H))
         (\<lambda>n ret. then_run (Some (deref (nl_peers H) n)) (\<lambda>p.
            map_option (map_res (\<lambda>r. (False, snd r)))
              (MYSLIST_FOREACH (\<lambda>_. MYSLIST_NEXT (nl_acks H)) (\<lambda>a ret. Some (Ok (False, ret + 1))) (pc_nacks (c_data p)) ret)))
         (nl_first H) 0)"

section \<open>What the pointers represent\<close>

text \<open>
  A row is a peer's address, host and packets with their addresses. \<open>rep X L H\<close> says that the
  heap holds exactly the rows \<open>L\<close>, no packet in two lists, and besides them only the packets at the
  addresses \<open>X\<close>, which the caller has popped and not freed yet.
\<close>

type_synonym row = "addr \<times> sockaddr_in \<times> (addr \<times> Ack) list"

definition peer_cells :: "row list \<Rightarrow> (addr \<times> Nack_peer_c) list" where
  "peer_cells L = map (\<lambda>(p, host, xs). (p, \<lparr>pc_addr = host, pc_nacks = first_of xs\<rparr>)) L"

definition packets :: "row list \<Rightarrow> (addr \<times> Ack) list" where
  "packets L = concat (map (\<lambda>(p, host, xs). xs) L)"

definition rep :: "addr set \<Rightarrow> row list \<Rightarrow> nack_heap \<Rightarrow> bool" where
  "rep X L H \<longleftrightarrow> slist (nl_peers H) (nl_first H) (peer_cells L) \<and> dom (nl_peers H) = fst ` set L \<and>
     (\<forall>(p, host, xs) \<in> set L. slist (nl_acks H) (first_of xs) xs) \<and> distinct (map fst (packets L)) \<and>
     addrs (packets L) \<inter> X = {} \<and> dom (nl_acks H) = addrs (packets L) \<union> X \<and> (\<forall>y \<in> set (packets L). wf_sd (a_d (snd y)))"

definition abs_nacks :: "row list \<Rightarrow> u16 \<Rightarrow> nack_state" where
  "abs_nacks L seq = \<lparr>nacklist = map (\<lambda>(p, host, xs). \<lparr>np_addr = host, np_nacks = map snd xs\<rparr>) L, seq_num = seq\<rparr>"

definition represents :: "addr set \<Rightarrow> nack_heap \<Rightarrow> nack_state \<Rightarrow> bool" where
  "represents X H st \<longleftrightarrow> (\<exists>L. rep X L H \<and> st = abs_nacks L (nl_seq H))"

lemma packets_simps [simp]:
  "packets [] = []" "packets ((p, host, xs) # L) = xs @ packets L" "packets (A @ B) = packets A @ packets B"
  by (simp_all add: packets_def)

lemma peer_cells_simps [simp]:
  "peer_cells [] = []" "peer_cells ((p, host, xs) # L) = (p, \<lparr>pc_addr = host, pc_nacks = first_of xs\<rparr>) # peer_cells L"
  "peer_cells (A @ B) = peer_cells A @ peer_cells B"
  by (simp_all add: peer_cells_def)

lemma row_packets: "(p, host, xs) \<in> set L \<Longrightarrow> addrs xs \<subseteq> addrs (packets L)"
  unfolding addrs_def by (rule image_mono) (force simp: packets_def)

lemma rep_row: "rep X L H \<Longrightarrow> (p, host, xs) \<in> set L \<Longrightarrow> slist (nl_acks H) (first_of xs) xs"
  by (fastforce simp: rep_def)

lemma rep_peer:
  assumes "rep X (A @ (p, host, xs) # B) H"
  shows "deref (nl_peers H) p = Ok \<lparr>c_data = \<lparr>pc_addr = host, pc_nacks = first_of xs\<rparr>, sle_next = first_of (peer_cells B)\<rparr>"
    and "slist (nl_acks H) (first_of xs) xs" and "p \<noteq> NULL"
proof -
  have s: "slist (nl_peers H) (nl_first H) (peer_cells A @ (p, \<lparr>pc_addr = host, pc_nacks = first_of xs\<rparr>) # peer_cells B)"
    using assms by (simp add: rep_def)
  show "deref (nl_peers H) p = Ok \<lparr>c_data = \<lparr>pc_addr = host, pc_nacks = first_of xs\<rparr>, sle_next = first_of (peer_cells B)\<rparr>"
    by (rule deref_member [OF s])
  show "p \<noteq> NULL" by (rule slist_member(1) [OF s])
  show "slist (nl_acks H) (first_of xs) xs" using assms by (simp add: rep_def)
qed

lemma rep_disjoint:
  assumes "rep X (A @ (p, host, xs) # B) H"
  shows "addrs xs \<inter> addrs (packets (A @ B)) = {}" "addrs xs \<inter> X = {}" "addrs (packets (A @ B)) \<inter> X = {}"
    "dom (nl_acks H) = addrs xs \<union> addrs (packets (A @ B)) \<union> X" "y \<in> set xs \<Longrightarrow> wf_sd (a_d (snd y))"
  using assms by (auto simp: rep_def)

text \<open>One peer's list is replaced; the other lists are untouched.\<close>

lemma rep_replace:
  assumes "rep X (A @ (p, host, xs) # B) H"
    and "slist h' (first_of xs') xs'"
    and "\<And>b. b \<in> addrs (packets (A @ B)) \<Longrightarrow> h' b = nl_acks H b"
    and "addrs xs' \<inter> addrs (packets (A @ B)) = {}" and "X' \<inter> addrs (packets (A @ (p, host, xs') # B)) = {}"
    and "dom h' = addrs (packets (A @ (p, host, xs') # B)) \<union> X'" and "\<And>y. y \<in> set xs' \<Longrightarrow> wf_sd (a_d (snd y))"
  shows "rep X' (A @ (p, host, xs') # B) (H\<lparr>nl_peers := (nl_peers H)(p \<mapsto>
     \<lparr>c_data = \<lparr>pc_addr = host, pc_nacks = first_of xs'\<rparr>, sle_next = first_of (peer_cells B)\<rparr>), nl_acks := h'\<rparr>)"
proof -
  let ?L = "A @ (p, host, xs') # B"
  note r = assms(1) [unfolded rep_def]
  have s: "slist (nl_peers H) (nl_first H) (peer_cells A @ (p, \<lparr>pc_addr = host, pc_nacks = first_of xs\<rparr>) # peer_cells B)"
    using r by simp
  have "slist h' (first_of ys) ys" if "(q, k, ys) \<in> set (A @ B)" for q k ys
  proof -
    have "slist (nl_acks H) (first_of ys) ys" using rep_row [OF assms(1), of q k ys] that by auto
    then show ?thesis using assms(3) row_packets [OF that] by (subst slist_cong [of _ h' "nl_acks H"]) auto
  qed
  then have l: "\<forall>(q, k, ys) \<in> set ?L. slist h' (first_of ys) ys" using assms(2) by auto
  have "distinct (map fst xs')" using assms(2) by (rule slist_distinct)
  then have d: "distinct (map fst (packets ?L))" using r assms(4) by auto
  show ?thesis unfolding rep_def
  proof (intro conjI)
    show "slist (nl_peers (H\<lparr>nl_peers := (nl_peers H)(p \<mapsto> \<lparr>c_data = \<lparr>pc_addr = host, pc_nacks = first_of xs'\<rparr>,
        sle_next = first_of (peer_cells B)\<rparr>), nl_acks := h'\<rparr>))
      (nl_first (H\<lparr>nl_peers := (nl_peers H)(p \<mapsto> \<lparr>c_data = \<lparr>pc_addr = host, pc_nacks = first_of xs'\<rparr>,
        sle_next = first_of (peer_cells B)\<rparr>), nl_acks := h'\<rparr>)) (peer_cells ?L)"
      using slist_payload [OF s] by simp
  qed (use r assms(5-7) l d in auto)
qed

lemma rep_X: "rep X L H \<Longrightarrow> b \<in> X \<Longrightarrow> b \<in> dom (nl_acks H) \<and> b \<notin> addrs (packets L)"
  by (auto simp: rep_def)

text \<open>Unlinking a packet hands it to the caller; freeing it takes it from the caller.\<close>

lemma remove_nack_rep:
  assumes "rep X (A @ (p, host, us @ (a, x) # ys) # B) H"
  shows "\<exists>H'. remove_nack p a H = Some (Ok H') \<and> rep (insert a X) (A @ (p, host, us @ ys) # B) H' \<and>
    nl_seq H' = nl_seq H \<and> (\<forall>b \<in> insert a X. nl_acks H' b = nl_acks H b)"
proof -
  let ?xs = "us @ (a, x) # ys"
  note r = rep_disjoint [OF assms] and d = rep_peer [OF assms]
  have a: "a \<notin> addrs us" "a \<notin> addrs ys" using slist_member [OF d(2)] by auto
  obtain p' h' where m: "MYSLIST_REMOVE (first_of ?xs) a (nl_acks H) = Some (Ok (p', h'))" "slist h' p' (us @ ys)"
    "\<And>b. b \<notin> addrs us \<Longrightarrow> h' b = nl_acks H b" "dom h' = dom (nl_acks H)" using remove_slist [OF d(2)] by blast
  have p': "p' = first_of (us @ ys)" using m(2) by (rule slist_first)
  let ?H = "H\<lparr>nl_peers := (nl_peers H)(p \<mapsto> \<lparr>c_data = \<lparr>pc_addr = host, pc_nacks = first_of (us @ ys)\<rparr>,
    sle_next = first_of (peer_cells B)\<rparr>), nl_acks := h'\<rparr>"
  have "remove_nack p a H = Some (Ok ?H)" using d(1) m(1) by (simp add: remove_nack_def p' assign_def)
  moreover have "rep (insert a X) (A @ (p, host, us @ ys) # B) ?H"
  proof (rule rep_replace [OF assms])
    show "h' b = nl_acks H b" if "b \<in> addrs (packets (A @ B))" for b using m(3) [of b] r(1) that by auto
    show "slist h' (first_of (us @ ys)) (us @ ys)" using m(2) p' by simp
    show "addrs (us @ ys) \<inter> addrs (packets (A @ B)) = {}" using r(1) by auto
    show "insert a X \<inter> addrs (packets (A @ (p, host, us @ ys) # B)) = {}" using r(1-3) a by auto
    show "dom h' = addrs (packets (A @ (p, host, us @ ys) # B)) \<union> insert a X" using r(4) m(4) by auto
    show "wf_sd (a_d (snd y))" if "y \<in> set (us @ ys)" for y using r(5) [of y] that by auto
  qed
  moreover have "\<forall>b \<in> insert a X. nl_acks ?H b = nl_acks H b" using r(2) m(3) a(1) by auto
  ultimately show ?thesis by auto
qed

lemma free_nack_rep:
  assumes "rep (insert a X) L H" and "a \<notin> X" and "a \<noteq> NULL"
  shows "\<exists>H'. free_nack a H = Ok H' \<and> rep X L H' \<and> nl_seq H' = nl_seq H \<and> (\<forall>b \<in> X. nl_acks H' b = nl_acks H b)"
proof -
  note r = assms(1) [unfolded rep_def]
  let ?H = "H\<lparr>nl_acks := (nl_acks H)(a := None)\<rparr>"
  have f: "free_nack a H = Ok ?H" using assms(3) rep_X [OF assms(1), of a] by (auto simp: free_nack_def free_cell_def deref_def)
  have "slist ((nl_acks H)(a := None)) (first_of xs) xs" if "(p, host, xs) \<in> set L" for p host xs
    using rep_row [OF assms(1) that] row_packets [OF that] r by (subst slist_cong [of _ _ "nl_acks H"]) auto
  then have "rep X L ?H" using r assms(2) unfolding rep_def by auto
  then show ?thesis using f assms(2) by auto
qed

lemma drop_nack_rep:
  assumes "rep X (A @ (p, host, us @ (a, x) # ys) # B) H"
  shows "\<exists>H'. drop_nack p a H = Some (Ok H') \<and> rep X (A @ (p, host, us @ ys) # B) H' \<and>
    nl_seq H' = nl_seq H \<and> (\<forall>b \<in> X. nl_acks H' b = nl_acks H b)"
proof -
  obtain H1 where h: "remove_nack p a H = Some (Ok H1)" "rep (insert a X) (A @ (p, host, us @ ys) # B) H1"
    "nl_seq H1 = nl_seq H" "\<forall>b \<in> insert a X. nl_acks H1 b = nl_acks H b" using remove_nack_rep [OF assms] by blast
  have "a \<notin> X" using assms by (auto simp: rep_def)
  moreover have "a \<noteq> NULL" using rep_peer(2) [OF assms] by (rule slist_member)
  ultimately show ?thesis using free_nack_rep [OF h(2)] h by (fastforce simp: drop_nack_def)
qed

lemma payload_rep:
  assumes "rep X (A @ (p, host, us @ (a, x) # ys) # B) H" and "wf_sd (a_d x')"
  shows "rep X (A @ (p, host, us @ (a, x') # ys) # B) (H\<lparr>nl_acks := (nl_acks H)(a \<mapsto> \<lparr>c_data = x', sle_next = first_of ys\<rparr>)\<rparr>)"
proof -
  note r = rep_disjoint [OF assms(1)] and d = rep_peer [OF assms(1)]
  let ?h = "(nl_acks H)(a \<mapsto> \<lparr>c_data = x', sle_next = first_of ys\<rparr>)"
  have f: "first_of (us @ (a, x') # ys) = first_of (us @ (a, x) # ys)" by (cases us) auto
  have "rep X (A @ (p, host, us @ (a, x') # ys) # B) (H\<lparr>nl_peers := (nl_peers H)(p \<mapsto>
     \<lparr>c_data = \<lparr>pc_addr = host, pc_nacks = first_of (us @ (a, x') # ys)\<rparr>, sle_next = first_of (peer_cells B)\<rparr>), nl_acks := ?h\<rparr>)"
  proof (rule rep_replace [OF assms(1)])
    show "?h b = nl_acks H b" if "b \<in> addrs (packets (A @ B))" for b using r(1) that by auto
    show "slist ?h (first_of (us @ (a, x') # ys)) (us @ (a, x') # ys)" using slist_payload [OF d(2)] f by simp
    show "wf_sd (a_d (snd y))" if "y \<in> set (us @ (a, x') # ys)" for y using r(5) [of y] assms(2) that by auto
  qed (use r(1-4) in auto)
  moreover have "(nl_peers H)(p \<mapsto> \<lparr>c_data = \<lparr>pc_addr = host, pc_nacks = first_of (us @ (a, x') # ys)\<rparr>,
      sle_next = first_of (peer_cells B)\<rparr>) = nl_peers H"
    using d(1) by (auto simp: f deref_def split: if_splits option.splits)
  ultimately show ?thesis by simp
qed

section \<open>Lookup and walk\<close>

definition abs_row :: "row \<Rightarrow> Nack_peer" where
  "abs_row = (\<lambda>(p, host, xs). \<lparr>np_addr = host, np_nacks = map snd xs\<rparr>)"

lemma abs_nacks_simps [simp]:
  "nacklist (abs_nacks L q) = map abs_row L" "seq_num (abs_nacks L q) = q"
  "abs_row (p, host, xs) = \<lparr>np_addr = host, np_nacks = map snd xs\<rparr>"
  by (simp_all add: abs_nacks_def abs_row_def)

lemma find_rows:
  "(nack_find_by_host from (map abs_row L) = None \<and> dropWhile (\<lambda>y. pc_addr (snd y) \<noteq> from) (peer_cells L) = []) \<or>
   (\<exists>A p xs B. L = A @ (p, from, xs) # B \<and> nack_find_by_host from (map abs_row L) = Some (length A) \<and>
      dropWhile (\<lambda>y. pc_addr (snd y) \<noteq> from) (peer_cells L) = peer_cells ((p, from, xs) # B))"
proof (induction L)
  case (Cons y L)
  obtain p host xs where y: "y = (p, host, xs)" by (cases y)
  show ?case
  proof (cases "host = from")
    case True
    have "y # L = [] @ (p, from, xs) # L" by (simp add: y True)
    then show ?thesis by (intro disjI2 exI conjI) (auto simp: y True nack_find_by_host_def)
  next
    case False
    from Cons.IH show ?thesis
    proof (elim disjE exE conjE)
      fix A p' xs' B
      assume a: "L = A @ (p', from, xs') # B" "nack_find_by_host from (map abs_row L) = Some (length A)"
        "dropWhile (\<lambda>y. pc_addr (snd y) \<noteq> from) (peer_cells L) = peer_cells ((p', from, xs') # B)"
      have "y # L = (y # A) @ (p', from, xs') # B" using a(1) by simp
      then show ?thesis using a(2,3) False
        by (intro disjI2 exI conjI) (assumption, auto simp: y nack_find_by_host_def)
    qed (use False in \<open>auto simp: y nack_find_by_host_def\<close>)
  qed
qed (simp add: nack_find_by_host_def)

text \<open>The pointer lookup finds the row the list lookup finds.\<close>

lemma find_rep:
  assumes "rep X L H"
  obtains (none) "nack_find_by_host host (map abs_row L) = None" "nack_find_by_host_h host H = Some (Ok NULL)"
  | (found) A p xs B where "L = A @ (p, host, xs) # B" "nack_find_by_host host (map abs_row L) = Some (length A)"
      "nack_find_by_host_h host H = Some (Ok p)" "p \<noteq> NULL"
proof -
  have s: "slist (nl_peers H) (nl_first H) (peer_cells L)" using assms by (simp add: rep_def)
  from find_rows [of host L] show thesis
  proof (elim disjE exE conjE)
    assume "nack_find_by_host host (map abs_row L) = None" "dropWhile (\<lambda>y. pc_addr (snd y) \<noteq> host) (peer_cells L) = []"
    then show thesis using slist_find_eq [OF s]
      by (intro none) (simp_all add: nack_find_by_host_h_def del: dropWhile_eq_Nil_conv)
  next
    fix A p xs B
    assume a: "L = A @ (p, host, xs) # B" "nack_find_by_host host (map abs_row L) = Some (length A)"
      "dropWhile (\<lambda>y. pc_addr (snd y) \<noteq> host) (peer_cells L) = peer_cells ((p, host, xs) # B)"
    then show thesis using slist_find_eq [OF s] rep_peer(3) [of X A p host xs B H] assms
      by (intro found [of A p xs B]) (simp_all add: nack_find_by_host_h_def)
  qed
qed

lemma on_peer_row:
  assumes "nack_find_by_host host (map abs_row (A @ (p, host, xs) # B)) = Some (length A)"
    and "walk (map snd xs) = ((n, map snd xs'), s')"
  shows "on_peer host walk s (abs_nacks (A @ (p, host, xs) # B) q) = ((n, abs_nacks (A @ (p, host, xs') # B) q), s')"
proof -
  have "nacklist (abs_nacks (A @ (p, host, xs) # B) q) ! length A = \<lparr>np_addr = host, np_nacks = map snd xs\<rparr>"
    by (simp add: nth_append)
  then show ?thesis using assms by (simp add: on_peer_def abs_nacks_def list_update_append flip: abs_row_def)
qed

text \<open>
  A walk whose body drops the packets that satisfy \<open>gone\<close>, after changing at most their payload,
  leaves the other packets of the peer and has run \<open>f\<close> on the dropped ones in list order.
\<close>

lemma walk_rep:
  assumes rep: "rep X (A @ (p, host, xs) # B) H"
    and body: "\<And>a x n r H'. deref (nl_acks H') a = Ok \<lparr>c_data = x, sle_next = n\<rparr> \<Longrightarrow> wf_sd (a_d x) \<Longrightarrow>
      \<forall>b \<in> X. nl_acks H' b = nl_acks H b \<Longrightarrow> body p a (r, H') =
        (if gone x then map_option (map_res (Pair (f x r))) (drop_nack p a (H'\<lparr>nl_acks := (nl_acks H')(a \<mapsto> \<lparr>c_data = g x, sle_next = n\<rparr>)\<rparr>))
         else Some (Ok (r, H')))"
    and g: "\<And>x. wf_sd (a_d x) \<Longrightarrow> wf_sd (a_d (g x))"
  shows "\<exists>H'. walk_nacks body p (r, H) = Some (Ok (foldl (\<lambda>r x. f x r) r (filter gone (map snd xs)), H')) \<and>
    rep X (A @ (p, host, filter (\<lambda>y. \<not> gone (snd y)) xs) # B) H' \<and> nl_seq H' = nl_seq H \<and>
    (\<forall>b \<in> X. nl_acks H' b = nl_acks H b)"
proof -
  define I where "I = (\<lambda>us ys st. rep X (A @ (p, host, filter (\<lambda>y. \<not> gone (snd y)) us @ ys) # B) (snd st) \<and>
    fst st = foldl (\<lambda>r x. f x r) r (filter gone (map snd us)) \<and> nl_seq (snd st) = nl_seq H \<and>
    (\<forall>b \<in> X. nl_acks (snd st) b = nl_acks H b))"
  have "\<exists>st. MYSLIST_FOREACH_SAFE (\<lambda>st. MYSLIST_NEXT (nl_acks (snd st))) (body p) (first_of xs) (r, H) = Some (Ok st) \<and>
    I ([] @ xs) [] st"
  proof (rule foreach_safe_rule)
    show "I [] xs (r, H)" using rep by (simp add: I_def)
    fix us y ys and st :: "'a \<times> nack_heap"
    assume i: "I us (y # ys) st"
    obtain a x where y: "y = (a, x)" by (cases y)
    obtain r' H' where st: "st = (r', H')" by (cases st)
    let ?us = "filter (\<lambda>y. \<not> gone (snd y)) us"
    have h: "rep X (A @ (p, host, ?us @ (a, x) # ys) # B) H'" "\<forall>b \<in> X. nl_acks H' b = nl_acks H b" "nl_seq H' = nl_seq H"
      "r' = foldl (\<lambda>r x. f x r) r (filter gone (map snd us))" using i by (simp_all add: I_def y st)
    note l = rep_peer(2) [OF h(1)]
    have w: "wf_sd (a_d x)" using rep_disjoint(5) [OF h(1), of "(a, x)"] by simp
    have nx: "MYSLIST_NEXT (nl_acks H') a = Ok (first_of ys)" by (rule MYSLIST_NEXT_member [OF l])
    let ?H = "H'\<lparr>nl_acks := (nl_acks H')(a \<mapsto> \<lparr>c_data = g x, sle_next = first_of ys\<rparr>)\<rparr>"
    obtain H'' where d: "drop_nack p a ?H = Some (Ok H'')" "rep X (A @ (p, host, ?us @ ys) # B) H''" "nl_seq H'' = nl_seq H'"
      "\<forall>b \<in> X. nl_acks H'' b = nl_acks ?H b" using drop_nack_rep [OF payload_rep [OF h(1) g [OF w]]] by auto
    have "a \<notin> X" using rep_disjoint(2) [OF h(1)] by auto
    then have "\<exists>s'. body p a st = Some (Ok s') \<and> I (us @ [(a, x)]) ys s'"
      using body [OF deref_member [OF l] w h(2), of r'] d h by (cases "gone x") (auto simp: I_def st)
    then show "fst y \<noteq> NULL \<and> MYSLIST_NEXT (nl_acks (snd st)) (fst y) = Ok (first_of ys) \<and>
        (\<exists>s'. body p (fst y) st = Some (Ok s') \<and> I (us @ [y]) ys s')"
      using slist_member(1) [OF l] nx by (simp add: y st)
  qed
  then show ?thesis using rep_peer(1) [OF rep] by (force simp: walk_nacks_def I_def)
qed

section \<open>The operations implement the list model\<close>

lemma representsI: "rep X L H \<Longrightarrow> st = abs_nacks L (nl_seq H) \<Longrightarrow> represents X H st"
  by (auto simp: represents_def)

lemma static_rep: "represents {} static_nack_heap static_nacks"
  by (rule representsI [of _ "[]"])
    (simp_all add: rep_def static_nack_heap_def MYSLIST_INIT_def static_nacks_def abs_nacks_def)

lemma foldl_count: "foldl (\<lambda>r x. r + 1) n xs = n + int (length xs)"
  by (induction xs arbitrary: n) simp_all

lemma foldl_const: "foldl (\<lambda>r x. r) n xs = n"
  by (induction xs) simp_all

text \<open>
  Looking up the host of a popped packet and walking over its list: \<open>walk\<close> is the list model's walk,
  \<open>body\<close> the loop body of the pointer code, \<open>out\<close> pairs their results.
\<close>

lemma on_peer_refines:
  assumes "represents X H st"
    and body: "\<And>p a x n r H'. deref (nl_acks H') a = Ok \<lparr>c_data = x, sle_next = n\<rparr> \<Longrightarrow> wf_sd (a_d x) \<Longrightarrow>
      \<forall>b \<in> X. nl_acks H' b = nl_acks H b \<Longrightarrow> body p a (r, H') =
        (if gone x then map_option (map_res (Pair (f x r))) (drop_nack p a (H'\<lparr>nl_acks := (nl_acks H')(a \<mapsto> \<lparr>c_data = g x, sle_next = n\<rparr>)\<rparr>))
         else Some (Ok (r, H')))"
    and g: "\<And>x. wf_sd (a_d x) \<Longrightarrow> wf_sd (a_d (g x))"
    and walk: "\<And>xs. walk xs = ((n xs, filter (Not \<circ> gone) xs), s' xs)"
    and out: "\<And>xs. foldl (\<lambda>r x. f x r) ini (filter gone xs) = out (n xs) (s' xs)" "ini = out 0 s"
  shows "\<exists>H'. then_run (nack_find_by_host_h host H)
        (\<lambda>peer. if peer \<noteq> NULL then walk_nacks body peer (ini, H) else Some (Ok (ini, H))) =
      Some (Ok (case on_peer host walk s st of ((m, _), s) \<Rightarrow> out m s, H')) \<and>
    represents X H' (snd (fst (on_peer host walk s st))) \<and> (\<forall>b \<in> X. nl_acks H' b = nl_acks H b)"
proof -
  obtain L where L: "rep X L H" "st = abs_nacks L (nl_seq H)" using assms(1) by (auto simp: represents_def)
  show ?thesis
  proof (cases rule: find_rep [OF L(1), of host])
    case 1
    then show ?thesis using assms(1) out(2) by (auto simp: on_peer_def L(2))
  next
    case (2 A p xs B)
    obtain H' where w: "walk_nacks body p (ini, H) = Some (Ok (foldl (\<lambda>r x. f x r) ini (filter gone (map snd xs)), H'))"
      "rep X (A @ (p, host, filter (\<lambda>y. \<not> gone (snd y)) xs) # B) H'" "nl_seq H' = nl_seq H"
      "\<forall>b \<in> X. nl_acks H' b = nl_acks H b"
      using walk_rep [where body = body and f = f and gone = gone and g = g and r = ini, OF L(1) [unfolded 2(1)] body g] by blast
    have o: "on_peer host walk s st = ((n (map snd xs),
        abs_nacks (A @ (p, host, filter (\<lambda>y. \<not> gone (snd y)) xs) # B) (nl_seq H)), s' (map snd xs))"
      unfolding L(2) 2(1) by (rule on_peer_row) (use 2 walk in \<open>simp_all add: filter_map o_def\<close>)
    show ?thesis using 2(3,4) w(1) representsI [OF w(2)] w(3,4) by (auto simp: o out(1))
  qed
qed

lemma remove_ooo_refines:
  assumes "represents X H st" and "deref (nl_acks H) a = Ok c" and "a \<in> X"
  shows "\<exists>H'. remove_ooo_nacks_h a H = Some (Ok (fst (remove_ooo_nacks (c_data c) st), H')) \<and>
    represents X H' (snd (remove_ooo_nacks (c_data c) st)) \<and> (\<forall>b \<in> X. nl_acks H' b = nl_acks H b)"
proof -
  let ?gone = "\<lambda>cur. timercmp_lt (a_sendtime cur) (a_sendtime (c_data c))"
  have "\<exists>H'. then_run (nack_find_by_host_h (sd_to (a_d (c_data c))) H)
        (\<lambda>peer. if peer \<noteq> NULL then walk_nacks (remove_ooo_body a) peer (0, H) else Some (Ok (0, H))) =
      Some (Ok (case on_peer (sd_to (a_d (c_data c))) (\<lambda>nacks. (remove_where ?gone nacks, ())) () st of ((m, _), s) \<Rightarrow> m, H')) \<and>
    represents X H' (snd (fst (on_peer (sd_to (a_d (c_data c))) (\<lambda>nacks. (remove_where ?gone nacks, ())) () st))) \<and>
    (\<forall>b \<in> X. nl_acks H' b = nl_acks H b)"
    by (rule on_peer_refines [OF assms(1), where gone = ?gone and g = id and f = "\<lambda>x r. r + 1"
          and n = "\<lambda>xs. int (length (filter ?gone xs))" and s' = "\<lambda>_. ()"])
      (simp_all add: remove_ooo_body_def deref_upd deref_X [OF assms(2,3)] remove_where_eq foldl_count)
  then show ?thesis
    by (simp add: remove_ooo_nacks_h_def remove_ooo_nacks_def assms(2) case_prod_beta)
qed

lemma remove_lost_refines:
  assumes "represents X H st" and "deref (nl_acks H) a = Ok c" and "a \<in> X"
  shows "\<exists>H'. remove_lost_acks_h a cons H = Some (Ok (fst (remove_lost_acks (c_data c) cons st), H')) \<and>
    represents X H' (snd (remove_lost_acks (c_data c) cons st)) \<and> (\<forall>b \<in> X. nl_acks H' b = nl_acks H b)"
proof -
  let ?gone = "ack_was_lost (c_data c) cons"
  let ?body = "remove_lost_body a cons (ack_fragment (c_data c))"
  have "\<exists>H'. then_run (nack_find_by_host_h (sd_to (a_d (c_data c))) H)
        (\<lambda>peer. if peer \<noteq> NULL then walk_nacks ?body peer (0, H) else Some (Ok (0, H))) =
      Some (Ok (case on_peer (sd_to (a_d (c_data c))) (\<lambda>nacks. ((0, snd (remove_where ?gone nacks)), ())) () st of ((m, _), s) \<Rightarrow> m, H')) \<and>
    represents X H' (snd (fst (on_peer (sd_to (a_d (c_data c))) (\<lambda>nacks. ((0, snd (remove_where ?gone nacks)), ())) () st))) \<and>
    (\<forall>b \<in> X. nl_acks H' b = nl_acks H b)"
    by (rule on_peer_refines [OF assms(1), where gone = ?gone and g = id and f = "\<lambda>x r. r" and n = "\<lambda>xs. 0" and s' = "\<lambda>_. ()"])
      (simp_all add: remove_lost_body_def deref_upd deref_X [OF assms(2,3)] remove_where_eq foldl_const ack_was_lost_def Let_def)
  then show ?thesis
    by (simp add: remove_lost_acks_h_def remove_lost_acks_def assms(2) case_prod_beta)
qed

lemma resend_cell_drop:
  assumes "deref (nl_acks H) a = Ok \<lparr>c_data = x, sle_next = n\<rparr>" and "wf_sd (a_d x)"
  shows "resend_cell p a s H = map_option (map_res (Pair (resend_one x s)))
     (drop_nack p a (H\<lparr>nl_acks := (nl_acks H)(a \<mapsto> \<lparr>c_data = x\<lparr>a_d := mark_resend (a_d x)\<rparr>, sle_next = n\<rparr>)\<rparr>))"
proof -
  have "a \<noteq> NULL" using assms(1) by (auto simp: deref_def split: if_splits)
  moreover have "0 < length (sd_data (a_d x))" using assms(2) by (simp add: wf_sd_def SENDBUF_def)
  ultimately show ?thesis using assms(1)
    by (simp add: resend_cell_def assign_def deref_def [of "fun_upd _ _ _"] set_first_byte_def mark_resend_def resend_one_def Let_def)
qed

lemma mark_resend_wf: "wf_sd d \<Longrightarrow> wf_sd (mark_resend d)"
  by (simp add: wf_sd_def mark_resend_def Let_def)

lemma foldl_resend: "foldl (\<lambda>r x. (\<lambda>(n, s). (n + 1, resend_one x s)) r) (n, s) xs =
    (n + int (length xs), foldl (\<lambda>s x. resend_one x s) s xs)"
  by (induction xs arbitrary: n s) simp_all

lemma resend_ooo_refines:
  assumes "represents X H st" and "deref (nl_acks H) a = Ok c" and "a \<in> X"
  shows "\<exists>H'. resend_ooo_nacks_h a s H = Some (Ok ((fst (fst (resend_ooo_nacks (c_data c) s st)), snd (resend_ooo_nacks (c_data c) s st)), H')) \<and>
    represents X H' (snd (fst (resend_ooo_nacks (c_data c) s st))) \<and> (\<forall>b \<in> X. nl_acks H' b = nl_acks H b)"
proof -
  let ?gone = "\<lambda>cur. timercmp_lt (a_sendtime cur) (a_sendtime (c_data c))"
  have "\<exists>H'. then_run (nack_find_by_host_h (sd_to (a_d (c_data c))) H)
        (\<lambda>peer. if peer \<noteq> NULL then walk_nacks (resend_ooo_body a) peer ((0, s), H) else Some (Ok ((0, s), H))) =
      Some (Ok (case on_peer (sd_to (a_d (c_data c))) (resend_where ?gone s) s st of ((m, _), s) \<Rightarrow> (m, s), H')) \<and>
    represents X H' (snd (fst (on_peer (sd_to (a_d (c_data c))) (resend_where ?gone s) s st))) \<and>
    (\<forall>b \<in> X. nl_acks H' b = nl_acks H b)"
    by (rule on_peer_refines [OF assms(1), where gone = ?gone and g = "\<lambda>x. x\<lparr>a_d := mark_resend (a_d x)\<rparr>"
          and f = "\<lambda>x (n, s). (n + 1, resend_one x s)" and n = "\<lambda>xs. int (length (filter ?gone xs))"
          and s' = "\<lambda>xs. foldl (\<lambda>s a. resend_one a s) s (filter ?gone xs)"])
      (auto simp: resend_ooo_body_def deref_X [OF assms(2,3)] resend_cell_drop resend_where_eq foldl_resend mark_resend_wf
         option.map_comp o_def map_res_comp)
  then show ?thesis
    by (simp add: resend_ooo_nacks_h_def resend_ooo_nacks_def assms(2) case_prod_beta)
qed

lemma pop_refines:
  assumes "represents X H st"
  shows "case pop_ack seq from st of
     (None, st') \<Rightarrow> pop_ack_h seq from H = Some (Ok (NULL, H)) \<and> st' = st
   | (Some a, st') \<Rightarrow> \<exists>m n H'. pop_ack_h seq from H = Some (Ok (m, H')) \<and> m \<noteq> NULL \<and> m \<notin> X \<and>
        deref (nl_acks H') m = Ok \<lparr>c_data = a, sle_next = n\<rparr> \<and> represents (insert m X) H' st' \<and>
        (\<forall>b \<in> X. nl_acks H' b = nl_acks H b)"
proof -
  obtain L where L: "rep X L H" "st = abs_nacks L (nl_seq H)" using assms by (auto simp: represents_def)
  show ?thesis
  proof (cases rule: find_rep [OF L(1), of "from"])
    case 1
    then show ?thesis by (simp add: pop_ack_def pop_ack_h_def L(2))
  next
    case (2 A p xs B)
    note r = L(1) [unfolded 2(1)]
    let ?P = "\<lambda>a. a_seq a = seq"
    have n: "nacklist st ! length A = \<lparr>np_addr = from, np_nacks = map snd xs\<rparr>" by (simp add: L(2) 2(1) nth_append)
    have f: "slist_find ?P (first_of xs) (nl_acks H) = Some (Ok (first_of (dropWhile (\<lambda>y. \<not> ?P (snd y)) xs)))"
      by (rule slist_find_eq [OF rep_peer(2) [OF r]])
    show ?thesis
    proof (cases "find_ix ?P (map snd xs)")
      case None
      then have "\<forall>y \<in> set xs. \<not> ?P (snd y)" by (auto simp: find_ix_None_iff)
      then have e: "dropWhile (\<lambda>y. \<not> ?P (snd y)) xs = []" by simp
      have h: "pop_ack_h seq from H = Some (Ok (NULL, H))"
        using 2(3,4) rep_peer(1) [OF r] f unfolding e by (simp add: pop_ack_h_def)
      have "pop_ack seq from st = (None, st)" using 2(2) None n by (simp add: pop_ack_def Let_def) (simp add: L(2))
      then show ?thesis using h by simp
    next
      case (Some i)
      let ?us = "take i xs" and ?ys = "drop (Suc i) xs"
      obtain m x where y: "xs ! i = (m, x)" by (cases "xs ! i")
      have i: "i < length xs" "?P x" "\<And>j. j < i \<Longrightarrow> \<not> ?P (snd (xs ! j))"
        using find_ix_SomeD [OF Some] y by auto
      have xs: "xs = ?us @ (m, x) # ?ys" using id_take_nth_drop [OF i(1)] y by simp
      have "dropWhile (\<lambda>y. \<not> ?P (snd y)) (?us @ (m, x) # ?ys) = (m, x) # ?ys"
        using i by (subst dropWhile_append2) (fastforce simp: in_set_conv_nth)+
      then have e: "dropWhile (\<lambda>y. \<not> ?P (snd y)) xs = (m, x) # ?ys" using xs by simp
      have r': "rep X (A @ (p, from, ?us @ (m, x) # ?ys) # B) H" using r xs by simp
      obtain H' where h: "remove_nack p m H = Some (Ok H')" "rep (insert m X) (A @ (p, from, ?us @ ?ys) # B) H'"
        "nl_seq H' = nl_seq H" "\<forall>b \<in> insert m X. nl_acks H' b = nl_acks H b" using remove_nack_rep [OF r'] by blast
      note d = deref_member [OF rep_peer(2) [OF r']]
      have m: "m \<noteq> NULL" "m \<notin> X" using slist_member(1) [OF rep_peer(2) [OF r']] rep_disjoint(2) [OF r'] by auto
      have pop: "pop_ack_h seq from H = Some (Ok (m, H'))"
        using 2(3,4) rep_peer(1) [OF r] f m(1) h(1) unfolding e by (simp add: pop_ack_h_def)
      have st: "pop_ack seq from st = (Some x, abs_nacks (A @ (p, from, ?us @ ?ys) # B) (nl_seq H))"
        using 2(2) Some n i(1) y
        by (simp add: pop_ack_def Let_def) (simp add: L(2) 2(1) abs_nacks_def list_update_append take_map drop_map flip: abs_row_def)
      have "deref (nl_acks H') m = Ok \<lparr>c_data = x, sle_next = first_of ?ys\<rparr>" using deref_X [OF d, of "insert m X"] h(4) by simp
      then show ?thesis using pop st m representsI [OF h(2)] h(3,4) by auto
    qed
  qed
qed

lemma insert_nack_rep:
  assumes "rep X (A @ (p, host, xs) # B) H" and "m \<notin> dom (nl_acks H)" and "m \<noteq> NULL" and "wf_sd (a_d x)"
  shows "\<exists>H'. insert_nack p m (H\<lparr>nl_acks := (nl_acks H)(m \<mapsto> \<lparr>c_data = x, sle_next = NULL\<rparr>)\<rparr>) = Ok H' \<and>
    rep X (A @ (p, host, (m, x) # xs) # B) H' \<and> nl_seq H' = nl_seq H \<and> (\<forall>b \<in> X. nl_acks H' b = nl_acks H b)"
proof -
  let ?h = "(nl_acks H)(m \<mapsto> \<lparr>c_data = x, sle_next = first_of xs\<rparr>)"
  let ?H = "H\<lparr>nl_peers := (nl_peers H)(p \<mapsto> \<lparr>c_data = \<lparr>pc_addr = host, pc_nacks = first_of ((m, x) # xs)\<rparr>,
    sle_next = first_of (peer_cells B)\<rparr>), nl_acks := ?h\<rparr>"
  note r = rep_disjoint [OF assms(1)] and d = rep_peer [OF assms(1)]
  have m: "m \<notin> addrs xs" "m \<notin> addrs (packets (A @ B))" "m \<notin> X" using assms(2) r(4) by auto
  have "slist ?h (first_of xs) xs" using d(2) by (subst slist_cong) (use m in auto)
  then have s: "slist ?h (first_of ((m, x) # xs)) ((m, x) # xs)" using assms(3) by (simp add: slist_Cons)
  have "rep X (A @ (p, host, (m, x) # xs) # B) ?H"
  proof (rule rep_replace [OF assms(1) s])
    show "?h b = nl_acks H b" if "b \<in> addrs (packets (A @ B))" for b using m that by auto
    show "wf_sd (a_d (snd y))" if "y \<in> set ((m, x) # xs)" for y using r(5) [of y] assms(4) that by auto
    show "dom ?h = addrs (packets (A @ (p, host, (m, x) # xs) # B)) \<union> X" using r(4) by auto
  qed (use m r(1-3) in auto)
  moreover have "insert_nack p m (H\<lparr>nl_acks := (nl_acks H)(m \<mapsto> \<lparr>c_data = x, sle_next = NULL\<rparr>)\<rparr>) = Ok ?H"
    using d(1) assms(3) by (simp add: insert_nack_def MYSLIST_INSERT_HEAD_def assign_def deref_def [of "fun_upd _ _ _"])
  ultimately show ?thesis using m(3) by auto
qed

lemma new_peer_rep:
  assumes "rep X L H" and "m \<notin> dom (nl_peers H)" and "m \<noteq> NULL"
  shows "\<exists>H'. new_peer_h m host H = Ok (m, H') \<and> rep X ((m, host, []) # L) H' \<and> nl_seq H' = nl_seq H \<and> nl_acks H' = nl_acks H"
proof -
  let ?c = "\<lparr>c_data = \<lparr>pc_addr = host, pc_nacks = NULL\<rparr>, sle_next = nl_first H\<rparr>"
  let ?H = "H\<lparr>nl_first := m, nl_peers := (nl_peers H)(m \<mapsto> ?c)\<rparr>"
  have s: "slist (nl_peers H) (nl_first H) (peer_cells L)" using assms(1) by (simp add: rep_def)
  have "m \<notin> addrs (peer_cells L)" using slist_allocated [OF s] assms(2) by auto
  then have "slist ((nl_peers H)(m \<mapsto> ?c)) (nl_first H) (peer_cells L)" using s by (subst slist_cong) auto
  then have "rep X ((m, host, []) # L) ?H" using assms by (auto simp: rep_def slist_Cons)
  moreover have "new_peer_h m host H = Ok (m, ?H)"
    using assms(3) by (simp add: new_peer_h_def MYSLIST_INSERT_HEAD_def assign_def deref_def MYSLIST_INIT_def)
  ultimately show ?thesis by auto
qed

lemma rep_seq: "rep X L (H\<lparr>nl_seq := q\<rparr>) = rep X L H"
  by (simp add: rep_def)

lemma append_refines:
  assumes "represents X H st" and "wf_sd d" and "m1 \<notin> dom (nl_peers H)" and "m2 \<notin> dom (nl_acks H)"
    and "m1 \<noteq> NULL" and "m2 \<noteq> NULL"
  shows "\<exists>H'. append_ack_h m1 m2 d ts sl H = Some (map_res (\<lambda>(l, d', st'). (l, d', H')) (append_ack d ts sl st)) \<and>
    (\<forall>l d' st'. append_ack d ts sl st = Ok (l, d', st') \<longrightarrow> represents X H' st' \<and> (\<forall>b \<in> X. nl_acks H' b = nl_acks H b))"
proof -
  let ?q = "nl_seq H + 1"
  let ?H = "H\<lparr>nl_seq := ?q\<rparr>"
  let ?x = "\<lparr>a_seq = ?q, a_sendtime = ts, a_sleeptime = sl, a_d = d\<rparr>"
  obtain L where L: "rep X L H" "st = abs_nacks L (nl_seq H)" using assms(1) by (auto simp: represents_def)
  have L': "rep X L ?H" using L(1) by (simp add: rep_seq)
  have "\<exists>A p xs B H1. rep X (A @ (p, sd_to d, xs) # B) H1 \<and> nl_acks H1 = nl_acks H \<and> nl_seq H1 = ?q \<and>
     then_run (nack_find_by_host_h (sd_to d) ?H) (\<lambda>peer. Some (if peer = NULL then new_peer_h m1 (sd_to d) ?H else Ok (peer, ?H))) = Some (Ok (p, H1)) \<and>
     append_ack d ts sl st = map_res (\<lambda>data. (sd_length d + 2, d\<lparr>sd_data := data\<rparr>, abs_nacks (A @ (p, sd_to d, (m2, ?x) # xs) # B) ?q))
       (memcpy (sd_data d) (unat (sd_length d)) (bytes_of_u16 ?q) 2)"
  proof (cases rule: find_rep [OF L', of "sd_to d"])
    case 1
    obtain H1 where "new_peer_h m1 (sd_to d) ?H = Ok (m1, H1)" "rep X ((m1, sd_to d, []) # L) H1" "nl_seq H1 = ?q" "nl_acks H1 = nl_acks H"
      using new_peer_rep [OF L', of m1 "sd_to d"] assms(3,5) by auto
    then show ?thesis using 1
      by (intro exI [of _ "[]"] exI [of _ m1] exI [of _ L] exI [of _ H1])
        (simp add: append_ack_def Let_def L(2) abs_nacks_def bind_Ok_map flip: abs_row_def)
  next
    case (2 A p xs B)
    then show ?thesis using L'
      by (intro exI [of _ A] exI [of _ p] exI [of _ xs] exI [of _ B] exI [of _ ?H])
        (simp add: append_ack_def Let_def L(2) abs_nacks_def bind_Ok_map nth_append list_update_append flip: abs_row_def)
  qed
  then obtain A p xs B H1 where h: "rep X (A @ (p, sd_to d, xs) # B) H1" "nl_acks H1 = nl_acks H" "nl_seq H1 = ?q"
    "then_run (nack_find_by_host_h (sd_to d) ?H) (\<lambda>peer. Some (if peer = NULL then new_peer_h m1 (sd_to d) ?H else Ok (peer, ?H))) = Some (Ok (p, H1))"
    and a: "append_ack d ts sl st = map_res (\<lambda>data. (sd_length d + 2, d\<lparr>sd_data := data\<rparr>, abs_nacks (A @ (p, sd_to d, (m2, ?x) # xs) # B) ?q))
       (memcpy (sd_data d) (unat (sd_length d)) (bytes_of_u16 ?q) 2)" by blast
  obtain H' where i: "insert_nack p m2 (H1\<lparr>nl_acks := (nl_acks H1)(m2 \<mapsto> \<lparr>c_data = ?x, sle_next = NULL\<rparr>)\<rparr>) = Ok H'"
    "rep X (A @ (p, sd_to d, (m2, ?x) # xs) # B) H'" "nl_seq H' = ?q" "\<forall>b \<in> X. nl_acks H' b = nl_acks H b"
    using insert_nack_rep [OF h(1), of m2 ?x] assms(2,4,6) h(2,3) by auto
  obtain q where q: "nack_find_by_host_h (sd_to d) ?H = Some (Ok q)" "(if q = NULL then new_peer_h m1 (sd_to d) ?H else Ok (q, ?H)) = Ok (p, H1)"
    using h(4) by (auto simp: then_run_def split: option.splits res.splits)
  have "append_ack_h m1 m2 d ts sl H = Some (map_res (\<lambda>data. (sd_length d + 2, d\<lparr>sd_data := data\<rparr>, H'))
       (memcpy (sd_data d) (unat (sd_length d)) (bytes_of_u16 ?q) 2))"
    using i(1) assms(6) unfolding append_ack_h_def Let_def q(1) then_run_simps q(2)
    by (simp add: h(3) i(3) bind_Ok_map)
  then show ?thesis using representsI [OF i(2)] i(3,4)
    by (intro exI [of _ H']) (auto simp: a map_res_comp map_res_Ok_iff)
qed

text \<open>The nested loops: over the peers, and for each over its packets.\<close>

lemma timeout_walk:
  assumes "rep X (A @ (p, host, xs) # B) H"
  shows "\<exists>H' n xs' s'. resend_where (timed_out now timeout) s (map snd xs) = ((n, map snd xs'), s') \<and>
    walk_nacks (resend_timeout_body now timeout) p ((k, s), H) = Some (Ok ((k + n, s'), H')) \<and>
    rep X (A @ (p, host, xs') # B) H' \<and> nl_seq H' = nl_seq H \<and> (\<forall>b \<in> X. nl_acks H' b = nl_acks H b)"
proof -
  let ?gone = "timed_out now timeout"
  have "\<exists>H'. walk_nacks (resend_timeout_body now timeout) p ((k, s), H) =
      Some (Ok (foldl (\<lambda>r x. (\<lambda>(n, s). (n + 1, resend_one x s)) r) (k, s) (filter ?gone (map snd xs)), H')) \<and>
    rep X (A @ (p, host, filter (\<lambda>y. \<not> ?gone (snd y)) xs) # B) H' \<and> nl_seq H' = nl_seq H \<and>
    (\<forall>b \<in> X. nl_acks H' b = nl_acks H b)"
    by (rule walk_rep [OF assms, where g = "\<lambda>x. x\<lparr>a_d := mark_resend (a_d x)\<rparr>"])
      (auto simp: resend_timeout_body_def resend_cell_drop mark_resend_wf timed_out_def option.map_comp o_def map_res_comp)
  then obtain H' where "walk_nacks (resend_timeout_body now timeout) p ((k, s), H) =
      Some (Ok (foldl (\<lambda>r x. (\<lambda>(n, s). (n + 1, resend_one x s)) r) (k, s) (filter ?gone (map snd xs)), H'))"
    "rep X (A @ (p, host, filter (\<lambda>y. \<not> ?gone (snd y)) xs) # B) H'" "nl_seq H' = nl_seq H"
    "\<forall>b \<in> X. nl_acks H' b = nl_acks H b" by blast
  then show ?thesis
    by (intro exI [of _ H'] exI [of _ "filter (\<lambda>y. \<not> ?gone (snd y)) xs"] exI conjI)
      (auto simp: resend_where_eq foldl_resend filter_map o_def)
qed

lemma timeout_rows:
  "rep X (A @ B) H \<Longrightarrow>
     (\<exists>e. resend_timeouts ps (time_to_usec now) s (map abs_row B) = Err e \<and>
        MYSLIST_FOREACH (\<lambda>st. MYSLIST_NEXT (nl_peers (snd st)))
          (\<lambda>peer st. then_run (Some (deref (nl_peers (snd st)) peer)) (\<lambda>p.
            then_run (Some (get_timeout_value (pc_addr (c_data p)) ps)) (\<lambda>timeout.
            map_option (map_res (Pair False)) (walk_nacks (resend_timeout_body (time_to_usec now) timeout) peer st))))
          (first_of (peer_cells B)) ((k, s), H) = Some (Err e)) \<or>
     (\<exists>n B' s' H'. resend_timeouts ps (time_to_usec now) s (map abs_row B) = Ok ((n, map abs_row B'), s') \<and>
        MYSLIST_FOREACH (\<lambda>st. MYSLIST_NEXT (nl_peers (snd st)))
          (\<lambda>peer st. then_run (Some (deref (nl_peers (snd st)) peer)) (\<lambda>p.
            then_run (Some (get_timeout_value (pc_addr (c_data p)) ps)) (\<lambda>timeout.
            map_option (map_res (Pair False)) (walk_nacks (resend_timeout_body (time_to_usec now) timeout) peer st))))
          (first_of (peer_cells B)) ((k, s), H) = Some (Ok (NULL, (k + n, s'), H')) \<and>
        rep X (A @ B') H' \<and> nl_seq H' = nl_seq H \<and> (\<forall>b \<in> X. nl_acks H' b = nl_acks H b))"
proof (induction B arbitrary: A k s H)
  case Nil
  then show ?case by (subst MYSLIST_FOREACH.simps) (auto intro!: exI [of _ "[] :: row list"])
next
  case (Cons y B)
  obtain p host xs where y: "y = (p, host, xs)" by (cases y)
  note r = Cons.prems [unfolded y] and d = rep_peer [OF Cons.prems [unfolded y]]
  show ?case
  proof (cases "get_timeout_value host ps")
    case (Err e)
    then show ?thesis using d by (subst MYSLIST_FOREACH.simps) (simp add: y)
  next
    case (Ok timeout)
    obtain H1 n xs' s1 where w: "resend_where (timed_out (time_to_usec now) timeout) s (map snd xs) = ((n, map snd xs'), s1)"
      "walk_nacks (resend_timeout_body (time_to_usec now) timeout) p ((k, s), H) = Some (Ok ((k + n, s1), H1))"
      "rep X (A @ (p, host, xs') # B) H1" "nl_seq H1 = nl_seq H" "\<forall>b \<in> X. nl_acks H1 b = nl_acks H b"
      using timeout_walk [OF r] by blast
    have nx: "MYSLIST_NEXT (nl_peers H1) p = Ok (first_of (peer_cells B))"
      using rep_peer(1) [OF w(3)] by (simp add: MYSLIST_NEXT_def)
    have r1: "rep X ((A @ [(p, host, xs')]) @ B) H1" using w(3) by simp
    from Cons.IH [OF r1, of s1 "k + n"] show ?thesis
    proof (elim disjE exE conjE, goal_cases)
      case (1 e)
      then show ?thesis using d w nx Ok by (subst MYSLIST_FOREACH.simps) (simp add: y)
    next
      case (2 m B' s' H')
      then show ?thesis using d w nx Ok
        by (intro disjI2 exI [of _ "n + m"] exI [of _ "(p, host, xs') # B'"] exI [of _ s'] exI [of _ H'])
          (subst MYSLIST_FOREACH.simps, simp add: y)
    qed
  qed
qed

lemma timeout_refines:
  assumes "represents X H st"
  shows "\<exists>H'. resend_timeout_nacks_h now ps s H =
      Some (map_res (\<lambda>((n, _), s'). ((n, s'), H')) (resend_timeout_nacks now ps s st)) \<and>
    (\<forall>n st' s'. resend_timeout_nacks now ps s st = Ok ((n, st'), s') \<longrightarrow>
       represents X H' st' \<and> (\<forall>b \<in> X. nl_acks H' b = nl_acks H b))"
proof -
  obtain L where L: "rep X L H" "st = abs_nacks L (nl_seq H)" using assms by (auto simp: represents_def)
  have f: "nl_first H = first_of (peer_cells L)" using L(1) by (auto simp: rep_def intro: slist_first)
  have "rep X ([] @ L) H" using L(1) by simp
  from timeout_rows [OF this, of ps now s 0] show ?thesis
  proof (elim disjE exE conjE, goal_cases)
    case (1 e)
    then show ?thesis by (simp add: resend_timeout_nacks_h_def resend_timeout_nacks_def L(2) f)
  next
    case (2 n B' s' H')
    then have "represents X H' (abs_nacks B' (nl_seq H))" by (intro representsI [of _ B']) simp_all
    moreover have e: "abs_nacks L (nl_seq H)\<lparr>nacklist := map abs_row B'\<rparr> = abs_nacks B' (nl_seq H)"
      by (simp add: abs_nacks_def flip: abs_row_def)
    ultimately show ?thesis using 2 by (intro exI [of _ H']) (simp add: resend_timeout_nacks_h_def resend_timeout_nacks_def L(2) f e)
  qed
qed

lemma foreach_count:
  "slist h p xs \<Longrightarrow> MYSLIST_FOREACH (\<lambda>_. MYSLIST_NEXT h) (\<lambda>a ret. Some (Ok (False, ret + 1))) p n = Some (Ok (NULL, n + int (length xs)))"
proof (induction xs arbitrary: p n)
  case Nil
  then show ?case by (subst MYSLIST_FOREACH.simps) simp
next
  case (Cons y xs)
  obtain a x where y: "y = (a, x)" by (cases y)
  note d = slist_ConsD [OF Cons.prems [unfolded y]]
  have "MYSLIST_NEXT h p = Ok (first_of xs)" using d by (simp add: MYSLIST_NEXT_def deref_def)
  then show ?case using d(1,2) Cons.IH [OF d(4)] by (subst MYSLIST_FOREACH.simps) simp
qed

lemma count_rows:
  "rep X (A @ B) H \<Longrightarrow> MYSLIST_FOREACH (\<lambda>_. MYSLIST_NEXT (nl_peers H))
     (\<lambda>n ret. then_run (Some (deref (nl_peers H) n)) (\<lambda>p. map_option (map_res (\<lambda>r. (False, snd r)))
        (MYSLIST_FOREACH (\<lambda>_. MYSLIST_NEXT (nl_acks H)) (\<lambda>a ret. Some (Ok (False, ret + 1))) (pc_nacks (c_data p)) ret)))
     (first_of (peer_cells B)) k = Some (Ok (NULL, k + int (sum_list (map (\<lambda>p. length (np_nacks p)) (map abs_row B)))))"
proof (induction B arbitrary: A k)
  case Nil
  then show ?case by (subst MYSLIST_FOREACH.simps) simp
next
  case (Cons y B)
  obtain p host xs where y: "y = (p, host, xs)" by (cases y)
  note d = rep_peer [OF Cons.prems [unfolded y]]
  have n: "MYSLIST_NEXT (nl_peers H) p = Ok (first_of (peer_cells B))" using d(1) by (simp add: MYSLIST_NEXT_def)
  have "rep X ((A @ [y]) @ B) H" using Cons.prems by simp
  from Cons.IH [OF this] show ?case using d(1,3) n foreach_count [OF d(2)]
    by (subst MYSLIST_FOREACH.simps) (simp add: y)
qed

lemma count_refines: "represents X H st \<Longrightarrow> get_n_nack_h H = Some (Ok (get_n_nack st))"
proof -
  assume "represents X H st"
  then obtain L where L: "rep X L H" "st = abs_nacks L (nl_seq H)" by (auto simp: represents_def)
  have "nl_first H = first_of (peer_cells L)" using L(1) by (auto simp: rep_def intro: slist_first)
  moreover have "rep X ([] @ L) H" using L(1) by simp
  ultimately show "get_n_nack_h H = Some (Ok (get_n_nack st))"
    using count_rows [of X "[]" L H 0] by (simp add: get_n_nack_h_def get_n_nack_def L(2))
qed

end
