(* ===== verification/Ack_Calls.thy ===== *)
theory Ack_Calls
  imports Ack_Heap
begin

text \<open>
  Everything the program does with its outstanding packets, as a sequence of calls: filing a
  packet, taking an acknowledged packet out, cleaning up behind it and freeing it, and the
  periodic retransmission. The sequence is run on the pointers of \<open>Ack_Heap\<close> and on the lists of
  \<open>Ack\<close>; the two runs agree.
\<close>

section \<open>Model\<close>

text \<open>What \<open>ack_received\<close> does with the packet it is given, in the order of the list.\<close>

datatype ack_use = Remove_Ooo | Remove_Lost u16 | Resend_Ooo

datatype nack_call =
    Append SendData timeval u32
  | Acked u16 sockaddr_in "ack_use list"
  | Timeouts timeval "PeerAckStore list"

primrec use_h :: "addr \<Rightarrow> ack_use \<Rightarrow> sender \<times> nack_heap \<Rightarrow> (sender \<times> nack_heap) res option" where
  "use_h m Remove_Ooo sH = map_option (map_res (\<lambda>(n, H). (fst sH, H))) (remove_ooo_nacks_h m (snd sH))"
| "use_h m (Remove_Lost cons) sH = map_option (map_res (\<lambda>(n, H). (fst sH, H))) (remove_lost_acks_h m cons (snd sH))"
| "use_h m Resend_Ooo sH = map_option (map_res (\<lambda>((n, s), H). (s, H))) (resend_ooo_nacks_h m (fst sH) (snd sH))"

primrec uses_h :: "addr \<Rightarrow> ack_use list \<Rightarrow> sender \<times> nack_heap \<Rightarrow> (sender \<times> nack_heap) res option" where
  "uses_h m [] sH = Some (Ok sH)"
| "uses_h m (u # us) sH = then_run (use_h m u sH) (uses_h m us)"

text \<open>The two arguments stand for \<open>malloc\<close> of a \<open>Nack_peer\<close> and of an \<open>Ack\<close>.\<close>

primrec call_h :: "(nack_heap \<Rightarrow> addr) \<Rightarrow> (nack_heap \<Rightarrow> addr) \<Rightarrow> nack_call \<Rightarrow> sender \<times> nack_heap \<Rightarrow>
    (sender \<times> nack_heap) res option" where
  "call_h mp ma (Append d ts sl) sH =
     map_option (map_res (\<lambda>(l, d, H). (fst sH, H))) (append_ack_h (mp (snd sH)) (ma (snd sH)) d ts sl (snd sH))"
| "call_h mp ma (Acked seq host us) sH =
     then_run (pop_ack_h seq host (snd sH)) (\<lambda>(pop, H).
       if pop \<noteq> NULL
       then then_run (uses_h pop us (fst sH, H)) (\<lambda>(s, H). Some (map_res (Pair s) (free_nack pop H)))
       else Some (Ok (fst sH, H)))"
| "call_h mp ma (Timeouts now ps) sH =
     map_option (map_res (\<lambda>((n, s), H). (s, H))) (resend_timeout_nacks_h now ps (fst sH) (snd sH))"

primrec run_h :: "(nack_heap \<Rightarrow> addr) \<Rightarrow> (nack_heap \<Rightarrow> addr) \<Rightarrow> nack_call list \<Rightarrow> sender \<times> nack_heap \<Rightarrow>
    (sender \<times> nack_heap) res option" where
  "run_h mp ma [] sH = Some (Ok sH)"
| "run_h mp ma (c # cs) sH = then_run (call_h mp ma c sH) (run_h mp ma cs)"

primrec use_l :: "Ack \<Rightarrow> ack_use \<Rightarrow> sender \<times> nack_state \<Rightarrow> sender \<times> nack_state" where
  "use_l a Remove_Ooo ss = (fst ss, snd (remove_ooo_nacks a (snd ss)))"
| "use_l a (Remove_Lost cons) ss = (fst ss, snd (remove_lost_acks a cons (snd ss)))"
| "use_l a Resend_Ooo ss = (case resend_ooo_nacks a (fst ss) (snd ss) of ((n, st), s) \<Rightarrow> (s, st))"

primrec call_l :: "nack_call \<Rightarrow> sender \<times> nack_state \<Rightarrow> (sender \<times> nack_state) res" where
  "call_l (Append d ts sl) ss = map_res (\<lambda>(l, d, st). (fst ss, st)) (append_ack d ts sl (snd ss))"
| "call_l (Acked seq host us) ss =
     (case pop_ack seq host (snd ss) of
        (None, st) \<Rightarrow> Ok (fst ss, st)
      | (Some a, st) \<Rightarrow> Ok (foldl (\<lambda>ss u. use_l a u ss) (fst ss, st) us))"
| "call_l (Timeouts now ps) ss = map_res (\<lambda>((n, st), s). (s, st)) (resend_timeout_nacks now ps (fst ss) (snd ss))"

primrec run_l :: "nack_call list \<Rightarrow> sender \<times> nack_state \<Rightarrow> (sender \<times> nack_state) res" where
  "run_l [] ss = Ok ss"
| "run_l (c # cs) ss = bind_res (call_l c ss) (run_l cs)"

text \<open>\<open>malloc\<close> succeeds and returns memory that is not in use.\<close>

definition fresh_store :: "(nack_heap \<Rightarrow> addr) \<Rightarrow> (nack_heap \<Rightarrow> 'a store) \<Rightarrow> bool" where
  "fresh_store m st \<longleftrightarrow> (\<forall>H. finite (dom (st H)) \<longrightarrow> m H \<noteq> NULL \<and> m H \<notin> dom (st H))"

definition good_call :: "nack_call \<Rightarrow> bool" where
  "good_call c \<longleftrightarrow> (case c of Append d ts sl \<Rightarrow> wf_sd d | _ \<Rightarrow> True)"

section \<open>Agreement\<close>

lemma represents_finite: "represents X H st \<Longrightarrow> finite X \<Longrightarrow> finite (dom (nl_peers H)) \<and> finite (dom (nl_acks H))"
  by (auto simp: represents_def rep_def addrs_def simp del: addrs_simps(4))

text \<open>\<open>sim X\<close> relates a state of the pointer run to a state of the list run.\<close>

definition sim :: "addr set \<Rightarrow> sender \<times> nack_heap \<Rightarrow> sender \<times> nack_state \<Rightarrow> bool" where
  "sim X sH ss \<longleftrightarrow> fst sH = fst ss \<and> represents X (snd sH) (snd ss)"

lemma use_sim:
  assumes "sim X sH ss" and "deref (nl_acks (snd sH)) m = Ok c" and "m \<in> X"
  shows "\<exists>sH'. use_h m u sH = Some (Ok sH') \<and> sim X sH' (use_l (c_data c) u ss) \<and> (\<forall>b \<in> X. nl_acks (snd sH') b = nl_acks (snd sH) b)"
proof -
  have r: "represents X (snd sH) (snd ss)" "fst sH = fst ss" using assms(1) by (auto simp: sim_def)
  show ?thesis
  proof (cases u)
    case Remove_Ooo
    then show ?thesis using remove_ooo_refines [OF r(1) assms(2,3)] r(2) by (auto simp: sim_def)
  next
    case (Remove_Lost cons)
    then show ?thesis using remove_lost_refines [OF r(1) assms(2,3), of cons] r(2) by (auto simp: sim_def)
  next
    case Resend_Ooo
    then show ?thesis using resend_ooo_refines [OF r(1) assms(2,3), of "fst ss"] r(2) by (auto simp: sim_def split: prod.splits)
  qed
qed

lemma uses_sim:
  assumes "sim X sH ss" and "deref (nl_acks (snd sH)) m = Ok c" and "m \<in> X"
  shows "\<exists>sH'. uses_h m us sH = Some (Ok sH') \<and> sim X sH' (foldl (\<lambda>ss u. use_l (c_data c) u ss) ss us) \<and>
    deref (nl_acks (snd sH')) m = Ok c"
  using assms
proof (induction us arbitrary: sH ss)
  case (Cons u us)
  obtain sH' where u: "use_h m u sH = Some (Ok sH')" "sim X sH' (use_l (c_data c) u ss)"
    "\<forall>b \<in> X. nl_acks (snd sH') b = nl_acks (snd sH) b" using use_sim [OF Cons.prems] by blast
  then show ?case using Cons.IH [OF u(2) deref_X [OF Cons.prems(2,3) u(3)] assms(3)] by simp
qed simp

lemma free_represents:
  assumes "represents (insert m X) H st" and "m \<notin> X" and "m \<noteq> NULL"
  shows "\<exists>H'. free_nack m H = Ok H' \<and> represents X H' st"
proof -
  obtain L where L: "rep (insert m X) L H" "st = abs_nacks L (nl_seq H)" using assms(1) by (auto simp: represents_def)
  obtain H' where h: "free_nack m H = Ok H'" "rep X L H'" "nl_seq H' = nl_seq H" using free_nack_rep [OF L(1) assms(2,3)] by blast
  then have "represents X H' st" using L(2) by (intro representsI [of _ L]) simp_all
  then show ?thesis using h(1) by blast
qed

lemma call_sim:
  assumes "sim {} sH ss" and "good_call c" and "fresh_store mp nl_peers" and "fresh_store ma nl_acks"
  shows "case call_l c ss of Err e \<Rightarrow> call_h mp ma c sH = Some (Err e)
    | Ok ss' \<Rightarrow> \<exists>sH'. call_h mp ma c sH = Some (Ok sH') \<and> sim {} sH' ss'"
proof -
  have r: "represents {} (snd sH) (snd ss)" "fst sH = fst ss" using assms(1) by (auto simp: sim_def)
  show ?thesis
  proof (cases c)
    case (Append d ts sl)
    have f: "mp (snd sH) \<notin> dom (nl_peers (snd sH))" "ma (snd sH) \<notin> dom (nl_acks (snd sH))" "mp (snd sH) \<noteq> NULL" "ma (snd sH) \<noteq> NULL"
      using assms(3,4) represents_finite [OF r(1)] by (simp_all add: fresh_store_def)
    show ?thesis using append_refines [OF r(1) _ f, of d ts sl] assms(2) r(2) Append
      by (cases "append_ack d ts sl (snd ss)") (auto simp: good_call_def sim_def)
  next
    case (Timeouts now ps)
    then show ?thesis using timeout_refines [OF r(1), of now ps "fst ss"] r(2)
      by (cases "resend_timeout_nacks now ps (fst ss) (snd ss)") (auto simp: sim_def)
  next
    case (Acked seq host us)
    note p = pop_refines [OF r(1), of seq host]
    obtain o' st where pop: "pop_ack seq host (snd ss) = (o', st)" by (cases "pop_ack seq host (snd ss)")
    show ?thesis
    proof (cases o')
      case None
      then show ?thesis using p pop r Acked by (simp add: sim_def)
    next
      case (Some a)
      obtain m n H where h: "pop_ack_h seq host (snd sH) = Some (Ok (m, H))" "m \<noteq> NULL"
        "deref (nl_acks H) m = Ok \<lparr>c_data = a, sle_next = n\<rparr>" "represents {m} H st" using p pop Some by auto
      have "sim {m} (fst ss, H) (fst ss, st)" using h(4) by (simp add: sim_def)
      from uses_sim [OF this, of m _ us] h(3) obtain s' H' where u: "uses_h m us (fst ss, H) = Some (Ok (s', H'))"
        "sim {m} (s', H') (foldl (\<lambda>ss u. use_l a u ss) (fst ss, st) us)" by auto
      obtain H'' where "free_nack m H' = Ok H''" "represents {} H'' (snd (foldl (\<lambda>ss u. use_l a u ss) (fst ss, st) us))"
        using free_represents [of m "{}" H'] u(2) h(2) by (auto simp: sim_def)
      then show ?thesis using h(1,2) u pop Some r(2) Acked by (auto simp: sim_def)
    qed
  qed
qed

lemma run_sim:
  assumes "sim {} sH ss" and "list_all good_call cs" and "fresh_store mp nl_peers" and "fresh_store ma nl_acks"
  shows "case run_l cs ss of Err e \<Rightarrow> run_h mp ma cs sH = Some (Err e)
    | Ok ss' \<Rightarrow> \<exists>sH'. run_h mp ma cs sH = Some (Ok sH') \<and> sim {} sH' ss'"
  using assms(1,2)
proof (induction cs arbitrary: sH ss)
  case (Cons c cs)
  then have c: "case call_l c ss of Err e \<Rightarrow> call_h mp ma c sH = Some (Err e)
    | Ok ss' \<Rightarrow> \<exists>sH'. call_h mp ma c sH = Some (Ok sH') \<and> sim {} sH' ss'"
    using call_sim [OF _ _ assms(3,4)] by simp
  show ?case
  proof (cases "call_l c ss")
    case (Ok ss')
    then obtain sH' where "call_h mp ma c sH = Some (Ok sH')" "sim {} sH' ss'" using c by auto
    then show ?thesis using Cons.IH [of sH' ss'] Cons.prems(2) Ok by (cases "run_l cs ss'") auto
  qed (use c in simp)
qed simp

lemma get_n_nack_packets: "get_n_nack (abs_nacks L q) = int (length (packets L))"
  by (induction L) (auto simp: get_n_nack_def)

lemma live_count: "represents {} H st \<Longrightarrow> get_n_nack_h H = Some (Ok (int (card (dom (nl_acks H)))))"
proof -
  assume a: "represents {} H st"
  then obtain L where L: "rep {} L H" "st = abs_nacks L (nl_seq H)" by (auto simp: represents_def)
  have "card (addrs (packets L)) = length (packets L)"
    using L(1) distinct_card [of "map fst (packets L)"] by (simp add: rep_def)
  then show ?thesis using count_refines [OF a] L get_n_nack_packets by (simp add: rep_def)
qed

text \<open>
  C10: the pointer code of \<open>ack.c\<close> implements the list model. From the empty list, every
  sequence of calls ends, without touching freed or foreign memory, in the same outcome as the
  list model: the same fault, or the same queue of packets handed to the sender and lists
  with the same packets; and then the heap holds the listed packets and no others, so that each
  acknowledged, expired or retransmitted packet was freed exactly once.
\<close>

theorem nack_pointers_refine_lists:
  assumes "list_all good_call cs" and "fresh_store mp nl_peers" and "fresh_store ma nl_acks"
  shows "case run_l cs (s, static_nacks) of
      Err e \<Rightarrow> run_h mp ma cs (s, static_nack_heap) = Some (Err e)
    | Ok (s', st') \<Rightarrow> \<exists>H'. run_h mp ma cs (s, static_nack_heap) = Some (Ok (s', H')) \<and> represents {} H' st' \<and>
        get_n_nack_h H' = Some (Ok (int (card (dom (nl_acks H')))))"
proof -
  have "sim {} (s, static_nack_heap) (s, static_nacks)" using static_rep by (simp add: sim_def)
  note run = run_sim [OF this assms]
  show ?thesis
  proof (cases "run_l cs (s, static_nacks)")
    case (Ok ss')
    then obtain H' where h: "run_h mp ma cs (s, static_nack_heap) = Some (Ok (fst ss', H'))" "represents {} H' (snd ss')"
      using run by (auto simp: sim_def)
    then show ?thesis using Ok live_count [OF h(2)] by (auto split: prod.splits)
  qed (use run in simp)
qed

end
