(* ===== verification/Stats_Heap.thy ===== *)
theory Stats_Heap
  imports Bw_Stats Slist
begin

text \<open>
  \<open>ack_received.c\<close> once more, on the pointers it is written with, and the part of \<open>bora.c\<close> that
  reads and empties its lists. Peers and samples are cells of two stores; a sample points back to its
  peer, and \<open>highest_seq\<close> points into one of the lists. The report frees every sample but that one,
  which it has unlinked with the others, reads it at the end and frees it then; until the statistics are
  released \<open>highest_seq\<close> is dangling, and only the mutex keeps the next acknowledgement away from it.
  The theories \<open>Peer_Stats\<close>, \<open>Ack_Received\<close> and \<open>Bw_Stats\<close> describe the same operations on Isabelle lists.
\<close>

section \<open>Model\<close>

text \<open>\<open>&peer->addr\<close> is the address of the peer's cell: \<open>addr\<close> is the first member of the structure.\<close>

record AckStore_c =
  sc_addr :: addr
  sc_sent :: timeval
  sc_RTT :: timeval
  sc_STT :: timeval
  sc_seq :: u16
  sc_sleeptime :: u32

record PeerAckStore_c =
  qc_addr :: sockaddr_in
  qc_minSTT :: timeval
  qc_minRTT :: timeval
  qc_avgRTT :: timeval
  qc_avgSTT :: timeval
  qc_errRTT :: timeval
  qc_errSTT :: timeval
  qc_lastRTT :: u64
  qc_ack_store :: addr
  qc_cur :: int
  qc_total_acked :: u64
  qc_total_errors :: u64
  qc_last_acked :: int
  qc_last_error :: int

record stats_heap =
  sh_first :: addr
  sh_peers :: "PeerAckStore_c store"
  sh_samples :: "AckStore_c store"
  sh_highest :: addr
  sh_held :: bool

definition static_stats_heap :: stats_heap where
  "static_stats_heap = \<lparr>sh_first = MYSLIST_INIT, sh_peers = Map.empty, sh_samples = Map.empty, sh_highest = NULL, sh_held = False\<rparr>"

text \<open>The other components stay as they are: outstanding packets, queues and cookies.\<close>

record stats_world =
  sw_heap :: stats_heap
  sw_nacks :: nack_state
  sw_sender :: sender
  sw_cookies :: cookies

definition find_peer_by_host_h :: "sockaddr_in \<Rightarrow> stats_heap \<Rightarrow> addr res option" where
  "find_peer_by_host_h from H = slist_find (\<lambda>p. qc_addr p = from) (sh_first H) (sh_peers H)"

definition get_timeout_value_h :: "sockaddr_in \<Rightarrow> stats_heap \<Rightarrow> u64 res option" where
  "get_timeout_value_h peer_address H =
     then_run (find_peer_by_host_h peer_address H) (\<lambda>peer.
     if peer \<noteq> NULL
     then Some (bind_res (deref (sh_peers H) peer) (\<lambda>p.
            let v = times_1_2 (qc_lastRTT (c_data p)) in
            if v > 10000 * 2 ^ 52
            then (if v div 2 ^ 52 < 2 ^ 64 then Ok (of_nat (v div 2 ^ 52)) else Err BadConversion)
            else Ok 10000))
     else Some (Ok 0))"

text \<open>What is read from a structure, with the address a sample points to.\<close>

definition sample_value :: "sockaddr_in \<Rightarrow> AckStore_c \<Rightarrow> AckStore" where
  "sample_value host s = \<lparr>as_addr = host, as_sent = sc_sent s, as_RTT = sc_RTT s, as_STT = sc_STT s, as_seq = sc_seq s,
     as_sleeptime = sc_sleeptime s\<rparr>"

definition peer_value :: "PeerAckStore_c \<Rightarrow> AckStore list \<Rightarrow> PeerAckStore" where
  "peer_value c values = \<lparr>ps_addr = qc_addr c, ps_minSTT = qc_minSTT c, ps_minRTT = qc_minRTT c, ps_avgRTT = qc_avgRTT c,
     ps_avgSTT = qc_avgSTT c, ps_errRTT = qc_errRTT c, ps_errSTT = qc_errSTT c, ps_lastRTT = qc_lastRTT c,
     ps_ack_store = values, ps_cur = qc_cur c, ps_total_acked = qc_total_acked c, ps_total_errors = qc_total_errors c,
     ps_last_acked = qc_last_acked c, ps_last_error = qc_last_error c\<rparr>"

definition read_sample :: "addr \<Rightarrow> stats_heap \<Rightarrow> AckStore res" where
  "read_sample m H =
     bind_res (deref (sh_samples H) m) (\<lambda>s.
     map_res (\<lambda>p. sample_value (qc_addr (c_data p)) (c_data s)) (deref (sh_peers H) (sc_addr (c_data s))))"

definition set_peer :: "addr \<Rightarrow> (PeerAckStore_c \<Rightarrow> PeerAckStore_c) \<Rightarrow> stats_heap \<Rightarrow> stats_heap res" where
  "set_peer peer f H = map_res (\<lambda>peers. H\<lparr>sh_peers := peers\<rparr>) (assign peer (\<lambda>c. c\<lparr>c_data := f (c_data c)\<rparr>) (sh_peers H))"

definition insert_sample :: "addr \<Rightarrow> addr \<Rightarrow> stats_heap \<Rightarrow> stats_heap res" where
  "insert_sample peer m H =
     bind_res (deref (sh_peers H) peer) (\<lambda>p.
     bind_res (MYSLIST_INSERT_HEAD (qc_ack_store (c_data p)) m (sh_samples H)) (\<lambda>(slh_first, samples).
     set_peer peer (\<lambda>c. c\<lparr>qc_ack_store := slh_first\<rparr>) (H\<lparr>sh_samples := samples\<rparr>)))"

definition remove_sample :: "addr \<Rightarrow> addr \<Rightarrow> stats_heap \<Rightarrow> stats_heap res option" where
  "remove_sample peer cur H =
     then_run (Some (deref (sh_peers H) peer)) (\<lambda>p.
     then_run (MYSLIST_REMOVE (qc_ack_store (c_data p)) cur (sh_samples H)) (\<lambda>(slh_first, samples).
     Some (set_peer peer (\<lambda>c. c\<lparr>qc_ack_store := slh_first\<rparr>) (H\<lparr>sh_samples := samples\<rparr>))))"

definition free_sample :: "addr \<Rightarrow> stats_heap \<Rightarrow> stats_heap res" where
  "free_sample m H = map_res (\<lambda>samples. H\<lparr>sh_samples := samples\<rparr>) (free_cell m (sh_samples H))"

definition note_highest_h :: "addr \<Rightarrow> u16 \<Rightarrow> stats_heap \<Rightarrow> stats_heap res" where
  "note_highest_h m seq H =
     (if sh_highest H \<noteq> NULL
      then map_res (\<lambda>h. if sc_seq (c_data h) < seq then H\<lparr>sh_highest := m\<rparr> else H) (deref (sh_samples H) (sh_highest H))
      else Ok (H\<lparr>sh_highest := m\<rparr>))"

text \<open>\<open>ack_received\<close>: the sample, the branch of an unknown peer and that of a known one.\<close>

definition sample_c :: "addr \<Rightarrow> Ack \<Rightarrow> AckReceived \<Rightarrow> timeval \<Rightarrow> AckStore_c" where
  "sample_c peer ack_s ack_r received =
     \<lparr>sc_addr = peer, sc_sent = a_sendtime ack_s, sc_RTT = timersub received (a_sendtime ack_s),
      sc_STT = timersub (Timeval (sint (ar_sec ack_r)) (sint (ar_usec ack_r))) (a_sendtime ack_s),
      sc_seq = a_seq ack_s, sc_sleeptime = a_sleeptime ack_s\<rparr>"

definition new_peer_c :: "sockaddr_in \<Rightarrow> AckStore_c \<Rightarrow> PeerAckStore_c" where
  "new_peer_c from s =
     \<lparr>qc_addr = from, qc_minSTT = sc_STT s, qc_minRTT = sc_RTT s, qc_avgRTT = sc_RTT s, qc_avgSTT = sc_STT s,
      qc_errRTT = zero_time, qc_errSTT = zero_time, qc_lastRTT = time_to_usec (sc_RTT s), qc_ack_store = MYSLIST_INIT,
      qc_cur = 0, qc_total_acked = 1, qc_total_errors = 0, qc_last_acked = 1, qc_last_error = 0\<rparr>"

definition first_sample_h :: "addr \<Rightarrow> addr \<Rightarrow> Ack \<Rightarrow> AckReceived \<Rightarrow> timeval \<Rightarrow> sockaddr_in \<Rightarrow> stats_heap \<Rightarrow> stats_heap res" where
  "first_sample_h peer m ack_s ack_r received from H =
     (if peer = NULL \<or> m = NULL then Err ProcessExit
      else let s = sample_c peer ack_s ack_r received in
        bind_res (note_highest_h m (a_seq ack_s)
          (H\<lparr>sh_peers := (sh_peers H)(peer \<mapsto> \<lparr>c_data = new_peer_c from s, sle_next = NULL\<rparr>),
             sh_samples := (sh_samples H)(m \<mapsto> \<lparr>c_data = s, sle_next = NULL\<rparr>)\<rparr>)) (\<lambda>H.
        bind_res (insert_sample peer m H) (\<lambda>H.
        map_res (\<lambda>(slh_first, peers). H\<lparr>sh_first := slh_first, sh_peers := peers\<rparr>)
          (MYSLIST_INSERT_HEAD (sh_first H) peer (sh_peers H)))))"

definition lower_minima :: "AckStore_c \<Rightarrow> PeerAckStore_c \<Rightarrow> PeerAckStore_c" where
  "lower_minima s peer =
     peer\<lparr>qc_minRTT := (if timercmp_lt (sc_RTT s) (qc_minRTT peer) then sc_RTT s else qc_minRTT peer),
          qc_minSTT := (if timercmp_lt (sc_STT s) (qc_minSTT peer) then sc_STT s else qc_minSTT peer)\<rparr>"

definition set_latest :: "AckStore_c \<Rightarrow> PeerAckStore_c \<Rightarrow> PeerAckStore_c" where
  "set_latest s peer =
     peer\<lparr>qc_avgRTT := sc_RTT s, qc_avgSTT := sc_STT s, qc_lastRTT := time_to_usec (sc_RTT s),
          qc_total_acked := qc_total_acked peer + 1, qc_last_acked := qc_last_acked peer + 1\<rparr>"

definition count_errors :: "int \<Rightarrow> timeval \<Rightarrow> timeval \<Rightarrow> PeerAckStore_c \<Rightarrow> PeerAckStore_c" where
  "count_errors errors prevSTT prevRTT peer =
     peer\<lparr>qc_errSTT := prevSTT, qc_errRTT := prevRTT, qc_total_errors := qc_total_errors peer + word_of_int errors,
          qc_last_error := qc_last_error peer + errors\<rparr>"

text \<open>The round trip before this one: that of the newest sample, or the one just measured if the list is empty.\<close>

definition prev_trips :: "AckStore_c \<Rightarrow> addr \<Rightarrow> stats_heap \<Rightarrow> (timeval \<times> timeval) res" where
  "prev_trips s prevackstore H =
     (if prevackstore \<noteq> NULL
      then map_res (\<lambda>c. (sc_RTT (c_data c), sc_STT (c_data c))) (deref (sh_samples H) prevackstore)
      else Ok (sc_RTT s, sc_STT s))"

definition next_sample_h :: "addr \<Rightarrow> addr \<Rightarrow> Ack \<Rightarrow> AckReceived \<Rightarrow> timeval \<Rightarrow> stats_world \<Rightarrow> stats_world res" where
  "next_sample_h peer m ack_s ack_r received w =
     (let s = sample_c peer ack_s ack_r received; H = sw_heap w in
      bind_res (deref (sh_peers H) peer) (\<lambda>p.
      bind_res (prev_trips s (qc_ack_store (c_data p)) H) (\<lambda>(prevRTT, prevSTT).
      if m = NULL then Err ProcessExit
      else
        bind_res (set_peer peer (lower_minima s) (H\<lparr>sh_samples := (sh_samples H)(m \<mapsto> \<lparr>c_data = s, sle_next = NULL\<rparr>)\<rparr>)) (\<lambda>H.
        bind_res (insert_sample peer m H) (\<lambda>H.
        bind_res (set_peer peer (set_latest s) H) (\<lambda>H.
        let (lost_acks, nacks) = remove_lost_acks ack_s (ar_cons ack_r) (sw_nacks w);
            ((errors, nacks), snd_r) = resend_ooo_nacks ack_s (sw_sender w) nacks
        in bind_res (if errors > 0 then set_peer peer (count_errors errors prevSTT prevRTT) H else Ok H) (\<lambda>H.
           map_res (\<lambda>H. w\<lparr>sw_heap := H, sw_nacks := nacks, sw_sender := snd_r\<rparr>) (note_highest_h m (a_seq ack_s) H))))))))"

definition ack_received_h ::
    "addr \<Rightarrow> addr \<Rightarrow> Ack \<Rightarrow> AckReceived \<Rightarrow> timeval \<Rightarrow> sockaddr_in \<Rightarrow> stats_world \<Rightarrow> (int \<times> stats_world) res option" where
  "ack_received_h mp ms ack_s ack_r received from w =
     (if sh_held (sw_heap w) then Some (Err Blocked)
      else then_run (find_peer_by_host_h from (sw_heap w)) (\<lambda>peer. Some (
        bind_res
          (if peer = NULL
           then map_res (\<lambda>H. w\<lparr>sw_heap := H, sw_nacks := snd (remove_ooo_nacks ack_s (sw_nacks w))\<rparr>)
                  (first_sample_h mp ms ack_s ack_r received from (sw_heap w))
           else next_sample_h peer ms ack_s ack_r received w) (\<lambda>w.
        if sd_data (a_d ack_s) ! 0 = NEED_ACK OR COOKIE_MSG
        then map_res (\<lambda>ack. (1, w\<lparr>sw_cookies := snd (cookie_received ack (sw_cookies w))\<rparr>)) (read_sample ms (sw_heap w))
        else Ok (1, w)))))"

text \<open>The report of \<open>bora_BWIter_iternext\<close>.\<close>

definition report_sample :: "addr \<Rightarrow> addr \<Rightarrow> sockaddr_in \<Rightarrow> addr \<Rightarrow> AckStore list \<times> stats_heap \<Rightarrow> (AckStore list \<times> stats_heap) res option" where
  "report_sample last_seq peer host cur = (\<lambda>(values, H).
     then_run (Some (deref (sh_samples H) cur)) (\<lambda>s.
     then_run (remove_sample peer cur H) (\<lambda>H.
     Some (map_res (Pair (values @ [sample_value host (c_data s)])) (if cur \<noteq> last_seq then free_sample cur H else Ok H)))))"

definition report_peer :: "addr \<Rightarrow> addr \<Rightarrow> PeerAckStore list \<times> stats_heap \<Rightarrow> (bool \<times> PeerAckStore list \<times> stats_heap) res option" where
  "report_peer last_seq peer = (\<lambda>(peers, H).
     then_run (Some (deref (sh_peers H) peer)) (\<lambda>p.
     map_option (map_res (\<lambda>(values, H). (False, peers @ [peer_value (c_data p) values], H)))
       (MYSLIST_FOREACH_SAFE (\<lambda>st. MYSLIST_NEXT (sh_samples (snd st))) (report_sample last_seq peer (qc_addr (c_data p)))
         (qc_ack_store (c_data p)) ([], H))))"

definition take_report :: "stats_heap \<Rightarrow> (PeerAckStore list \<times> AckStore option \<times> stats_heap) res option" where
  "take_report H =
     (let last_seq = sh_highest H in
      then_run (MYSLIST_FOREACH (\<lambda>st. MYSLIST_NEXT (sh_peers (snd st))) (report_peer last_seq) (sh_first H) ([], H)) (\<lambda>(_, peers, H).
      Some (if peers \<noteq> [] \<and> last_seq \<noteq> NULL
            then bind_res (read_sample last_seq H) (\<lambda>ls. map_res (\<lambda>H. (peers, Some ls, H)) (free_sample last_seq H))
            else Ok (peers, None, H))))"

definition bws_report_h :: "stats_world \<Rightarrow> (pyval \<times> stats_world) res option" where
  "bws_report_h w =
     (if sh_held (sw_heap w) then Some (Err Blocked)
      else then_run (take_report ((sw_heap w)\<lparr>sh_held := True\<rparr>)) (\<lambda>(peers, last_seq, H).
        case get_idle (sw_sender w) of (idle, s) \<Rightarrow>
          Some (Ok (PyDict [(''sent_data'', out_stats_dict (sw_sender w)), (''peer_stats'', PyList (map peer_report peers)),
                      (''last_ack'', last_ack_dict peers last_seq), (''last_nack'', PyInt (get_seq (sw_nacks w))),
                      (''idle'', py_l idle)],
             w\<lparr>sw_heap := H, sw_sender := s\<rparr>))))"

definition reset_last :: "PeerAckStore_c \<Rightarrow> PeerAckStore_c" where
  "reset_last c = c\<lparr>qc_last_acked := 0, qc_last_error := 0\<rparr>"

definition release_ack_store_h :: "stats_heap \<Rightarrow> stats_heap res option" where
  "release_ack_store_h H =
     map_option (map_res (\<lambda>(_, H). H\<lparr>sh_highest := NULL, sh_held := False\<rparr>))
       (MYSLIST_FOREACH (\<lambda>H. MYSLIST_NEXT (sh_peers H))
         (\<lambda>cur H. Some (map_res (Pair False) (set_peer cur reset_last H)))
         (sh_first H) H)"

section \<open>What the pointers represent\<close>

text \<open>
  A row is a peer's address, its fields and its samples with their addresses. \<open>stats_rep X L H\<close> says that
  the heap holds exactly the rows \<open>L\<close>, no sample in two lists, each pointing to its own peer, and besides them only
  the samples at the addresses \<open>X\<close>, unlinked and not freed yet.
\<close>

type_synonym peer_row = "addr \<times> PeerAckStore_c \<times> (addr \<times> AckStore_c) list"

definition peer_list :: "peer_row list \<Rightarrow> (addr \<times> PeerAckStore_c) list" where
  "peer_list L = map (\<lambda>(p, c, xs). (p, c\<lparr>qc_ack_store := first_of xs\<rparr>)) L"

definition samples_of :: "peer_row list \<Rightarrow> (addr \<times> AckStore_c) list" where
  "samples_of L = concat (map (\<lambda>(p, c, xs). xs) L)"

definition stats_rep :: "addr set \<Rightarrow> peer_row list \<Rightarrow> stats_heap \<Rightarrow> bool" where
  "stats_rep X L H \<longleftrightarrow> slist (sh_peers H) (sh_first H) (peer_list L) \<and> dom (sh_peers H) = fst ` set L \<and>
     (\<forall>(p, c, xs) \<in> set L. slist (sh_samples H) (first_of xs) xs \<and> (\<forall>y \<in> set xs. sc_addr (snd y) = p)) \<and>
     distinct (map fst (samples_of L)) \<and> addrs (samples_of L) \<inter> X = {} \<and> dom (sh_samples H) = addrs (samples_of L) \<union> X"

definition row_value :: "peer_row \<Rightarrow> PeerAckStore" where
  "row_value = (\<lambda>(p, c, xs). peer_value c (map (\<lambda>y. sample_value (qc_addr c) (snd y)) xs))"

text \<open>\<open>highest_seq\<close> is null or points to a sample that is still listed.\<close>

definition points_to :: "peer_row list \<Rightarrow> addr \<Rightarrow> AckStore option \<Rightarrow> bool" where
  "points_to L m v \<longleftrightarrow> (if m = NULL then v = None
     else \<exists>(p, c, xs) \<in> set L. \<exists>s. (m, s) \<in> set xs \<and> v = Some (sample_value (qc_addr c) s))"

definition stats_represents :: "stats_heap \<Rightarrow> peer_stats \<Rightarrow> bool" where
  "stats_represents H st \<longleftrightarrow> (\<exists>L. stats_rep {} L H \<and> peeracklist st = map row_value L \<and> ack_list_held st = sh_held H \<and>
     (sh_held H \<or> points_to L (sh_highest H) (highest_seq st)))"

lemma rows_simps [simp]:
  "samples_of [] = []" "samples_of ((p, c, xs) # L) = xs @ samples_of L" "samples_of (A @ B) = samples_of A @ samples_of B"
  "peer_list [] = []" "peer_list ((p, c, xs) # L) = (p, c\<lparr>qc_ack_store := first_of xs\<rparr>) # peer_list L"
  "peer_list (A @ B) = peer_list A @ peer_list B"
  "row_value (p, c, xs) = peer_value c (map (\<lambda>y. sample_value (qc_addr c) (snd y)) xs)"
  by (simp_all add: samples_of_def peer_list_def row_value_def)

lemma row_samples: "(p, c, xs) \<in> set L \<Longrightarrow> addrs xs \<subseteq> addrs (samples_of L)"
  unfolding addrs_def by (rule image_mono) (force simp: samples_of_def)

lemma stats_rep_row:
  "stats_rep X L H \<Longrightarrow> (p, c, xs) \<in> set L \<Longrightarrow> slist (sh_samples H) (first_of xs) xs"
  "stats_rep X L H \<Longrightarrow> (p, c, xs) \<in> set L \<Longrightarrow> y \<in> set xs \<Longrightarrow> sc_addr (snd y) = p"
  by (fastforce simp: stats_rep_def)+

lemma stats_rep_peer:
  assumes "stats_rep X (A @ (p, c, xs) # B) H"
  shows "deref (sh_peers H) p = Ok \<lparr>c_data = c\<lparr>qc_ack_store := first_of xs\<rparr>, sle_next = first_of (peer_list B)\<rparr>"
    and "p \<noteq> NULL" and "slist (sh_samples H) (first_of xs) xs" and "\<And>y. y \<in> set xs \<Longrightarrow> sc_addr (snd y) = p"
    and "addrs xs \<inter> addrs (samples_of (A @ B)) = {}" and "addrs xs \<inter> X = {}" and "addrs (samples_of (A @ B)) \<inter> X = {}"
    and "dom (sh_samples H) = addrs xs \<union> addrs (samples_of (A @ B)) \<union> X"
proof -
  have s: "slist (sh_peers H) (sh_first H) (peer_list A @ (p, c\<lparr>qc_ack_store := first_of xs\<rparr>) # peer_list B)"
    using assms by (simp add: stats_rep_def)
  show "deref (sh_peers H) p = Ok \<lparr>c_data = c\<lparr>qc_ack_store := first_of xs\<rparr>, sle_next = first_of (peer_list B)\<rparr>"
    by (rule deref_member [OF s])
  show "p \<noteq> NULL" by (rule slist_member(1) [OF s])
qed (use assms in \<open>auto simp: stats_rep_def\<close>)

text \<open>One row is replaced; the samples of the others are untouched.\<close>

lemma stats_rep_replace:
  assumes "stats_rep X (A @ (p, c, xs) # B) H"
    and "slist h' (first_of xs') xs'" and "\<And>y. y \<in> set xs' \<Longrightarrow> sc_addr (snd y) = p"
    and "\<And>b. b \<in> addrs (samples_of (A @ B)) \<Longrightarrow> h' b = sh_samples H b"
    and "addrs xs' \<inter> addrs (samples_of (A @ B)) = {}" and "X' \<inter> addrs (samples_of (A @ (p, c', xs') # B)) = {}"
    and "dom h' = addrs (samples_of (A @ (p, c', xs') # B)) \<union> X'"
  shows "stats_rep X' (A @ (p, c', xs') # B) (H\<lparr>sh_peers := (sh_peers H)(p \<mapsto>
     \<lparr>c_data = c'\<lparr>qc_ack_store := first_of xs'\<rparr>, sle_next = first_of (peer_list B)\<rparr>), sh_samples := h'\<rparr>)"
proof -
  let ?L = "A @ (p, c', xs') # B"
  note r = assms(1) [unfolded stats_rep_def]
  have s: "slist (sh_peers H) (sh_first H) (peer_list A @ (p, c\<lparr>qc_ack_store := first_of xs\<rparr>) # peer_list B)"
    using r by simp
  have "slist h' (first_of ys) ys" if "(q, k, ys) \<in> set (A @ B)" for q k ys
  proof -
    have "slist (sh_samples H) (first_of ys) ys" using stats_rep_row(1) [OF assms(1), of q k ys] that by auto
    then show ?thesis using assms(4) row_samples [OF that] by (subst slist_cong [of _ h' "sh_samples H"]) auto
  qed
  moreover have "sc_addr (snd y) = q" if "(q, k, ys) \<in> set (A @ B)" "y \<in> set ys" for q k ys y
    using stats_rep_row(2) [OF assms(1), of q k ys] that by auto
  ultimately have l: "\<forall>(q, k, ys) \<in> set ?L. slist h' (first_of ys) ys \<and> (\<forall>y \<in> set ys. sc_addr (snd y) = q)"
    using assms(2,3) by fastforce
  have "distinct (map fst xs')" using assms(2) by (rule slist_distinct)
  then have d: "distinct (map fst (samples_of ?L))" using r assms(5) by auto
  show ?thesis unfolding stats_rep_def
  proof (intro conjI)
    show "slist (sh_peers (H\<lparr>sh_peers := (sh_peers H)(p \<mapsto> \<lparr>c_data = c'\<lparr>qc_ack_store := first_of xs'\<rparr>,
        sle_next = first_of (peer_list B)\<rparr>), sh_samples := h'\<rparr>))
      (sh_first (H\<lparr>sh_peers := (sh_peers H)(p \<mapsto> \<lparr>c_data = c'\<lparr>qc_ack_store := first_of xs'\<rparr>,
        sle_next = first_of (peer_list B)\<rparr>), sh_samples := h'\<rparr>)) (peer_list ?L)"
      using slist_payload [OF s] by simp
  qed (use r assms(6,7) l d in auto)
qed

text \<open>Writing the fields of a peer.\<close>

lemma set_peer_rep:
  assumes "stats_rep X (A @ (p, c, xs) # B) H" and "\<And>c q. f (c\<lparr>qc_ack_store := q\<rparr>) = (f c)\<lparr>qc_ack_store := q\<rparr>"
  shows "\<exists>H'. set_peer p f H = Ok H' \<and> stats_rep X (A @ (p, f c, xs) # B) H' \<and> sh_samples H' = sh_samples H \<and>
    sh_highest H' = sh_highest H \<and> sh_held H' = sh_held H \<and> sh_first H' = sh_first H"
proof -
  note d = stats_rep_peer [OF assms(1)]
  let ?H = "H\<lparr>sh_peers := (sh_peers H)(p \<mapsto> \<lparr>c_data = (f c)\<lparr>qc_ack_store := first_of xs\<rparr>, sle_next = first_of (peer_list B)\<rparr>),
    sh_samples := sh_samples H\<rparr>"
  have "stats_rep X (A @ (p, f c, xs) # B) ?H"
    by (rule stats_rep_replace [OF assms(1)]) (use d in auto)
  moreover have "set_peer p f H = Ok ?H" using d(1) by (simp add: set_peer_def assign_def assms(2))
  ultimately show ?thesis by (intro exI [of _ ?H]) simp
qed

text \<open>A new sample at the head of a peer's list.\<close>

lemma insert_sample_rep:
  assumes "stats_rep (insert m X) (A @ (p, c, xs) # B) H" and "m \<notin> X" and "m \<noteq> NULL"
    and "sh_samples H m = Some \<lparr>c_data = s, sle_next = n\<rparr>" and "sc_addr s = p"
  shows "\<exists>H'. insert_sample p m H = Ok H' \<and> stats_rep X (A @ (p, c, (m, s) # xs) # B) H' \<and>
    sh_highest H' = sh_highest H \<and> sh_held H' = sh_held H \<and> sh_first H' = sh_first H"
proof -
  note d = stats_rep_peer [OF assms(1)]
  have m: "m \<notin> addrs xs" "m \<notin> addrs (samples_of (A @ B))" using d(6,7) by auto
  obtain h' where i: "MYSLIST_INSERT_HEAD (first_of xs) m (sh_samples H) = Ok (m, h')" "slist h' m ((m, s) # xs)"
    "\<And>b. b \<noteq> m \<Longrightarrow> h' b = sh_samples H b" using insert_head_slist [OF d(3) assms(3,4) m(1)] by auto
  have dom: "dom h' = dom (sh_samples H)"
  proof (rule set_eqI)
    show "b \<in> dom h' \<longleftrightarrow> b \<in> dom (sh_samples H)" for b
      using i(3) [of b] slist_allocated [OF i(2)] assms(4) by (cases "b = m") (auto simp: domIff)
  qed
  let ?H = "H\<lparr>sh_peers := (sh_peers H)(p \<mapsto> \<lparr>c_data = c\<lparr>qc_ack_store := first_of ((m, s) # xs)\<rparr>, sle_next = first_of (peer_list B)\<rparr>),
    sh_samples := h'\<rparr>"
  have "stats_rep X (A @ (p, c, (m, s) # xs) # B) ?H"
  proof (rule stats_rep_replace [OF assms(1)])
    show "h' b = sh_samples H b" if "b \<in> addrs (samples_of (A @ B))" for b using i(3) [of b] m(2) that by auto
    show "dom h' = addrs (samples_of (A @ (p, c, (m, s) # xs) # B)) \<union> X" using d(8) dom by auto
  qed (use d m i(2) assms(2,5) in auto)
  moreover have "insert_sample p m H = Ok ?H" using d(1) i(1) by (simp add: insert_sample_def set_peer_def assign_def)
  ultimately show ?thesis by (intro exI [of _ ?H]) simp
qed

text \<open>Unlinking the first sample of a list, which is the one the report has reached.\<close>

lemma remove_sample_rep:
  assumes "stats_rep X (A @ (p, c, (a, s) # ys) # B) H"
  shows "\<exists>H'. remove_sample p a H = Some (Ok H') \<and> stats_rep (insert a X) (A @ (p, c, ys) # B) H' \<and>
    sh_samples H' = sh_samples H \<and> sh_highest H' = sh_highest H \<and> sh_held H' = sh_held H \<and> sh_first H' = sh_first H"
proof -
  note d = stats_rep_peer [OF assms]
  note l = slist_ConsD [OF d(3)]
  let ?H = "H\<lparr>sh_peers := (sh_peers H)(p \<mapsto> \<lparr>c_data = c\<lparr>qc_ack_store := first_of ys\<rparr>, sle_next = first_of (peer_list B)\<rparr>),
    sh_samples := sh_samples H\<rparr>"
  have "a \<notin> addrs ys" using slist_distinct [OF d(3)] by simp
  then have "stats_rep (insert a X) (A @ (p, c, ys) # B) ?H"
    by (intro stats_rep_replace [OF assms]) (use d l(4) in auto)
  moreover have "MYSLIST_REMOVE a a (sh_samples H) = Some (Ok (first_of ys, sh_samples H))"
    using l(2,3) by (simp add: MYSLIST_REMOVE_def MYSLIST_REMOVE_HEAD_def MYSLIST_NEXT_def deref_def)
  then have "remove_sample p a H = Some (Ok ?H)" using d(1) by (simp add: remove_sample_def set_peer_def assign_def)
  ultimately show ?thesis by (intro exI [of _ ?H]) simp
qed

lemma free_sample_rep:
  assumes "stats_rep (insert a X) L H" and "a \<notin> X" and "a \<noteq> NULL"
  shows "\<exists>H'. free_sample a H = Ok H' \<and> stats_rep X L H' \<and> H' = H\<lparr>sh_samples := (sh_samples H)(a := None)\<rparr>"
proof -
  note r = assms(1) [unfolded stats_rep_def]
  let ?H = "H\<lparr>sh_samples := (sh_samples H)(a := None)\<rparr>"
  have "a \<in> dom (sh_samples H)" using r by auto
  then have f: "free_sample a H = Ok ?H" using assms(3) by (auto simp: free_sample_def free_cell_def deref_def)
  have "slist ((sh_samples H)(a := None)) (first_of xs) xs" if "(p, c, xs) \<in> set L" for p c xs
    using stats_rep_row(1) [OF assms(1) that] row_samples [OF that] r by (subst slist_cong [of _ _ "sh_samples H"]) auto
  then have l: "\<forall>(p, c, xs) \<in> set L. slist (sh_samples ?H) (first_of xs) xs \<and> (\<forall>y \<in> set xs. sc_addr (snd y) = p)"
    using stats_rep_row(2) [OF assms(1)] by auto
  have "addrs (samples_of L) \<inter> X = {}" "dom (sh_samples ?H) = addrs (samples_of L) \<union> X" using r assms(2) by auto
  with r l have "stats_rep X L ?H" by (simp add: stats_rep_def)
  then show ?thesis using f by simp
qed

section \<open>An acknowledgement\<close>

lemma find_peer_rows:
  "(find_peer_by_host host (map row_value L) = None \<and> dropWhile (\<lambda>y. qc_addr (snd y) \<noteq> host) (peer_list L) = []) \<or>
   (\<exists>A p c xs B. L = A @ (p, c, xs) # B \<and> qc_addr c = host \<and> find_peer_by_host host (map row_value L) = Some (length A) \<and>
      dropWhile (\<lambda>y. qc_addr (snd y) \<noteq> host) (peer_list L) = peer_list ((p, c, xs) # B))"
proof (induction L)
  case (Cons y L)
  obtain p c xs where y: "y = (p, c, xs)" by (cases y)
  show ?case
  proof (cases "qc_addr c = host")
    case True
    have "y # L = [] @ (p, c, xs) # L" by (simp add: y)
    then show ?thesis using True by (intro disjI2 exI conjI) (auto simp: y find_peer_by_host_def peer_value_def)
  next
    case False
    from Cons.IH show ?thesis
    proof (elim disjE exE conjE)
      fix A p' c' xs' B
      assume a: "L = A @ (p', c', xs') # B" "qc_addr c' = host" "find_peer_by_host host (map row_value L) = Some (length A)"
        "dropWhile (\<lambda>y. qc_addr (snd y) \<noteq> host) (peer_list L) = peer_list ((p', c', xs') # B)"
      have "y # L = (y # A) @ (p', c', xs') # B" using a(1) by simp
      then show ?thesis using a(2-4) False
        by (intro disjI2 exI conjI) (assumption, auto simp: y find_peer_by_host_def peer_value_def)
    qed (use False in \<open>auto simp: y find_peer_by_host_def peer_value_def\<close>)
  qed
qed (simp add: find_peer_by_host_def)

lemma find_peer_rep:
  assumes "stats_rep X L H"
  obtains (none) "find_peer_by_host host (map row_value L) = None" "find_peer_by_host_h host H = Some (Ok NULL)"
  | (found) A p c xs B where "L = A @ (p, c, xs) # B" "qc_addr c = host" "find_peer_by_host host (map row_value L) = Some (length A)"
      "find_peer_by_host_h host H = Some (Ok p)" "p \<noteq> NULL"
proof -
  have s: "slist (sh_peers H) (sh_first H) (peer_list L)" using assms by (simp add: stats_rep_def)
  from find_peer_rows [of host L] show thesis
  proof (elim disjE exE conjE)
    assume "find_peer_by_host host (map row_value L) = None" "dropWhile (\<lambda>y. qc_addr (snd y) \<noteq> host) (peer_list L) = []"
    then show thesis using slist_find_eq [OF s]
      by (intro none) (simp_all add: find_peer_by_host_h_def del: dropWhile_eq_Nil_conv)
  next
    fix A p c xs B
    assume a: "L = A @ (p, c, xs) # B" "qc_addr c = host" "find_peer_by_host host (map row_value L) = Some (length A)"
      "dropWhile (\<lambda>y. qc_addr (snd y) \<noteq> host) (peer_list L) = peer_list ((p, c, xs) # B)"
    then show thesis using slist_find_eq [OF s] stats_rep_peer(2) [of X A p c xs B H] assms
      by (intro found [of A p c xs B]) (simp_all add: find_peer_by_host_h_def)
  qed
qed

lemma sample_value_new: "sample_value from (sample_c peer ack_s ack_r received) = new_sample ack_s ack_r received from"
  by (simp add: sample_value_def sample_c_def new_sample_def)

lemma read_sample_rep:
  assumes "stats_rep X L H" and "(p, c, xs) \<in> set L" and "(m, s) \<in> set xs"
  shows "read_sample m H = Ok (sample_value (qc_addr c) s)" and "\<exists>n. deref (sh_samples H) m = Ok \<lparr>c_data = s, sle_next = n\<rparr>"
proof -
  obtain A B where L: "L = A @ (p, c, xs) # B" using split_list [OF assms(2)] by blast
  obtain us ys where xs: "xs = us @ (m, s) # ys" using split_list [OF assms(3)] by blast
  note d = stats_rep_peer [OF assms(1) [unfolded L]]
  have l: "deref (sh_samples H) m = Ok \<lparr>c_data = s, sle_next = first_of ys\<rparr>" using deref_member [OF d(3) [unfolded xs]] by simp
  then show "\<exists>n. deref (sh_samples H) m = Ok \<lparr>c_data = s, sle_next = n\<rparr>" by blast
  show "read_sample m H = Ok (sample_value (qc_addr c) s)" using l d(1) d(4) [OF assms(3)] by (simp add: read_sample_def)
qed

lemma points_to_grow:
  assumes "points_to (A @ (p, c, xs) # B) a v" and "qc_addr c' = qc_addr c" and "set xs \<subseteq> set xs'"
  shows "points_to (A @ (p, c', xs') # B) a v"
  using assms by (cases "a = NULL") (fastforce simp: points_to_def)+

text \<open>The sample \<open>highest_seq\<close> points to can be read.\<close>

definition readable :: "addr \<Rightarrow> AckStore option \<Rightarrow> AckStore_c store \<Rightarrow> bool" where
  "readable m v h \<longleftrightarrow> m \<noteq> NULL \<longrightarrow> (\<exists>s n host. deref h m = Ok \<lparr>c_data = s, sle_next = n\<rparr> \<and> v = Some (sample_value host s))"

lemma points_to_readable: "stats_rep X L H \<Longrightarrow> points_to L m v \<Longrightarrow> readable m v (sh_samples H)"
  unfolding readable_def points_to_def using read_sample_rep(2) by (fastforce split: if_splits)

lemma note_highest_points:
  assumes "readable (sh_highest H) v (sh_samples H)" and "points_to L (sh_highest H) v"
    and "(p, c, xs) \<in> set L" and "(m, s) \<in> set xs" and "m \<noteq> NULL"
  shows "\<exists>hi. note_highest_h m (sc_seq s) H = Ok (H\<lparr>sh_highest := hi\<rparr>) \<and> points_to L hi (note_highest (sample_value (qc_addr c) s) v)"
proof -
  have p: "points_to L m (Some (sample_value (qc_addr c) s))" using assms(3-5) by (fastforce simp: points_to_def)
  show ?thesis
  proof (cases "sh_highest H = NULL")
    case True
    then have "v = None" using assms(2) by (simp add: points_to_def)
    then show ?thesis using True p by (intro exI [of _ m]) (simp add: note_highest_h_def note_highest_def)
  next
    case False
    then obtain s' n host where d: "deref (sh_samples H) (sh_highest H) = Ok \<lparr>c_data = s', sle_next = n\<rparr>" "v = Some (sample_value host s')"
      using assms(1) by (auto simp: readable_def)
    show ?thesis
    proof (cases "sc_seq s' < sc_seq s")
      case True
      then show ?thesis using False d p by (intro exI [of _ m]) (simp add: note_highest_h_def note_highest_def sample_value_def)
    next
      case less: False
      then show ?thesis using False d assms(2)
        by (intro exI [of _ "sh_highest H"]) (simp add: note_highest_h_def note_highest_def sample_value_def)
    qed
  qed
qed

lemma first_sample_refines:
  assumes "stats_rep {} L H" and "points_to L (sh_highest H) v" and "peer \<notin> dom (sh_peers H)" and "m \<notin> dom (sh_samples H)"
    and "peer \<noteq> NULL" and "m \<noteq> NULL"
  shows "\<exists>H' c. first_sample_h peer m ack_s ack_r received from H = Ok H' \<and> sh_held H' = sh_held H \<and> qc_addr c = from \<and>
    stats_rep {} ((peer, c, [(m, sample_c peer ack_s ack_r received)]) # L) H' \<and>
    row_value (peer, c, [(m, sample_c peer ack_s ack_r received)]) = new_peer (new_sample ack_s ack_r received from) \<and>
    points_to ((peer, c, [(m, sample_c peer ack_s ack_r received)]) # L) (sh_highest H') (note_highest (new_sample ack_s ack_r received from) v)"
proof -
  let ?s = "sample_c peer ack_s ack_r received"
  let ?c = "new_peer_c from ?s"
  let ?L = "(peer, ?c, [(m, ?s)]) # L"
  let ?ps = "(sh_peers H)(peer \<mapsto> \<lparr>c_data = ?c, sle_next = NULL\<rparr>)" and ?h = "(sh_samples H)(m \<mapsto> \<lparr>c_data = ?s, sle_next = NULL\<rparr>)"
  have seq: "a_seq ack_s = sc_seq ?s" by (simp add: sample_c_def)
  have old: "points_to ?L (sh_highest H) v" using assms(2) by (auto simp: points_to_def)
  have "deref ?h b = deref (sh_samples H) b" if "deref (sh_samples H) b = Ok y" for b y
    using that assms(4) by (auto simp: deref_def split: if_splits option.splits)
  then have rd: "readable (sh_highest H) v ?h" using points_to_readable [OF assms(1,2)] unfolding readable_def by metis
  obtain hi where hi: "note_highest_h m (a_seq ack_s) (H\<lparr>sh_peers := ?ps, sh_samples := ?h\<rparr>) = Ok (H\<lparr>sh_peers := ?ps, sh_samples := ?h, sh_highest := hi\<rparr>)"
    "points_to ?L hi (note_highest (sample_value (qc_addr ?c) ?s) v)"
    unfolding seq using note_highest_points [of "H\<lparr>sh_peers := ?ps, sh_samples := ?h\<rparr>" v ?L peer ?c "[(m, ?s)]" m ?s] old rd assms(6)
    by auto
  let ?H = "H\<lparr>sh_first := peer, sh_peers := (sh_peers H)(peer \<mapsto> \<lparr>c_data = ?c\<lparr>qc_ack_store := m\<rparr>, sle_next = sh_first H\<rparr>),
    sh_samples := ?h, sh_highest := hi\<rparr>"
  have e: "first_sample_h peer m ack_s ack_r received from H = Ok ?H"
    using hi(1) assms(5,6) by (simp add: first_sample_h_def insert_sample_def set_peer_def assign_def deref_def MYSLIST_INSERT_HEAD_def
        new_peer_c_def MYSLIST_INIT_def Let_def)
  note r = assms(1) [unfolded stats_rep_def]
  have m: "m \<notin> addrs (samples_of L)" using r assms(4) by auto
  have p: "peer \<notin> addrs (peer_list L)" using slist_allocated [of "sh_peers H"] r assms(3) by blast
  have "slist ((sh_peers H)(peer \<mapsto> \<lparr>c_data = ?c\<lparr>qc_ack_store := m\<rparr>, sle_next = sh_first H\<rparr>)) (sh_first H) (peer_list L)"
    using r p by (subst slist_cong [of _ _ "sh_peers H"]) auto
  then have s: "slist (sh_peers ?H) (sh_first ?H) (peer_list ?L)" using assms(5) by (simp add: slist_Cons)
  have "slist ?h (first_of xs) xs" if "(q, c, xs) \<in> set L" for q c xs
    using stats_rep_row(1) [OF assms(1) that] row_samples [OF that] m by (subst slist_cong [of _ _ "sh_samples H"]) auto
  then have l: "\<forall>(q, c, xs) \<in> set ?L. slist (sh_samples ?H) (first_of xs) xs \<and> (\<forall>y \<in> set xs. sc_addr (snd y) = q)"
    using assms(6) stats_rep_row(2) [OF assms(1)] by (auto simp: slist_Cons sample_c_def)
  have "distinct (map fst (samples_of ?L))" "dom (sh_samples ?H) = addrs (samples_of ?L)" "dom (sh_peers ?H) = fst ` set ?L"
    using r m by auto
  then have "stats_rep {} ?L ?H" using s l by (simp add: stats_rep_def)
  moreover have "qc_addr ?c = from" "row_value (peer, ?c, [(m, ?s)]) = new_peer (new_sample ack_s ack_r received from)"
    by (simp_all add: new_peer_c_def new_peer_def peer_value_def sample_value_new) (simp_all add: new_sample_def sample_c_def)
  ultimately show ?thesis using e hi(2) by (intro exI [of _ ?H] exI [of _ ?c]) (simp add: sample_value_new)
qed

lemma alloc_sample_rep:
  assumes "stats_rep X L H" and "m \<notin> dom (sh_samples H)"
  shows "stats_rep (insert m X) L (H\<lparr>sh_samples := (sh_samples H)(m \<mapsto> y)\<rparr>)"
proof -
  note r = assms(1) [unfolded stats_rep_def]
  have m: "m \<notin> addrs (samples_of L)" using r assms(2) by auto
  have "slist ((sh_samples H)(m \<mapsto> y)) (first_of xs) xs" if "(q, c, xs) \<in> set L" for q c xs
    using stats_rep_row(1) [OF assms(1) that] row_samples [OF that] m by (subst slist_cong [of _ _ "sh_samples H"]) auto
  then have l: "\<forall>(q, c, xs) \<in> set L. slist ((sh_samples H)(m \<mapsto> y)) (first_of xs) xs \<and> (\<forall>z \<in> set xs. sc_addr (snd z) = q)"
    using stats_rep_row(2) [OF assms(1)] by auto
  have "addrs (samples_of L) \<inter> insert m X = {}" "dom ((sh_samples H)(m \<mapsto> y)) = addrs (samples_of L) \<union> insert m X"
    using r m by auto
  with r l show ?thesis by (simp add: stats_rep_def)
qed

lemma prev_trips_rep:
  assumes "stats_rep X (A @ (p, c, xs) # B) H"
  shows "prev_trips s (first_of xs) H = Ok (case xs of [] \<Rightarrow> (sc_RTT s, sc_STT s) | y # _ \<Rightarrow> (sc_RTT (snd y), sc_STT (snd y)))"
  using slist_ConsD [of "sh_samples H"] stats_rep_peer(3) [OF assms]
  by (cases xs) (force simp: prev_trips_def deref_def)+

lemma peer_fields:
  "qc_addr (lower_minima s c) = qc_addr c" "qc_addr (set_latest s c) = qc_addr c" "qc_addr (count_errors n a b c) = qc_addr c"
  "lower_minima s (c\<lparr>qc_ack_store := q\<rparr>) = (lower_minima s c)\<lparr>qc_ack_store := q\<rparr>"
  "set_latest s (c\<lparr>qc_ack_store := q\<rparr>) = (set_latest s c)\<lparr>qc_ack_store := q\<rparr>"
  "count_errors n a b (c\<lparr>qc_ack_store := q\<rparr>) = (count_errors n a b c)\<lparr>qc_ack_store := q\<rparr>"
  by (simp_all add: lower_minima_def set_latest_def count_errors_def)

lemma updated_row:
  "row_value (p, if n > 0 then count_errors n a b (set_latest s (lower_minima s c)) else set_latest s (lower_minima s c), (m, s) # xs) =
     add_errors n a b (add_sample (sample_value (qc_addr c) s) (row_value (p, c, xs)))"
  by (simp add: peer_fields(1-3) peer_value_def lower_minima_def set_latest_def count_errors_def add_errors_def add_sample_def sample_value_def)

text \<open>The branch of a known peer, up to the retransmissions, which do not concern the statistics.\<close>

lemma next_sample_refines:
  assumes "stats_rep {} (A @ (peer, c, xs) # B) (sw_heap w)" and "points_to (A @ (peer, c, xs) # B) (sh_highest (sw_heap w)) v"
    and "m \<notin> dom (sh_samples (sw_heap w))" and "m \<noteq> NULL"
    and "remove_lost_acks ack_s (ar_cons ack_r) (sw_nacks w) = (lost, nacks)"
    and "resend_ooo_nacks ack_s (sw_sender w) nacks = ((errors, nacks'), snd_r)"
    and s_def: "s = sample_c peer ack_s ack_r received"
  shows "\<exists>H' c'. next_sample_h peer m ack_s ack_r received w = Ok (w\<lparr>sw_heap := H', sw_nacks := nacks', sw_sender := snd_r\<rparr>) \<and>
    sh_held H' = sh_held (sw_heap w) \<and> qc_addr c' = qc_addr c \<and> stats_rep {} (A @ (peer, c', (m, s) # xs) # B) H' \<and>
    row_value (peer, c', (m, s) # xs) = (case (case xs of [] \<Rightarrow> (sc_RTT s, sc_STT s) | y # _ \<Rightarrow> (sc_RTT (snd y), sc_STT (snd y))) of
       (prevRTT, prevSTT) \<Rightarrow> add_errors errors prevSTT prevRTT (add_sample (sample_value (qc_addr c) s) (row_value (peer, c, xs)))) \<and>
    points_to (A @ (peer, c', (m, s) # xs) # B) (sh_highest H') (note_highest (sample_value (qc_addr c) s) v)"
proof -
  let ?H = "sw_heap w"
  obtain prevRTT prevSTT where prev: "(case xs of [] \<Rightarrow> (sc_RTT s, sc_STT s) | y # _ \<Rightarrow> (sc_RTT (snd y), sc_STT (snd y))) = (prevRTT, prevSTT)"
    by (rule prod.exhaust)
  let ?Ha = "?H\<lparr>sh_samples := (sh_samples ?H)(m \<mapsto> \<lparr>c_data = s, sle_next = NULL\<rparr>)\<rparr>"
  let ?c2 = "set_latest s (lower_minima s c)"
  let ?c3 = "if errors > 0 then count_errors errors prevSTT prevRTT ?c2 else ?c2"
  have r0: "stats_rep {m} (A @ (peer, c, xs) # B) ?Ha"
    using alloc_sample_rep [OF assms(1,3)] by simp
  obtain H1 where 1: "set_peer peer (lower_minima s) ?Ha = Ok H1" "stats_rep {m} (A @ (peer, lower_minima s c, xs) # B) H1"
    "sh_samples H1 = sh_samples ?Ha" "sh_highest H1 = sh_highest ?H" "sh_held H1 = sh_held ?H"
    using set_peer_rep [OF r0, of "lower_minima s"] by (auto simp: peer_fields)
  have m1: "sh_samples H1 m = Some \<lparr>c_data = s, sle_next = NULL\<rparr>" "sc_addr s = peer" by (simp_all add: 1(3) s_def sample_c_def)
  obtain H2 where 2: "insert_sample peer m H1 = Ok H2" "stats_rep {} (A @ (peer, lower_minima s c, (m, s) # xs) # B) H2"
    "sh_highest H2 = sh_highest ?H" "sh_held H2 = sh_held ?H"
    using insert_sample_rep [OF 1(2) _ assms(4) m1] 1(4,5) by auto
  obtain H3 where 3: "set_peer peer (set_latest s) H2 = Ok H3" "stats_rep {} (A @ (peer, ?c2, (m, s) # xs) # B) H3"
    "sh_highest H3 = sh_highest ?H" "sh_held H3 = sh_held ?H"
    using set_peer_rep [OF 2(2), of "set_latest s"] 2(3,4) by (auto simp: peer_fields)
  have "\<exists>H4. (if errors > 0 then set_peer peer (count_errors errors prevSTT prevRTT) H3 else Ok H3) = Ok H4 \<and>
      stats_rep {} (A @ (peer, ?c3, (m, s) # xs) # B) H4 \<and> sh_highest H4 = sh_highest ?H \<and> sh_held H4 = sh_held ?H"
    using set_peer_rep [OF 3(2), of "count_errors errors prevSTT prevRTT"] 3(2-4) by (auto simp: peer_fields)
  then obtain H4 where 4: "(if errors > 0 then set_peer peer (count_errors errors prevSTT prevRTT) H3 else Ok H3) = Ok H4"
    "stats_rep {} (A @ (peer, ?c3, (m, s) # xs) # B) H4" "sh_highest H4 = sh_highest ?H" "sh_held H4 = sh_held ?H" by blast
  let ?L = "A @ (peer, ?c3, (m, s) # xs) # B"
  have c3: "qc_addr ?c3 = qc_addr c" by (simp add: peer_fields)
  have p: "points_to ?L (sh_highest H4) v" unfolding 4(3) by (rule points_to_grow [OF assms(2) c3]) auto
  obtain hi where hi: "note_highest_h m (sc_seq s) H4 = Ok (H4\<lparr>sh_highest := hi\<rparr>)"
    "points_to ?L hi (note_highest (sample_value (qc_addr c) s) v)"
    using note_highest_points [OF points_to_readable [OF 4(2) p] p, of peer ?c3 "(m, s) # xs" m s] assms(4) c3 by auto
  have seq: "a_seq ack_s = sc_seq s" by (simp add: s_def sample_c_def)
  have "next_sample_h peer m ack_s ack_r received w =
      Ok (w\<lparr>sw_heap := H4\<lparr>sh_highest := hi\<rparr>, sw_nacks := nacks', sw_sender := snd_r\<rparr>)"
    using stats_rep_peer(1) [OF assms(1)] prev_trips_rep [OF assms(1), of s] 1(1) 2(1) 3(1) 4(1) hi(1) assms(4-6)
    by (simp add: next_sample_h_def Let_def prev seq flip: s_def)
  moreover have "stats_rep {} ?L (H4\<lparr>sh_highest := hi\<rparr>)" using 4(2) by (simp add: stats_rep_def)
  ultimately show ?thesis using hi(2) 4(4) c3 updated_row [of peer errors prevSTT prevRTT s c m xs]
    by (intro exI [of _ "H4\<lparr>sh_highest := hi\<rparr>"] exI [of _ ?c3]) (simp add: prev)
qed

text \<open>\<open>stats_sim\<close> relates the program with pointers to the program with lists.\<close>

definition stats_sim :: "stats_world \<Rightarrow> ack_world \<Rightarrow> bool" where
  "stats_sim w v \<longleftrightarrow> stats_represents (sw_heap w) (aw_peers v) \<and> sw_nacks w = aw_nacks v \<and> sw_sender w = aw_sender v \<and>
     sw_cookies w = aw_cookies v"

lemma stats_representsI:
  "stats_rep {} L H \<Longrightarrow> peeracklist st = map row_value L \<Longrightarrow> ack_list_held st = sh_held H \<Longrightarrow>
     sh_held H \<or> points_to L (sh_highest H) (highest_seq st) \<Longrightarrow> stats_represents H st"
  by (auto simp: stats_represents_def)

lemma ack_received_refines:
  assumes sim: "stats_sim w v" and "mp \<notin> dom (sh_peers (sw_heap w))" and "ms \<notin> dom (sh_samples (sw_heap w))"
    and "mp \<noteq> NULL" and "ms \<noteq> NULL"
  shows "case ack_received ack_s ack_r received host v of Err e \<Rightarrow> ack_received_h mp ms ack_s ack_r received host w = Some (Err e)
    | Ok (n, v') \<Rightarrow> \<exists>w'. ack_received_h mp ms ack_s ack_r received host w = Some (Ok (n, w')) \<and> stats_sim w' v'"
proof -
  let ?H = "sw_heap w" and ?s = "new_sample ack_s ack_r received host" and ?st = "aw_peers v"
  let ?cookie = "sd_data (a_d ack_s) ! 0 = NEED_ACK OR COOKIE_MSG"
  obtain L where L: "stats_rep {} L ?H" "peeracklist ?st = map row_value L" "ack_list_held ?st = sh_held ?H"
    "sh_held ?H \<or> points_to L (sh_highest ?H) (highest_seq ?st)"
    using sim by (auto simp: stats_sim_def stats_represents_def)
  have same: "sw_nacks w = aw_nacks v" "sw_sender w = aw_sender v" "sw_cookies w = aw_cookies v"
    using sim by (simp_all add: stats_sim_def)
  show ?thesis
  proof (cases "sh_held ?H")
    case True
    then show ?thesis using L(3) by (simp add: ack_received_def ack_received_h_def Let_def)
  next
    case free: False
    note pt = L(4) [simplified free simp_thms]
    have "\<exists>w1 v1. stats_sim w1 v1 \<and> sw_cookies w1 = aw_cookies v \<and> read_sample ms (sw_heap w1) = Ok ?s \<and>
      ack_received ack_s ack_r received host v = Ok (1, if ?cookie then v1\<lparr>aw_cookies := snd (cookie_received ?s (aw_cookies v))\<rparr> else v1) \<and>
      ack_received_h mp ms ack_s ack_r received host w = Some (if ?cookie
        then map_res (\<lambda>ack. (1, w1\<lparr>sw_cookies := snd (cookie_received ack (sw_cookies w1))\<rparr>)) (read_sample ms (sw_heap w1)) else Ok (1, w1))"
    proof (cases rule: find_peer_rep [OF L(1), of host])
      case 1
      obtain H' c where f: "first_sample_h mp ms ack_s ack_r received host ?H = Ok H'" "sh_held H' = sh_held ?H" "qc_addr c = host"
        "stats_rep {} ((mp, c, [(ms, sample_c mp ack_s ack_r received)]) # L) H'"
        "row_value (mp, c, [(ms, sample_c mp ack_s ack_r received)]) = new_peer ?s"
        "points_to ((mp, c, [(ms, sample_c mp ack_s ack_r received)]) # L) (sh_highest H') (note_highest ?s (highest_seq ?st))"
        using first_sample_refines [OF L(1) pt assms(2-5), of ack_s ack_r received host] by blast
      let ?w1 = "w\<lparr>sw_heap := H', sw_nacks := snd (remove_ooo_nacks ack_s (sw_nacks w))\<rparr>"
      let ?v1 = "v\<lparr>aw_nacks := snd (remove_ooo_nacks ack_s (aw_nacks v)), aw_peers := ?st\<lparr>peeracklist := new_peer ?s # peeracklist ?st,
        highest_seq := note_highest ?s (highest_seq ?st)\<rparr>\<rparr>"
      have "stats_represents H' (aw_peers ?v1)"
        by (rule stats_representsI [OF f(4)]) (use f L(2,3) in \<open>simp_all del: rows_simps(7)\<close>)
      then have "stats_sim ?w1 ?v1" by (simp add: stats_sim_def same)
      moreover have "read_sample ms H' = Ok ?s"
        using read_sample_rep(1) [OF f(4), of mp c "[(ms, sample_c mp ack_s ack_r received)]" ms] f(3) by (simp add: sample_value_new)
      ultimately show ?thesis using 1 f(1) free L(2,3) same
        by (intro exI [of _ ?w1] exI [of _ ?v1]) (simp add: ack_received_h_def ack_received_def Let_def)
    next
      case (2 A p c xs B)
      obtain lost nacks where l: "remove_lost_acks ack_s (ar_cons ack_r) (aw_nacks v) = (lost, nacks)" by (rule prod.exhaust)
      obtain errors nacks' snd_r where o: "resend_ooo_nacks ack_s (aw_sender v) nacks = ((errors, nacks'), snd_r)" by (metis surj_pair)
      let ?sc = "sample_c p ack_s ack_r received"
      let ?prev = "case xs of [] \<Rightarrow> (sc_RTT ?sc, sc_STT ?sc) | y # _ \<Rightarrow> (sc_RTT (snd y), sc_STT (snd y))"
      obtain prevRTT prevSTT where prev: "?prev = (prevRTT, prevSTT)" by (rule prod.exhaust)
      let ?row = "add_errors errors prevSTT prevRTT (add_sample ?s (row_value (p, c, xs)))"
      obtain H' c' where f: "next_sample_h p ms ack_s ack_r received w = Ok (w\<lparr>sw_heap := H', sw_nacks := nacks', sw_sender := snd_r\<rparr>)"
        "sh_held H' = sh_held ?H" "qc_addr c' = host" "stats_rep {} (A @ (p, c', (ms, ?sc) # xs) # B) H'"
        "row_value (p, c', (ms, ?sc) # xs) = ?row"
        "points_to (A @ (p, c', (ms, ?sc) # xs) # B) (sh_highest H') (note_highest ?s (highest_seq ?st))"
        using next_sample_refines [OF L(1) [unfolded 2(1)] pt [unfolded 2(1)] assms(3,5), of ack_s ack_r lost nacks errors nacks' snd_r _ received]
          l o same prev 2(2) by (auto simp: sample_value_new)
      let ?w1 = "w\<lparr>sw_heap := H', sw_nacks := nacks', sw_sender := snd_r\<rparr>"
      let ?v1 = "v\<lparr>aw_nacks := nacks', aw_sender := snd_r, aw_peers := ?st\<lparr>peeracklist := (peeracklist ?st)[length A := ?row],
        highest_seq := note_highest ?s (highest_seq ?st)\<rparr>\<rparr>"
      have "stats_represents H' (aw_peers ?v1)"
        by (rule stats_representsI [OF f(4)]) (use f L(2,3) 2(1) in \<open>simp_all add: list_update_append del: rows_simps(7)\<close>)
      then have "stats_sim ?w1 ?v1" by (simp add: stats_sim_def same)
      moreover have "read_sample ms H' = Ok ?s"
        using read_sample_rep(1) [OF f(4), of p c' "(ms, ?sc) # xs" ms ?sc] f(3) by (simp add: sample_value_new)
      moreover have "peeracklist ?st ! length A = row_value (p, c, xs)" using L(2) 2(1) by (simp add: nth_append)
      moreover have "(case ps_ack_store (row_value (p, c, xs)) of [] \<Rightarrow> (as_RTT ?s, as_STT ?s) | q # _ \<Rightarrow> (as_RTT q, as_STT q)) = (prevRTT, prevSTT)"
        using prev by (cases xs) (auto simp: peer_value_def sample_value_def sample_c_def new_sample_def)
      ultimately show ?thesis using 2(3-5) f(1) free L(2,3) same l o
        by (intro exI [of _ ?w1] exI [of _ ?v1]) (simp add: ack_received_h_def ack_received_def Let_def del: rows_simps(7))
    qed
    then obtain w1 v1 where f: "stats_sim w1 v1" "sw_cookies w1 = aw_cookies v" "read_sample ms (sw_heap w1) = Ok ?s"
      "ack_received ack_s ack_r received host v = Ok (1, if ?cookie then v1\<lparr>aw_cookies := snd (cookie_received ?s (aw_cookies v))\<rparr> else v1)"
      "ack_received_h mp ms ack_s ack_r received host w = Some (if ?cookie
        then map_res (\<lambda>ack. (1, w1\<lparr>sw_cookies := snd (cookie_received ack (sw_cookies w1))\<rparr>)) (read_sample ms (sw_heap w1)) else Ok (1, w1))"
      by blast
    then show ?thesis by (cases ?cookie) (simp_all add: stats_sim_def)
  qed
qed

section \<open>The report\<close>

text \<open>
  The walk over one peer's samples empties its list; \<open>X\<close> grows by the sample \<open>last_seq\<close> points to,
  if it is one of them, and every other sample is freed.
\<close>

lemma report_samples_rep:
  assumes "stats_rep X (A @ (p, c, xs) # B) H" and "X \<subseteq> {last_seq}"
  shows "\<exists>H'. MYSLIST_FOREACH_SAFE (\<lambda>st. MYSLIST_NEXT (sh_samples (snd st))) (report_sample last_seq p host) (first_of xs) ([], H) =
      Some (Ok (map (\<lambda>y. sample_value host (snd y)) xs, H')) \<and>
    stats_rep (X \<union> ({last_seq} \<inter> addrs xs)) (A @ (p, c, []) # B) H' \<and> sh_samples H' last_seq = sh_samples H last_seq \<and>
    sh_highest H' = sh_highest H \<and> sh_held H' = sh_held H \<and> sh_first H' = sh_first H"
proof -
  define I where "I = (\<lambda>us ys st. stats_rep (X \<union> ({last_seq} \<inter> addrs us)) (A @ (p, c, ys) # B) (snd st) \<and>
    fst st = map (\<lambda>y. sample_value host (snd y)) us \<and> sh_samples (snd st) last_seq = sh_samples H last_seq \<and>
    sh_highest (snd st) = sh_highest H \<and> sh_held (snd st) = sh_held H \<and> sh_first (snd st) = sh_first H)"
  have "\<exists>st. MYSLIST_FOREACH_SAFE (\<lambda>st. MYSLIST_NEXT (sh_samples (snd st))) (report_sample last_seq p host) (first_of xs) ([], H) =
    Some (Ok st) \<and> I ([] @ xs) [] st"
  proof (rule foreach_safe_rule)
    show "I [] xs ([], H)" using assms(1) by (simp add: I_def)
    fix us y ys and st :: "AckStore list \<times> stats_heap"
    assume i: "I us (y # ys) st"
    obtain a s where y: "y = (a, s)" by (cases y)
    obtain vs H1 where st: "st = (vs, H1)" by (cases st)
    let ?X = "X \<union> ({last_seq} \<inter> addrs us)"
    have h: "stats_rep ?X (A @ (p, c, (a, s) # ys) # B) H1" "vs = map (\<lambda>y. sample_value host (snd y)) us"
      "sh_samples H1 last_seq = sh_samples H last_seq" "sh_highest H1 = sh_highest H" "sh_held H1 = sh_held H" "sh_first H1 = sh_first H"
      using i by (simp_all add: I_def y st)
    note l = slist_ConsD [OF stats_rep_peer(3) [OF h(1)]]
    have a: "a \<notin> ?X" using stats_rep_peer(6) [OF h(1)] by auto
    have nx: "MYSLIST_NEXT (sh_samples H1) a = Ok (first_of ys)" using l by (simp add: MYSLIST_NEXT_def deref_def)
    obtain H2 where r: "remove_sample p a H1 = Some (Ok H2)" "stats_rep (insert a ?X) (A @ (p, c, ys) # B) H2"
      "sh_samples H2 = sh_samples H1" "sh_highest H2 = sh_highest H" "sh_held H2 = sh_held H" "sh_first H2 = sh_first H"
      using remove_sample_rep [OF h(1)] h(4-6) by auto
    have d: "deref (sh_samples H1) a = Ok \<lparr>c_data = s, sle_next = first_of ys\<rparr>" using l(2,3) by (simp add: deref_def)
    have "\<exists>s'. report_sample last_seq p host a st = Some (Ok s') \<and> I (us @ [(a, s)]) ys s'"
    proof (cases "a = last_seq")
      case True
      then have "insert a ?X = X \<union> ({last_seq} \<inter> addrs (us @ [(a, s)]))" using assms(2) by auto
      then show ?thesis using True d r h by (simp add: report_sample_def st I_def)
    next
      case False
      then have e: "X \<union> ({last_seq} \<inter> addrs (us @ [(a, s)])) = ?X" by auto
      obtain H3 where h3: "free_sample a H2 = Ok H3" "stats_rep ?X (A @ (p, c, ys) # B) H3" "H3 = H2\<lparr>sh_samples := (sh_samples H2)(a := None)\<rparr>"
        using free_sample_rep [OF r(2) a l(2)] by blast
      have "I (us @ [(a, s)]) ys (vs @ [sample_value host s], H3)" using h3(2,3) False r(3-6) h(2,3) unfolding I_def e by simp
      then show ?thesis using False d r(1) h3(1) by (simp add: report_sample_def st)
    qed
    then show "fst y \<noteq> NULL \<and> MYSLIST_NEXT (sh_samples (snd st)) (fst y) = Ok (first_of ys) \<and>
        (\<exists>s'. report_sample last_seq p host (fst y) st = Some (Ok s') \<and> I (us @ [y]) ys s')"
      using l(2) nx by (simp add: y st)
  qed
  then show ?thesis by (auto simp: I_def)
qed

definition emptied :: "peer_row list \<Rightarrow> peer_row list" where
  "emptied L = map (\<lambda>(p, c, xs). (p, c, [])) L"

lemma emptied_simps [simp]:
  "emptied [] = []" "emptied ((p, c, xs) # L) = (p, c, []) # emptied L" "samples_of (emptied L) = []"
  "map row_value (emptied L) = map (\<lambda>q. q\<lparr>ps_ack_store := []\<rparr>) (map row_value L)" "emptied L = [] \<longleftrightarrow> L = []"
  by (auto simp: emptied_def samples_of_def row_value_def peer_value_def)

lemma report_peers_rep:
  "stats_rep X (A @ B) H \<Longrightarrow> X \<subseteq> {last_seq} \<Longrightarrow>
     \<exists>H'. MYSLIST_FOREACH (\<lambda>st. MYSLIST_NEXT (sh_peers (snd st))) (report_peer last_seq) (first_of (peer_list B)) (vs, H) =
       Some (Ok (NULL, vs @ map row_value B, H')) \<and>
     stats_rep (X \<union> ({last_seq} \<inter> addrs (samples_of B))) (A @ emptied B) H' \<and> sh_samples H' last_seq = sh_samples H last_seq \<and>
     sh_highest H' = sh_highest H \<and> sh_held H' = sh_held H \<and> sh_first H' = sh_first H"
proof (induction B arbitrary: A X H vs)
  case Nil
  then show ?case by (subst MYSLIST_FOREACH.simps) simp
next
  case (Cons y B)
  obtain p c xs where y: "y = (p, c, xs)" by (cases y)
  note r = Cons.prems(1) [unfolded y]
  note d = stats_rep_peer [OF r]
  obtain H1 where w: "MYSLIST_FOREACH_SAFE (\<lambda>st. MYSLIST_NEXT (sh_samples (snd st))) (report_sample last_seq p (qc_addr c)) (first_of xs) ([], H) =
      Some (Ok (map (\<lambda>y. sample_value (qc_addr c) (snd y)) xs, H1))"
    "stats_rep (X \<union> ({last_seq} \<inter> addrs xs)) (A @ (p, c, []) # B) H1" "sh_samples H1 last_seq = sh_samples H last_seq"
    "sh_highest H1 = sh_highest H" "sh_held H1 = sh_held H" "sh_first H1 = sh_first H"
    using report_samples_rep [OF r Cons.prems(2), of "qc_addr c"] by blast
  have v: "peer_value (c\<lparr>qc_ack_store := q\<rparr>) zs = peer_value c zs" for q zs by (simp add: peer_value_def)
  have nx: "MYSLIST_NEXT (sh_peers H1) p = Ok (first_of (peer_list B))"
    using stats_rep_peer(1) [OF w(2)] by (simp add: MYSLIST_NEXT_def)
  have r1: "stats_rep (X \<union> ({last_seq} \<inter> addrs xs)) ((A @ [(p, c, [])]) @ B) H1" using w(2) by simp
  have x: "X \<union> ({last_seq} \<inter> addrs xs) \<subseteq> {last_seq}" using Cons.prems(2) by auto
  have e: "X \<union> ({last_seq} \<inter> addrs xs) \<union> ({last_seq} \<inter> addrs (samples_of B)) = X \<union> ({last_seq} \<inter> addrs (samples_of (y # B)))"
    by (auto simp: y)
  have b: "report_peer last_seq p (vs, H) = Some (Ok (False, vs @ [row_value y], H1))"
    using d(1) w(1) by (simp add: report_peer_def y v)
  show ?case using d(2) w(3-6) nx b Cons.IH [OF r1 x, of "vs @ [row_value y]"] unfolding e
    by (subst MYSLIST_FOREACH.simps) (simp add: y)
qed

text \<open>
  The whole report: what was listed is read, every sample is freed, \<open>last_seq\<close> after it has been read.
\<close>

lemma take_report_rep:
  assumes "stats_rep {} L H" and "points_to L (sh_highest H) v"
  shows "\<exists>H' ls. take_report H = Some (Ok (map row_value L, ls, H')) \<and> last_ack_dict (map row_value L) ls = last_ack_dict (map row_value L) v \<and>
    stats_rep {} (emptied L) H' \<and> sh_held H' = sh_held H"
proof -
  let ?l = "sh_highest H"
  have f: "sh_first H = first_of (peer_list L)" using assms(1) by (auto simp: stats_rep_def intro: slist_first)
  obtain H1 where 1: "MYSLIST_FOREACH (\<lambda>st. MYSLIST_NEXT (sh_peers (snd st))) (report_peer ?l) (sh_first H) ([], H) =
      Some (Ok (NULL, map row_value L, H1))" "stats_rep ({?l} \<inter> addrs (samples_of L)) (emptied L) H1"
    "sh_samples H1 ?l = sh_samples H ?l" "sh_held H1 = sh_held H"
    using report_peers_rep [of "{}" "[]" L H ?l "[]"] assms(1) f by auto
  show ?thesis
  proof (cases "?l = NULL")
    case True
    have "NULL \<notin> addrs (samples_of L)"
    proof
      assume "NULL \<in> addrs (samples_of L)"
      then obtain us s vs where "samples_of L = us @ (NULL, s) # vs" using addrs_split by blast
      then have "(NULL, s) \<in> set (samples_of L)" by simp
      then obtain p c xs where "(p, c, xs) \<in> set L" "(NULL, s) \<in> set xs" by (auto simp: samples_of_def)
      then show False using slist_not_null [OF stats_rep_row(1) [OF assms(1)], of p c xs "(NULL, s)"] by simp
    qed
    moreover have "v = None" using True assms(2) by (simp add: points_to_def)
    ultimately show ?thesis using True 1 by (intro exI [of _ H1] exI [of _ None]) (simp add: take_report_def)
  next
    case False
    then obtain p c xs s where r: "(p, c, xs) \<in> set L" "(?l, s) \<in> set xs" "v = Some (sample_value (qc_addr c) s)"
      using assms(2) by (auto simp: points_to_def)
    have "fst (?l, s) \<in> fst ` set xs" using r(2) by (rule imageI)
    then have "?l \<in> addrs (samples_of L)" using row_samples [OF r(1)] by auto
    then have r1: "stats_rep (insert ?l {}) (emptied L) H1" using 1(2) by simp
    obtain n where d: "deref (sh_samples H) ?l = Ok \<lparr>c_data = s, sle_next = n\<rparr>" using read_sample_rep(2) [OF assms(1) r(1,2)] by blast
    have sp: "sc_addr s = p" using stats_rep_row(2) [OF assms(1) r(1,2)] by simp
    obtain A B where "emptied L = A @ (p, c, []) # B"
      using r(1) split_list [of "(p, c, [])" "emptied L"] by (force simp: emptied_def)
    then have "\<exists>n q. deref (sh_peers H1) p = Ok \<lparr>c_data = c\<lparr>qc_ack_store := q\<rparr>, sle_next = n\<rparr>"
      using stats_rep_peer(1) r1 by metis
    moreover have "deref (sh_samples H1) ?l = Ok \<lparr>c_data = s, sle_next = n\<rparr>" using d unfolding deref_def 1(3) .
    ultimately have rd: "read_sample ?l H1 = Ok (sample_value (qc_addr c) s)" using sp by (auto simp: read_sample_def)
    obtain H2 where 2: "free_sample ?l H1 = Ok H2" "stats_rep {} (emptied L) H2" "sh_held H2 = sh_held H"
      using free_sample_rep [OF r1 _ False] 1(4) by auto
    have "L \<noteq> []" using r(1) by auto
    then have "take_report H = Some (Ok (map row_value L, v, H2))" using 1(1) False rd 2(1) r(3) by (simp add: take_report_def)
    then show ?thesis using 2 by (intro exI [of _ H2] exI [of _ v]) simp
  qed
qed

lemma take_samples_eq: "take_samples st = st\<lparr>peeracklist := map (\<lambda>q. q\<lparr>ps_ack_store := []\<rparr>) (peeracklist st)\<rparr>"
  by (simp add: take_samples_def)

lemma report_refines:
  assumes "stats_sim w v"
  shows "case bws_report v of Err e \<Rightarrow> bws_report_h w = Some (Err e)
    | Ok (r, v') \<Rightarrow> \<exists>w'. bws_report_h w = Some (Ok (r, w')) \<and> stats_sim w' v'"
proof -
  let ?H = "sw_heap w" and ?st = "aw_peers v"
  obtain L where L: "stats_rep {} L ?H" "peeracklist ?st = map row_value L" "ack_list_held ?st = sh_held ?H"
    "sh_held ?H \<or> points_to L (sh_highest ?H) (highest_seq ?st)"
    using assms by (auto simp: stats_sim_def stats_represents_def)
  have same: "sw_nacks w = aw_nacks v" "sw_sender w = aw_sender v" "sw_cookies w = aw_cookies v"
    using assms by (simp_all add: stats_sim_def)
  show ?thesis
  proof (cases "sh_held ?H")
    case True
    then show ?thesis using L(3) by (simp add: bws_report_def bws_report_h_def get_ack_store_def)
  next
    case False
    let ?Hl = "?H\<lparr>sh_held := True\<rparr>"
    have "stats_rep {} L ?Hl" using L(1) by (simp add: stats_rep_def)
    moreover have "points_to L (sh_highest ?Hl) (highest_seq ?st)" using L(4) False by simp
    ultimately obtain H' ls where t: "take_report ?Hl = Some (Ok (map row_value L, ls, H'))"
      "last_ack_dict (map row_value L) ls = last_ack_dict (map row_value L) (highest_seq ?st)" "stats_rep {} (emptied L) H'" "sh_held H'"
      using take_report_rep [of L ?Hl "highest_seq ?st"] by auto
    obtain idle s where i: "get_idle (aw_sender v) = (idle, s)" by (rule prod.exhaust)
    have "stats_represents H' (take_samples (?st\<lparr>ack_list_held := True\<rparr>))"
      by (rule stats_representsI [OF t(3)]) (simp_all add: take_samples_eq L(2) t(4))
    then show ?thesis using False t(1,2) i L(2,3) same
      by (simp add: bws_report_def bws_report_h_def get_ack_store_def stats_sim_def)
  qed
qed

section \<open>The other calls\<close>

lemma timeout_value_refines:
  assumes "stats_represents H st"
  shows "get_timeout_value_h host H = Some (get_timeout_value host (peeracklist st))"
proof -
  obtain L where L: "stats_rep {} L H" "peeracklist st = map row_value L" using assms by (auto simp: stats_represents_def)
  show ?thesis
  proof (cases rule: find_peer_rep [OF L(1), of host])
    case 1
    then show ?thesis by (simp add: get_timeout_value_h_def get_timeout_value_def L(2))
  next
    case (2 A p c xs B)
    have "ps_lastRTT (peeracklist st ! length A) = qc_lastRTT c" by (simp add: L(2) 2(1) nth_append peer_value_def)
    then show ?thesis using 2(3-5) stats_rep_peer(1) [OF L(1) [unfolded 2(1)]]
      by (simp add: get_timeout_value_h_def get_timeout_value_def L(2))
  qed
qed

lemma release_rows:
  "stats_rep {} (A @ B) H \<Longrightarrow>
     \<exists>H'. MYSLIST_FOREACH (\<lambda>H. MYSLIST_NEXT (sh_peers H)) (\<lambda>cur H. Some (map_res (Pair False) (set_peer cur reset_last H)))
         (first_of (peer_list B)) H = Some (Ok (NULL, H')) \<and>
       stats_rep {} (A @ map (\<lambda>(p, c, xs). (p, reset_last c, xs)) B) H'"
proof (induction B arbitrary: A H)
  case Nil
  then show ?case by (subst MYSLIST_FOREACH.simps) simp
next
  case (Cons y B)
  obtain p c xs where y: "y = (p, c, xs)" by (cases y)
  note r = Cons.prems [unfolded y]
  obtain H1 where 1: "set_peer p reset_last H = Ok H1" "stats_rep {} (A @ (p, reset_last c, xs) # B) H1"
    using set_peer_rep [OF r, of reset_last] by (auto simp: reset_last_def)
  have nx: "MYSLIST_NEXT (sh_peers H1) p = Ok (first_of (peer_list B))"
    using stats_rep_peer(1) [OF 1(2)] by (simp add: MYSLIST_NEXT_def)
  have "stats_rep {} ((A @ [(p, reset_last c, xs)]) @ B) H1" using 1(2) by simp
  from Cons.IH [OF this] show ?case using stats_rep_peer(2) [OF r] 1(1) nx
    by (subst MYSLIST_FOREACH.simps) (simp add: y)
qed

lemma release_refines:
  assumes "stats_represents H st"
  shows "\<exists>H'. release_ack_store_h H = Some (Ok H') \<and> stats_represents H' (release_ack_store st)"
proof -
  obtain L where L: "stats_rep {} L H" "peeracklist st = map row_value L" using assms by (auto simp: stats_represents_def)
  have f: "sh_first H = first_of (peer_list L)" using L(1) by (auto simp: stats_rep_def intro: slist_first)
  let ?L = "map (\<lambda>(p, c, xs). (p, reset_last c, xs)) L"
  obtain H1 where 1: "MYSLIST_FOREACH (\<lambda>H. MYSLIST_NEXT (sh_peers H)) (\<lambda>cur H. Some (map_res (Pair False) (set_peer cur reset_last H)))
      (sh_first H) H = Some (Ok (NULL, H1))" "stats_rep {} ?L H1"
    using release_rows [of "[]" L H] L(1) f by auto
  let ?H = "H1\<lparr>sh_highest := NULL, sh_held := False\<rparr>"
  have "release_ack_store_h H = Some (Ok ?H)" using 1(1) by (simp add: release_ack_store_h_def)
  moreover have "stats_rep {} ?L ?H" using 1(2) by (simp add: stats_rep_def)
  then have "stats_represents ?H (release_ack_store st)"
    by (rule stats_representsI)
      (auto simp: release_ack_store_def L(2) points_to_def row_value_def peer_value_def reset_last_def)
  ultimately show ?thesis by blast
qed

end
