(* ===== verification/Stats_Calls.thy ===== *)
theory Stats_Calls
  imports Stats_Heap
begin

text \<open>
  Everything the program does with the statistics of its peers, as a sequence of calls, run on the
  pointers of \<open>Stats_Heap\<close> and on the lists of \<open>Ack_Received\<close> and \<open>Bw_Stats\<close>; the two runs agree.
\<close>

section \<open>Model\<close>

text \<open>
  What happens to the statistics, as a sequence of calls; between two of them the rest of the
  program changes the other components. The addresses are those \<open>malloc\<close> returns.
\<close>

datatype stats_call =
    Acknowledged Ack AckReceived timeval sockaddr_in
  | Timeout_For sockaddr_in
  | Report
  | Release
  | Meanwhile nack_state sender cookies

datatype stats_out = Done int | Timeout_Of u64 | Reported pyval

primrec stats_call_h :: "(stats_heap \<Rightarrow> addr) \<Rightarrow> (stats_heap \<Rightarrow> addr) \<Rightarrow> stats_call \<Rightarrow> stats_world \<Rightarrow>
    (stats_out \<times> stats_world) res option" where
  "stats_call_h mp ms (Acknowledged ack_s ack_r received host) w =
     map_option (map_res (\<lambda>(r, w). (Done r, w))) (ack_received_h (mp (sw_heap w)) (ms (sw_heap w)) ack_s ack_r received host w)"
| "stats_call_h mp ms (Timeout_For host) w = map_option (map_res (\<lambda>t. (Timeout_Of t, w))) (get_timeout_value_h host (sw_heap w))"
| "stats_call_h mp ms Report w = map_option (map_res (\<lambda>(v, w). (Reported v, w))) (bws_report_h w)"
| "stats_call_h mp ms Release w = map_option (map_res (\<lambda>H. (Done 0, w\<lparr>sw_heap := H\<rparr>))) (release_ack_store_h (sw_heap w))"
| "stats_call_h mp ms (Meanwhile nacks s ck) w = Some (Ok (Done 0, w\<lparr>sw_nacks := nacks, sw_sender := s, sw_cookies := ck\<rparr>))"

primrec stats_run_h :: "(stats_heap \<Rightarrow> addr) \<Rightarrow> (stats_heap \<Rightarrow> addr) \<Rightarrow> stats_call list \<Rightarrow> stats_world \<Rightarrow>
    (stats_out list \<times> stats_world) res option" where
  "stats_run_h mp ms [] w = Some (Ok ([], w))"
| "stats_run_h mp ms (c # cs) w =
     then_run (stats_call_h mp ms c w) (\<lambda>(out, w). map_option (map_res (\<lambda>(outs, w). (out # outs, w))) (stats_run_h mp ms cs w))"

primrec stats_call_l :: "stats_call \<Rightarrow> ack_world \<Rightarrow> (stats_out \<times> ack_world) res" where
  "stats_call_l (Acknowledged ack_s ack_r received host) w =
     map_res (\<lambda>(r, w). (Done r, w)) (ack_received ack_s ack_r received host w)"
| "stats_call_l (Timeout_For host) w = map_res (\<lambda>t. (Timeout_Of t, w)) (get_timeout_value host (peeracklist (aw_peers w)))"
| "stats_call_l Report w = map_res (\<lambda>(v, w). (Reported v, w)) (bws_report w)"
| "stats_call_l Release w = Ok (Done 0, w\<lparr>aw_peers := release_ack_store (aw_peers w)\<rparr>)"
| "stats_call_l (Meanwhile nacks s ck) w = Ok (Done 0, w\<lparr>aw_nacks := nacks, aw_sender := s, aw_cookies := ck\<rparr>)"

primrec stats_run_l :: "stats_call list \<Rightarrow> ack_world \<Rightarrow> (stats_out list \<times> ack_world) res" where
  "stats_run_l [] w = Ok ([], w)"
| "stats_run_l (c # cs) w =
     bind_res (stats_call_l c w) (\<lambda>(out, w). map_res (\<lambda>(outs, w). (out # outs, w)) (stats_run_l cs w))"

text \<open>The program as it starts, with whatever the other components hold.\<close>

definition stats_start_h :: "nack_state \<Rightarrow> sender \<Rightarrow> cookies \<Rightarrow> stats_world" where
  "stats_start_h nacks s ck = \<lparr>sw_heap = static_stats_heap, sw_nacks = nacks, sw_sender = s, sw_cookies = ck\<rparr>"

definition stats_start_l :: "nack_state \<Rightarrow> sender \<Rightarrow> cookies \<Rightarrow> ack_world" where
  "stats_start_l nacks s ck = \<lparr>aw_peers = static_peer_stats, aw_nacks = nacks, aw_sender = s, aw_cookies = ck\<rparr>"

text \<open>\<open>malloc\<close> succeeds and returns memory that is not in use.\<close>

definition fresh_cells :: "(stats_heap \<Rightarrow> addr) \<Rightarrow> (stats_heap \<Rightarrow> 'a store) \<Rightarrow> bool" where
  "fresh_cells m st \<longleftrightarrow> (\<forall>H. finite (dom (st H)) \<longrightarrow> m H \<noteq> NULL \<and> m H \<notin> dom (st H))"

section \<open>Agreement\<close>

lemma stats_start_sim: "stats_sim (stats_start_h nacks s ck) (stats_start_l nacks s ck)"
  unfolding stats_sim_def stats_start_h_def stats_start_l_def
  by (simp, rule stats_representsI [of "[]"])
    (simp_all add: stats_rep_def static_stats_heap_def static_peer_stats_def MYSLIST_INIT_def points_to_def)

lemma stats_finite: "stats_represents H st \<Longrightarrow> finite (dom (sh_peers H)) \<and> finite (dom (sh_samples H))"
  by (auto simp: stats_represents_def stats_rep_def addrs_def simp del: addrs_simps(4))

lemma stats_call_sim:
  assumes "stats_sim w v" and "fresh_cells mp sh_peers" and "fresh_cells ms sh_samples"
  shows "case stats_call_l c v of Err e \<Rightarrow> stats_call_h mp ms c w = Some (Err e)
    | Ok (out, v') \<Rightarrow> \<exists>w'. stats_call_h mp ms c w = Some (Ok (out, w')) \<and> stats_sim w' v'"
proof -
  have r: "stats_represents (sw_heap w) (aw_peers v)" using assms(1) by (simp add: stats_sim_def)
  show ?thesis
  proof (cases c)
    case (Acknowledged a ar t host)
    have "mp (sw_heap w) \<notin> dom (sh_peers (sw_heap w))" "ms (sw_heap w) \<notin> dom (sh_samples (sw_heap w))"
      "mp (sw_heap w) \<noteq> NULL" "ms (sw_heap w) \<noteq> NULL"
      using assms(2,3) stats_finite [OF r] by (simp_all add: fresh_cells_def)
    from ack_received_refines [OF assms(1) this, of a ar t host] show ?thesis
      by (auto simp: Acknowledged split: res.splits prod.splits)
  next
    case (Timeout_For host)
    then show ?thesis using timeout_value_refines [OF r, of host] assms(1)
      by (cases "get_timeout_value host (peeracklist (aw_peers v))") simp_all
  next
    case Report
    then show ?thesis using report_refines [OF assms(1)] by (auto split: res.splits prod.splits)
  next
    case Release
    then show ?thesis using release_refines [OF r] assms(1) by (auto simp: stats_sim_def)
  next
    case (Meanwhile nacks s ck)
    then show ?thesis using assms(1) by (simp add: stats_sim_def)
  qed
qed

lemma stats_run_sim:
  assumes "stats_sim w v" and "fresh_cells mp sh_peers" and "fresh_cells ms sh_samples"
  shows "case stats_run_l cs v of Err e \<Rightarrow> stats_run_h mp ms cs w = Some (Err e)
    | Ok (outs, v') \<Rightarrow> \<exists>w'. stats_run_h mp ms cs w = Some (Ok (outs, w')) \<and> stats_sim w' v'"
  using assms(1)
proof (induction cs arbitrary: w v)
  case (Cons c cs)
  note c = stats_call_sim [OF Cons.prems assms(2,3), of c]
  show ?case
  proof (cases "stats_call_l c v")
    case (Ok r)
    obtain out v' where r: "r = (out, v')" by (cases r)
    then obtain w' where w': "stats_call_h mp ms c w = Some (Ok (out, w'))" "stats_sim w' v'" using c Ok by auto
    from Cons.IH [OF w'(2)] show ?thesis using Ok r w'(1) by (cases "stats_run_l cs v'") auto
  qed (use c in simp)
qed simp

lemma samples_counted: "stats_represents H st \<Longrightarrow> card (dom (sh_samples H)) = sum_list (map (\<lambda>p. length (ps_ack_store p)) (peeracklist st))"
proof -
  assume "stats_represents H st"
  then obtain L where L: "stats_rep {} L H" "peeracklist st = map row_value L" by (auto simp: stats_represents_def)
  have "card (addrs (samples_of L)) = length (samples_of L)"
    using L(1) distinct_card [of "map fst (samples_of L)"] by (simp add: stats_rep_def)
  moreover have "length (samples_of L) = sum_list (map (\<lambda>p. length (ps_ack_store p)) (map row_value L))"
    by (induction L) (auto simp: peer_value_def)
  ultimately show ?thesis using L by (simp add: stats_rep_def)
qed

text \<open>
  C12: the pointer code of \<open>ack_received.c\<close> and of the report in \<open>bora.c\<close> implements the list model. From the empty list,
  every sequence of acknowledgements, timeouts looked up, reports and releases ends, without touching freed or foreign memory,
  in the same outcome as the list model: the same wait for the mutex or the same fault, or the same reports and the same
  statistics; and then the heap holds the listed samples and no others, so that each reported sample was freed exactly
  once, also the one with the highest sequence number, which is read after its list was emptied.
\<close>

theorem stats_pointers_refine_lists:
  assumes "fresh_cells mp sh_peers" and "fresh_cells ms sh_samples"
  shows "case stats_run_l cs (stats_start_l nacks s ck) of
      Err e \<Rightarrow> stats_run_h mp ms cs (stats_start_h nacks s ck) = Some (Err e)
    | Ok (outs, v) \<Rightarrow> \<exists>w. stats_run_h mp ms cs (stats_start_h nacks s ck) = Some (Ok (outs, w)) \<and> stats_sim w v \<and>
        card (dom (sh_samples (sw_heap w))) = sum_list (map (\<lambda>p. length (ps_ack_store p)) (peeracklist (aw_peers v)))"
proof -
  note run = stats_run_sim [OF stats_start_sim assms, of cs nacks s ck]
  show ?thesis
  proof (cases "stats_run_l cs (stats_start_l nacks s ck)")
    case (Ok r)
    obtain outs v where r: "r = (outs, v)" by (cases r)
    then obtain w where w: "stats_run_h mp ms cs (stats_start_h nacks s ck) = Some (Ok (outs, w))" "stats_sim w v" using run Ok by auto
    then have "stats_represents (sw_heap w) (aw_peers v)" by (simp add: stats_sim_def)
    then show ?thesis using Ok r w samples_counted by auto
  qed (use run in simp)
qed

end
