(* ===== verification/Blockcache_Heap.thy ===== *)
theory Blockcache_Heap
  imports Blockcache Slist
begin

text \<open>
  \<open>blockcache.c\<close> on its pointers: the blocks are cells linked by \<open>next\<close>, \<open>findblock\<close> returns the
  address of a block whose mutex it has taken, \<open>deleteblock\<close> unlinks a cell and frees it, with its content
  and its fragment array, which belong to the block. The first part shows that
  calls that follow each other do what the list model of \<open>Blockcache\<close> says. The second looks at calls that overlap: the read-write lock
  is not held between \<open>findblock\<close> and the use of the block, and \<open>deleteblock\<close> does not take the block's mutex.
\<close>

section \<open>Model\<close>

record bc_heap =
  bh_first :: addr  \<comment> \<open>the variable \<open>blockcache\<close>\<close>
  bh_store :: "Block store"

definition static_bc_heap :: bc_heap where
  "static_bc_heap = \<lparr>bh_first = NULL, bh_store = Map.empty\<rparr>"

definition lock_cell :: "addr \<Rightarrow> Block store \<Rightarrow> Block store res" where
  "lock_cell p h =
     bind_res (deref h p) (\<lambda>c.
       if b_lock (c_data c) then Err Blocked else Ok (h(p \<mapsto> c\<lparr>c_data := (c_data c)\<lparr>b_lock := True\<rparr>\<rparr>)))"

partial_function (option) raw_findblock_h :: "u16 \<Rightarrow> u32 \<Rightarrow> addr \<Rightarrow> Block store \<Rightarrow> (addr \<times> Block store) res option" where
  "raw_findblock_h streamid blockid ret h =
     (if ret = NULL then Some (Ok (NULL, h))
      else case deref h ret of
             Err e \<Rightarrow> Some (Err e)
           | Ok c \<Rightarrow>
               if is_block streamid blockid (c_data c) then Some (map_res (Pair ret) (lock_cell ret h))
               else raw_findblock_h streamid blockid (sle_next c) h)"

definition findblock_h :: "u16 \<Rightarrow> u32 \<Rightarrow> bc_heap \<Rightarrow> (addr \<times> bc_heap) res option" where
  "findblock_h streamid blockid H =
     map_option (map_res (\<lambda>(p, h). (p, H\<lparr>bh_store := h\<rparr>))) (raw_findblock_h streamid blockid (bh_first H) (bh_store H))"

text \<open>Code that works on the block at an address it holds; the last thing it does is to unlock it.\<close>

definition with_block :: "(Block \<Rightarrow> ('r \<times> Block) res) \<Rightarrow> addr \<Rightarrow> bc_heap \<Rightarrow> ('r \<times> bc_heap) res" where
  "with_block f p H =
     bind_res (deref (bh_store H) p) (\<lambda>c.
       map_res (\<lambda>(r, b). (r, H\<lparr>bh_store := (bh_store H)(p \<mapsto> c\<lparr>c_data := b\<lparr>b_lock := False\<rparr>\<rparr>)\<rparr>)) (f (c_data c)))"

definition push_block :: "addr \<Rightarrow> Block \<Rightarrow> bc_heap \<Rightarrow> bc_heap res" where
  "push_block m b H =
     (if m = NULL then Err ProcessExit
      else Ok \<lparr>bh_first = m, bh_store = (bh_store H)(m \<mapsto> \<lparr>c_data = b, sle_next = bh_first H\<rparr>)\<rparr>)"

definition block_of_data :: "u16 \<Rightarrow> u32 \<Rightarrow> BlockData \<Rightarrow> Block res" where
  "block_of_data streamid blockid blockdata =
     (if unat (bd_length blockdata) > length (bd_data blockdata) then Err OutOfBounds
      else let fs = calcfragments (bd_length blockdata) in
        Ok \<lparr>b_id = \<lparr>bi_streamid = streamid, bi_blockid = blockid\<rparr>,
            b_content = \<lparr>bd_data = take (unat (bd_length blockdata)) (bd_data blockdata), bd_length = bd_length blockdata\<rparr>,
            b_f = replicate (unat (fs_fn fs)) \<lparr>bf_have = 1, bf_host = zero_addr, bf_ts = zero_time\<rparr>,
            b_fs = fs, b_lock = False\<rparr>)"

definition addblock_h :: "addr \<Rightarrow> u16 \<Rightarrow> u32 \<Rightarrow> BlockData \<Rightarrow> bc_heap \<Rightarrow> (int \<times> bc_heap) res option" where
  "addblock_h m streamid blockid blockdata H =
     then_run (findblock_h streamid blockid H) (\<lambda>(p, H). Some (
       if p \<noteq> NULL then with_block (\<lambda>b. Ok (0, b)) p H
       else bind_res (block_of_data streamid blockid blockdata) (\<lambda>b. map_res (Pair 1) (push_block m b H))))"

text \<open>The walk of \<open>deleteblock\<close>: \<open>None\<close> when it reaches the end.\<close>

partial_function (option) delete_walk :: "u16 \<Rightarrow> u32 \<Rightarrow> addr \<Rightarrow> Block store \<Rightarrow> Block store option res option" where
  "delete_walk streamid blockid prev h =
     (case MYSLIST_NEXT h prev of
        Err e \<Rightarrow> Some (Err e)
      | Ok current \<Rightarrow>
          if current = NULL then Some (Ok None)
          else case deref h current of
                 Err e \<Rightarrow> Some (Err e)
               | Ok c \<Rightarrow>
                   if is_block streamid blockid (c_data c)
                   then Some (bind_res (assign prev (\<lambda>p. p\<lparr>sle_next := sle_next c\<rparr>) h) (\<lambda>h.
                              bind_res (assign current (\<lambda>c. c\<lparr>sle_next := NULL\<rparr>) h) (\<lambda>h.
                              map_res Some (free_cell current h))))
                   else delete_walk streamid blockid current h)"

definition deleteblock_h :: "u16 \<Rightarrow> u32 \<Rightarrow> bc_heap \<Rightarrow> (int \<times> bc_heap) res option" where
  "deleteblock_h streamid blockid H =
     (if bh_first H = NULL then Some (Ok (BD_FAILURE, H))
      else map_option (map_res (\<lambda>r. case r of None \<Rightarrow> (BD_FAILURE, H) | Some h \<Rightarrow> (BD_SUCCESS, H\<lparr>bh_store := h\<rparr>)))
             (delete_walk streamid blockid (bh_first H) (bh_store H)))"

text \<open>What \<open>addfragment\<close> does to a block it has found, and to a new one before it is linked.\<close>

definition fragment_into :: "FragmentData \<Rightarrow> sockaddr_in \<Rightarrow> timeval \<Rightarrow> Block \<Rightarrow> (int \<times> Block) res" where
  "fragment_into fragment host ts b =
     (let fid = unat (fd_fragmentid fragment); fn = unat (fs_fn (b_fs b)) in
      if fid \<ge> length (b_f b) then Err OutOfBounds
      else if bf_have (b_f b ! fid) = 1 then Ok (F_DUPLICATE, b)
      else if fs_fn (b_fs b) \<noteq> fd_fragments fragment then Ok (F_FRAGMENTS_MISMATCH, b)
      else if fid \<ge> fn then Ok (F_FRAGMENTID_OUTOFBOUNDS, b)
      else if int fid < int fn - 1 \<and> unat (fd_length fragment) \<noteq> MTU then Ok (F_BAD_LEN, b)
      else
        let b = (if int fid = int (unat (fd_fragments fragment)) - 1
                 then b\<lparr>b_fs := (b_fs b)\<lparr>fs_lastlen := fd_length fragment\<rparr>,
                        b_content := (b_content b)
                          \<lparr>bd_length := word_of_int ((int fn - 1) * int MTU + uint (fd_length fragment))\<rparr>\<rparr>
                 else b);
            b = b\<lparr>b_f := (b_f b)[fid := \<lparr>bf_have = 1, bf_host = host, bf_ts = ts\<rparr>]\<rparr>
        in map_res (\<lambda>data. (F_ADDED, b\<lparr>b_content := (b_content b)\<lparr>bd_data := data\<rparr>\<rparr>))
             (memcpy (bd_data (b_content b)) (MTU * fid) (fd_data fragment) (unat (fd_length fragment))))"

definition first_fragment :: "block_mem \<Rightarrow> FragmentData \<Rightarrow> sockaddr_in \<Rightarrow> timeval \<Rightarrow> (int \<times> Block) res" where
  "first_fragment mem fragment host ts =
     (let b = new_block mem fragment; fid = unat (fd_fragmentid fragment) in
      if fid \<ge> length (b_f b) then Err OutOfBounds
      else
        let b = b\<lparr>b_f := (b_f b)[fid := \<lparr>bf_have = 1, bf_host = host, bf_ts = ts\<rparr>]\<rparr>;
            is_last = (int fid = int (unat (fd_fragments fragment)) - 1)
        in if \<not> is_last \<and> unat (fd_length fragment) \<noteq> MTU then Ok (F_BAD_LEN, b)
           else
             let b = (if is_last then b\<lparr>b_fs := (b_fs b)\<lparr>fs_lastlen := fd_length fragment\<rparr>\<rparr> else b)
             in map_res (\<lambda>data. (F_ADDED, b\<lparr>b_content := (b_content b)\<lparr>bd_data := data\<rparr>\<rparr>))
                  (memcpy (bd_data (b_content b)) (MTU * fid) (fd_data fragment) (unat (fd_length fragment))))"

text \<open>A fragment of the wrong length makes the code return before the new block is linked: its cell stays allocated.\<close>

definition addfragment_h :: "addr \<Rightarrow> block_mem \<Rightarrow> FragmentData \<Rightarrow> sockaddr_in \<Rightarrow> timeval \<Rightarrow> bc_heap \<Rightarrow> (int \<times> bc_heap) res option" where
  "addfragment_h m mem fragment host ts H =
     then_run (findblock_h (fd_streamid fragment) (fd_blockid fragment) H) (\<lambda>(p, H). Some (
       if p \<noteq> NULL then with_block (fragment_into fragment host ts) p H
       else if m = NULL then Err ProcessExit
       else bind_res (first_fragment mem fragment host ts) (\<lambda>(r, b).
              if r = F_ADDED then map_res (Pair r) (push_block m b H)
              else Ok (r, H\<lparr>bh_store := (bh_store H)(m \<mapsto> \<lparr>c_data = b, sle_next = NULL\<rparr>)\<rparr>))))"

definition get_block_data_h :: "u16 \<Rightarrow> u32 \<Rightarrow> bc_heap \<Rightarrow> (BlockData option \<times> bc_heap) res option" where
  "get_block_data_h streamid blockid H =
     then_run (findblock_h streamid blockid H) (\<lambda>(p, H). Some (
       if p = NULL then Ok (None, H)
       else with_block (\<lambda>b. let c = b_content b in
              if unat (bd_length c) > length (bd_data c) then Err OutOfBounds
              else Ok (Some \<lparr>bd_data = take (unat (bd_length c)) (bd_data c), bd_length = bd_length c\<rparr>, b)) p H))"

definition iscomplete_h :: "u16 \<Rightarrow> u32 \<Rightarrow> bc_heap \<Rightarrow> (bool \<times> bc_heap) res option" where
  "iscomplete_h streamid blockid H =
     then_run (findblock_h streamid blockid H) (\<lambda>(p, H). Some (
       if p = NULL then Ok (True, H)
       else with_block (\<lambda>b. Ok (have_below (unat (fs_fn (b_fs b))) (b_f b), b)) p H))"

definition get_consecutives_h :: "FragmentID \<Rightarrow> bc_heap \<Rightarrow> (u16 \<times> bc_heap) res option" where
  "get_consecutives_h fragment H =
     then_run (findblock_h (fi_streamid fragment) (fi_blockid fragment) H) (\<lambda>(p, H). Some (
       if p = NULL then Ok (0, H)
       else with_block (\<lambda>b. map_res (\<lambda>n. (of_nat n, b)) (count_before (b_f b) (unat (fi_fragmentid fragment)))) p H))"

text \<open>The fragments are filed with the sender while the block is locked; \<open>s\<close> is the sender at the time of the call.\<close>

definition sendblock_h ::
    "(nat \<Rightarrow> SendData) \<Rightarrow> u16 \<Rightarrow> u32 \<Rightarrow> sockaddr_in \<Rightarrow> sender \<Rightarrow> bc_heap \<Rightarrow> ((int \<times> sender) \<times> bc_heap) res option" where
  "sendblock_h mem streamid blockid dest s H =
     then_run (findblock_h streamid blockid H) (\<lambda>(p, H). Some (
       if p = NULL then Ok ((0, s), H)
       else with_block (\<lambda>b. let n = unat (fs_fn (b_fs b)) in
              map_res (\<lambda>s. ((int n, s), b)) (send_fragments mem (nth_fragment streamid blockid b) dest [0..<n] s)) p H))"

text \<open>The two walks of the listings: the first counts the blocks, the second locks each block, tests it and unlocks it.\<close>

partial_function (option) get_blockcache_size_h :: "addr \<Rightarrow> nat \<Rightarrow> Block store \<Rightarrow> nat res option" where
  "get_blockcache_size_h block ret h =
     (if block = NULL then Some (Ok ret)
      else case deref h block of
             Err e \<Rightarrow> Some (Err e)
           | Ok c \<Rightarrow> get_blockcache_size_h (sle_next c) (ret + 1) h)"

partial_function (option) collect_ids_h ::
    "bool \<Rightarrow> addr \<Rightarrow> BlockID list \<Rightarrow> Block store \<Rightarrow> (BlockID list \<times> Block store) res option" where
  "collect_ids_h want cur ids h =
     (if cur = NULL then Some (Ok (ids, h))
      else case lock_cell cur h of
             Err e \<Rightarrow> Some (Err e)
           | Ok h \<Rightarrow>
               (case deref h cur of
                  Err e \<Rightarrow> Some (Err e)
                | Ok c \<Rightarrow>
                    collect_ids_h want (sle_next c)
                      (if have_below (unat (fs_fn (b_fs (c_data c)))) (b_f (c_data c)) = want then ids @ [b_id (c_data c)] else ids)
                      (h(cur \<mapsto> c\<lparr>c_data := (c_data c)\<lparr>b_lock := False\<rparr>\<rparr>))))"

definition block_list_h :: "bool \<Rightarrow> bc_heap \<Rightarrow> (BlockID list \<times> bc_heap) res option" where
  "block_list_h want H =
     then_run (get_blockcache_size_h (bh_first H) 0 (bh_store H)) (\<lambda>len.
       if len = 0 then Some (Ok ([], H))
       else map_option (map_res (\<lambda>(ids, h). (ids, H\<lparr>bh_store := h\<rparr>))) (collect_ids_h want (bh_first H) [] (bh_store H)))"

section \<open>Calls that follow each other\<close>

text \<open>The list model, split in the same places.\<close>

lemma addblock_split:
  "addblock streamid blockid blockdata bc =
     bind_res (findblock streamid blockid bc) (\<lambda>(block, bc).
       case block of Some p \<Rightarrow> Ok (0, unlock_block p bc)
       | None \<Rightarrow> map_res (\<lambda>b. (1, b # bc)) (block_of_data streamid blockid blockdata))"
  by (simp add: addblock_def block_of_data_def Let_def cong: bind_res_cong option.case_cong)

lemma addfragment_new_split:
  "addfragment_new mem fragment host ts bc =
     map_res (\<lambda>(r, b). (r, if r = F_ADDED then b # bc else bc)) (first_fragment mem fragment host ts)"
  by (auto simp: addfragment_new_def first_fragment_def Let_def code_defs map_res_comp bind_Ok_map)

lemma addfragment_at_split:
  assumes "p < length bc"
  shows "addfragment_at p fragment host ts bc =
     map_res (\<lambda>(r, b). (r, unlock_block p (bc[p := b]))) (fragment_into fragment host ts (bc ! p))"
  using assms by (auto simp: addfragment_at_def fragment_into_def Let_def map_res_comp bind_Ok_map)

text \<open>
  \<open>bh_rep X H bc\<close>: the list from \<open>blockcache\<close> holds the blocks \<open>bc\<close>, and the only other allocated blocks are those
  at the addresses \<open>X\<close>.
\<close>

definition bh_rep :: "addr set \<Rightarrow> bc_heap \<Rightarrow> bcache \<Rightarrow> bool" where
  "bh_rep X H bc \<longleftrightarrow> (\<exists>xs. slist (bh_store H) (bh_first H) xs \<and> map snd xs = bc \<and> addrs xs \<inter> X = {} \<and>
     dom (bh_store H) = addrs xs \<union> X)"

lemma find_slist:
  "slist h p xs \<Longrightarrow>
     (find_pos sid bid (map snd xs) = None \<and> raw_findblock_h sid bid p h = Some (Ok (NULL, h))) \<or>
     (\<exists>us a x ys. xs = us @ (a, x) # ys \<and> find_pos sid bid (map snd xs) = Some (length us) \<and>
        raw_findblock_h sid bid p h = Some (map_res (Pair a) (lock_cell a h)))"
proof (induction xs arbitrary: p)
  case Nil
  then show ?case by (subst raw_findblock_h.simps) simp
next
  case (Cons y xs)
  obtain a x where y: "y = (a, x)" by (cases y)
  note d = slist_ConsD [OF Cons.prems [unfolded y]]
  have f: "deref h p = Ok \<lparr>c_data = x, sle_next = first_of xs\<rparr>" using d by (simp add: deref_def)
  show ?case
  proof (cases "is_block sid bid x")
    case True
    have "raw_findblock_h sid bid p h = Some (map_res (Pair a) (lock_cell a h))"
      using f d(1,2) True by (subst raw_findblock_h.simps) simp
    then show ?thesis using True by (intro disjI2 exI [of _ "[]"]) (simp add: y)
  next
    case False
    then have e: "raw_findblock_h sid bid p h = raw_findblock_h sid bid (first_of xs) h"
      using f d(1,2) by (subst raw_findblock_h.simps) simp
    from Cons.IH [OF d(4)] show ?thesis
    proof (elim disjE exE conjE)
      fix us b z ys
      assume "xs = us @ (b, z) # ys" "find_pos sid bid (map snd xs) = Some (length us)"
        "raw_findblock_h sid bid (first_of xs) h = Some (map_res (Pair b) (lock_cell b h))"
      then show ?thesis using False e by (intro disjI2 exI [of _ "y # us"]) (auto simp: y)
    qed (use False e in \<open>simp add: y\<close>)
  qed
qed

lemma bh_update:
  assumes "slist (bh_store H) (bh_first H) (us @ (a, x) # ys)" and "addrs (us @ (a, x) # ys) \<inter> X = {}"
    and "dom (bh_store H) = addrs (us @ (a, x) # ys) \<union> X"
  shows "bh_rep X (H\<lparr>bh_store := (bh_store H)(a \<mapsto> \<lparr>c_data = b, sle_next = first_of ys\<rparr>)\<rparr>) (map snd us @ b # map snd ys)"
  unfolding bh_rep_def
  by (rule exI [of _ "us @ (a, b) # ys"]) (use slist_payload [OF assms(1), of b] assms(2,3) in auto)

lemma findblock_cases:
  assumes "bh_rep X H bc"
  obtains (none) "findblock sid bid bc = Ok (None, bc)" "findblock_h sid bid H = Some (Ok (NULL, H))"
  | (locked) "findblock sid bid bc = Err Blocked" "findblock_h sid bid H = Some (Err Blocked)"
  | (found) us a x ys where "bc = map snd us @ x # map snd ys" "find_pos sid bid bc = Some (length us)" "\<not> b_lock x" "a \<noteq> NULL"
      "findblock sid bid bc = Ok (Some (length us), map snd us @ x\<lparr>b_lock := True\<rparr> # map snd ys)"
      "findblock_h sid bid H = Some (Ok (a, H\<lparr>bh_store := (bh_store H)(a \<mapsto> \<lparr>c_data = x\<lparr>b_lock := True\<rparr>, sle_next = first_of ys\<rparr>)\<rparr>))"
      "slist (bh_store H) (bh_first H) (us @ (a, x) # ys)" "addrs (us @ (a, x) # ys) \<inter> X = {}"
      "dom (bh_store H) = addrs (us @ (a, x) # ys) \<union> X"
proof -
  obtain xs where xs: "slist (bh_store H) (bh_first H) xs" "map snd xs = bc" "addrs xs \<inter> X = {}" "dom (bh_store H) = addrs xs \<union> X"
    using assms by (auto simp: bh_rep_def)
  from find_slist [OF xs(1), of sid bid] show thesis
  proof (elim disjE exE conjE)
    assume "find_pos sid bid (map snd xs) = None" "raw_findblock_h sid bid (bh_first H) (bh_store H) = Some (Ok (NULL, bh_store H))"
    then show thesis by (intro none) (simp_all add: findblock_def raw_findblock_def findblock_h_def xs(2))
  next
    fix us a x ys
    assume f: "xs = us @ (a, x) # ys" "find_pos sid bid (map snd xs) = Some (length us)"
      "raw_findblock_h sid bid (bh_first H) (bh_store H) = Some (map_res (Pair a) (lock_cell a (bh_store H)))"
    have bc: "bc = map snd us @ x # map snd ys" using f(1) xs(2) by simp
    note d = deref_member [OF xs(1) [unfolded f(1)]] and m = slist_member(1) [OF xs(1) [unfolded f(1)]]
    show thesis
    proof (cases "b_lock x")
      case True
      then show thesis using f(2,3) d
        by (intro locked) (simp_all add: findblock_def raw_findblock_def findblock_h_def xs(2) lock_block_def lock_cell_def bc nth_append)
    next
      case False
      then show thesis using f(2,3) d m xs f(1)
        by (intro found [of us x ys a]) (simp_all add: findblock_def raw_findblock_def findblock_h_def lock_block_def lock_cell_def bc
            nth_append list_update_append)
    qed
  qed
qed

text \<open>Working on a block that was found, and nothing happened since.\<close>

lemma with_found:
  fixes x' :: Block
  assumes "slist (bh_store H) (bh_first H) (us @ (a, x) # ys)" "addrs (us @ (a, x) # ys) \<inter> X = {}"
    "dom (bh_store H) = addrs (us @ (a, x) # ys) \<union> X"
  defines "H1 \<equiv> H\<lparr>bh_store := (bh_store H)(a \<mapsto> \<lparr>c_data = x', sle_next = first_of ys\<rparr>)\<rparr>"
  shows "\<exists>H'. with_block f a H1 = map_res (\<lambda>(r, b). (r, H' b)) (f x') \<and>
    (\<forall>b. bh_rep X (H' b) (map snd us @ b\<lparr>b_lock := False\<rparr> # map snd ys))"
proof -
  have "a \<noteq> NULL" using slist_member(1) [OF assms(1)] .
  then show ?thesis using bh_update [OF assms(1-3)]
    by (intro exI [of _ "\<lambda>b. H\<lparr>bh_store := (bh_store H)(a \<mapsto> \<lparr>c_data = b\<lparr>b_lock := False\<rparr>, sle_next = first_of ys\<rparr>)\<rparr>"])
      (simp add: with_block_def H1_def deref_def)
qed

lemma push_rep:
  assumes "bh_rep X H bc" and "m \<noteq> NULL" and "m \<notin> dom (bh_store H)"
  shows "\<exists>H'. push_block m b H = Ok H' \<and> bh_rep X H' (b # bc)"
proof -
  obtain xs where xs: "slist (bh_store H) (bh_first H) xs" "map snd xs = bc" "addrs xs \<inter> X = {}" "dom (bh_store H) = addrs xs \<union> X"
    using assms(1) by (auto simp: bh_rep_def)
  have "slist ((bh_store H)(m \<mapsto> \<lparr>c_data = b, sle_next = bh_first H\<rparr>)) (bh_first H) xs"
    using xs(1) by (subst slist_cong) (use assms(3) xs(4) in auto)
  then have "bh_rep X \<lparr>bh_first = m, bh_store = (bh_store H)(m \<mapsto> \<lparr>c_data = b, sle_next = bh_first H\<rparr>)\<rparr> (b # bc)"
    unfolding bh_rep_def using xs(2-4) assms(2,3) by (intro exI [of _ "(m, b) # xs"]) (auto simp: slist_Cons)
  then show ?thesis using assms(2) by (simp add: push_block_def)
qed

lemma delete_walk_slist:
  "slist h p ((a, x) # xs) \<Longrightarrow>
     (unlink_after sid bid x (map snd xs) = None \<and> delete_walk sid bid p h = Some (Ok None)) \<or>
     (\<exists>us c y ys h'. xs = us @ (c, y) # ys \<and> is_block sid bid y \<and> list_all (\<lambda>u. \<not> is_block sid bid (snd u)) us \<and>
        unlink_after sid bid x (map snd xs) = Some (x # map snd (us @ ys)) \<and>
        delete_walk sid bid p h = Some (Ok (Some h')) \<and> slist h' p ((a, x) # us @ ys) \<and> dom h' = dom h - {c} \<and>
        (\<forall>b. b \<notin> addrs xs \<and> b \<noteq> a \<longrightarrow> h' b = h b))"
proof (induction xs arbitrary: p a x)
  case Nil
  note d = slist_ConsD [OF Nil]
  have "MYSLIST_NEXT h p = Ok NULL" using d by (simp add: MYSLIST_NEXT_def deref_def)
  then show ?case by (subst delete_walk.simps) simp
next
  case (Cons z xs)
  obtain c y where z: "z = (c, y)" by (cases z)
  note d = slist_ConsD [OF Cons.prems [unfolded z]]
  note e = slist_ConsD [OF d(4)]
  have n: "MYSLIST_NEXT h p = Ok c" and g: "deref h c = Ok \<lparr>c_data = y, sle_next = first_of xs\<rparr>"
    using d e by (simp_all add: MYSLIST_NEXT_def deref_def)
  have ne: "a \<noteq> c" "a \<notin> addrs xs" "c \<notin> addrs xs" using slist_distinct [OF Cons.prems [unfolded z]] by auto
  show ?case
  proof (cases "is_block sid bid y")
    case True
    let ?h = "h(a \<mapsto> \<lparr>c_data = x, sle_next = first_of xs\<rparr>, c := None)"
    have w: "delete_walk sid bid p h = Some (Ok (Some ?h))"
      using n g d(1-3) e(2,3) True ne(1) by (subst delete_walk.simps) (auto simp: assign_def free_cell_def deref_def fun_upd_twist)
    have "slist ?h (first_of xs) xs" using e(4) by (subst slist_cong) (use ne in auto)
    then have "slist ?h p ((a, x) # xs)" using d(1,2) ne(1) by (simp add: slist_Cons)
    then show ?thesis using w True d(3) by (intro disjI2 exI [of _ "[]"] exI [of _ c]) (auto simp: z)
  next
    case False
    have w: "delete_walk sid bid p h = delete_walk sid bid c h" using n g False e(2) by (subst delete_walk.simps) simp
    have "slist h c ((c, y) # xs)" using d(4) by simp
    from Cons.IH [OF this] show ?thesis
    proof (elim disjE exE conjE)
      fix us c' y' ys h'
      assume i: "xs = us @ (c', y') # ys" "is_block sid bid y'" "list_all (\<lambda>u. \<not> is_block sid bid (snd u)) us"
        "unlink_after sid bid y (map snd xs) = Some (y # map snd (us @ ys))"
        "delete_walk sid bid c h = Some (Ok (Some h'))" "slist h' c ((c, y) # us @ ys)" "dom h' = dom h - {c'}"
        "\<forall>b. b \<notin> addrs xs \<and> b \<noteq> c \<longrightarrow> h' b = h b"
      have "h' a = h a" using i(8) ne by auto
      then have "slist h' p ((a, x) # (c, y) # us @ ys)" using d(1-3) i(6) by (subst slist_Cons) simp
      then show ?thesis using i w False by (intro disjI2 exI [of _ "(c, y) # us"] exI [of _ c'] exI [of _ y'] exI [of _ ys] exI [of _ h']) (auto simp: z)
    qed (use w False in \<open>simp add: z\<close>)
  qed
qed

lemma delete_refines:
  assumes "bh_rep X H bc"
  shows "\<exists>H'. deleteblock_h sid bid H = Some (Ok (fst (deleteblock sid bid bc), H')) \<and> bh_rep X H' (snd (deleteblock sid bid bc))"
proof -
  obtain xs where xs: "slist (bh_store H) (bh_first H) xs" "map snd xs = bc" "addrs xs \<inter> X = {}" "dom (bh_store H) = addrs xs \<union> X"
    using assms by (auto simp: bh_rep_def)
  show ?thesis
  proof (cases xs)
    case Nil
    then show ?thesis using xs assms by (auto simp: deleteblock_h_def deleteblock_def)
  next
    case (Cons z zs)
    obtain a x where z: "z = (a, x)" by (cases z)
    note s = xs(1) [unfolded Cons z]
    have f: "bh_first H = a" "a \<noteq> NULL" using slist_ConsD [OF s] by auto
    have bc: "bc = x # map snd zs" using xs(2) by (simp add: Cons z)
    from delete_walk_slist [OF s, of sid bid] show ?thesis
    proof (elim disjE exE conjE)
      assume "unlink_after sid bid x (map snd zs) = None" "delete_walk sid bid (bh_first H) (bh_store H) = Some (Ok None)"
      then show ?thesis using assms f by (intro exI [of _ H]) (simp add: deleteblock_h_def deleteblock_def bc)
    next
      fix us c y ys h'
      assume i: "zs = us @ (c, y) # ys" "unlink_after sid bid x (map snd zs) = Some (x # map snd (us @ ys))"
        "delete_walk sid bid (bh_first H) (bh_store H) = Some (Ok (Some h'))" "slist h' (bh_first H) ((a, x) # us @ ys)"
        "dom h' = dom (bh_store H) - {c}"
      have "c \<notin> addrs us" "c \<notin> addrs ys" "c \<noteq> a" using slist_distinct [OF s] by (auto simp: i(1))
      moreover have "c \<notin> X" using xs(3) by (auto simp: Cons i(1))
      ultimately have "dom h' = addrs ((a, x) # us @ ys) \<union> X" using i(5) xs(4) by (auto simp: Cons z i(1))
      then have "bh_rep X (H\<lparr>bh_store := h'\<rparr>) (x # map snd (us @ ys))"
        unfolding bh_rep_def using i(4) xs(3) by (intro exI [of _ "(a, x) # us @ ys"]) (auto simp: Cons z i(1))
      then show ?thesis using i(2,3) f by (intro exI [of _ "H\<lparr>bh_store := h'\<rparr>"]) (simp add: deleteblock_h_def deleteblock_def bc)
    qed
  qed
qed

section \<open>Sequences of calls\<close>

text \<open>
  The calls of \<open>blockcache.h\<close>. A call of \<open>sendblock\<close> takes the sender as it is when the call is made, and its result has the sender
  afterwards. The two lists of names are one call with a flag.
\<close>

datatype cache_call =
    C_Add u16 u32 BlockData
  | C_Fragment block_mem FragmentData sockaddr_in timeval
  | C_Delete u16 u32
  | C_Read u16 u32
  | C_Complete u16 u32
  | C_Consecutives FragmentID
  | C_Send "nat \<Rightarrow> SendData" u16 u32 sockaddr_in sender
  | C_List bool

datatype cache_result = R_Int int | R_Data "BlockData option" | R_Bool bool | R_Count u16 | R_Sent int sender | R_Ids "BlockID list"

primrec cache_call_h :: "addr \<Rightarrow> cache_call \<Rightarrow> bc_heap \<Rightarrow> (cache_result \<times> bc_heap) res option" where
  "cache_call_h m (C_Add sid bid d) H = map_option (map_res (apfst R_Int)) (addblock_h m sid bid d H)"
| "cache_call_h m (C_Fragment mem f host ts) H = map_option (map_res (apfst R_Int)) (addfragment_h m mem f host ts H)"
| "cache_call_h m (C_Delete sid bid) H = map_option (map_res (apfst R_Int)) (deleteblock_h sid bid H)"
| "cache_call_h m (C_Read sid bid) H = map_option (map_res (apfst R_Data)) (get_block_data_h sid bid H)"
| "cache_call_h m (C_Complete sid bid) H = map_option (map_res (apfst R_Bool)) (iscomplete_h sid bid H)"
| "cache_call_h m (C_Consecutives f) H = map_option (map_res (apfst R_Count)) (get_consecutives_h f H)"
| "cache_call_h m (C_Send mem sid bid dest s) H =
     map_option (map_res (apfst (\<lambda>(n, s). R_Sent n s))) (sendblock_h mem sid bid dest s H)"
| "cache_call_h m (C_List want) H = map_option (map_res (apfst R_Ids)) (block_list_h want H)"

primrec cache_call_l :: "cache_call \<Rightarrow> bcache \<Rightarrow> (cache_result \<times> bcache) res" where
  "cache_call_l (C_Add sid bid d) bc = map_res (apfst R_Int) (addblock sid bid d bc)"
| "cache_call_l (C_Fragment mem f host ts) bc = map_res (apfst R_Int) (addfragment mem f host ts bc)"
| "cache_call_l (C_Delete sid bid) bc = Ok (apfst R_Int (deleteblock sid bid bc))"
| "cache_call_l (C_Read sid bid) bc = map_res (apfst R_Data) (get_block_data sid bid bc)"
| "cache_call_l (C_Complete sid bid) bc = map_res (apfst R_Bool) (iscomplete sid bid bc)"
| "cache_call_l (C_Consecutives f) bc = map_res (apfst R_Count) (get_consecutives f bc)"
| "cache_call_l (C_Send mem sid bid dest s) bc = map_res (\<lambda>(n, bc, s). (R_Sent n s, bc)) (sendblock mem sid bid dest (bc, s))"
| "cache_call_l (C_List want) bc =
     map_res (\<lambda>ids. (R_Ids ids, bc)) (if want then get_complete_block_list bc else get_incomplete_block_list bc)"

text \<open>The one call that loses memory: a first fragment of a block that has the wrong length.\<close>

definition loses_block :: "cache_call \<Rightarrow> bcache \<Rightarrow> cache_result \<Rightarrow> bool" where
  "loses_block c bc r \<longleftrightarrow> (case c of C_Fragment mem f host ts \<Rightarrow>
      find_pos (fd_streamid f) (fd_blockid f) bc = None \<and> r = R_Int F_BAD_LEN | _ \<Rightarrow> False)"

lemma findblock_None: "findblock sid bid bc = Ok (None, bc') \<Longrightarrow> find_pos sid bid bc = None"
  by (auto simp: findblock_def raw_findblock_def bind_res_Ok_iff split: option.splits)

lemma add_refines:
  assumes "bh_rep X H bc" and "m \<noteq> NULL" and "m \<notin> dom (bh_store H)"
  shows "case addblock sid bid d bc of Err e \<Rightarrow> addblock_h m sid bid d H = Some (Err e)
    | Ok (r, bc') \<Rightarrow> \<exists>H'. addblock_h m sid bid d H = Some (Ok (r, H')) \<and> bh_rep X H' bc'"
proof (cases rule: findblock_cases [OF assms(1), of sid bid])
  case 1
  show ?thesis
  proof (cases "block_of_data sid bid d")
    case (Ok b)
    obtain H' where "push_block m b H = Ok H'" "bh_rep X H' (b # bc)" using push_rep [OF assms] by blast
    then show ?thesis using 1 Ok by (simp add: addblock_split addblock_h_def)
  qed (use 1 in \<open>simp add: addblock_split addblock_h_def\<close>)
next
  case 2
  then show ?thesis by (simp add: addblock_split addblock_h_def)
next
  case (3 us a x ys)
  obtain H' where h: "with_block (\<lambda>b. Ok (0 :: int, b)) a (H\<lparr>bh_store := (bh_store H)(a \<mapsto> \<lparr>c_data = x\<lparr>b_lock := True\<rparr>, sle_next = first_of ys\<rparr>)\<rparr>) =
      map_res (\<lambda>(r, b). (r, H' b)) (Ok (0, x\<lparr>b_lock := True\<rparr>))"
    "\<And>b. bh_rep X (H' b) (map snd us @ b\<lparr>b_lock := False\<rparr> # map snd ys)"
    using with_found [OF 3(7-9), where x' = "x\<lparr>b_lock := True\<rparr>" and f = "\<lambda>b. Ok (0 :: int, b)"] by blast
  show ?thesis using h(1) h(2) [of "x\<lparr>b_lock := True\<rparr>"] 3(4-6)
    by (auto simp: addblock_split addblock_h_def unlock_block_def nth_append list_update_append)
qed

lemma first_fragment_code: "first_fragment mem f host ts = Ok (r, b) \<Longrightarrow> r = F_ADDED \<or> r = F_BAD_LEN"
  by (auto simp: first_fragment_def Let_def map_res_Ok_iff split: if_splits)

lemma fragment_refines:
  assumes "bh_rep X H bc" and "m \<noteq> NULL" and "m \<notin> dom (bh_store H)"
  shows "case addfragment mem f host ts bc of Err e \<Rightarrow> addfragment_h m mem f host ts H = Some (Err e)
    | Ok (r, bc') \<Rightarrow> \<exists>H'. addfragment_h m mem f host ts H = Some (Ok (r, H')) \<and>
        bh_rep (if loses_block (C_Fragment mem f host ts) bc (R_Int r) then insert m X else X) H' bc'"
proof (cases rule: findblock_cases [OF assms(1), of "fd_streamid f" "fd_blockid f"])
  case 1
  note n = findblock_None [OF 1(1)]
  show ?thesis
  proof (cases "first_fragment mem f host ts")
    case (Err e)
    then show ?thesis using 1 assms(2) by (simp add: addfragment_def addfragment_h_def addfragment_new_split)
  next
    case (Ok rb)
    obtain r b where rb: "rb = (r, b)" by (cases rb)
    obtain xs where xs: "slist (bh_store H) (bh_first H) xs" "map snd xs = bc" "addrs xs \<inter> X = {}" "dom (bh_store H) = addrs xs \<union> X"
      using assms(1) by (auto simp: bh_rep_def)
    let ?H = "H\<lparr>bh_store := (bh_store H)(m \<mapsto> \<lparr>c_data = b, sle_next = NULL\<rparr>)\<rparr>"
    have "slist (bh_store ?H) (bh_first ?H) xs" using xs(1) by simp (subst slist_cong, use assms(3) xs(4) in auto)
    then have "bh_rep (insert m X) ?H bc"
      unfolding bh_rep_def using xs(2-4) assms(3) by (intro exI [of _ xs]) auto
    moreover obtain H' where "push_block m b H = Ok H'" "bh_rep X H' (b # bc)" using push_rep [OF assms] by blast
    ultimately show ?thesis using first_fragment_code [of mem f host ts r b] 1 n Ok assms(2)
      by (auto simp: addfragment_def addfragment_h_def addfragment_new_split rb loses_block_def code_defs)
  qed
next
  case 2
  then show ?thesis by (simp add: addfragment_def addfragment_h_def)
next
  case (3 us a x ys)
  obtain H' where "with_block (fragment_into f host ts) a (H\<lparr>bh_store := (bh_store H)(a \<mapsto> \<lparr>c_data = x\<lparr>b_lock := True\<rparr>, sle_next = first_of ys\<rparr>)\<rparr>) =
      map_res (\<lambda>(r, b). (r, H' b)) (fragment_into f host ts (x\<lparr>b_lock := True\<rparr>))"
    "\<And>b. bh_rep X (H' b) (map snd us @ b\<lparr>b_lock := False\<rparr> # map snd ys)"
    using with_found [OF 3(7-9)] by blast
  moreover have "find_pos (fd_streamid f) (fd_blockid f) bc \<noteq> None" using 3(2) by simp
  ultimately show ?thesis using 3(4-6)
    by (cases "fragment_into f host ts (x\<lparr>b_lock := True\<rparr>)")
      (auto simp: addfragment_def addfragment_h_def addfragment_at_split unlock_block_def nth_append list_update_append loses_block_def)
qed

text \<open>A call that finds a block, works on it without touching the list, and unlocks it.\<close>

definition call_refines :: "addr set \<Rightarrow> ('r \<times> bcache) res \<Rightarrow> ('r \<times> bc_heap) res option \<Rightarrow> bool" where
  "call_refines X l h \<longleftrightarrow> (case l of Err e \<Rightarrow> h = Some (Err e) | Ok (r, bc) \<Rightarrow> \<exists>H. h = Some (Ok (r, H)) \<and> bh_rep X H bc)"

lemma found_refines:
  assumes "bh_rep X H bc"
  shows "call_refines X
    (bind_res (findblock sid bid bc) (\<lambda>(block, bc). case block of None \<Rightarrow> Ok (dflt, bc)
       | Some p \<Rightarrow> map_res (\<lambda>(r, b). (r, unlock_block p (bc[p := b]))) (f (bc ! p))))
    (then_run (findblock_h sid bid H) (\<lambda>(p, H). Some (if p = NULL then Ok (dflt, H) else with_block f p H)))"
proof (cases rule: findblock_cases [OF assms, of sid bid])
  case (3 us a x ys)
  obtain H' where h: "with_block f a (H\<lparr>bh_store := (bh_store H)(a \<mapsto> \<lparr>c_data = x\<lparr>b_lock := True\<rparr>, sle_next = first_of ys\<rparr>)\<rparr>) =
      map_res (\<lambda>(r, b). (r, H' b)) (f (x\<lparr>b_lock := True\<rparr>))"
    "\<And>b. bh_rep X (H' b) (map snd us @ b\<lparr>b_lock := False\<rparr> # map snd ys)"
    using with_found [OF 3(7-9), where x' = "x\<lparr>b_lock := True\<rparr>" and f = f] by blast
  show ?thesis using h 3(4-6)
    by (cases "f (x\<lparr>b_lock := True\<rparr>)") (auto simp: call_refines_def unlock_block_def nth_append list_update_append)
qed (use assms in \<open>simp_all add: call_refines_def\<close>)

text \<open>The calls of the list model in this form.\<close>

lemma get_block_data_found:
  "get_block_data sid bid bc = bind_res (findblock sid bid bc) (\<lambda>(block, bc). case block of None \<Rightarrow> Ok (None, bc)
     | Some p \<Rightarrow> map_res (\<lambda>(r, b). (r, unlock_block p (bc[p := b])))
         ((\<lambda>b. let c = b_content b in if unat (bd_length c) > length (bd_data c) then Err OutOfBounds
            else Ok (Some \<lparr>bd_data = take (unat (bd_length c)) (bd_data c), bd_length = bd_length c\<rparr>, b)) (bc ! p)))"
  unfolding get_block_data_def by (rule bind_res_cong) (auto simp: Let_def split: option.split)

lemma iscomplete_found:
  "iscomplete sid bid bc = bind_res (findblock sid bid bc) (\<lambda>(block, bc). case block of None \<Rightarrow> Ok (True, bc)
     | Some p \<Rightarrow> map_res (\<lambda>(r, b). (r, unlock_block p (bc[p := b])))
         ((\<lambda>b. Ok (have_below (unat (fs_fn (b_fs b))) (b_f b), b)) (bc ! p)))"
  unfolding iscomplete_def by (rule bind_res_cong) (auto simp: raw_iscomplete_def split: option.split)

lemma get_consecutives_found:
  "get_consecutives f bc = bind_res (findblock (fi_streamid f) (fi_blockid f) bc) (\<lambda>(block, bc). case block of None \<Rightarrow> Ok (0, bc)
     | Some p \<Rightarrow> map_res (\<lambda>(r, b). (r, unlock_block p (bc[p := b])))
         ((\<lambda>b. map_res (\<lambda>n. (of_nat n, b)) (count_before (b_f b) (unat (fi_fragmentid f)))) (bc ! p)))"
  unfolding get_consecutives_def by (rule bind_res_cong) (auto simp: map_res_comp bind_Ok_map split: option.split)

lemma sendblock_found:
  "map_res (\<lambda>(n, bc, s). ((n, s), bc)) (sendblock mem sid bid dest (bc, s)) =
     bind_res (findblock sid bid bc) (\<lambda>(block, bc). case block of None \<Rightarrow> Ok ((0, s), bc)
     | Some p \<Rightarrow> map_res (\<lambda>(r, b). (r, unlock_block p (bc[p := b])))
         ((\<lambda>b. let n = unat (fs_fn (b_fs b)) in
            map_res (\<lambda>s. ((int n, s), b)) (send_fragments mem (nth_fragment sid bid b) dest [0..<n] s)) (bc ! p)))"
  by (cases "findblock sid bid bc") (auto simp: sendblock_def map_res_comp bind_Ok_map Let_def split: option.split)

lemma found_calls_refine:
  assumes "bh_rep X H bc"
  shows "call_refines X (get_block_data sid bid bc) (get_block_data_h sid bid H)"
    and "call_refines X (iscomplete sid bid bc) (iscomplete_h sid bid H)"
    and "call_refines X (get_consecutives fid bc) (get_consecutives_h fid H)"
    and "call_refines X (map_res (\<lambda>(n, bc, s). ((n, s), bc)) (sendblock mem sid bid dest (bc, s))) (sendblock_h mem sid bid dest s H)"
  unfolding get_block_data_found get_block_data_h_def iscomplete_found iscomplete_h_def get_consecutives_found get_consecutives_h_def
    sendblock_found sendblock_h_def by (rule found_refines [OF assms])+

text \<open>The walks of the listings.\<close>

lemma size_slist: "slist h p xs \<Longrightarrow> get_blockcache_size_h p n h = Some (Ok (n + length xs))"
proof (induction xs arbitrary: p n)
  case Nil
  then show ?case by (subst get_blockcache_size_h.simps) simp
next
  case (Cons y xs)
  obtain a x where y: "y = (a, x)" by (cases y)
  note d = slist_ConsD [OF Cons.prems [unfolded y]]
  have "deref h p = Ok \<lparr>c_data = x, sle_next = first_of xs\<rparr>" using d by (simp add: deref_def)
  then show ?case using Cons.IH [OF d(4), of "n + 1"] d(1,2) by (subst get_blockcache_size_h.simps) simp
qed

lemma collect_slist:
  "slist h p xs \<Longrightarrow> collect_ids_h want p ids h = Some (map_res (\<lambda>r. (ids @ r, h)) (collect_ids want (map snd xs)))"
proof (induction xs arbitrary: p ids)
  case Nil
  then show ?case by (subst collect_ids_h.simps) simp
next
  case (Cons y xs)
  obtain a x where y: "y = (a, x)" by (cases y)
  note d = slist_ConsD [OF Cons.prems [unfolded y]]
  have f: "deref h p = Ok \<lparr>c_data = x, sle_next = first_of xs\<rparr>" using d by (simp add: deref_def)
  show ?case
  proof (cases "b_lock x")
    case True
    then show ?thesis using f d(1,2) by (subst collect_ids_h.simps) (simp add: lock_cell_def y)
  next
    case False
    let ?ids = "if have_below (unat (fs_fn (b_fs x))) (b_f x) = want then ids @ [b_id x] else ids"
    have "h(p \<mapsto> \<lparr>c_data = x\<lparr>b_lock := False\<rparr>, sle_next = first_of xs\<rparr>) = h" using d(1,3) False by (simp add: fun_upd_idem)
    then have "collect_ids_h want p ids h = collect_ids_h want (first_of xs) ?ids h"
      using f d(1,2) False by (subst collect_ids_h.simps) (simp add: lock_cell_def deref_def)
    also have "\<dots> = Some (map_res (\<lambda>r. (?ids @ r, h)) (collect_ids want (map snd xs)))" by (rule Cons.IH [OF d(4)])
    also have "\<dots> = Some (map_res (\<lambda>r. (ids @ r, h)) (collect_ids want (map snd (y # xs))))"
      using False by (cases "collect_ids want (map snd xs)") (simp_all add: y)
    finally show ?thesis .
  qed
qed

lemma list_refines:
  assumes "bh_rep X H bc"
  shows "block_list_h want H = Some (map_res (\<lambda>ids. (ids, H)) (if want then get_complete_block_list bc else get_incomplete_block_list bc))"
proof -
  obtain xs where xs: "slist (bh_store H) (bh_first H) xs" "map snd xs = bc" using assms by (auto simp: bh_rep_def)
  have n: "length xs = length bc" using xs(2) by auto
  show ?thesis
  proof (cases "bc = []")
    case True
    then show ?thesis using size_slist [OF xs(1), of 0] n
      by (simp add: block_list_h_def get_complete_block_list_def get_incomplete_block_list_def get_blockcache_size_def)
  next
    case False
    then have "block_list_h want H = Some (map_res (\<lambda>ids. (ids, H)) (collect_ids want bc))"
      using size_slist [OF xs(1), of 0] collect_slist [OF xs(1), of want "[]"] xs(2) n
      by (cases "collect_ids want bc") (simp_all add: block_list_h_def)
    then show ?thesis using False
      by (simp add: get_complete_block_list_def get_incomplete_block_list_def get_blockcache_size_def)
  qed
qed

lemma cache_call_sim:
  assumes "bh_rep X H bc" and "m \<noteq> NULL" and "m \<notin> dom (bh_store H)"
  shows "case cache_call_l c bc of Err e \<Rightarrow> cache_call_h m c H = Some (Err e)
    | Ok (r, bc') \<Rightarrow> \<exists>H'. cache_call_h m c H = Some (Ok (r, H')) \<and> bh_rep (if loses_block c bc r then insert m X else X) H' bc'"
proof (cases c)
  case (C_Add sid bid d)
  then show ?thesis using add_refines [OF assms, of sid bid d]
    by (cases "addblock sid bid d bc") (auto simp: loses_block_def)
next
  case (C_Fragment mem f host ts)
  then show ?thesis using fragment_refines [OF assms, of mem f host ts]
    by (cases "addfragment mem f host ts bc") (auto split: if_splits)
next
  case (C_Delete sid bid)
  then show ?thesis using delete_refines [OF assms(1), of sid bid] by (cases "deleteblock sid bid bc") (auto simp: loses_block_def)
next
  case (C_Read sid bid)
  then show ?thesis using found_calls_refine(1) [OF assms(1), of sid bid]
    by (cases "get_block_data sid bid bc") (auto simp: call_refines_def loses_block_def)
next
  case (C_Complete sid bid)
  then show ?thesis using found_calls_refine(2) [OF assms(1), of sid bid]
    by (cases "iscomplete sid bid bc") (auto simp: call_refines_def loses_block_def)
next
  case (C_Consecutives f)
  then show ?thesis using found_calls_refine(3) [OF assms(1), of f]
    by (cases "get_consecutives f bc") (auto simp: call_refines_def loses_block_def)
next
  case (C_Send mem sid bid dest s)
  then show ?thesis using found_calls_refine(4) [OF assms(1), of mem sid bid dest s]
    by (cases "sendblock mem sid bid dest (bc, s)") (auto simp: call_refines_def loses_block_def)
next
  case (C_List want)
  then show ?thesis using list_refines [OF assms(1), of want] assms(1)
    by (cases "if want then get_complete_block_list bc else get_incomplete_block_list bc") (auto simp: loses_block_def)
qed

text \<open>\<open>malloc\<close> chooses the address of a new block; the list run counts the blocks that were lost.\<close>

primrec cache_run_h :: "(bc_heap \<Rightarrow> addr) \<Rightarrow> cache_call list \<Rightarrow> bc_heap \<Rightarrow> (cache_result list \<times> bc_heap) res option" where
  "cache_run_h malloc [] H = Some (Ok ([], H))"
| "cache_run_h malloc (c # cs) H =
     then_run (cache_call_h (malloc H) c H) (\<lambda>(r, H). map_option (map_res (apfst (Cons r))) (cache_run_h malloc cs H))"

primrec cache_run_l :: "cache_call list \<Rightarrow> bcache \<Rightarrow> nat \<Rightarrow> (cache_result list \<times> bcache \<times> nat) res" where
  "cache_run_l [] bc lost = Ok ([], bc, lost)"
| "cache_run_l (c # cs) bc lost =
     bind_res (cache_call_l c bc) (\<lambda>(r, bc').
       map_res (apfst (Cons r)) (cache_run_l cs bc' (if loses_block c bc r then lost + 1 else lost)))"

definition fresh_block :: "(bc_heap \<Rightarrow> addr) \<Rightarrow> bool" where
  "fresh_block malloc \<longleftrightarrow> (\<forall>H. finite (dom (bh_store H)) \<longrightarrow> malloc H \<noteq> NULL \<and> malloc H \<notin> dom (bh_store H))"

lemma bh_rep_finite: "bh_rep X H bc \<Longrightarrow> finite X \<Longrightarrow> finite (dom (bh_store H))"
  by (auto simp: bh_rep_def addrs_def simp del: addrs_simps(4))

lemma cache_run_sim:
  assumes "fresh_block malloc"
  shows "bh_rep X H bc \<Longrightarrow> finite X \<Longrightarrow> case cache_run_l cs bc (card X) of Err e \<Rightarrow> cache_run_h malloc cs H = Some (Err e)
    | Ok (rs, bc', n) \<Rightarrow> \<exists>H' X'. cache_run_h malloc cs H = Some (Ok (rs, H')) \<and> bh_rep X' H' bc' \<and> finite X' \<and> card X' = n"
proof (induction cs arbitrary: X H bc)
  case Nil
  then show ?case by auto
next
  case (Cons c cs)
  have m: "malloc H \<noteq> NULL" "malloc H \<notin> dom (bh_store H)"
    using assms bh_rep_finite [OF Cons.prems] by (auto simp: fresh_block_def)
  note sim = cache_call_sim [OF Cons.prems(1) m, of c]
  show ?case
  proof (cases "cache_call_l c bc")
    case (Err e)
    then show ?thesis using sim by simp
  next
    case (Ok rb)
    obtain r bc' where rb: "rb = (r, bc')" by (cases rb)
    let ?X = "if loses_block c bc r then insert (malloc H) X else X"
    obtain H' where h: "cache_call_h (malloc H) c H = Some (Ok (r, H'))" "bh_rep ?X H' bc'" using sim Ok rb by auto
    have "malloc H \<notin> X" using Cons.prems(1) m(2) by (auto simp: bh_rep_def)
    then have n: "card ?X = (if loses_block c bc r then card X + 1 else card X)" using Cons.prems(2) by simp
    show ?thesis using Cons.IH [OF h(2)] Cons.prems(2) Ok rb h(1) n
      by (cases "cache_run_l cs bc' (card ?X)") (auto split: if_splits)
  qed
qed

text \<open>
  C11: the pointer code of \<open>blockcache.c\<close> implements the list model. From the empty cache, every sequence of
  calls of \<open>addblock\<close>, \<open>addfragment\<close>, \<open>deleteblock\<close>, \<open>get_block_data\<close>, \<open>iscomplete\<close>, \<open>get_consecutives\<close>, \<open>sendblock\<close> and the two
  listings ends with the results of the list model, block by block and byte by byte, or with its fault; no call reads or writes a
  freed or foreign block, a deleted block is freed once, every block that a call locked is unlocked as in the list model, and besides the
  cached blocks exactly those stay allocated that a first fragment of the wrong length created. The calls follow each other;
  what overlapping calls can do is the subject of the next section.
\<close>

theorem cache_pointers_refine_lists:
  assumes "fresh_block malloc"
  shows "case cache_run_l cs [] 0 of Err e \<Rightarrow> cache_run_h malloc cs static_bc_heap = Some (Err e)
    | Ok (rs, bc', lost) \<Rightarrow> \<exists>H' X. cache_run_h malloc cs static_bc_heap = Some (Ok (rs, H')) \<and> bh_rep X H' bc' \<and>
        finite X \<and> card X = lost"
proof -
  have "bh_rep {} static_bc_heap []" by (simp add: bh_rep_def static_bc_heap_def)
  from cache_run_sim [OF assms this] show ?thesis by simp
qed

section \<open>Calls that overlap\<close>

lemma first_match:
  "find_pos sid bid (map snd us @ x # bs) = Some (length us) \<Longrightarrow> is_block sid bid x \<and> list_all (\<lambda>u. \<not> is_block sid bid (snd u)) us"
  by (induction us) (auto split: if_splits)

lemma unlink_present: "is_block sid bid x \<Longrightarrow> unlink_after sid bid y (map snd (vs @ (a, x) # ys)) \<noteq> None"
  by (induction vs arbitrary: y) auto

lemma first_unique:
  "vs @ (a, x) # ys = ws @ (c, v) # zs \<Longrightarrow> is_block sid bid x \<Longrightarrow> is_block sid bid v \<Longrightarrow>
     list_all (\<lambda>u. \<not> is_block sid bid (snd u)) vs \<Longrightarrow> list_all (\<lambda>u. \<not> is_block sid bid (snd u)) ws \<Longrightarrow> c = a"
proof (induction vs arbitrary: ws)
  case Nil
  then show ?case by (cases ws) auto
next
  case (Cons u vs)
  then show ?case by (cases ws) auto
qed

text \<open>
  C35: a block in use can be freed. When \<open>findblock\<close> has returned a block that is not the head of the list, with its mutex
  taken, another thread's \<open>deleteblock\<close> of that block succeeds at once, without waiting for the mutex, and whatever the holder
  does next goes through a dangling pointer.
\<close>

theorem delete_frees_block_in_use:
  assumes "bh_rep X H bc" and "find_pos sid bid bc = Some (Suc i)" and "\<not> b_lock (bc ! Suc i)"
  shows "\<exists>p H1 H2. findblock_h sid bid H = Some (Ok (p, H1)) \<and> p \<noteq> NULL \<and>
    deleteblock_h sid bid H1 = Some (Ok (BD_SUCCESS, H2)) \<and>
    with_block (fragment_into fragment host ts) p H2 = Err OutOfBounds"
proof -
  obtain us a x ys where f: "bc = map snd us @ x # map snd ys" "find_pos sid bid bc = Some (length us)" "a \<noteq> NULL"
    "findblock_h sid bid H = Some (Ok (a, H\<lparr>bh_store := (bh_store H)(a \<mapsto> \<lparr>c_data = x\<lparr>b_lock := True\<rparr>, sle_next = first_of ys\<rparr>)\<rparr>))"
    "slist (bh_store H) (bh_first H) (us @ (a, x) # ys)"
  proof (cases rule: findblock_cases [OF assms(1), of sid bid])
    case 1
    then show ?thesis using findblock_None [OF 1(1)] assms(2) by simp
  next
    case 2
    then show ?thesis using assms(2,3) by (simp add: findblock_def raw_findblock_def lock_block_def)
  next
    case (3 us a x ys)
    then show ?thesis using that by blast
  qed
  let ?x = "x\<lparr>b_lock := True\<rparr>"
  let ?h = "(bh_store H)(a \<mapsto> \<lparr>c_data = ?x, sle_next = first_of ys\<rparr>)"
  have s: "slist ?h (bh_first H) (us @ (a, ?x) # ys)" using slist_payload [OF f(5)] .
  obtain b y vs where us: "us = (b, y) # vs" using f(2) assms(2) by (cases us) auto
  have x: "is_block sid bid x" "\<not> is_block sid bid y" "list_all (\<lambda>v. \<not> is_block sid bid (snd v)) vs"
    using first_match [OF f(2) [unfolded f(1)]] by (auto simp: us)
  have sa: "slist ?h (bh_first H) ((b, y) # vs @ (a, ?x) # ys)" using s by (simp add: us)
  from delete_walk_slist [OF sa, of sid bid]
  obtain ws c v zs h' where w: "vs @ (a, ?x) # ys = ws @ (c, v) # zs" "is_block sid bid v" "list_all (\<lambda>u. \<not> is_block sid bid (snd u)) ws"
    "delete_walk sid bid (bh_first H) ?h = Some (Ok (Some h'))" "dom h' = dom ?h - {c}"
    using unlink_present [where vs = vs and ys = ys and x = ?x and a = a and y = y and sid = sid and bid = bid] x(1) by (auto simp: is_block_def)
  have "c = a" using w(1-3) x by (intro first_unique [of vs a ?x ys ws c v zs sid bid]) (auto simp: is_block_def)
  then have "h' a = None" using w(5) by auto
  moreover have "bh_first H \<noteq> NULL" using slist_ConsD(1,2) [OF sa] by simp
  ultimately show ?thesis using f(3,4) w(4)
    by (intro exI [of _ a] exI [of _ "H\<lparr>bh_store := ?h\<rparr>"] exI [of _ "H\<lparr>bh_store := h'\<rparr>"]) (auto simp: deleteblock_h_def with_block_def deref_def)
qed

text \<open>
  Nor does \<open>addblock\<close> search and insert under one lock. When a second call adds the same block after the search of the first,
  the first inserts all the same: both report success, and the cache has two blocks with one name, the second of which no search finds.
\<close>

lemma overlapping_adds_duplicate:
  assumes "bh_rep X H bc" and "find_pos sid bid bc = None" and "block_of_data sid bid d = Ok b" and "block_of_data sid bid d' = Ok b'"
    and "m \<noteq> NULL" and "m \<notin> dom (bh_store H)"
  shows "findblock_h sid bid H = Some (Ok (NULL, H))"
    and "\<exists>H1. addblock_h m sid bid d H = Some (Ok (1, H1)) \<and>
      (m' \<noteq> NULL \<and> m' \<notin> dom (bh_store H1) \<longrightarrow>
        (\<exists>H2. push_block m' b' H1 = Ok H2 \<and> bh_rep X H2 (b' # b # bc) \<and> \<not> distinct (map b_id (b' # b # bc)) \<and>
          find_pos sid bid (b' # b # bc) = Some 0))"
proof -
  have l: "findblock sid bid bc = Ok (None, bc)" using assms(2) by (simp add: findblock_def raw_findblock_def)
  show f: "findblock_h sid bid H = Some (Ok (NULL, H))"
    by (cases rule: findblock_cases [OF assms(1), of sid bid]) (use l assms(2) in simp_all)
  obtain H1 where h: "push_block m b H = Ok H1" "bh_rep X H1 (b # bc)" using push_rep [OF assms(1,5,6)] by blast
  have "addblock_h m sid bid d H = Some (Ok (1, H1))" using f h(1) assms(3) by (simp add: addblock_h_def)
  moreover have "b_id b = \<lparr>bi_streamid = sid, bi_blockid = bid\<rparr>" "b_id b' = \<lparr>bi_streamid = sid, bi_blockid = bid\<rparr>"
    using assms(3,4) by (auto simp: block_of_data_def Let_def split: if_splits)
  then have "\<not> distinct (map b_id (b' # b # bc))" "find_pos sid bid (b' # b # bc) = Some 0" by (simp_all add: is_block_def)
  ultimately show "\<exists>H1. addblock_h m sid bid d H = Some (Ok (1, H1)) \<and>
      (m' \<noteq> NULL \<and> m' \<notin> dom (bh_store H1) \<longrightarrow>
        (\<exists>H2. push_block m' b' H1 = Ok H2 \<and> bh_rep X H2 (b' # b # bc) \<and> \<not> distinct (map b_id (b' # b # bc)) \<and>
          find_pos sid bid (b' # b # bc) = Some 0))"
    using push_rep [OF h(2)] by auto
qed

end
