(* ===== verification/Api_Types.thy ===== *)
theory Api_Types
  imports Bora_System
begin

text \<open>
  The shapes of the values that the module hands to its caller. The format strings of \<open>Py_BuildValue\<close>
  in \<open>bora.c\<close> fix the keys of each dictionary and the range of each number; \<open>method_type\<close> collects
  them for the whole method table, with the table itself as the interpreter sees it.
\<close>

section \<open>Types\<close>

datatype pytype =
    TNone
  | TTrue
  | TInt
  | TRange int int
  | TFloat
  | TStr
  | TList pytype
  | TRow "pytype list"
  | TDict "(string \<times> pytype) list"
  | TAlt pytype pytype

fun has_type :: "pytype \<Rightarrow> pyval \<Rightarrow> bool"
  and row_type :: "pytype list \<Rightarrow> pyval list \<Rightarrow> bool"
  and dict_type :: "(string \<times> pytype) list \<Rightarrow> (string \<times> pyval) list \<Rightarrow> bool" where
  "has_type TNone PyNone = True"
| "has_type TTrue PyTrue = True"
| "has_type TInt (PyInt n) = True"
| "has_type (TRange lo hi) (PyInt n) \<longleftrightarrow> lo \<le> n \<and> n < hi"
| "has_type TFloat (PyFloat d) = True"
| "has_type TStr (PyStr s) = True"
| "has_type (TList t) (PyList vs) \<longleftrightarrow> list_all (has_type t) vs"
| "has_type (TRow ts) (PyList vs) \<longleftrightarrow> row_type ts vs"
| "has_type (TDict ts) (PyDict vs) \<longleftrightarrow> dict_type ts vs"
| "has_type (TAlt t u) v \<longleftrightarrow> has_type t v \<or> has_type u v"
| "has_type _ _ = False"
| "row_type [] [] = True"
| "row_type (t # ts) (v # vs) \<longleftrightarrow> has_type t v \<and> row_type ts vs"
| "row_type _ _ = False"
| "dict_type [] [] = True"
| "dict_type ((k, t) # ts) ((l, v) # vs) \<longleftrightarrow> k = l \<and> has_type t v \<and> dict_type ts vs"
| "dict_type _ _ = False"

text \<open>The C types behind the formats.\<close>

definition t_int :: pytype where "t_int = TRange (- (2 ^ 31)) (2 ^ 31)"
definition t_long :: pytype where "t_long = TRange (- (2 ^ 63)) (2 ^ 63)"
definition t_ulong :: pytype where "t_ulong = TRange 0 (2 ^ 64)"
definition t_uint32 :: pytype where "t_uint32 = TRange 0 (2 ^ 32)"
definition t_uint16 :: pytype where "t_uint16 = TRange 0 (2 ^ 16)"

abbreviation t_host :: "(string \<times> pytype) list" where "t_host \<equiv> [(''host'', TStr), (''port'', t_uint16)]"
abbreviation t_sample :: "(string \<times> pytype) list" where
  "t_sample \<equiv> [(''sent'', TFloat), (''RTT'', t_long), (''STT'', t_long), (''seq'', t_uint16), (''sleep'', t_int)]"

definition t_ack :: pytype where "t_ack = TDict (t_host @ t_sample)"

definition t_id :: pytype where "t_id = TDict [(''sid'', t_uint16), (''bid'', t_int)]"

definition t_in_stats :: pytype where
  "t_in_stats = TDict [(''I_PKG_COUNTER'', t_int), (''I_DATA_COUNTER'', t_int), (''I_ACK_DATA_COUNTER'', t_int),
     (''I_ACK_COUNTER'', t_int), (''I_GARBAGE'', t_int), (''I_DUPE_COUNTER'', t_int), (''I_DUPE_DATA_COUNTER'', t_int),
     (''I_BAD_ACK_COUNTER'', t_int)]"

definition t_out_stats :: pytype where
  "t_out_stats = TDict [(''O_DATA_COUNTER'', t_int), (''O_PKG_COUNTER'', t_int), (''O_ACK_COUNTER'', t_int),
     (''O_ACK_DATA_COUNTER'', t_int), (''O_RETR_COUNTER'', t_int), (''O_RETR_DATA_COUNTER'', t_int)]"

definition t_estimation :: pytype where
  "t_estimation = TDict [(''ip'', TStr), (''port'', t_uint16), (''list'', TList (TDict [(''bw'', t_ulong), (''tv'', TFloat)]))]"

definition t_bw_msg :: pytype where
  "t_bw_msg = TDict [(''ip'', TStr), (''port'', t_uint16), (''bw'', t_uint32), (''tv'', TFloat)]"

definition t_peer_report :: pytype where
  "t_peer_report = TDict (t_host @
     [(''minSTT'', t_long), (''minRTT'', t_long), (''avgRTT'', t_long), (''avgSTT'', t_long), (''errRTT'', t_long), (''errSTT'', t_long),
      (''acked_total'', t_long), (''error_total'', t_long), (''acked_last'', TInt), (''error_last'', TInt),
      (''values'', TList (TDict t_sample))])"

definition t_report :: pytype where
  "t_report = TDict [(''sent_data'', t_out_stats), (''peer_stats'', TList t_peer_report),
     (''last_ack'', TAlt TNone t_ack), (''last_nack'', t_uint16), (''idle'', t_long)]"

definition t_incoming :: pytype where
  "t_incoming = TDict (t_host @ [(''message'', TStr), (''ts'', TFloat)])"

text \<open>The result of each method; a method of a dying module may answer \<open>None\<close> instead.\<close>

fun method_type :: "bora_method \<Rightarrow> pytype" where
  "method_type (M_listen_on v) = TNone"
| "method_type (M_get_in_stats rst) = TAlt t_in_stats TNone"
| "method_type (M_get_out_stats rst) = TAlt t_out_stats TNone"
| "method_type M_get_bw_stats = TAlt (TList t_estimation) TNone"
| "method_type M_die = TTrue"
| "method_type (M_send_block a) = TAlt TTrue TNone"
| "method_type (M_send_raw a) = TAlt TStr TNone"
| "method_type (M_add_block a) = TAlt TTrue TNone"
| "method_type (M_del_block a) = TAlt TTrue TNone"
| "method_type M_incomplete_block_list = TAlt (TList t_id) TNone"
| "method_type M_complete_block_list = TAlt (TList t_id) TNone"
| "method_type (M_get_block_content a) = TAlt TStr TNone"
| "method_type (M_bws_set a) = TNone"
| "method_type (M_send_bw_msg a) = TAlt TTrue TNone"
| "method_type M_get_bw_msg = TAlt (TList t_bw_msg) TNone"
| "method_type (M_send_cookie_wait expired) = TList t_ack"
| "method_type (M_set_nat_port a) = TNone"
| "method_type M_get_que_size = TInt"
| "method_type M_BIter_next = TAlt (TRow [TInt, TInt]) (TRow [TInt, TInt, t_incoming])"
| "method_type M_BPuller_next = TRange 1 2"
| "method_type M_BWIter_next = t_report"
| "method_type _ = TRow []"

fun is_next :: "bora_method \<Rightarrow> bool" where
  "is_next M_BIter_next = True"
| "is_next M_BPuller_next = True"
| "is_next M_BWIter_next = True"
| "is_next _ = False"

text \<open>Calls that may end without a plain value: they make an iterator object or go on waiting.\<close>

fun makes_object :: "bora_method \<Rightarrow> bool" where
  "makes_object M_biter = True"
| "makes_object M_bpuller = True"
| "makes_object (M_bwsiter v) = True"
| "makes_object (M_send_cookie a) = True"
| "makes_object _ = False"

section \<open>The builders\<close>

lemma t_py [simp]:
  "has_type t_int (py_i n)" "has_type t_long (py_l n)" "has_type t_long (py_usec t)" "has_type TFloat (py_d t)"
  "has_type TStr (py_host a)" "has_type t_uint16 (py_port a)" "has_type TStr (py_s s)"
  "has_type t_uint16 (PyInt (uint (u :: u16)))" "has_type t_uint32 (PyInt (uint (v :: u32)))" "has_type t_int (PyInt (sint (v :: u32)))"
proof -
  have u: "0 \<le> uint (w :: u16) \<and> uint w < 2 ^ 16" for w using uint_ge_0 [of w] uint_lt2p [of w] by simp
  have v: "0 \<le> uint (w :: u32) \<and> uint w < 2 ^ 32" "- (2 ^ 31) \<le> sint (w :: u32) \<and> sint w < 2 ^ 31" for w
    using uint_ge_0 [of w] uint_lt2p [of w] sint_ge [of w] sint_lt [of w] by simp_all
  have l: "- (2 ^ 63) \<le> sint (w :: u64) \<and> sint w < 2 ^ 63" for w using sint_ge [of w] sint_lt [of w] by simp
  show "has_type t_int (py_i n)" unfolding py_i_def t_int_def has_type.simps by (rule v)
  show "has_type t_long (py_l n)" unfolding py_l_def t_long_def has_type.simps by (rule l)
  show "has_type t_long (py_usec t)" unfolding py_usec_def t_long_def has_type.simps by (rule l)
  show "has_type TFloat (py_d t)" by (simp add: py_d_def)
  show "has_type TStr (py_host a)" "has_type TStr (py_s s)" by (simp_all add: py_host_def py_s_def)
  show "has_type t_uint16 (py_port a)" unfolding py_port_def t_uint16_def has_type.simps by (rule u)
  show "has_type t_uint16 (PyInt (uint u))" unfolding t_uint16_def has_type.simps by (rule u)
  show "has_type t_uint32 (PyInt (uint v))" "has_type t_int (PyInt (sint v))" unfolding t_uint32_def t_int_def has_type.simps by (rule v)+
qed

lemma list_all_map_type: "(\<And>x. has_type t (f x)) \<Longrightarrow> list_all (has_type t) (map f xs)"
  by (simp add: list_all_length)

lemma map_all_type:
  "map_all f xs = Ok ys \<Longrightarrow> (\<And>x y. f x = Ok y \<Longrightarrow> has_type t y) \<Longrightarrow> list_all (has_type t) ys"
  by (induction xs arbitrary: ys) (auto simp: bind_res_Ok_iff map_res_Ok_iff)

lemma t_dicts [simp]:
  "has_type t_id (id_dict i)" "has_type t_in_stats (in_stats_dict st)" "has_type t_out_stats (out_stats_dict s)"
  "has_type t_bw_msg (bwmsg_dict m)" "has_type t_incoming (incoming_dict d)" "has_type t_ack (cookie_dict r)"
  "has_type (TDict t_sample) (sample_dict a)" "has_type t_peer_report (peer_report p)"
  by (simp_all add: id_dict_def t_id_def in_stats_dict_def t_in_stats_def out_stats_dict_def t_out_stats_def bwmsg_dict_def t_bw_msg_def
      incoming_dict_def t_incoming_def cookie_dict_def t_ack_def sample_dict_def peer_report_def t_peer_report_def list_all_map_type)

lemma t_last_ack [simp]: "has_type TNone (last_ack_dict peers ls) \<or> has_type t_ack (last_ack_dict peers ls)"
  by (simp add: last_ack_dict_def t_ack_def split: option.split)

lemma bw_dict_type: "bw_dict bw = Ok v \<Longrightarrow> has_type (TDict [(''bw'', t_ulong), (''tv'', TFloat)]) v"
proof -
  have "double_to_ulong d = Ok n \<Longrightarrow> 0 \<le> n \<and> n < 2 ^ 64" for d n
    by (cases d) (simp_all add: Let_def split: if_splits)
  then show "bw_dict bw = Ok v \<Longrightarrow> has_type (TDict [(''bw'', t_ulong), (''tv'', TFloat)]) v"
    by (auto simp: bw_dict_def map_res_Ok_iff t_ulong_def)
qed

lemma estimation_type: "estimation_dict e = Ok v \<Longrightarrow> has_type t_estimation v"
  by (auto simp: estimation_dict_def map_res_Ok_iff t_estimation_def elim!: map_all_type [OF _ bw_dict_type])

lemma report_type: "bws_report w = Ok (v, w') \<Longrightarrow> has_type t_report v"
  by (cases "get_idle (aw_sender w)")
    (auto simp: bws_report_def bind_res_Ok_iff t_report_def get_seq_def list_all_map_type)

section \<open>Every call\<close>

definition result_ok :: "bora_method \<Rightarrow> pycall option \<Rightarrow> bool" where
  "result_ok m r \<longleftrightarrow> (case r of
     None \<Rightarrow> makes_object m
   | Some (Return v) \<Rightarrow> has_type (method_type m) v
   | Some (AttributeError msg) \<Rightarrow> \<not> is_next m
   | Some StopIteration \<Rightarrow> is_next m
   | Some (ReturnPending v) \<Rightarrow> has_type (method_type m) v \<and> m \<in> {M_get_in_stats None, M_get_out_stats None})"

lemma iterators_typed:
  "BIter_iternext b = Ok (r, b') \<Longrightarrow> result_ok M_BIter_next (Some r)"
  "BPuller_iternext b = Ok (r, b') \<Longrightarrow> result_ok M_BPuller_next (Some r)"
  "BWIter_iternext b = Ok (r, b') \<Longrightarrow> result_ok M_BWIter_next (Some r)"
  by (auto simp: BIter_iternext_def BIter_resume_def BPuller_iternext_def BPuller_resume_def BWIter_iternext_def BWIter_resume_def
      result_ok_def map_res_Ok_iff Let_def dest: report_type split: if_splits option.splits prod.splits)

lemma answers_Ok_iff: "answers x = Ok (r, b') \<longleftrightarrow> (\<exists>q. x = Ok (q, b') \<and> r = Some q)"
  by (auto simp: answers_def answer_def bind_res_Ok_iff)

lemma calls_typed:
  "answer (listen_on e1 e2 v b) = Ok (r, b') \<Longrightarrow> result_ok (M_listen_on v) r"
  "answer (get_in_stats rst b) = Ok (r, b') \<Longrightarrow> result_ok (M_get_in_stats rst) r"
  "answer (get_out_stats rst b) = Ok (r, b') \<Longrightarrow> result_ok (M_get_out_stats rst) r"
  "answer (die b) = Ok (r, b') \<Longrightarrow> result_ok M_die r"
  "answer (get_bw_msg b) = Ok (r, b') \<Longrightarrow> result_ok M_get_bw_msg r"
  "answer (bora_set_nat_port a b) = Ok (r, b') \<Longrightarrow> result_ok (M_set_nat_port a) r"
  by (auto simp: answer_def listen_on_def get_in_stats_def get_out_stats_def die_def get_bw_msg_def bora_set_nat_port_def result_ok_def
      with_pending_def Let_def list_all_map_type split: if_splits option.splits prod.splits)

lemma sends_typed:
  "send_block pton ps a b = Ok (q, b') \<Longrightarrow> result_ok (M_send_block a) (Some q)"
  "answer (send_raw pton mem t b) = Ok (r, b') \<Longrightarrow> result_ok (M_send_raw t) r"
  "send_cookie_begin pton c b = Ok (r, b') \<Longrightarrow> result_ok (M_send_cookie c) r"
  "send_cookie_end expired b = Ok (q, b') \<Longrightarrow> result_ok (M_send_cookie_wait expired) (Some q)"
  by (auto simp: answer_def send_block_def send_raw_def send_cookie_begin_def send_cookie_end_def result_ok_def Let_def
      list_all_map_type bind_res_Ok_iff map_res_Ok_iff split: if_splits option.splits prod.splits sum.splits)

lemma bw_msg_typed: "send_bw_msg pton mem a0 a b = Ok (q, b') \<Longrightarrow> result_ok (M_send_bw_msg a) (Some q)"
proof -
  have "send_bw_entry pton mem a0 entry b = Ok (r, b') \<Longrightarrow> result_ok (M_send_bw_msg a) (Some r)" for entry r b'
    by (auto simp: send_bw_entry_def result_ok_def Let_def split: pyval.splits option.splits)
  then show "send_bw_msg pton mem a0 a b = Ok (q, b') \<Longrightarrow> result_ok (M_send_bw_msg a) (Some q)"
    by (auto simp: send_bw_msg_def result_ok_def split: if_splits option.splits pyval.splits list.splits)
qed

lemma cache_typed:
  "add_block x b = Ok (q, b') \<Longrightarrow> result_ok (M_add_block x) (Some q)"
  "answer (del_block y b) = Ok (r, b') \<Longrightarrow> result_ok (M_del_block y) r"
  "get_block_content y b = Ok (q, b') \<Longrightarrow> result_ok (M_get_block_content y) (Some q)"
  "incomplete_block_list b = Ok q \<Longrightarrow> result_ok M_incomplete_block_list (Some q)"
  "complete_block_list b = Ok q \<Longrightarrow> result_ok M_complete_block_list (Some q)"
  "get_bw_stats b = Ok (q, b') \<Longrightarrow> result_ok M_get_bw_stats (Some q)"
  "bws_set now y b = Ok (q, b') \<Longrightarrow> result_ok (M_bws_set y) (Some q)"
  by (auto simp: answer_def add_block_def del_block_def get_block_content_def incomplete_block_list_def
      complete_block_list_def get_bw_stats_def bws_set_def result_ok_def list_all_map_type bind_res_Ok_iff map_res_Ok_iff
      elim!: map_all_type [OF _ estimation_type] split: if_splits option.splits prod.splits)

lemma call_typed: "call_method e m b = Ok (r, b') \<Longrightarrow> result_ok m r"
proof (cases m)
qed (auto simp: map_res_Ok_iff answers_Ok_iff result_ok_def [of M_biter] result_ok_def [of M_bpuller] result_ok_def [of M_get_que_size]
    result_ok_def [of "M_bwsiter _"] bora_biter_def bora_bpuller_def get_que_size_def bwiter_new_def
    dest: calls_typed sends_typed bw_msg_typed cache_typed iterators_typed split: if_splits option.splits)

text \<open>
  C18: whatever a program calls and whatever the network does, every value it gets back has the
  type of the method it called: the dictionaries have exactly the documented keys, each number lies in the
  range of the C type its format names, an exception \<open>StopIteration\<close> comes from the iterators
  only and an \<open>AttributeError\<close> never does. The two methods for the counters, called with something that is not a number, return
  their dictionary with an exception left set; no other call does that.
\<close>

theorem api_results_typed:
  assumes "run_methods ems b = Ok (rs, b')"
  shows "list_all2 (\<lambda>em r. result_ok (snd em) r) ems rs"
  using assms
proof (induction ems arbitrary: b rs)
  case (Cons em ems)
  obtain r b1 rs' where r: "call_method (fst em) (snd em) b = Ok (r, b1)" "run_methods ems b1 = Ok (rs', b')" "rs = r # rs'"
    using Cons.prems by (auto simp: bind_res_Ok_iff map_res_Ok_iff)
  then show ?case using Cons.IH [OF r(2)] call_typed [OF r(1)] by simp
qed simp

section \<open>The method table\<close>

datatype meth_flag = METH_NOARGS | METH_O | METH_VARARGS

definition BoraMethods :: "(string \<times> meth_flag) list" where
  "BoraMethods =
     [(''biter'', METH_NOARGS), (''bpuller'', METH_NOARGS), (''listen_on'', METH_O), (''get_in_stats'', METH_O),
      (''get_out_stats'', METH_O), (''get_bw_stats'', METH_NOARGS), (''die'', METH_NOARGS), (''send_block'', METH_VARARGS),
      (''send_raw'', METH_VARARGS), (''add_block'', METH_VARARGS), (''del_block'', METH_VARARGS),
      (''incomplete_block_list'', METH_NOARGS), (''complete_block_list'', METH_NOARGS), (''get_block_content'', METH_VARARGS),
      (''bwsiter'', METH_O), (''bws_set'', METH_VARARGS), (''send_bw_msg'', METH_VARARGS), (''get_bw_msg'', METH_NOARGS),
      (''send_cookie'', METH_VARARGS), (''set_nat_port'', METH_VARARGS), (''get_que_size'', METH_NOARGS)]"

text \<open>
  A type object, over the state \<open>'s\<close> its \<open>iternext\<close> works on, and a module. The three iterators of \<open>bora.c\<close> keep nothing of
  their own; each is its own iterator (\<open>tp_iter\<close> returns its argument).
\<close>

record 's iter_type =
  tp_name :: string
  tp_doc :: string
  tp_iternext :: "'s \<Rightarrow> (pycall \<times> 's) res"

definition bora_BPullerType :: "bora iter_type" where
  "bora_BPullerType = \<lparr>tp_name = ''bora._BPuller'', tp_doc = ''Internal puller iterator object.'', tp_iternext = BPuller_iternext\<rparr>"

definition bora_BIterType :: "bora iter_type" where
  "bora_BIterType = \<lparr>tp_name = ''bora._BIter'', tp_doc = ''Internal biter iterator object.'', tp_iternext = BIter_iternext\<rparr>"

definition bora_BWIterType :: "bora iter_type" where
  "bora_BWIterType = \<lparr>tp_name = ''bora._BWIter'', tp_doc = ''Internal bw iterator object.'', tp_iternext = BWIter_iternext\<rparr>"

text \<open>
  \<open>initbora\<close>: \<open>ready\<close> is what \<open>PyType_Ready\<close> returns for each type, in the order of the calls; the module is made only when all three are ready, and
  \<open>kill_bora_threads\<close> is cleared.
\<close>

record 's py_module =
  pm_methods :: "(string \<times> meth_flag) list"
  pm_types :: "(string \<times> 's iter_type) list"

definition initbora :: "(bora iter_type \<Rightarrow> int) \<Rightarrow> bool \<Rightarrow> bora py_module option \<times> bool" where
  "initbora ready kill_bora_threads =
     (if ready bora_BIterType < 0 then (None, kill_bora_threads)
      else if ready bora_BPullerType < 0 then (None, kill_bora_threads)
      else if ready bora_BWIterType < 0 then (None, kill_bora_threads)
      else (Some \<lparr>pm_methods = BoraMethods,
              pm_types = [(''_BIter'', bora_BIterType), (''_BPuller'', bora_BPullerType), (''_BWIter'', bora_BWIterType)]\<rparr>, False))"

definition init_wsa :: "bool \<Rightarrow> int" where
  "init_wsa startup_ok = (if \<not> startup_ok then - 1 else 1)"

text \<open>Where a call comes from: an entry of the table, or \<open>tp_iternext\<close> of one of the iterator types.\<close>

datatype entry_point = Method string | Iternext "bora iter_type"

fun entry :: "bora_method \<Rightarrow> entry_point" where
  "entry M_biter = Method ''biter''"
| "entry M_bpuller = Method ''bpuller''"
| "entry (M_listen_on v) = Method ''listen_on''"
| "entry (M_get_in_stats rst) = Method ''get_in_stats''"
| "entry (M_get_out_stats rst) = Method ''get_out_stats''"
| "entry M_get_bw_stats = Method ''get_bw_stats''"
| "entry M_die = Method ''die''"
| "entry (M_send_block a) = Method ''send_block''"
| "entry (M_send_raw a) = Method ''send_raw''"
| "entry (M_add_block a) = Method ''add_block''"
| "entry (M_del_block a) = Method ''del_block''"
| "entry M_incomplete_block_list = Method ''incomplete_block_list''"
| "entry M_complete_block_list = Method ''complete_block_list''"
| "entry (M_get_block_content a) = Method ''get_block_content''"
| "entry (M_bwsiter v) = Method ''bwsiter''"
| "entry (M_bws_set a) = Method ''bws_set''"
| "entry (M_send_bw_msg a) = Method ''send_bw_msg''"
| "entry M_get_bw_msg = Method ''get_bw_msg''"
| "entry (M_send_cookie a) = Method ''send_cookie''"
| "entry (M_send_cookie_wait expired) = Method ''send_cookie''"
| "entry (M_set_nat_port a) = Method ''set_nat_port''"
| "entry M_get_que_size = Method ''get_que_size''"
| "entry M_BIter_next = Iternext bora_BIterType"
| "entry M_BPuller_next = Iternext bora_BPullerType"
| "entry M_BWIter_next = Iternext bora_BWIterType"

text \<open>Every call of the model has its place in the loaded module, and an iterator type runs its own \<open>iternext\<close>.\<close>

lemma module_covers_calls:
  assumes "initbora ready flag = (Some pm, flag')"
  shows "distinct (map fst (pm_methods pm))" "distinct (map fst (pm_types pm))" "\<not> flag'"
    and "entry m = Method k \<Longrightarrow> k \<in> set (map fst (pm_methods pm))"
    and "entry m = Iternext t \<Longrightarrow> t \<in> set (map snd (pm_types pm)) \<and> is_next m \<and> call_method e m b = answers (tp_iternext t b)"
proof -
  have pm: "pm_methods pm = BoraMethods" "\<not> flag'"
    "pm_types pm = [(''_BIter'', bora_BIterType), (''_BPuller'', bora_BPullerType), (''_BWIter'', bora_BWIterType)]"
    using assms by (auto simp: initbora_def split: if_splits)
  show "distinct (map fst (pm_methods pm))" "distinct (map fst (pm_types pm))" "\<not> flag'" using pm by (simp_all add: BoraMethods_def)
  show "entry m = Method k \<Longrightarrow> k \<in> set (map fst (pm_methods pm))" by (cases m) (auto simp: pm BoraMethods_def)
  show "entry m = Iternext t \<Longrightarrow> t \<in> set (map snd (pm_types pm)) \<and> is_next m \<and> call_method e m b = answers (tp_iternext t b)"
    by (cases m) (auto simp: pm bora_BIterType_def bora_BPullerType_def bora_BWIterType_def)
qed

end
