(* ===== verification/Sender_Steps.thy ===== *)
theory Sender_Steps
  imports Packet_Sender
begin

text \<open>
  \<open>packet_sender.c\<close> between its locks. \<open>send_data\<close> may be called by any number of threads at once,
  and each call is three steps: it takes a slot of \<open>qEmpty\<close>, files the packet while it holds the lock of
  its queue, and posts a token of \<open>sFull\<close>. The sending thread waits for a token, then looks at the cookies
  and at one queue after the other, each under its own lock, and takes from the data queue
  without looking. The step relation here interleaves all of these in any order, up to the shutdown: the \<open>sem_post\<close> calls of
  \<open>sender_end_threads\<close>, which only wake the threads once \<open>kill_bora_threads\<close> is set, are left out; the theories that treat
  \<open>send_data\<close> and \<open>packet_send\<close> as functions of the state describe what it does to one thread undisturbed.
\<close>

section \<open>Model\<close>

datatype producer = P_Idle | P_Slot SendData | P_Filed

datatype sender_loc =
    At_Top | At_Wait | At_Cookie | At_Prio | At_Retr | At_Data
  | At_Emit nat SendData

record tx_sys =
  ts_w :: ack_world
  ts_at :: sender_loc
  ts_prod :: "producer list"
  ts_cookies :: nat  \<comment> \<open>cookies sent so far, for the account below\<close>

abbreviation ts_sender :: "tx_sys \<Rightarrow> sender" where "ts_sender s \<equiv> aw_sender (ts_w s)"

definition put_sender :: "sender \<Rightarrow> tx_sys \<Rightarrow> tx_sys" where
  "put_sender q s = s\<lparr>ts_w := (ts_w s)\<lparr>aw_sender := q\<rparr>\<rparr>"

text \<open>The part of \<open>send_data\<close> under the lock of a queue: whether the packet was filed.\<close>

definition file_packet :: "SendData \<Rightarrow> sender \<Rightarrow> bool \<times> sender" where
  "file_packet d s =
     (let flags = sd_data d ! 0 in
      if has flags BLK_ACK \<or> has flags BW_MSG then
        (if r_f (prio_q s) < int N_PRIO then (True, s\<lparr>prio_q := ring_put (prio_q s) d\<rparr>) else (False, s\<lparr>qEmpty := qEmpty s + 1\<rparr>))
      else if has flags BLOCK_RETRANSMISSION then
        (if r_f (retr_q s) < int N_RETR then (True, s\<lparr>retr_q := ring_put (retr_q s) d\<rparr>) else (False, s\<lparr>qEmpty := qEmpty s + 1\<rparr>))
      else
        (if r_f (send_q s) < int N_SEND then (True, s\<lparr>send_q := ring_put (send_q s) d\<rparr>) else (False, s\<lparr>qEmpty := qEmpty s + 1\<rparr>)))"

inductive producer_step :: "tx_sys \<Rightarrow> tx_sys \<Rightarrow> bool" where
  p_full: "i < length (ts_prod s) \<Longrightarrow> ts_prod s ! i = P_Idle \<Longrightarrow> qEmpty (ts_sender s) = 0 \<Longrightarrow> producer_step s s"
| p_slot: "i < length (ts_prod s) \<Longrightarrow> ts_prod s ! i = P_Idle \<Longrightarrow> 0 < qEmpty (ts_sender s) \<Longrightarrow> wf_sd d \<Longrightarrow>
    producer_step s (put_sender ((ts_sender s)\<lparr>qEmpty := qEmpty (ts_sender s) - 1\<rparr>) (s\<lparr>ts_prod := (ts_prod s)[i := P_Slot d]\<rparr>))"
| p_file: "i < length (ts_prod s) \<Longrightarrow> ts_prod s ! i = P_Slot d \<Longrightarrow> file_packet d (ts_sender s) = (True, q) \<Longrightarrow>
    producer_step s (put_sender q (s\<lparr>ts_prod := (ts_prod s)[i := P_Filed]\<rparr>))"
| p_reject: "i < length (ts_prod s) \<Longrightarrow> ts_prod s ! i = P_Slot d \<Longrightarrow> file_packet d (ts_sender s) = (False, q) \<Longrightarrow>
    producer_step s (put_sender q (s\<lparr>ts_prod := (ts_prod s)[i := P_Idle]\<rparr>))"
| p_post: "i < length (ts_prod s) \<Longrightarrow> ts_prod s ! i = P_Filed \<Longrightarrow>
    producer_step s (put_sender ((ts_sender s)\<lparr>sFull := sFull (ts_sender s) + 1\<rparr>) (s\<lparr>ts_prod := (ts_prod s)[i := P_Idle]\<rparr>))"

text \<open>
  The sending thread. At the top of its loop it looks for a packet to the host it has just sent to
  (\<open>z\<close>); a round that sent such a packet goes on to the ordinary one.
\<close>

inductive sending_step :: "tx_sys \<Rightarrow> tx_sys \<Rightarrow> bool" where
  s_pair: "ts_at s = At_Top \<Longrightarrow> lasthost (ts_sender s) = Some h \<Longrightarrow> next_is_consecutive (ts_sender s) h \<Longrightarrow>
    sending_step s (put_sender ((ts_sender s)\<lparr>z := True\<rparr>) (s\<lparr>ts_at := At_Wait\<rparr>))"
| s_single: "ts_at s = At_Top \<Longrightarrow> (\<And>h. lasthost (ts_sender s) = Some h \<Longrightarrow> \<not> next_is_consecutive (ts_sender s) h) \<Longrightarrow>
    sending_step s (put_sender ((ts_sender s)\<lparr>z := False, lasthost := None\<rparr>) (s\<lparr>ts_at := At_Wait\<rparr>))"
| s_token: "ts_at s = At_Wait \<Longrightarrow> 0 < sFull (ts_sender s) \<Longrightarrow>
    sending_step s (if z (ts_sender s)
      then put_sender ((ts_sender s)\<lparr>sFull := sFull (ts_sender s) - 1\<rparr>) (s\<lparr>ts_at := At_Data\<rparr>)
      else put_sender ((ts_sender s)\<lparr>sFull := sFull (ts_sender s) - 1, lasthost := None\<rparr>) (s\<lparr>ts_at := At_Cookie\<rparr>))"
| s_cookie: "ts_at s = At_Cookie \<Longrightarrow> 0 < ckFull (aw_cookies (ts_w s)) \<Longrightarrow>
    get_cookie_data ((aw_cookies (ts_w s))\<lparr>ckFull := ckFull (aw_cookies (ts_w s)) - 1\<rparr>) = Ok (d, ck) \<Longrightarrow>
    sending_step s (s\<lparr>ts_w := (ts_w s)\<lparr>aw_cookies := ck\<rparr>, ts_at := At_Emit 0 d, ts_cookies := ts_cookies s + 1\<rparr>)"
| s_no_cookie: "ts_at s = At_Cookie \<Longrightarrow> ckFull (aw_cookies (ts_w s)) = 0 \<Longrightarrow> sending_step s (s\<lparr>ts_at := At_Prio\<rparr>)"
| s_prio: "ts_at s = At_Prio \<Longrightarrow> r_f (prio_q (ts_sender s)) \<noteq> 0 \<Longrightarrow> ring_get (prio_q (ts_sender s)) = (d, q) \<Longrightarrow>
    sending_step s (put_sender ((ts_sender s)\<lparr>prio_q := q\<rparr>) (s\<lparr>ts_at := At_Emit 1 d\<rparr>))"
| s_no_prio: "ts_at s = At_Prio \<Longrightarrow> r_f (prio_q (ts_sender s)) = 0 \<Longrightarrow> sending_step s (s\<lparr>ts_at := At_Retr\<rparr>)"
| s_retr: "ts_at s = At_Retr \<Longrightarrow> r_f (retr_q (ts_sender s)) \<noteq> 0 \<Longrightarrow> ring_get (retr_q (ts_sender s)) = (d, q) \<Longrightarrow>
    sending_step s (put_sender ((ts_sender s)\<lparr>retr_q := q\<rparr>) (s\<lparr>ts_at := At_Emit 2 d\<rparr>))"
| s_no_retr: "ts_at s = At_Retr \<Longrightarrow> r_f (retr_q (ts_sender s)) = 0 \<Longrightarrow> sending_step s (s\<lparr>ts_at := At_Data\<rparr>)"
| s_data: "ts_at s = At_Data \<Longrightarrow> ring_get (send_q (ts_sender s)) = (d, q) \<Longrightarrow>
    sending_step s (put_sender ((ts_sender s)\<lparr>send_q := q\<rparr>) (s\<lparr>ts_at := At_Emit 0 d\<rparr>))"
| s_emit: "ts_at s = At_Emit c d \<Longrightarrow> emit_packet env hit c d (ts_w s) = Ok (out, w) \<Longrightarrow>
    sending_step s (s\<lparr>ts_w := w\<lparr>aw_sender := (aw_sender w)\<lparr>z := False\<rparr>\<rparr>, ts_at := if z (aw_sender w) then At_Wait else At_Top\<rparr>)"

text \<open>Whatever else goes on leaves the queues, their semaphores and the variables of the sending thread alone.\<close>

definition same_queues :: "sender \<Rightarrow> sender \<Rightarrow> bool" where
  "same_queues q q' \<longleftrightarrow> send_q q' = send_q q \<and> retr_q q' = retr_q q \<and> prio_q q' = prio_q q \<and> sFull q' = sFull q \<and>
     qEmpty q' = qEmpty q \<and> z q' = z q \<and> lasthost q' = lasthost q"

inductive tx_step :: "tx_sys \<Rightarrow> tx_sys \<Rightarrow> bool" where
  by_producer: "producer_step s s' \<Longrightarrow> tx_step s s'"
| by_sender: "sending_step s s' \<Longrightarrow> tx_step s s'"
| by_others: "same_queues (ts_sender s) (aw_sender w) \<Longrightarrow> tx_step s (s\<lparr>ts_w := w\<rparr>)"

definition tx_start :: "tx_sys \<Rightarrow> bool" where
  "tx_start s \<longleftrightarrow> ts_at s = At_Top \<and> list_all (\<lambda>p. p = P_Idle) (ts_prod s) \<and> ts_cookies s = 0 \<and>
     same_queues (init_sender static_sender) (ts_sender s)"

inductive tx_reach :: "tx_sys \<Rightarrow> bool" where
  tx_begin: "tx_start s \<Longrightarrow> tx_reach s"
| tx_next: "tx_reach s \<Longrightarrow> tx_step s s' \<Longrightarrow> tx_reach s'"

section \<open>The account of slots and tokens\<close>

primrec slot_of :: "producer \<Rightarrow> nat" where
  "slot_of P_Idle = 0" | "slot_of (P_Slot d) = 1" | "slot_of P_Filed = 1"

primrec filed_of :: "producer \<Rightarrow> nat" where
  "filed_of P_Idle = 0" | "filed_of (P_Slot d) = 0" | "filed_of P_Filed = 1"

definition tally :: "(producer \<Rightarrow> nat) \<Rightarrow> producer list \<Rightarrow> nat" where
  "tally f ps = sum_list (map f ps)"

text \<open>The sending thread has a token from its wait until it posts the slot; until it takes a packet the token stands for one.\<close>

fun token_held :: "sender_loc \<Rightarrow> nat" where
  "token_held At_Top = 0" | "token_held At_Wait = 0" | "token_held _ = 1"

fun packet_due :: "sender_loc \<Rightarrow> nat" where
  "packet_due At_Top = 0" | "packet_due At_Wait = 0" | "packet_due (At_Emit c d) = 0" | "packet_due _ = 1"

definition queued :: "sender \<Rightarrow> nat" where
  "queued q = tx_total (tx_abs q)"

lemma tally_update: "i < length ps \<Longrightarrow> tally f (ps[i := x]) + f (ps ! i) = tally f ps + f x"
proof (induction ps arbitrary: i)
  case (Cons p ps)
  then show ?case by (cases i) (auto simp: tally_def)
qed simp

text \<open>
  The invariant. Where the thread has already looked into a queue, the packet it has a token for must be in
  the queues still to come: a packet filed behind its back only adds to them.
\<close>

definition tx_inv :: "tx_sys \<Rightarrow> bool" where
  "tx_inv s \<longleftrightarrow>
     rings_ok (ts_sender s) \<and>
     qEmpty (ts_sender s) + sFull (ts_sender s) + tally slot_of (ts_prod s) + token_held (ts_at s) = 6000 \<and>
     queued (ts_sender s) = sFull (ts_sender s) + tally filed_of (ts_prod s) + packet_due (ts_at s) + ts_cookies s \<and>
     (ts_at s = At_Retr \<longrightarrow> queue_of Retr (ts_sender s) \<noteq> [] \<or> queue_of Data (ts_sender s) \<noteq> []) \<and>
     (ts_at s = At_Data \<longrightarrow> queue_of Data (ts_sender s) \<noteq> []) \<and>
     (z (ts_sender s) \<longrightarrow> ts_at s \<noteq> At_Top \<and> (ts_at s = At_Wait \<longrightarrow> queue_of Data (ts_sender s) \<noteq> []) \<and>
        ts_at s \<notin> {At_Cookie, At_Prio, At_Retr})"

lemma put_sender_simps [simp]:
  "ts_w (put_sender q s) = (ts_w s)\<lparr>aw_sender := q\<rparr>" "ts_at (put_sender q s) = ts_at s" "ts_prod (put_sender q s) = ts_prod s"
  "ts_cookies (put_sender q s) = ts_cookies s"
  by (simp_all add: put_sender_def)

lemma queued_sum: "queued q = length (queue_of Prio q) + length (queue_of Retr q) + length (queue_of Data q)"
  by (simp add: queued_def tx_total_def tx_abs_def)

lemma file_packet_filed:
  assumes "file_packet d s = (True, q)" and "rings_ok s"
  shows "rings_ok q" "queued q = queued s + 1" "sFull q = sFull s" "qEmpty q = qEmpty s" "z q = z s"
    "queue_of c s \<noteq> [] \<Longrightarrow> queue_of c q \<noteq> []"
proof -
  have r: "ring_ok N_SEND (send_q s)" "ring_ok N_RETR (retr_q s)" "ring_ok N_PRIO (prio_q s)" using assms(2) by (simp_all add: rings_ok_def)
  show "rings_ok q" using assms(1) r
    by (auto simp: file_packet_def Let_def rings_ok_def sendq.invar_put retrq.invar_put prioq.invar_put split: if_splits)
  show "queued q = queued s + 1" "sFull q = sFull s" "qEmpty q = qEmpty s" "z q = z s" using assms(1) r
    by (auto simp: file_packet_def Let_def queued_sum sendq.contents_put retrq.contents_put prioq.contents_put split: if_splits)
  show "queue_of c s \<noteq> [] \<Longrightarrow> queue_of c q \<noteq> []" using assms(1) r
    by (cases c) (auto simp: file_packet_def Let_def sendq.contents_put retrq.contents_put prioq.contents_put split: if_splits)
qed

lemma file_packet_rejected: "file_packet d s = (False, q) \<Longrightarrow> q = s\<lparr>qEmpty := qEmpty s + 1\<rparr>"
  by (auto simp: file_packet_def Let_def split: if_splits)

text \<open>The three steps of a call, one after the other, are \<open>send_data\<close>.\<close>

lemma undisturbed_call:
  "send_data d s = (if qEmpty s = 0 then s
     else case file_packet d (s\<lparr>qEmpty := qEmpty s - 1\<rparr>) of (True, q) \<Rightarrow> q\<lparr>sFull := sFull q + 1\<rparr> | (False, q) \<Rightarrow> q)"
  by (simp add: send_data_def file_packet_def Let_def)

lemma same_queues_keep:
  assumes "same_queues q q'"
  shows "rings_ok q' = rings_ok q" "queue_of c q' = queue_of c q" "queued q' = queued q"
  using assms by (cases c; simp add: same_queues_def rings_ok_def queued_sum)+

lemma frame_queues [simp]:
  "rings_ok (q\<lparr>qEmpty := n\<rparr>) = rings_ok q" "rings_ok (q\<lparr>sFull := n\<rparr>) = rings_ok q" "rings_ok (q\<lparr>z := b\<rparr>) = rings_ok q"
  "rings_ok (q\<lparr>lasthost := h\<rparr>) = rings_ok q"
  "queue_of c (q\<lparr>qEmpty := n\<rparr>) = queue_of c q" "queue_of c (q\<lparr>sFull := n\<rparr>) = queue_of c q" "queue_of c (q\<lparr>z := b\<rparr>) = queue_of c q"
  "queue_of c (q\<lparr>lasthost := h\<rparr>) = queue_of c q"
  "queued (q\<lparr>qEmpty := n\<rparr>) = queued q" "queued (q\<lparr>sFull := n\<rparr>) = queued q" "queued (q\<lparr>z := b\<rparr>) = queued q"
  "queued (q\<lparr>lasthost := h\<rparr>) = queued q"
  by (cases c; simp add: rings_ok_def queued_sum)+

lemma take_head:
  assumes "rings_ok s"
  shows "queue_of Prio s \<noteq> [] \<Longrightarrow> ring_get (prio_q s) = (d, q) \<Longrightarrow>
      d = hd (queue_of Prio s) \<and> rings_ok (s\<lparr>prio_q := q\<rparr>) \<and> queued s = queued (s\<lparr>prio_q := q\<rparr>) + 1"
    "queue_of Retr s \<noteq> [] \<Longrightarrow> ring_get (retr_q s) = (d, q) \<Longrightarrow>
      d = hd (queue_of Retr s) \<and> rings_ok (s\<lparr>retr_q := q\<rparr>) \<and> queued s = queued (s\<lparr>retr_q := q\<rparr>) + 1"
    "queue_of Data s \<noteq> [] \<Longrightarrow> ring_get (send_q s) = (d, q) \<Longrightarrow>
      d = hd (queue_of Data s) \<and> rings_ok (s\<lparr>send_q := q\<rparr>) \<and> queued s = queued (s\<lparr>send_q := q\<rparr>) + 1"
proof -
  have r: "ring_ok N_SEND (send_q s)" "ring_ok N_RETR (retr_q s)" "ring_ok N_PRIO (prio_q s)" using assms by (simp_all add: rings_ok_def)
  note f = fill_class [OF assms]
  show "queue_of Prio s \<noteq> [] \<Longrightarrow> ring_get (prio_q s) = (d, q) \<Longrightarrow>
      d = hd (queue_of Prio s) \<and> rings_ok (s\<lparr>prio_q := q\<rparr>) \<and> queued s = queued (s\<lparr>prio_q := q\<rparr>) + 1"
    using prioq.invar_get [OF r(3)] prioq.get_hd [OF r(3)] prioq.contents_get [OF r(3)] f(1) r
    by (cases "ring_contents (prio_q s)") (auto simp: rings_ok_def queued_sum)
  show "queue_of Retr s \<noteq> [] \<Longrightarrow> ring_get (retr_q s) = (d, q) \<Longrightarrow>
      d = hd (queue_of Retr s) \<and> rings_ok (s\<lparr>retr_q := q\<rparr>) \<and> queued s = queued (s\<lparr>retr_q := q\<rparr>) + 1"
    using retrq.invar_get [OF r(2)] retrq.get_hd [OF r(2)] retrq.contents_get [OF r(2)] f(2) r
    by (cases "ring_contents (retr_q s)") (auto simp: rings_ok_def queued_sum)
  show "queue_of Data s \<noteq> [] \<Longrightarrow> ring_get (send_q s) = (d, q) \<Longrightarrow>
      d = hd (queue_of Data s) \<and> rings_ok (s\<lparr>send_q := q\<rparr>) \<and> queued s = queued (s\<lparr>send_q := q\<rparr>) + 1"
    using sendq.invar_get [OF r(1)] sendq.get_hd [OF r(1)] sendq.contents_get [OF r(1)] f(3) r
    by (cases "ring_contents (send_q s)") (auto simp: rings_ok_def queued_sum)
qed

lemma emit_packet_frame:
  assumes "emit_packet env hit c d w = Ok (out, w')"
  shows "send_q (aw_sender w') = send_q (aw_sender w)" "retr_q (aw_sender w') = retr_q (aw_sender w)"
    "prio_q (aw_sender w') = prio_q (aw_sender w)" "sFull (aw_sender w') = sFull (aw_sender w)"
    "qEmpty (aw_sender w') = qEmpty (aw_sender w) + 1" "z (aw_sender w') = z (aw_sender w)"
proof -
  have st: "stamp_packet env d1 w1 = Ok (d2, w2) \<Longrightarrow> aw_sender w2 = aw_sender w1" for d1 w1 d2 w2
    by (auto simp: stamp_packet_def bind_res_Ok_iff split: if_splits)
  show "send_q (aw_sender w') = send_q (aw_sender w)" "retr_q (aw_sender w') = retr_q (aw_sender w)"
    "prio_q (aw_sender w') = prio_q (aw_sender w)" "sFull (aw_sender w') = sFull (aw_sender w)"
    "qEmpty (aw_sender w') = qEmpty (aw_sender w) + 1" "z (aw_sender w') = z (aw_sender w)"
    using assms by (auto simp: emit_packet_def Let_def bind_res_Ok_iff dest!: st split: if_splits)
qed

lemma tx_invD:
  assumes "tx_inv s"
  shows "rings_ok (ts_sender s)"
    and "qEmpty (ts_sender s) + sFull (ts_sender s) + tally slot_of (ts_prod s) + token_held (ts_at s) = 6000"
    and "queued (ts_sender s) = sFull (ts_sender s) + tally filed_of (ts_prod s) + packet_due (ts_at s) + ts_cookies s"
    and "ts_at s = At_Retr \<Longrightarrow> queue_of Retr (ts_sender s) \<noteq> [] \<or> queue_of Data (ts_sender s) \<noteq> []"
    and "ts_at s = At_Data \<Longrightarrow> queue_of Data (ts_sender s) \<noteq> []"
    and "z (ts_sender s) \<Longrightarrow> ts_at s \<noteq> At_Top" and "z (ts_sender s) \<Longrightarrow> ts_at s = At_Wait \<Longrightarrow> queue_of Data (ts_sender s) \<noteq> []"
    and "z (ts_sender s) \<Longrightarrow> ts_at s \<notin> {At_Cookie, At_Prio, At_Retr}"
  using assms unfolding tx_inv_def by blast+

declare queue_of.simps [simp del]

lemma inv_producer:
  assumes "producer_step s s'" and "tx_inv s" shows "tx_inv s'"
  using assms(1)
proof cases
  case (p_full i)
  then show ?thesis using assms(2) by simp
next
  case (p_slot i d)
  note c = tally_update [OF p_slot(2), of slot_of "P_Slot d"] tally_update [OF p_slot(2), of filed_of "P_Slot d"]
  show ?thesis using tx_invD [OF assms(2)] c p_slot(3,4) unfolding p_slot(1) tx_inv_def by simp
next
  case (p_file i d q)
  note c = tally_update [OF p_file(2), of slot_of "P_Filed"] tally_update [OF p_file(2), of filed_of "P_Filed"]
  note inv = tx_invD [OF assms(2)]
  note f = file_packet_filed [OF p_file(4) inv(1)]
  show ?thesis unfolding tx_inv_def
  proof (intro conjI impI)
    show "ts_at s' = At_Retr \<Longrightarrow> queue_of Retr (ts_sender s') \<noteq> [] \<or> queue_of Data (ts_sender s') \<noteq> []"
      using inv(4) f(6) by (auto simp: p_file(1))
  qed (use inv f c p_file(3) in \<open>simp_all add: p_file(1)\<close>)
next
  case (p_reject i d q)
  note c = tally_update [OF p_reject(2), of slot_of "P_Idle"] tally_update [OF p_reject(2), of filed_of "P_Idle"]
  show ?thesis using tx_invD [OF assms(2)] c p_reject(3) file_packet_rejected [OF p_reject(4)] unfolding p_reject(1) tx_inv_def by simp
next
  case (p_post i)
  note c = tally_update [OF p_post(2), of slot_of "P_Idle"] tally_update [OF p_post(2), of filed_of "P_Idle"]
  show ?thesis using tx_invD [OF assms(2)] c p_post(3) unfolding p_post(1) tx_inv_def by simp
qed

lemma inv_sending:
  assumes "sending_step s s'" and "tx_inv s" shows "tx_inv s'"
proof -
  note inv = tx_invD [OF assms(2)] and fill = fill_class [OF tx_invD(1) [OF assms(2)]]
  have due: "packet_due (ts_at s) = 1 \<Longrightarrow> 0 < queued (ts_sender s)" using inv(3) by simp
  show ?thesis using assms(1)
  proof cases
    case (s_pair h)
    then have "queue_of Data (ts_sender s) \<noteq> []" using fill(3) by (auto simp: next_is_consecutive_def)
    then show ?thesis using inv s_pair by (simp add: tx_inv_def)
  next
    case s_single
    then show ?thesis using inv by (simp add: tx_inv_def)
  next
    case s_token
    then show ?thesis using inv by (auto simp: tx_inv_def)
  next
    case (s_cookie d ck)
    then show ?thesis using inv by (simp add: tx_inv_def)
  next
    case s_no_cookie
    then show ?thesis using inv by (auto simp: tx_inv_def)
  next
    case (s_prio d q)
    then have "queue_of Prio (ts_sender s) \<noteq> []" using fill(1) by auto
    then show ?thesis using take_head(1) [OF inv(1) _ s_prio(4)] inv s_prio by (auto simp: tx_inv_def)
  next
    case s_no_prio
    then have "queue_of Retr (ts_sender s) \<noteq> [] \<or> queue_of Data (ts_sender s) \<noteq> []" using fill(1) due by (auto simp: queued_sum)
    then show ?thesis using inv s_no_prio by (auto simp: tx_inv_def)
  next
    case (s_retr d q)
    then have "queue_of Retr (ts_sender s) \<noteq> []" using fill(2) by auto
    then show ?thesis using take_head(2) [OF inv(1) _ s_retr(4)] inv s_retr by (auto simp: tx_inv_def)
  next
    case s_no_retr
    then have "queue_of Data (ts_sender s) \<noteq> []" using fill(2) inv(4) by auto
    then show ?thesis using inv s_no_retr by (auto simp: tx_inv_def)
  next
    case (s_data d q)
    then show ?thesis using take_head(3) [OF inv(1) inv(5) s_data(3)] inv by (auto simp: tx_inv_def)
  next
    case (s_emit c d env hit out w)
    note e = emit_packet_frame [OF s_emit(3)]
    have q: "queue_of k (aw_sender w) = queue_of k (ts_sender s)" "rings_ok (aw_sender w)" "queued (aw_sender w) = queued (ts_sender s)" for k
      using e inv(1) by (cases k; simp add: queue_of.simps rings_ok_def queued_sum)+
    then show ?thesis using inv s_emit e by (auto simp: tx_inv_def)
  qed
qed

lemma inv_reach: "tx_reach s \<Longrightarrow> tx_inv s"
proof (induction rule: tx_reach.induct)
  case (tx_begin s)
  then have q: "same_queues (init_sender static_sender) (ts_sender s)" "ts_at s = At_Top" "ts_cookies s = 0" by (simp_all add: tx_start_def)
  have t: "tally f (ts_prod s) = 0" if "f P_Idle = 0" for f
    using tx_begin that by (auto simp: tx_start_def tally_def list_all_iff)
  have "rings_ok (init_sender static_sender)" "queued (init_sender static_sender) = 0"
    using sender_ok_init by (simp_all add: sender_ok_def queued_sum queue_of.simps init_sender_def static_sender_def)
  then show ?case using q same_queues_keep [OF q(1)] t [of slot_of] t [of filed_of]
    by (simp add: tx_inv_def same_queues_def init_sender_def static_sender_def N_SEND_def)
next
  case (tx_next s s')
  from tx_next(2) show ?case
  proof cases
    case (by_others w)
    note k = same_queues_keep [OF by_others(2)]
    show ?thesis using tx_invD [OF tx_next(3)] k by_others(2) unfolding by_others(1) tx_inv_def by (simp add: same_queues_def)
  qed (use tx_next(3) inv_producer inv_sending in blast)+
qed

text \<open>
  C15: the queues are safe under every interleaving of any number of calls of \<open>send_data\<close> with the sending thread.
  When the thread takes from the data queue, which it does without looking, the queue holds a packet and it
  gets the oldest one; every slot is free, announced, in the hands of a call or in those of the thread; and when
  all calls have returned and the thread waits with no token left, the packets still queued are exactly as
  many as the cookies sent, each of which used up the token of a packet. All this until \<open>sender_end_threads\<close> tells the thread to
  stop: the slot and the token it posts then, which stand for no packet, are not among the steps.
\<close>

theorem interleaved_sending_safe:
  assumes "tx_reach s"
  shows "(ts_at s = At_Data \<longrightarrow> 0 < r_f (send_q (ts_sender s)) \<and>
       fst (ring_get (send_q (ts_sender s))) = hd (queue_of Data (ts_sender s))) \<and>
     qEmpty (ts_sender s) + sFull (ts_sender s) + tally slot_of (ts_prod s) + token_held (ts_at s) = 6000 \<and>
     (list_all (\<lambda>p. p = P_Idle) (ts_prod s) \<and> ts_at s = At_Wait \<and> sFull (ts_sender s) = 0 \<longrightarrow>
       queued (ts_sender s) = ts_cookies s)"
proof (intro conjI impI)
  note inv = tx_invD [OF inv_reach [OF assms]] and fill = fill_class [OF tx_invD(1) [OF inv_reach [OF assms]]]
  show "qEmpty (ts_sender s) + sFull (ts_sender s) + tally slot_of (ts_prod s) + token_held (ts_at s) = 6000" by (rule inv(2))
  assume "ts_at s = At_Data"
  then have "queue_of Data (ts_sender s) \<noteq> []" by (rule inv(5))
  then show "0 < r_f (send_q (ts_sender s))" "fst (ring_get (send_q (ts_sender s))) = hd (queue_of Data (ts_sender s))"
    using fill(3) take_head(3) [OF inv(1)] by (simp, cases "ring_get (send_q (ts_sender s))", simp)
next
  assume a: "list_all (\<lambda>p. p = P_Idle) (ts_prod s) \<and> ts_at s = At_Wait \<and> sFull (ts_sender s) = 0"
  then have "tally filed_of (ts_prod s) = 0" by (auto simp: tally_def list_all_iff)
  then show "queued (ts_sender s) = ts_cookies s" using a tx_invD(3) [OF inv_reach [OF assms]] by simp
qed

end
