(* ===== verification/List_Macros.thy ===== *)
theory List_Macros
  imports Slist
begin

text \<open>
  The other list macros of \<open>queue.h\<close>: the tail queues \<open>STAILQ\<close>, the doubly linked lists \<open>LIST\<close> and the doubly linked tail
  queues \<open>TAILQ\<close>. No file of the program uses them. They keep addresses of pointers, so a location is
  here the first word of a head or the first word of an entry, which both hold the address of an element.
\<close>

section \<open>Memory\<close>

text \<open>
  The structures of all three families at once: \<open>STAILQ\<close> has no second word in its entries and \<open>LIST\<close> none in its
  heads; their macros do not touch these words. The rest of an element is \<open>q_data\<close>.
\<close>

type_synonym head_id = nat

datatype loc = First_of head_id | Next_of addr

record 'a qcell =
  q_data :: 'a
  q_next :: addr
  q_prev :: loc

record qhead =
  qh_first :: addr
  qh_last :: loc

record 'a qmem =
  q_heads :: "head_id \<Rightarrow> qhead option"
  q_cells :: "addr \<Rightarrow> 'a qcell option"

definition head_at :: "head_id \<Rightarrow> 'a qmem \<Rightarrow> qhead res" where
  "head_at h m = (case q_heads m h of None \<Rightarrow> Err OutOfBounds | Some d \<Rightarrow> Ok d)"

definition cell_at :: "addr \<Rightarrow> 'a qmem \<Rightarrow> 'a qcell res" where
  "cell_at a m = (if a = NULL then Err OutOfBounds else case q_cells m a of None \<Rightarrow> Err OutOfBounds | Some c \<Rightarrow> Ok c)"

definition set_head :: "head_id \<Rightarrow> (qhead \<Rightarrow> qhead) \<Rightarrow> 'a qmem \<Rightarrow> 'a qmem res" where
  "set_head h f m = map_res (\<lambda>d. m\<lparr>q_heads := (q_heads m)(h \<mapsto> f d)\<rparr>) (head_at h m)"

definition set_cell :: "addr \<Rightarrow> ('a qcell \<Rightarrow> 'a qcell) \<Rightarrow> 'a qmem \<Rightarrow> 'a qmem res" where
  "set_cell a f m = map_res (\<lambda>c. m\<lparr>q_cells := (q_cells m)(a \<mapsto> f c)\<rparr>) (cell_at a m)"

text \<open>\<open>*p\<close> for the address of a pointer, read and written.\<close>

fun load :: "loc \<Rightarrow> 'a qmem \<Rightarrow> addr res" where
  "load (First_of h) m = map_res qh_first (head_at h m)"
| "load (Next_of a) m = map_res q_next (cell_at a m)"

fun store_at :: "loc \<Rightarrow> addr \<Rightarrow> 'a qmem \<Rightarrow> 'a qmem res" where
  "store_at (First_of h) v m = set_head h (\<lambda>d. d\<lparr>qh_first := v\<rparr>) m"
| "store_at (Next_of a) v m = set_cell a (\<lambda>c. c\<lparr>q_next := v\<rparr>) m"

definition prev_of :: "addr \<Rightarrow> 'a qmem \<Rightarrow> loc res" where
  "prev_of a m = map_res q_prev (cell_at a m)"

definition set_prev :: "addr \<Rightarrow> loc \<Rightarrow> 'a qmem \<Rightarrow> 'a qmem res" where
  "set_prev a l m = set_cell a (\<lambda>c. c\<lparr>q_prev := l\<rparr>) m"

definition last_of :: "head_id \<Rightarrow> 'a qmem \<Rightarrow> loc res" where
  "last_of h m = map_res qh_last (head_at h m)"

definition set_last :: "head_id \<Rightarrow> loc \<Rightarrow> 'a qmem \<Rightarrow> 'a qmem res" where
  "set_last h l m = set_head h (\<lambda>d. d\<lparr>qh_last := l\<rparr>) m"

text \<open>
  \<open>((struct headname * )l)->tqh_last\<close>: the second word of whatever starts at \<open>l\<close>. Heads and entries have the
  same layout, and the cast relies on it.
\<close>

fun second_word :: "loc \<Rightarrow> 'a qmem \<Rightarrow> loc res" where
  "second_word (First_of h) m = last_of h m"
| "second_word (Next_of a) m = prev_of a m"

section \<open>Singly linked tail queues\<close>

definition STAILQ_FIRST :: "head_id \<Rightarrow> 'a qmem \<Rightarrow> addr res" where
  "STAILQ_FIRST head m = load (First_of head) m"

definition STAILQ_NEXT :: "addr \<Rightarrow> 'a qmem \<Rightarrow> addr res" where
  "STAILQ_NEXT elm m = load (Next_of elm) m"

definition STAILQ_EMPTY :: "head_id \<Rightarrow> 'a qmem \<Rightarrow> bool res" where
  "STAILQ_EMPTY head m = map_res (\<lambda>f. f = NULL) (STAILQ_FIRST head m)"

definition STAILQ_HEAD_INITIALIZER :: "head_id \<Rightarrow> qhead" where
  "STAILQ_HEAD_INITIALIZER head = \<lparr>qh_first = NULL, qh_last = First_of head\<rparr>"

definition STAILQ_INIT :: "head_id \<Rightarrow> 'a qmem \<Rightarrow> 'a qmem res" where
  "STAILQ_INIT head m =
     bind_res (store_at (First_of head) NULL m) (\<lambda>m.
     set_last head (First_of head) m)"

definition STAILQ_CONCAT :: "head_id \<Rightarrow> head_id \<Rightarrow> 'a qmem \<Rightarrow> 'a qmem res" where
  "STAILQ_CONCAT head1 head2 m =
     bind_res (STAILQ_EMPTY head2 m) (\<lambda>e.
     if e then Ok m
     else
       bind_res (last_of head1 m) (\<lambda>l1.
       bind_res (STAILQ_FIRST head2 m) (\<lambda>f2.
       bind_res (store_at l1 f2 m) (\<lambda>m.
       bind_res (last_of head2 m) (\<lambda>l2.
       bind_res (set_last head1 l2 m) (\<lambda>m.
       STAILQ_INIT head2 m))))))"

definition STAILQ_INSERT_AFTER :: "head_id \<Rightarrow> addr \<Rightarrow> addr \<Rightarrow> 'a qmem \<Rightarrow> 'a qmem res" where
  "STAILQ_INSERT_AFTER head tqelm elm m =
     bind_res (STAILQ_NEXT tqelm m) (\<lambda>n.
     bind_res (store_at (Next_of elm) n m) (\<lambda>m.
     bind_res (if n = NULL then set_last head (Next_of elm) m else Ok m) (\<lambda>m.
     store_at (Next_of tqelm) elm m)))"

definition STAILQ_INSERT_HEAD :: "head_id \<Rightarrow> addr \<Rightarrow> 'a qmem \<Rightarrow> 'a qmem res" where
  "STAILQ_INSERT_HEAD head elm m =
     bind_res (STAILQ_FIRST head m) (\<lambda>n.
     bind_res (store_at (Next_of elm) n m) (\<lambda>m.
     bind_res (if n = NULL then set_last head (Next_of elm) m else Ok m) (\<lambda>m.
     store_at (First_of head) elm m)))"

definition STAILQ_INSERT_TAIL :: "head_id \<Rightarrow> addr \<Rightarrow> 'a qmem \<Rightarrow> 'a qmem res" where
  "STAILQ_INSERT_TAIL head elm m =
     bind_res (store_at (Next_of elm) NULL m) (\<lambda>m.
     bind_res (last_of head m) (\<lambda>l.
     bind_res (store_at l elm m) (\<lambda>m.
     set_last head (Next_of elm) m)))"

text \<open>The element around the location that \<open>stqh_last\<close> names; the head of an empty queue is no element.\<close>

definition STAILQ_LAST :: "head_id \<Rightarrow> 'a qmem \<Rightarrow> addr res" where
  "STAILQ_LAST head m =
     bind_res (STAILQ_EMPTY head m) (\<lambda>e.
     if e then Ok NULL
     else bind_res (last_of head m) (\<lambda>l. case l of Next_of a \<Rightarrow> Ok a | First_of _ \<Rightarrow> Err OutOfBounds))"

definition STAILQ_REMOVE_HEAD :: "head_id \<Rightarrow> 'a qmem \<Rightarrow> 'a qmem res" where
  "STAILQ_REMOVE_HEAD head m =
     bind_res (STAILQ_FIRST head m) (\<lambda>f.
     bind_res (STAILQ_NEXT f m) (\<lambda>n.
     bind_res (store_at (First_of head) n m) (\<lambda>m.
     if n = NULL then set_last head (First_of head) m else Ok m)))"

definition STAILQ_REMOVE_HEAD_UNTIL :: "head_id \<Rightarrow> addr \<Rightarrow> 'a qmem \<Rightarrow> 'a qmem res" where
  "STAILQ_REMOVE_HEAD_UNTIL head elm m =
     bind_res (STAILQ_NEXT elm m) (\<lambda>n.
     bind_res (store_at (First_of head) n m) (\<lambda>m.
     if n = NULL then set_last head (First_of head) m else Ok m))"

text \<open>The loop of \<open>STAILQ_REMOVE\<close>.\<close>

partial_function (option) stailq_before :: "addr \<Rightarrow> addr \<Rightarrow> 'a qmem \<Rightarrow> addr res option" where
  "stailq_before elm curelm m =
     (case STAILQ_NEXT curelm m of
        Err e \<Rightarrow> Some (Err e)
      | Ok n \<Rightarrow> if n = elm then Some (Ok curelm) else stailq_before elm n m)"

definition STAILQ_REMOVE :: "head_id \<Rightarrow> addr \<Rightarrow> 'a qmem \<Rightarrow> 'a qmem res option" where
  "STAILQ_REMOVE head elm m =
     then_run (Some (STAILQ_FIRST head m)) (\<lambda>f.
     if f = elm then Some (STAILQ_REMOVE_HEAD head m)
     else
       then_run (stailq_before elm f m) (\<lambda>curelm. Some (
       bind_res (STAILQ_NEXT curelm m) (\<lambda>n.
       bind_res (STAILQ_NEXT n m) (\<lambda>n2.
       bind_res (store_at (Next_of curelm) n2 m) (\<lambda>m.
       if n2 = NULL then set_last head (Next_of curelm) m else Ok m))))))"

section \<open>Doubly linked lists\<close>

definition LIST_FIRST :: "head_id \<Rightarrow> 'a qmem \<Rightarrow> addr res" where
  "LIST_FIRST head m = load (First_of head) m"

definition LIST_NEXT :: "addr \<Rightarrow> 'a qmem \<Rightarrow> addr res" where
  "LIST_NEXT elm m = load (Next_of elm) m"

definition LIST_EMPTY :: "head_id \<Rightarrow> 'a qmem \<Rightarrow> bool res" where
  "LIST_EMPTY head m = map_res (\<lambda>f. f = NULL) (LIST_FIRST head m)"

definition LIST_INIT :: "head_id \<Rightarrow> 'a qmem \<Rightarrow> 'a qmem res" where
  "LIST_INIT head m = store_at (First_of head) NULL m"

definition LIST_INSERT_AFTER :: "addr \<Rightarrow> addr \<Rightarrow> 'a qmem \<Rightarrow> 'a qmem res" where
  "LIST_INSERT_AFTER listelm elm m =
     bind_res (LIST_NEXT listelm m) (\<lambda>n.
     bind_res (store_at (Next_of elm) n m) (\<lambda>m.
     bind_res (if n \<noteq> NULL then bind_res (LIST_NEXT listelm m) (\<lambda>n. set_prev n (Next_of elm) m) else Ok m) (\<lambda>m.
     bind_res (store_at (Next_of listelm) elm m) (\<lambda>m.
     set_prev elm (Next_of listelm) m))))"

definition LIST_INSERT_BEFORE :: "addr \<Rightarrow> addr \<Rightarrow> 'a qmem \<Rightarrow> 'a qmem res" where
  "LIST_INSERT_BEFORE listelm elm m =
     bind_res (prev_of listelm m) (\<lambda>l.
     bind_res (set_prev elm l m) (\<lambda>m.
     bind_res (store_at (Next_of elm) listelm m) (\<lambda>m.
     bind_res (prev_of listelm m) (\<lambda>l.
     bind_res (store_at l elm m) (\<lambda>m.
     set_prev listelm (Next_of elm) m)))))"

definition LIST_INSERT_HEAD :: "head_id \<Rightarrow> addr \<Rightarrow> 'a qmem \<Rightarrow> 'a qmem res" where
  "LIST_INSERT_HEAD head elm m =
     bind_res (LIST_FIRST head m) (\<lambda>n.
     bind_res (store_at (Next_of elm) n m) (\<lambda>m.
     bind_res (if n \<noteq> NULL then bind_res (LIST_FIRST head m) (\<lambda>f. set_prev f (Next_of elm) m) else Ok m) (\<lambda>m.
     bind_res (store_at (First_of head) elm m) (\<lambda>m.
     set_prev elm (First_of head) m))))"

definition LIST_REMOVE :: "addr \<Rightarrow> 'a qmem \<Rightarrow> 'a qmem res" where
  "LIST_REMOVE elm m =
     bind_res (LIST_NEXT elm m) (\<lambda>n.
     bind_res (if n \<noteq> NULL then bind_res (prev_of elm m) (\<lambda>l. set_prev n l m) else Ok m) (\<lambda>m.
     bind_res (prev_of elm m) (\<lambda>l.
     bind_res (LIST_NEXT elm m) (\<lambda>n.
     store_at l n m))))"

section \<open>Doubly linked tail queues\<close>

definition TAILQ_FIRST :: "head_id \<Rightarrow> 'a qmem \<Rightarrow> addr res" where
  "TAILQ_FIRST head m = load (First_of head) m"

definition TAILQ_NEXT :: "addr \<Rightarrow> 'a qmem \<Rightarrow> addr res" where
  "TAILQ_NEXT elm m = load (Next_of elm) m"

definition TAILQ_EMPTY :: "head_id \<Rightarrow> 'a qmem \<Rightarrow> bool res" where
  "TAILQ_EMPTY head m = map_res (\<lambda>f. f = NULL) (TAILQ_FIRST head m)"

definition TAILQ_LAST :: "head_id \<Rightarrow> 'a qmem \<Rightarrow> addr res" where
  "TAILQ_LAST head m =
     bind_res (last_of head m) (\<lambda>l.
     bind_res (second_word l m) (\<lambda>l.
     load l m))"

definition TAILQ_PREV :: "addr \<Rightarrow> 'a qmem \<Rightarrow> addr res" where
  "TAILQ_PREV elm m =
     bind_res (prev_of elm m) (\<lambda>l.
     bind_res (second_word l m) (\<lambda>l.
     load l m))"

definition TAILQ_HEAD_INITIALIZER :: "head_id \<Rightarrow> qhead" where
  "TAILQ_HEAD_INITIALIZER head = \<lparr>qh_first = NULL, qh_last = First_of head\<rparr>"

definition TAILQ_INIT :: "head_id \<Rightarrow> 'a qmem \<Rightarrow> 'a qmem res" where
  "TAILQ_INIT head m =
     bind_res (store_at (First_of head) NULL m) (\<lambda>m.
     set_last head (First_of head) m)"

definition TAILQ_CONCAT :: "head_id \<Rightarrow> head_id \<Rightarrow> 'a qmem \<Rightarrow> 'a qmem res" where
  "TAILQ_CONCAT head1 head2 m =
     bind_res (TAILQ_EMPTY head2 m) (\<lambda>e.
     if e then Ok m
     else
       bind_res (last_of head1 m) (\<lambda>l1.
       bind_res (TAILQ_FIRST head2 m) (\<lambda>f2.
       bind_res (store_at l1 f2 m) (\<lambda>m.
       bind_res (TAILQ_FIRST head2 m) (\<lambda>f2.
       bind_res (last_of head1 m) (\<lambda>l1.
       bind_res (set_prev f2 l1 m) (\<lambda>m.
       bind_res (last_of head2 m) (\<lambda>l2.
       bind_res (set_last head1 l2 m) (\<lambda>m.
       TAILQ_INIT head2 m)))))))))"

definition TAILQ_INSERT_AFTER :: "head_id \<Rightarrow> addr \<Rightarrow> addr \<Rightarrow> 'a qmem \<Rightarrow> 'a qmem res" where
  "TAILQ_INSERT_AFTER head listelm elm m =
     bind_res (TAILQ_NEXT listelm m) (\<lambda>n.
     bind_res (store_at (Next_of elm) n m) (\<lambda>m.
     bind_res (if n \<noteq> NULL then bind_res (TAILQ_NEXT elm m) (\<lambda>n. set_prev n (Next_of elm) m)
               else set_last head (Next_of elm) m) (\<lambda>m.
     bind_res (store_at (Next_of listelm) elm m) (\<lambda>m.
     set_prev elm (Next_of listelm) m))))"

definition TAILQ_INSERT_BEFORE :: "addr \<Rightarrow> addr \<Rightarrow> 'a qmem \<Rightarrow> 'a qmem res" where
  "TAILQ_INSERT_BEFORE listelm elm m =
     bind_res (prev_of listelm m) (\<lambda>l.
     bind_res (set_prev elm l m) (\<lambda>m.
     bind_res (store_at (Next_of elm) listelm m) (\<lambda>m.
     bind_res (prev_of listelm m) (\<lambda>l.
     bind_res (store_at l elm m) (\<lambda>m.
     set_prev listelm (Next_of elm) m)))))"

definition TAILQ_INSERT_HEAD :: "head_id \<Rightarrow> addr \<Rightarrow> 'a qmem \<Rightarrow> 'a qmem res" where
  "TAILQ_INSERT_HEAD head elm m =
     bind_res (TAILQ_FIRST head m) (\<lambda>n.
     bind_res (store_at (Next_of elm) n m) (\<lambda>m.
     bind_res (if n \<noteq> NULL then bind_res (TAILQ_FIRST head m) (\<lambda>f. set_prev f (Next_of elm) m)
               else set_last head (Next_of elm) m) (\<lambda>m.
     bind_res (store_at (First_of head) elm m) (\<lambda>m.
     set_prev elm (First_of head) m))))"

definition TAILQ_INSERT_TAIL :: "head_id \<Rightarrow> addr \<Rightarrow> 'a qmem \<Rightarrow> 'a qmem res" where
  "TAILQ_INSERT_TAIL head elm m =
     bind_res (store_at (Next_of elm) NULL m) (\<lambda>m.
     bind_res (last_of head m) (\<lambda>l.
     bind_res (set_prev elm l m) (\<lambda>m.
     bind_res (last_of head m) (\<lambda>l.
     bind_res (store_at l elm m) (\<lambda>m.
     set_last head (Next_of elm) m)))))"

definition TAILQ_REMOVE :: "head_id \<Rightarrow> addr \<Rightarrow> 'a qmem \<Rightarrow> 'a qmem res" where
  "TAILQ_REMOVE head elm m =
     bind_res (TAILQ_NEXT elm m) (\<lambda>n.
     bind_res (if n \<noteq> NULL then bind_res (prev_of elm m) (\<lambda>l. set_prev n l m)
               else bind_res (prev_of elm m) (\<lambda>l. set_last head l m)) (\<lambda>m.
     bind_res (prev_of elm m) (\<lambda>l.
     bind_res (TAILQ_NEXT elm m) (\<lambda>n.
     store_at l n m))))"

text \<open>
  The loops, with the body as an argument and \<open>mem\<close> the reading of the memory in the state; the loop heads are those of \<open>MYSLIST_FOREACH\<close>
  and \<open>MYSLIST_FOREACH_SAFE\<close> but for the names.
\<close>

definition TAILQ_FOREACH ::
    "('s \<Rightarrow> 'a qmem) \<Rightarrow> (addr \<Rightarrow> 's \<Rightarrow> (bool \<times> 's) res option) \<Rightarrow> head_id \<Rightarrow> 's \<Rightarrow> (addr \<times> 's) res option" where
  "TAILQ_FOREACH mem body head s =
     then_run (Some (TAILQ_FIRST head (mem s))) (\<lambda>var. MYSLIST_FOREACH (\<lambda>s a. TAILQ_NEXT a (mem s)) body var s)"

definition TAILQ_FOREACH_SAFE ::
    "('s \<Rightarrow> 'a qmem) \<Rightarrow> (addr \<Rightarrow> 's \<Rightarrow> 's res option) \<Rightarrow> head_id \<Rightarrow> 's \<Rightarrow> 's res option" where
  "TAILQ_FOREACH_SAFE mem body head s =
     then_run (Some (TAILQ_FIRST head (mem s))) (\<lambda>var. MYSLIST_FOREACH_SAFE (\<lambda>s a. TAILQ_NEXT a (mem s)) body var s)"

definition TAILQ_FOREACH_REVERSE ::
    "('s \<Rightarrow> 'a qmem) \<Rightarrow> (addr \<Rightarrow> 's \<Rightarrow> (bool \<times> 's) res option) \<Rightarrow> head_id \<Rightarrow> 's \<Rightarrow> (addr \<times> 's) res option" where
  "TAILQ_FOREACH_REVERSE mem body head s =
     then_run (Some (TAILQ_LAST head (mem s))) (\<lambda>var. MYSLIST_FOREACH (\<lambda>s a. TAILQ_PREV a (mem s)) body var s)"

definition TAILQ_FOREACH_REVERSE_SAFE ::
    "('s \<Rightarrow> 'a qmem) \<Rightarrow> (addr \<Rightarrow> 's \<Rightarrow> 's res option) \<Rightarrow> head_id \<Rightarrow> 's \<Rightarrow> 's res option" where
  "TAILQ_FOREACH_REVERSE_SAFE mem body head s =
     then_run (Some (TAILQ_LAST head (mem s))) (\<lambda>var. MYSLIST_FOREACH_SAFE (\<lambda>s a. TAILQ_PREV a (mem s)) body var s)"

text \<open>The other two families have the first two loops as well.\<close>

definition STAILQ_FOREACH ::
    "('s \<Rightarrow> 'a qmem) \<Rightarrow> (addr \<Rightarrow> 's \<Rightarrow> (bool \<times> 's) res option) \<Rightarrow> head_id \<Rightarrow> 's \<Rightarrow> (addr \<times> 's) res option" where
  "STAILQ_FOREACH mem body head s =
     then_run (Some (STAILQ_FIRST head (mem s))) (\<lambda>var. MYSLIST_FOREACH (\<lambda>s a. STAILQ_NEXT a (mem s)) body var s)"

definition STAILQ_FOREACH_SAFE ::
    "('s \<Rightarrow> 'a qmem) \<Rightarrow> (addr \<Rightarrow> 's \<Rightarrow> 's res option) \<Rightarrow> head_id \<Rightarrow> 's \<Rightarrow> 's res option" where
  "STAILQ_FOREACH_SAFE mem body head s =
     then_run (Some (STAILQ_FIRST head (mem s))) (\<lambda>var. MYSLIST_FOREACH_SAFE (\<lambda>s a. STAILQ_NEXT a (mem s)) body var s)"

definition LIST_FOREACH ::
    "('s \<Rightarrow> 'a qmem) \<Rightarrow> (addr \<Rightarrow> 's \<Rightarrow> (bool \<times> 's) res option) \<Rightarrow> head_id \<Rightarrow> 's \<Rightarrow> (addr \<times> 's) res option" where
  "LIST_FOREACH mem body head s =
     then_run (Some (LIST_FIRST head (mem s))) (\<lambda>var. MYSLIST_FOREACH (\<lambda>s a. LIST_NEXT a (mem s)) body var s)"

definition LIST_FOREACH_SAFE ::
    "('s \<Rightarrow> 'a qmem) \<Rightarrow> (addr \<Rightarrow> 's \<Rightarrow> 's res option) \<Rightarrow> head_id \<Rightarrow> 's \<Rightarrow> 's res option" where
  "LIST_FOREACH_SAFE mem body head s =
     then_run (Some (LIST_FIRST head (mem s))) (\<lambda>var. MYSLIST_FOREACH_SAFE (\<lambda>s a. LIST_NEXT a (mem s)) body var s)"

text \<open>
  \<open>MYSLIST_FOREACH_PREVPTR\<close>, the loop of the singly linked lists whose body also gets the address of the pointer to the element.
\<close>

partial_function (option) MYSLIST_FOREACH_PREVPTR ::
    "('s \<Rightarrow> 'a qmem) \<Rightarrow> (addr \<Rightarrow> loc \<Rightarrow> 's \<Rightarrow> (bool \<times> 's) res option) \<Rightarrow> loc \<Rightarrow> 's \<Rightarrow> (addr \<times> 's) res option" where
  "MYSLIST_FOREACH_PREVPTR mem body varp s =
     (case load varp (mem s) of
        Err e \<Rightarrow> Some (Err e)
      | Ok var \<Rightarrow>
          if var = NULL then Some (Ok (NULL, s))
          else case body var varp s of
                 None \<Rightarrow> None
               | Some (Err e) \<Rightarrow> Some (Err e)
               | Some (Ok (stop, s)) \<Rightarrow>
                   if stop then Some (Ok (var, s)) else MYSLIST_FOREACH_PREVPTR mem body (Next_of var) s)"

end
