(* ===== verification/List_Macros_Correct.thy ===== *)
theory List_Macros_Correct
  imports List_Macros
begin

text \<open>
  What the macros of \<open>List_Macros\<close> do to proper lists. One predicate covers the three families: a chain from the head through the
  first words, for the doubly linked ones with the second words pointing back. Inserting and removing are the same change of a
  chain whichever macro makes it.
\<close>

section \<open>Reading after writing\<close>

definition valid :: "loc \<Rightarrow> 'a qmem \<Rightarrow> bool" where
  "valid l m \<longleftrightarrow> (\<exists>v. load l m = Ok v)"

definition payload :: "addr \<Rightarrow> 'a qmem \<Rightarrow> 'a res" where
  "payload a m = map_res q_data (cell_at a m)"

definition put :: "loc \<Rightarrow> addr \<Rightarrow> 'a qmem \<Rightarrow> 'a qmem" where
  "put l v m = (case store_at l v m of Ok m' \<Rightarrow> m' | Err _ \<Rightarrow> m)"

definition put_prev :: "addr \<Rightarrow> loc \<Rightarrow> 'a qmem \<Rightarrow> 'a qmem" where
  "put_prev a l m = (case set_prev a l m of Ok m' \<Rightarrow> m' | Err _ \<Rightarrow> m)"

definition put_last :: "head_id \<Rightarrow> loc \<Rightarrow> 'a qmem \<Rightarrow> 'a qmem" where
  "put_last h l m = (case set_last h l m of Ok m' \<Rightarrow> m' | Err _ \<Rightarrow> m)"

lemmas mem_defs = valid_def payload_def put_def put_prev_def put_last_def head_at_def cell_at_def set_head_def set_cell_def
  prev_of_def set_prev_def last_of_def set_last_def

lemma valid_writes [simp]:
  "valid l' (put l v m) = valid l' m" "valid l' (put_prev a l m) = valid l' m" "valid l' (put_last h l m) = valid l' m"
  by (cases l; cases l'; auto simp: mem_defs split: option.splits)+

lemma writes_Ok [simp]:
  "valid l m \<Longrightarrow> store_at l v m = Ok (put l v m)"
  "valid (Next_of a) m \<Longrightarrow> set_prev a l m = Ok (put_prev a l m)"
  "valid (First_of h) m \<Longrightarrow> set_last h l m = Ok (put_last h l m)"
  by (cases l; auto simp: mem_defs map_res_Ok_iff split: option.splits if_splits)+

lemma load_writes [simp]:
  "load l' (put l v m) = (if l' = l \<and> valid l m then Ok v else load l' m)"
  "load l' (put_prev a l m) = load l' m" "load l' (put_last h l m) = load l' m"
  by (cases l; cases l'; auto simp: mem_defs split: option.splits)+

lemma prev_writes [simp]:
  "prev_of b (put l v m) = prev_of b m" "prev_of b (put_last h l m) = prev_of b m"
  "prev_of b (put_prev a l m) = (if b = a \<and> valid (Next_of a) m then Ok l else prev_of b m)"
  by (cases l; auto simp: mem_defs split: option.splits)+

lemma last_writes [simp]:
  "last_of h' (put l v m) = last_of h' m" "last_of h' (put_prev a l m) = last_of h' m"
  "last_of h' (put_last h l m) = (if h' = h \<and> valid (First_of h) m then Ok l else last_of h' m)"
  by (cases l; auto simp: mem_defs split: option.splits)+

lemma payload_writes [simp]:
  "payload b (put l v m) = payload b m" "payload b (put_prev a l m) = payload b m" "payload b (put_last h l m) = payload b m"
  by (cases l; auto simp: mem_defs split: option.splits)+

declare load.simps [simp del] store_at.simps [simp del]

lemma load_valid: "load l m = Ok v \<Longrightarrow> valid l m"
  by (auto simp: valid_def)

lemma valid_not_null: "valid (Next_of a) m \<Longrightarrow> a \<noteq> NULL"
  by (auto simp: mem_defs load.simps split: if_splits)

section \<open>Chains\<close>

definition start :: "addr list \<Rightarrow> addr" where
  "start as = (case as of [] \<Rightarrow> NULL | a # _ \<Rightarrow> a)"

definition end_of :: "loc \<Rightarrow> addr list \<Rightarrow> loc" where
  "end_of l as = (if as = [] then l else Next_of (last as))"

lemma start_simps [simp]: "start [] = NULL" "start (a # as) = a"
  by (simp_all add: start_def)

lemma end_of_simps [simp]:
  "end_of l [] = l" "end_of l (a # as) = end_of (Next_of a) as" "end_of l (us @ vs) = end_of (end_of l us) vs"
  by (simp_all add: end_of_def)

fun seg :: "bool \<Rightarrow> 'a qmem \<Rightarrow> loc \<Rightarrow> addr list \<Rightarrow> bool" where
  "seg dbl m l [] \<longleftrightarrow> True"
| "seg dbl m l (a # as) \<longleftrightarrow> load l m = Ok a \<and> (dbl \<longrightarrow> prev_of a m = Ok l) \<and> seg dbl m (Next_of a) as"

definition chain :: "bool \<Rightarrow> 'a qmem \<Rightarrow> head_id \<Rightarrow> addr list \<Rightarrow> bool" where
  "chain dbl m h as \<longleftrightarrow> distinct as \<and> seg dbl m (First_of h) as \<and> load (end_of (First_of h) as) m = Ok NULL"

definition tailed :: "'a qmem \<Rightarrow> head_id \<Rightarrow> addr list \<Rightarrow> bool" where
  "tailed m h as \<longleftrightarrow> last_of h m = Ok (end_of (First_of h) as)"

text \<open>The three families.\<close>

definition stailq :: "'a qmem \<Rightarrow> head_id \<Rightarrow> addr list \<Rightarrow> bool" where
  "stailq m h as \<longleftrightarrow> chain False m h as \<and> tailed m h as"

definition dlist :: "'a qmem \<Rightarrow> head_id \<Rightarrow> addr list \<Rightarrow> bool" where
  "dlist m h as \<longleftrightarrow> chain True m h as"

definition tailq :: "'a qmem \<Rightarrow> head_id \<Rightarrow> addr list \<Rightarrow> bool" where
  "tailq m h as \<longleftrightarrow> chain True m h as \<and> tailed m h as"

lemma seg_append [simp]: "seg dbl m l (us @ vs) \<longleftrightarrow> seg dbl m l us \<and> seg dbl m (end_of l us) vs"
  by (induction us arbitrary: l) auto

text \<open>The locations a segment is read through; the last one is not among them.\<close>

fun through :: "loc \<Rightarrow> addr list \<Rightarrow> loc set" where
  "through l [] = {}"
| "through l (a # as) = insert l (through (Next_of a) as)"

lemma through_subset: "through l as \<subseteq> insert l (Next_of ` set as)"
  by (induction as arbitrary: l) auto

lemma end_not_through: "distinct as \<Longrightarrow> l \<notin> Next_of ` set as \<Longrightarrow> end_of l as \<notin> through l as"
proof (induction as arbitrary: l)
  case (Cons a as)
  have "end_of (Next_of a) as \<in> insert (Next_of a) (Next_of ` set as)" by (auto simp: end_of_def)
  then show ?case using Cons by auto
qed simp

lemma seg_cong:
  "(\<And>x. x \<in> through l as \<Longrightarrow> load x m' = load x m) \<Longrightarrow> (\<And>a. a \<in> set as \<Longrightarrow> prev_of a m' = prev_of a m) \<Longrightarrow>
     seg dbl m' l as = seg dbl m l as"
  by (induction as arbitrary: l) auto

text \<open>Around a position.\<close>

lemma chain_at:
  assumes "chain dbl m h (us @ vs)"
  shows "load (end_of (First_of h) us) m = Ok (start vs)" "valid (end_of (First_of h) us) m"
    "dbl \<Longrightarrow> vs = b # ws \<Longrightarrow> prev_of b m = Ok (end_of (First_of h) us)"
proof -
  show l: "load (end_of (First_of h) us) m = Ok (start vs)" using assms by (cases vs) (auto simp: chain_def)
  show "valid (end_of (First_of h) us) m" by (rule load_valid [OF l])
  show "dbl \<Longrightarrow> vs = b # ws \<Longrightarrow> prev_of b m = Ok (end_of (First_of h) us)" using assms by (auto simp: chain_def)
qed

lemma chain_member:
  assumes "chain dbl m h (us @ b # vs)"
  shows "load (Next_of b) m = Ok (start vs)" "valid (Next_of b) m" "b \<noteq> NULL" "load (end_of (First_of h) us) m = Ok b"
    "dbl \<Longrightarrow> prev_of b m = Ok (end_of (First_of h) us)" "valid (First_of h) m" "b \<notin> set us" "b \<notin> set vs"
    "end_of (First_of h) us \<noteq> Next_of b"
proof -
  have c: "chain dbl m h ((us @ [b]) @ vs)" using assms by simp
  show l: "load (Next_of b) m = Ok (start vs)" "valid (Next_of b) m" using chain_at(1,2) [OF c] by simp_all
  show "b \<noteq> NULL" by (rule valid_not_null [OF l(2)])
  show "load (end_of (First_of h) us) m = Ok b" "dbl \<Longrightarrow> prev_of b m = Ok (end_of (First_of h) us)"
    using chain_at [OF assms] by simp_all
  have "chain dbl m h ([] @ us @ b # vs)" using assms by simp
  then show "valid (First_of h) m" using chain_at(2) by fastforce
  show nb: "b \<notin> set us" "b \<notin> set vs" using assms by (auto simp: chain_def)
  show "end_of (First_of h) us \<noteq> Next_of b" using nb(1) by (auto simp: end_of_def split: if_splits)
qed

lemma chain_start: "chain dbl m h (us @ vs) \<Longrightarrow> start vs = NULL \<longleftrightarrow> vs = []"
  using chain_member(3) [of dbl m h us] by (cases vs) auto

text \<open>One more element between \<open>us\<close> and \<open>vs\<close>.\<close>

lemma splice:
  assumes "chain dbl m h (us @ vs)" and "a \<notin> set (us @ vs)" and p: "p = end_of (First_of h) us"
    and ld: "load p m' = Ok a" "load (Next_of a) m' = Ok (start vs)" "\<And>l. l \<noteq> p \<Longrightarrow> l \<noteq> Next_of a \<Longrightarrow> load l m' = load l m"
    and pv: "dbl \<Longrightarrow> prev_of a m' = Ok p" "dbl \<Longrightarrow> vs \<noteq> [] \<Longrightarrow> prev_of (hd vs) m' = Ok (Next_of a)"
      "\<And>b. dbl \<Longrightarrow> b \<noteq> a \<Longrightarrow> vs = [] \<or> b \<noteq> hd vs \<Longrightarrow> prev_of b m' = prev_of b m"
  shows "chain dbl m' h (us @ a # vs)"
proof -
  have d: "distinct us" "distinct vs" "set us \<inter> set vs = {}" "a \<notin> set us" "a \<notin> set vs" using assms(1,2) by (auto simp: chain_def)
  have pu: "p \<in> insert (First_of h) (Next_of ` set us)" by (auto simp: p end_of_def)
  have seg_same: "seg dbl m' l as = seg dbl m l as"
    if out: "p \<notin> through l as" "Next_of a \<notin> through l as" "a \<notin> set as" "vs = [] \<or> hd vs \<notin> set as" for l as
  proof (cases dbl)
    case True
    have "prev_of b m' = prev_of b m" if b: "b \<in> set as" for b
      using pv(3) [OF True, of b] out(3,4) b by auto
    moreover have "load x m' = load x m" if "x \<in> through l as" for x using ld(3) [of x] out(1,2) that by auto
    ultimately show ?thesis by (intro seg_cong)
  next
    case False
    have "seg False m' l as = seg False m l as" using out ld(3) by (induction as arbitrary: l) auto
    then show ?thesis using False by simp
  qed
  have "p \<notin> through (First_of h) us" using end_not_through [of us "First_of h"] d(1) by (auto simp: p)
  moreover have "Next_of a \<notin> through (First_of h) us" using through_subset [of "First_of h" us] d(4) by auto
  moreover have "vs = [] \<or> hd vs \<notin> set us" using d(3) by (cases vs) auto
  ultimately have us: "seg dbl m' (First_of h) us" using seg_same d(4) assms(1) by (auto simp: chain_def)
  show ?thesis
  proof (cases vs)
    case Nil
    then show ?thesis using us d ld(1,2) pv(1) assms(1) by (auto simp: chain_def p)
  next
    case (Cons b ws)
    have "p \<notin> through (Next_of b) ws" "Next_of a \<notin> through (Next_of b) ws"
      using through_subset [of "Next_of b" ws] pu d(3,5) Cons by auto
    then have ws: "seg dbl m' (Next_of b) ws" using seg_same [of "Next_of b" ws] assms(1) d(2,5) Cons by (auto simp: chain_def)
    have "end_of (Next_of b) ws \<in> Next_of ` set vs" using Cons by (auto simp: end_of_def)
    then have "end_of (Next_of b) ws \<noteq> p" "end_of (Next_of b) ws \<noteq> Next_of a" using pu d(3,5) by auto
    then have "load (end_of (Next_of b) ws) m' = Ok NULL" using ld(3) assms(1) Cons by (auto simp: chain_def)
    then show ?thesis using us ws d ld(1,2) pv(1,2) Cons by (auto simp: chain_def p)
  qed
qed

text \<open>The element between \<open>us\<close> and \<open>vs\<close> is unlinked.\<close>

lemma cut:
  assumes "chain dbl m h (us @ a # vs)" and p: "p = end_of (First_of h) us"
    and ld: "load p m' = Ok (start vs)" "\<And>l. l \<noteq> p \<Longrightarrow> load l m' = load l m"
    and pv: "dbl \<Longrightarrow> vs \<noteq> [] \<Longrightarrow> prev_of (hd vs) m' = Ok p"
      "\<And>b. dbl \<Longrightarrow> vs = [] \<or> b \<noteq> hd vs \<Longrightarrow> prev_of b m' = prev_of b m"
  shows "chain dbl m' h (us @ vs)"
proof -
  have d: "distinct us" "distinct vs" "set us \<inter> set vs = {}" "a \<notin> set us" "a \<notin> set vs" using assms(1) by (auto simp: chain_def)
  have pu: "p \<in> insert (First_of h) (Next_of ` set us)" by (auto simp: p end_of_def)
  have seg_same: "seg dbl m' l as = seg dbl m l as"
    if out: "p \<notin> through l as" "vs = [] \<or> hd vs \<notin> set as" for l as
  proof (cases dbl)
    case True
    have "prev_of b m' = prev_of b m" if b: "b \<in> set as" for b
      using pv(2) [OF True, of b] out(2) b by auto
    moreover have "load x m' = load x m" if "x \<in> through l as" for x using ld(2) [of x] out(1) that by auto
    ultimately show ?thesis by (intro seg_cong)
  next
    case False
    have "seg False m' l as = seg False m l as" using out ld(2) by (induction as arbitrary: l) auto
    then show ?thesis using False by simp
  qed
  have "p \<notin> through (First_of h) us" using end_not_through [of us "First_of h"] d(1) by (auto simp: p)
  moreover have "vs = [] \<or> hd vs \<notin> set us" using d(3) by (cases vs) auto
  ultimately have us: "seg dbl m' (First_of h) us" using seg_same assms(1) by (auto simp: chain_def)
  show ?thesis
  proof (cases vs)
    case Nil
    then show ?thesis using us d ld(1) by (auto simp: chain_def p)
  next
    case (Cons b ws)
    have "p \<notin> through (Next_of b) ws" using through_subset [of "Next_of b" ws] pu d(3) Cons by auto
    then have ws: "seg dbl m' (Next_of b) ws" using seg_same [of "Next_of b" ws] assms(1) d(2) Cons by (auto simp: chain_def)
    have "end_of (Next_of b) ws \<in> Next_of ` set vs" using Cons by (auto simp: end_of_def)
    then have "end_of (Next_of b) ws \<noteq> p" using pu d(3) by auto
    then have "load (end_of (Next_of b) ws) m' = Ok NULL" using ld(2) assms(1) Cons by (auto simp: chain_def)
    then show ?thesis using us ws d ld(1) pv(1) Cons by (auto simp: chain_def p)
  qed
qed

section \<open>The macros\<close>

text \<open>What every macro leaves alone: which structures there are and what else is in them.\<close>

definition relinks :: "'a qmem \<Rightarrow> 'a qmem \<Rightarrow> bool" where
  "relinks m m' \<longleftrightarrow> (\<forall>a. payload a m' = payload a m) \<and> (\<forall>l. valid l m' = valid l m)"

lemmas stailq_defs = STAILQ_FIRST_def STAILQ_NEXT_def STAILQ_EMPTY_def STAILQ_INIT_def STAILQ_CONCAT_def STAILQ_INSERT_AFTER_def
  STAILQ_INSERT_HEAD_def STAILQ_INSERT_TAIL_def STAILQ_LAST_def STAILQ_REMOVE_HEAD_def STAILQ_REMOVE_HEAD_UNTIL_def STAILQ_REMOVE_def

lemmas list_defs = LIST_FIRST_def LIST_NEXT_def LIST_EMPTY_def LIST_INIT_def LIST_INSERT_AFTER_def LIST_INSERT_BEFORE_def
  LIST_INSERT_HEAD_def LIST_REMOVE_def

lemmas tailq_defs = TAILQ_FIRST_def TAILQ_NEXT_def TAILQ_EMPTY_def TAILQ_LAST_def TAILQ_PREV_def TAILQ_INIT_def TAILQ_CONCAT_def
  TAILQ_INSERT_AFTER_def TAILQ_INSERT_BEFORE_def TAILQ_INSERT_HEAD_def TAILQ_INSERT_TAIL_def TAILQ_REMOVE_def

text \<open>Facts about an element that is not yet in the list.\<close>

lemma fresh_facts:
  assumes "chain dbl m h (us @ vs)" and "a \<notin> set (us @ vs)" and "valid (Next_of a) m"
  shows "a \<noteq> NULL" "end_of (First_of h) us \<noteq> Next_of a" "valid (First_of h) m" "valid (end_of (First_of h) us) m"
    "load (end_of (First_of h) us) m = Ok (start vs)"
    "vs = b # ws \<Longrightarrow> b \<noteq> NULL \<and> b \<noteq> a \<and> valid (Next_of b) m \<and> end_of (First_of h) us \<noteq> Next_of b"
proof -
  show "a \<noteq> NULL" by (rule valid_not_null [OF assms(3)])
  show "end_of (First_of h) us \<noteq> Next_of a" using assms(2) by (auto simp: end_of_def)
  have "chain dbl m h ([] @ us @ vs)" using assms(1) by simp
  then show "valid (First_of h) m" using chain_at(2) by fastforce
  show "valid (end_of (First_of h) us) m" "load (end_of (First_of h) us) m = Ok (start vs)" using chain_at [OF assms(1)] by simp_all
  show "vs = b # ws \<Longrightarrow> b \<noteq> NULL \<and> b \<noteq> a \<and> valid (Next_of b) m \<and> end_of (First_of h) us \<noteq> Next_of b"
    using chain_member(2,3,9) [of dbl m h us b ws] assms(1,2) by auto
qed

lemma TAILQ_INSERT_HEAD_tailq:
  assumes "tailq m h vs" and "a \<notin> set vs" and "valid (Next_of a) m"
  shows "\<exists>m'. TAILQ_INSERT_HEAD h a m = Ok m' \<and> tailq m' h (a # vs) \<and> relinks m m'"
proof -
  have c: "chain True m h ([] @ vs)" "a \<notin> set ([] @ vs)" using assms(1,2) by (simp_all add: tailq_def)
  note f = fresh_facts [OF c assms(3)]
  show ?thesis
  proof (cases vs)
    case Nil
    let ?m' = "put_prev a (First_of h) (put (First_of h) a (put_last h (Next_of a) (put (Next_of a) NULL m)))"
    have e: "TAILQ_INSERT_HEAD h a m = Ok ?m'" using f(1-5) assms(3) Nil by (simp add: tailq_defs)
    have "chain True ?m' h ([] @ a # vs)" by (rule splice [OF c refl]) (use f(1-5) assms(3) Nil in simp_all)
    then show ?thesis using e assms(1) f(3) Nil by (simp add: tailq_def tailed_def relinks_def)
  next
    case (Cons x ws)
    let ?m' = "put_prev a (First_of h) (put (First_of h) a (put_prev x (Next_of a) (put (Next_of a) x m)))"
    have e: "TAILQ_INSERT_HEAD h a m = Ok ?m'" using f assms(3) Cons by (simp add: tailq_defs)
    have "chain True ?m' h ([] @ a # vs)" by (rule splice [OF c refl]) (use f assms(3) Cons in simp_all)
    then show ?thesis using e assms(1) Cons by (simp add: tailq_def tailed_def relinks_def)
  qed
qed

lemma TAILQ_INSERT_TAIL_tailq:
  assumes "tailq m h us" and "a \<notin> set us" and "valid (Next_of a) m"
  shows "\<exists>m'. TAILQ_INSERT_TAIL h a m = Ok m' \<and> tailq m' h (us @ [a]) \<and> relinks m m'"
proof -
  have c: "chain True m h (us @ [])" "a \<notin> set (us @ [])" and t: "last_of h m = Ok (end_of (First_of h) us)"
    using assms(1,2) by (simp_all add: tailq_def tailed_def)
  note f = fresh_facts [OF c assms(3)]
  let ?p = "end_of (First_of h) us"
  let ?m' = "put_last h (Next_of a) (put ?p a (put_prev a ?p (put (Next_of a) NULL m)))"
  have e: "TAILQ_INSERT_TAIL h a m = Ok ?m'" using f(1-5) t assms(3) by (simp add: tailq_defs)
  have "chain True ?m' h (us @ a # [])" by (rule splice [OF c refl]) (use f(1-5) assms(3) in simp_all)
  then show ?thesis using e f(3) by (simp add: tailq_def tailed_def relinks_def)
qed

lemma TAILQ_INSERT_AFTER_tailq:
  assumes "tailq m h (us @ b # vs)" and "a \<notin> set (us @ b # vs)" and "valid (Next_of a) m"
  shows "\<exists>m'. TAILQ_INSERT_AFTER h b a m = Ok m' \<and> tailq m' h (us @ b # a # vs) \<and> relinks m m'"
proof -
  have c: "chain True m h ((us @ [b]) @ vs)" "a \<notin> set ((us @ [b]) @ vs)" using assms(1,2) by (simp_all add: tailq_def)
  note f = fresh_facts [OF c assms(3)]
  have n: "valid (Next_of b) m" "load (Next_of b) m = Ok (start vs)" "a \<noteq> b" using f(4,5) assms(2) by simp_all
  show ?thesis
  proof (cases vs)
    case Nil
    let ?m' = "put_prev a (Next_of b) (put (Next_of b) a (put_last h (Next_of a) (put (Next_of a) NULL m)))"
    have e: "TAILQ_INSERT_AFTER h b a m = Ok ?m'" using f(1-3) n assms(3) Nil by (simp add: tailq_defs)
    have "chain True ?m' h ((us @ [b]) @ a # vs)" by (rule splice [OF c refl]) (use f(1-3) n assms(3) Nil in simp_all)
    then show ?thesis using e assms(1) f(3) Nil by (simp add: tailq_def tailed_def relinks_def)
  next
    case (Cons x ws)
    let ?m' = "put_prev a (Next_of b) (put (Next_of b) a (put_prev x (Next_of a) (put (Next_of a) x m)))"
    have e: "TAILQ_INSERT_AFTER h b a m = Ok ?m'" using f n assms(3) Cons by (simp add: tailq_defs)
    have "chain True ?m' h ((us @ [b]) @ a # vs)" by (rule splice [OF c refl]) (use f n assms(3) Cons in simp_all)
    then show ?thesis using e assms(1) Cons by (simp add: tailq_def tailed_def relinks_def)
  qed
qed

text \<open>\<open>TAILQ_INSERT_BEFORE\<close> and \<open>LIST_INSERT_BEFORE\<close> are the same code: neither needs the head.\<close>

lemma INSERT_BEFORE_chain:
  assumes c: "chain True m h (us @ b # vs)" and "a \<notin> set (us @ b # vs)" and "valid (Next_of a) m"
  shows "\<exists>m'. LIST_INSERT_BEFORE b a m = Ok m' \<and> TAILQ_INSERT_BEFORE b a m = Ok m' \<and> chain True m' h (us @ a # b # vs) \<and>
    relinks m m' \<and> last_of h m' = last_of h m"
proof -
  note f = fresh_facts [OF assms] and pb = chain_member(5) [OF c]
  let ?p = "end_of (First_of h) us"
  let ?m' = "put_prev b (Next_of a) (put ?p a (put (Next_of a) b (put_prev a ?p m)))"
  have e: "LIST_INSERT_BEFORE b a m = Ok ?m'" "TAILQ_INSERT_BEFORE b a m = Ok ?m'"
    using f pb assms(3) by (simp_all add: list_defs tailq_defs)
  have "chain True ?m' h (us @ a # b # vs)" by (rule splice [OF c assms(2) refl]) (use f pb assms(3) in simp_all)
  then show ?thesis using e by (simp add: relinks_def)
qed

lemma TAILQ_INSERT_BEFORE_tailq:
  "tailq m h (us @ b # vs) \<Longrightarrow> a \<notin> set (us @ b # vs) \<Longrightarrow> valid (Next_of a) m \<Longrightarrow>
     \<exists>m'. TAILQ_INSERT_BEFORE b a m = Ok m' \<and> tailq m' h (us @ a # b # vs) \<and> relinks m m'"
  using INSERT_BEFORE_chain [of m h us b vs a] by (auto simp: tailq_def tailed_def)

lemma TAILQ_REMOVE_tailq:
  assumes "tailq m h (us @ a # vs)"
  shows "\<exists>m'. TAILQ_REMOVE h a m = Ok m' \<and> tailq m' h (us @ vs) \<and> relinks m m'"
proof -
  have c: "chain True m h (us @ a # vs)" using assms(1) by (simp add: tailq_def)
  note f = chain_member [OF c] and q = chain_at(2) [OF c]
  let ?p = "end_of (First_of h) us"
  show ?thesis
  proof (cases vs)
    case Nil
    let ?m' = "put ?p NULL (put_last h ?p (m))"
    have e: "TAILQ_REMOVE h a m = Ok ?m'" using f q Nil by (simp add: tailq_defs)
    have "chain True ?m' h (us @ vs)" by (rule cut [OF c refl]) (use f q Nil in simp_all)
    then show ?thesis using e f(6) Nil assms(1) by (simp add: tailq_def tailed_def relinks_def)
  next
    case (Cons x ws)
    have x: "valid (Next_of x) m" "x \<noteq> NULL" "x \<noteq> a" using chain_member(2,3) [of True m h "us @ [a]" x ws] c f(8) Cons by auto
    let ?m' = "put ?p x (put_prev x ?p m)"
    have e: "TAILQ_REMOVE h a m = Ok ?m'" using f q x Cons by (simp add: tailq_defs)
    have "chain True ?m' h (us @ vs)" by (rule cut [OF c refl]) (use f q x Cons in simp_all)
    then show ?thesis using e Cons assms(1) by (simp add: tailq_def tailed_def relinks_def)
  qed
qed

lemma LIST_INSERT_HEAD_dlist:
  assumes "dlist m h vs" and "a \<notin> set vs" and "valid (Next_of a) m"
  shows "\<exists>m'. LIST_INSERT_HEAD h a m = Ok m' \<and> dlist m' h (a # vs) \<and> relinks m m'"
proof -
  have c: "chain True m h ([] @ vs)" "a \<notin> set ([] @ vs)" using assms(1,2) by (simp_all add: dlist_def)
  note f = fresh_facts [OF c assms(3)]
  show ?thesis
  proof (cases vs)
    case Nil
    let ?m' = "put_prev a (First_of h) (put (First_of h) a (put (Next_of a) NULL m))"
    have e: "LIST_INSERT_HEAD h a m = Ok ?m'" using f(1-5) assms(3) Nil by (simp add: list_defs)
    have "chain True ?m' h ([] @ a # vs)" by (rule splice [OF c refl]) (use f(1-5) assms(3) Nil in simp_all)
    then show ?thesis using e assms(1) f(3) Nil by (simp add: dlist_def relinks_def)
  next
    case (Cons x ws)
    let ?m' = "put_prev a (First_of h) (put (First_of h) a (put_prev x (Next_of a) (put (Next_of a) x m)))"
    have e: "LIST_INSERT_HEAD h a m = Ok ?m'" using f assms(3) Cons by (simp add: list_defs)
    have "chain True ?m' h ([] @ a # vs)" by (rule splice [OF c refl]) (use f assms(3) Cons in simp_all)
    then show ?thesis using e assms(1) Cons by (simp add: dlist_def relinks_def)
  qed
qed

lemma LIST_INSERT_AFTER_dlist:
  assumes "dlist m h (us @ b # vs)" and "a \<notin> set (us @ b # vs)" and "valid (Next_of a) m"
  shows "\<exists>m'. LIST_INSERT_AFTER b a m = Ok m' \<and> dlist m' h (us @ b # a # vs) \<and> relinks m m'"
proof -
  have c: "chain True m h ((us @ [b]) @ vs)" "a \<notin> set ((us @ [b]) @ vs)" using assms(1,2) by (simp_all add: dlist_def)
  note f = fresh_facts [OF c assms(3)]
  have n: "valid (Next_of b) m" "load (Next_of b) m = Ok (start vs)" "a \<noteq> b" using f(4,5) assms(2) by simp_all
  show ?thesis
  proof (cases vs)
    case Nil
    let ?m' = "put_prev a (Next_of b) (put (Next_of b) a (put (Next_of a) NULL m))"
    have e: "LIST_INSERT_AFTER b a m = Ok ?m'" using f(1-3) n assms(3) Nil by (simp add: list_defs)
    have "chain True ?m' h ((us @ [b]) @ a # vs)" by (rule splice [OF c refl]) (use f(1-3) n assms(3) Nil in simp_all)
    then show ?thesis using e assms(1) f(3) Nil by (simp add: dlist_def relinks_def)
  next
    case (Cons x ws)
    let ?m' = "put_prev a (Next_of b) (put (Next_of b) a (put_prev x (Next_of a) (put (Next_of a) x m)))"
    have e: "LIST_INSERT_AFTER b a m = Ok ?m'" using f n assms(3) Cons by (simp add: list_defs)
    have "chain True ?m' h ((us @ [b]) @ a # vs)" by (rule splice [OF c refl]) (use f n assms(3) Cons in simp_all)
    then show ?thesis using e assms(1) Cons by (simp add: dlist_def relinks_def)
  qed
qed

lemma LIST_INSERT_BEFORE_dlist:
  "dlist m h (us @ b # vs) \<Longrightarrow> a \<notin> set (us @ b # vs) \<Longrightarrow> valid (Next_of a) m \<Longrightarrow>
     \<exists>m'. LIST_INSERT_BEFORE b a m = Ok m' \<and> dlist m' h (us @ a # b # vs) \<and> relinks m m'"
  using INSERT_BEFORE_chain [of m h us b vs a] by (auto simp: dlist_def)

lemma LIST_REMOVE_dlist:
  assumes "dlist m h (us @ a # vs)"
  shows "\<exists>m'. LIST_REMOVE a m = Ok m' \<and> dlist m' h (us @ vs) \<and> relinks m m'"
proof -
  have c: "chain True m h (us @ a # vs)" using assms(1) by (simp add: dlist_def)
  note f = chain_member [OF c] and q = chain_at(2) [OF c]
  let ?p = "end_of (First_of h) us"
  show ?thesis
  proof (cases vs)
    case Nil
    let ?m' = "put ?p NULL (m)"
    have e: "LIST_REMOVE a m = Ok ?m'" using f q Nil by (simp add: list_defs)
    have "chain True ?m' h (us @ vs)" by (rule cut [OF c refl]) (use f q Nil in simp_all)
    then show ?thesis using e f(6) Nil assms(1) by (simp add: dlist_def relinks_def)
  next
    case (Cons x ws)
    have x: "valid (Next_of x) m" "x \<noteq> NULL" "x \<noteq> a" using chain_member(2,3) [of True m h "us @ [a]" x ws] c f(8) Cons by auto
    let ?m' = "put ?p x (put_prev x ?p m)"
    have e: "LIST_REMOVE a m = Ok ?m'" using f q x Cons by (simp add: list_defs)
    have "chain True ?m' h (us @ vs)" by (rule cut [OF c refl]) (use f q x Cons in simp_all)
    then show ?thesis using e Cons assms(1) by (simp add: dlist_def relinks_def)
  qed
qed

lemma STAILQ_INSERT_HEAD_stailq:
  assumes "stailq m h vs" and "a \<notin> set vs" and "valid (Next_of a) m"
  shows "\<exists>m'. STAILQ_INSERT_HEAD h a m = Ok m' \<and> stailq m' h (a # vs) \<and> relinks m m'"
proof -
  have c: "chain False m h ([] @ vs)" "a \<notin> set ([] @ vs)" using assms(1,2) by (simp_all add: stailq_def)
  note f = fresh_facts [OF c assms(3)]
  show ?thesis
  proof (cases vs)
    case Nil
    let ?m' = "put (First_of h) a (put_last h (Next_of a) (put (Next_of a) NULL m))"
    have e: "STAILQ_INSERT_HEAD h a m = Ok ?m'" using f(1-5) assms(3) Nil by (simp add: stailq_defs)
    have "chain False ?m' h ([] @ a # vs)" by (rule splice [OF c refl]) (use f(1-5) assms(3) Nil in simp_all)
    then show ?thesis using e assms(1) f(3) Nil by (simp add: stailq_def tailed_def relinks_def)
  next
    case (Cons x ws)
    let ?m' = "put (First_of h) a (put (Next_of a) x m)"
    have e: "STAILQ_INSERT_HEAD h a m = Ok ?m'" using f assms(3) Cons by (simp add: stailq_defs)
    have "chain False ?m' h ([] @ a # vs)" by (rule splice [OF c refl]) (use f assms(3) Cons in simp_all)
    then show ?thesis using e assms(1) Cons by (simp add: stailq_def tailed_def relinks_def)
  qed
qed

lemma STAILQ_INSERT_TAIL_stailq:
  assumes "stailq m h us" and "a \<notin> set us" and "valid (Next_of a) m"
  shows "\<exists>m'. STAILQ_INSERT_TAIL h a m = Ok m' \<and> stailq m' h (us @ [a]) \<and> relinks m m'"
proof -
  have c: "chain False m h (us @ [])" "a \<notin> set (us @ [])" and t: "last_of h m = Ok (end_of (First_of h) us)"
    using assms(1,2) by (simp_all add: stailq_def tailed_def)
  note f = fresh_facts [OF c assms(3)]
  let ?p = "end_of (First_of h) us"
  let ?m' = "put_last h (Next_of a) (put ?p a (put (Next_of a) NULL m))"
  have e: "STAILQ_INSERT_TAIL h a m = Ok ?m'" using f(1-5) t assms(3) by (simp add: stailq_defs)
  have "chain False ?m' h (us @ a # [])" by (rule splice [OF c refl]) (use f(1-5) assms(3) in simp_all)
  then show ?thesis using e f(3) by (simp add: stailq_def tailed_def relinks_def)
qed

lemma STAILQ_INSERT_AFTER_stailq:
  assumes "stailq m h (us @ b # vs)" and "a \<notin> set (us @ b # vs)" and "valid (Next_of a) m"
  shows "\<exists>m'. STAILQ_INSERT_AFTER h b a m = Ok m' \<and> stailq m' h (us @ b # a # vs) \<and> relinks m m'"
proof -
  have c: "chain False m h ((us @ [b]) @ vs)" "a \<notin> set ((us @ [b]) @ vs)" using assms(1,2) by (simp_all add: stailq_def)
  note f = fresh_facts [OF c assms(3)]
  have n: "valid (Next_of b) m" "load (Next_of b) m = Ok (start vs)" "a \<noteq> b" using f(4,5) assms(2) by simp_all
  show ?thesis
  proof (cases vs)
    case Nil
    let ?m' = "put (Next_of b) a (put_last h (Next_of a) (put (Next_of a) NULL m))"
    have e: "STAILQ_INSERT_AFTER h b a m = Ok ?m'" using f(1-3) n assms(3) Nil by (simp add: stailq_defs)
    have "chain False ?m' h ((us @ [b]) @ a # vs)" by (rule splice [OF c refl]) (use f(1-3) n assms(3) Nil in simp_all)
    then show ?thesis using e assms(1) f(3) Nil by (simp add: stailq_def tailed_def relinks_def)
  next
    case (Cons x ws)
    let ?m' = "put (Next_of b) a (put (Next_of a) x m)"
    have e: "STAILQ_INSERT_AFTER h b a m = Ok ?m'" using f n assms(3) Cons by (simp add: stailq_defs)
    have "chain False ?m' h ((us @ [b]) @ a # vs)" by (rule splice [OF c refl]) (use f n assms(3) Cons in simp_all)
    then show ?thesis using e assms(1) Cons by (simp add: stailq_def tailed_def relinks_def)
  qed
qed

text \<open>Removal from a singly linked tail queue: of the first element, of any element, of all up to one.\<close>

lemma STAILQ_REMOVE_HEAD_stailq:
  assumes "stailq m h (a # vs)"
  shows "\<exists>m'. STAILQ_REMOVE_HEAD h m = Ok m' \<and> stailq m' h vs \<and> relinks m m'"
proof -
  have c: "chain False m h ([] @ a # vs)" using assms by (simp add: stailq_def)
  note f = chain_member [OF c]
  let ?m' = "if vs = [] then put_last h (First_of h) (put (First_of h) NULL m) else put (First_of h) (start vs) m"
  have nn: "start vs = NULL \<longleftrightarrow> vs = []" using chain_start [of False m h "[a]" vs] c by simp
  have e: "STAILQ_REMOVE_HEAD h m = Ok ?m'" using f nn by (simp add: stailq_defs)
  have "chain False ?m' h ([] @ vs)" by (rule cut [OF c refl]) (use f in simp_all)
  then show ?thesis using e f(6) assms by (cases vs) (simp_all add: stailq_def tailed_def relinks_def)
qed

lemma stailq_before_member:
  "load l m = Ok p \<Longrightarrow> seg False m l (us @ b # a # vs) \<Longrightarrow> a \<notin> set us \<Longrightarrow> a \<noteq> b \<Longrightarrow> stailq_before a p m = Some (Ok b)"
proof (induction us arbitrary: l p)
  case Nil
  then show ?case by (subst stailq_before.simps) (simp add: STAILQ_NEXT_def)
next
  case (Cons u us)
  have p: "p = u" and s: "seg False m (Next_of u) (us @ b # a # vs)" using Cons.prems by simp_all
  obtain n where n: "load (Next_of u) m = Ok n" "n \<noteq> a" using s Cons.prems(3,4) by (cases us) auto
  show ?case using Cons.IH [OF n(1) s] Cons.prems(3,4) n p by (subst stailq_before.simps) (simp add: STAILQ_NEXT_def)
qed

lemma STAILQ_REMOVE_stailq:
  assumes "stailq m h (us @ a # vs)"
  shows "\<exists>m'. STAILQ_REMOVE h a m = Some (Ok m') \<and> stailq m' h (us @ vs) \<and> relinks m m'"
proof (cases us rule: rev_cases)
  case Nil
  have "STAILQ_FIRST h m = Ok a" using assms Nil by (auto simp: stailq_def chain_def STAILQ_FIRST_def)
  then show ?thesis using STAILQ_REMOVE_HEAD_stailq [of m h a vs] assms Nil by (auto simp: STAILQ_REMOVE_def)
next
  case (snoc ws b)
  have c: "chain False m h (us @ a # vs)" using assms by (simp add: stailq_def)
  note f = chain_member [OF c]
  have cb: "chain False m h (ws @ b # a # vs)" using c snoc by simp
  note g = chain_member [OF cb]
  have p: "end_of (First_of h) us = Next_of b" using snoc by simp
  obtain f0 where f0: "load (First_of h) m = Ok f0" "f0 \<noteq> a" using cb by (cases ws) (auto simp: chain_def)
  have before: "stailq_before a f0 m = Some (Ok b)"
    by (rule stailq_before_member [OF f0(1), where us = ws and vs = vs]) (use cb in \<open>auto simp: chain_def\<close>)
  let ?m' = "if vs = [] then put_last h (Next_of b) (put (Next_of b) NULL m) else put (Next_of b) (start vs) m"
  have nn: "start vs = NULL \<longleftrightarrow> vs = []" using chain_start [of False m h "us @ [a]" vs] c by simp
  have e: "STAILQ_REMOVE h a m = Some (Ok ?m')" using f0 before g f(1,6) nn by (simp add: STAILQ_REMOVE_def STAILQ_FIRST_def STAILQ_NEXT_def)
  have "chain False ?m' h (us @ vs)" by (rule cut [OF c p [symmetric]]) (use f g in simp_all)
  then show ?thesis using e f(6) p assms by (cases vs) (simp_all add: stailq_def tailed_def relinks_def)
qed

lemma STAILQ_REMOVE_HEAD_UNTIL_stailq:
  assumes "stailq m h (us @ a # vs)"
  shows "\<exists>m'. STAILQ_REMOVE_HEAD_UNTIL h a m = Ok m' \<and> stailq m' h vs \<and> relinks m m'"
proof -
  have c: "chain False m h (us @ a # vs)" using assms by (simp add: stailq_def)
  note f = chain_member [OF c]
  let ?m' = "if vs = [] then put_last h (First_of h) (put (First_of h) NULL m) else put (First_of h) (start vs) m"
  have nn: "start vs = NULL \<longleftrightarrow> vs = []" using chain_start [of False m h "us @ [a]" vs] c by simp
  have e: "STAILQ_REMOVE_HEAD_UNTIL h a m = Ok ?m'" using f nn by (simp add: stailq_defs)
  show ?thesis
  proof (cases vs)
    case Nil
    then show ?thesis using e f(6) by (simp add: stailq_def chain_def tailed_def relinks_def)
  next
    case (Cons b ws)
    have "First_of h \<notin> through (Next_of b) ws" using through_subset [of "Next_of b" ws] by auto
    then have "seg False ?m' (Next_of b) ws" using c Cons by (subst seg_cong [of _ _ _ m]) (auto simp: chain_def)
    moreover have "end_of (Next_of b) ws \<noteq> First_of h" by (simp add: end_of_def)
    ultimately show ?thesis using e f(6) assms Cons by (simp add: stailq_def chain_def tailed_def relinks_def)
  qed
qed

text \<open>Initialisation and concatenation.\<close>

lemma INIT_proper:
  assumes "valid (First_of h) m"
  shows "\<exists>m'. STAILQ_INIT h m = Ok m' \<and> TAILQ_INIT h m = Ok m' \<and> stailq m' h [] \<and> tailq m' h [] \<and> relinks m m'"
    "\<exists>m'. LIST_INIT h m = Ok m' \<and> dlist m' h [] \<and> relinks m m'"
  using assms by (simp_all add: stailq_defs tailq_defs list_defs stailq_def tailq_def dlist_def chain_def tailed_def relinks_def)

lemma join:
  assumes u: "chain dbl m h1 us" and v: "chain dbl m h2 (b # ws)" and "h1 \<noteq> h2" and disj: "set us \<inter> set (b # ws) = {}"
    and p: "p = end_of (First_of h1) us"
    and ld: "load p m' = Ok b" "load (First_of h2) m' = Ok NULL" "\<And>l. l \<noteq> p \<Longrightarrow> l \<noteq> First_of h2 \<Longrightarrow> load l m' = load l m"
    and pv: "dbl \<Longrightarrow> prev_of b m' = Ok p" "\<And>a. dbl \<Longrightarrow> a \<noteq> b \<Longrightarrow> prev_of a m' = prev_of a m"
  shows "chain dbl m' h1 (us @ b # ws)" "chain dbl m' h2 []"
proof -
  have d: "distinct us" "distinct (b # ws)" using u v by (simp_all add: chain_def)
  have pu: "p \<in> insert (First_of h1) (Next_of ` set us)" by (auto simp: p end_of_def)
  have same: "seg dbl m' l as = seg dbl m l as" if out: "p \<notin> through l as" "First_of h2 \<notin> through l as" "b \<notin> set as" for l as
  proof (cases dbl)
    case True
    have "prev_of a m' = prev_of a m" if "a \<in> set as" for a using pv(2) [OF True, of a] out(3) that by auto
    moreover have "load x m' = load x m" if "x \<in> through l as" for x using ld(3) [of x] out(1,2) that by auto
    ultimately show ?thesis by (intro seg_cong)
  next
    case False
    have "seg False m' l as = seg False m l as" using out ld(3) by (induction as arbitrary: l) auto
    then show ?thesis using False by simp
  qed
  have "p \<notin> through (First_of h1) us" using end_not_through [of us "First_of h1"] d(1) by (auto simp: p)
  moreover have "First_of h2 \<notin> through (First_of h1) us" using through_subset [of "First_of h1" us] \<open>h1 \<noteq> h2\<close> by auto
  ultimately have us: "seg dbl m' (First_of h1) us" using same disj u by (auto simp: chain_def)
  have "p \<notin> through (Next_of b) ws" "First_of h2 \<notin> through (Next_of b) ws"
    using through_subset [of "Next_of b" ws] pu disj by auto
  then have ws: "seg dbl m' (Next_of b) ws" using same d(2) v by (auto simp: chain_def)
  have "end_of (Next_of b) ws \<in> Next_of ` set (b # ws)" by (auto simp: end_of_def)
  then have "end_of (Next_of b) ws \<noteq> p" "end_of (Next_of b) ws \<noteq> First_of h2" using pu disj by auto
  then have "load (end_of (Next_of b) ws) m' = Ok NULL" using ld(3) v by (auto simp: chain_def)
  then show "chain dbl m' h1 (us @ b # ws)" using us ws d disj ld(1) pv(1) by (auto simp: chain_def p)
  show "chain dbl m' h2 []" using ld(2) by (simp add: chain_def)
qed

lemma TAILQ_CONCAT_tailq:
  assumes "tailq m h1 us" and "tailq m h2 vs" and "h1 \<noteq> h2" and "set us \<inter> set vs = {}"
  shows "\<exists>m'. TAILQ_CONCAT h1 h2 m = Ok m' \<and> tailq m' h1 (us @ vs) \<and> tailq m' h2 [] \<and> relinks m m'"
proof -
  let ?p = "end_of (First_of h1) us"
  have c: "chain True m h1 (us @ [])" "chain True m h2 ([] @ vs)" and t: "last_of h1 m = Ok ?p" "last_of h2 m = Ok (end_of (First_of h2) vs)"
    using assms(1,2) by (simp_all add: tailq_def tailed_def)
  have c1: "chain True m h1 ([] @ us)" using c(1) by simp
  note f = chain_at(1,2) [OF c(1)] chain_at(1,2) [OF c(2)] chain_at(2) [OF c1]
  show ?thesis
  proof (cases vs)
    case Nil
    then show ?thesis using f assms(1,2) by (auto simp: tailq_defs relinks_def)
  next
    case (Cons b ws)
    have b: "b \<noteq> NULL" "valid (Next_of b) m" "?p \<noteq> First_of h2" using chain_member(2,3) [of True m h2 "[]" b ws] c(2) Cons assms(3)
      by (auto simp: end_of_def)
    let ?m' = "put_last h2 (First_of h2) (put (First_of h2) NULL (put_last h1 (end_of (Next_of b) ws) (put_prev b ?p (put ?p b m))))"
    have e: "TAILQ_CONCAT h1 h2 m = Ok ?m'" using f b t Cons assms(3) by (simp add: tailq_defs)
    have v: "chain True m h2 (b # ws)" "set us \<inter> set (b # ws) = {}" "chain True m h1 us" using c assms(4) Cons by simp_all
    have "chain True ?m' h1 (us @ b # ws) \<and> chain True ?m' h2 []"
      by (intro conjI; rule join [OF v(3,1) assms(3) v(2) refl]) (use f b assms(3) Cons in simp_all)
    then show ?thesis using e f assms(3) Cons by (simp add: tailq_def tailed_def relinks_def)
  qed
qed

lemma STAILQ_CONCAT_stailq:
  assumes "stailq m h1 us" and "stailq m h2 vs" and "h1 \<noteq> h2" and "set us \<inter> set vs = {}"
  shows "\<exists>m'. STAILQ_CONCAT h1 h2 m = Ok m' \<and> stailq m' h1 (us @ vs) \<and> stailq m' h2 [] \<and> relinks m m'"
proof -
  let ?p = "end_of (First_of h1) us"
  have c: "chain False m h1 (us @ [])" "chain False m h2 ([] @ vs)" and t: "last_of h1 m = Ok ?p" "last_of h2 m = Ok (end_of (First_of h2) vs)"
    using assms(1,2) by (simp_all add: stailq_def tailed_def)
  have c1: "chain False m h1 ([] @ us)" using c(1) by simp
  note f = chain_at(1,2) [OF c(1)] chain_at(1,2) [OF c(2)] chain_at(2) [OF c1]
  show ?thesis
  proof (cases vs)
    case Nil
    then show ?thesis using f assms(1,2) by (auto simp: stailq_defs relinks_def)
  next
    case (Cons b ws)
    have b: "b \<noteq> NULL" "?p \<noteq> First_of h2" using chain_member(3) [of False m h2 "[]" b ws] c(2) Cons assms(3)
      by (auto simp: end_of_def)
    let ?m' = "put_last h2 (First_of h2) (put (First_of h2) NULL (put_last h1 (end_of (Next_of b) ws) (put ?p b m)))"
    have e: "STAILQ_CONCAT h1 h2 m = Ok ?m'" using f b t Cons assms(3) by (simp add: stailq_defs)
    have v: "chain False m h2 (b # ws)" "set us \<inter> set (b # ws) = {}" "chain False m h1 us" using c assms(4) Cons by simp_all
    have "chain False ?m' h1 (us @ b # ws) \<and> chain False ?m' h2 []"
      by (intro conjI; rule join [OF v(3,1) assms(3) v(2) refl]) (use f b assms(3) Cons in simp_all)
    then show ?thesis using e f assms(3) Cons by (simp add: stailq_def tailed_def relinks_def)
  qed
qed

section \<open>The ends and the loops\<close>

lemma STAILQ_LAST_stailq: "stailq m h as \<Longrightarrow> STAILQ_LAST h m = Ok (if as = [] then NULL else last as)"
  using chain_start [of False m h "[]" as] chain_at(1) [of False m h "[]" as]
  by (auto simp: stailq_def tailed_def STAILQ_LAST_def STAILQ_EMPTY_def STAILQ_FIRST_def end_of_def)

text \<open>The cast finds the second word of the head in front of the first element and of the predecessor elsewhere.\<close>

lemma TAILQ_PREV_tailq:
  assumes "tailq m h (us @ a # vs)"
  shows "TAILQ_PREV a m = Ok (if us = [] then NULL else last us)"
proof -
  have c: "chain True m h (us @ a # vs)" and t: "tailed m h (us @ a # vs)" using assms by (simp_all add: tailq_def)
  show ?thesis
  proof (cases us rule: rev_cases)
    case Nil
    then show ?thesis using chain_member(5) [OF c] chain_at(1) [of True m h "us @ a # vs" "[]"] c t by (simp add: TAILQ_PREV_def tailed_def)
  next
    case (snoc ws b)
    have "chain True m h (ws @ b # a # vs)" using c snoc by simp
    from chain_member(4,5) [OF this] show ?thesis using chain_member(5) [OF c] snoc by (simp add: TAILQ_PREV_def)
  qed
qed

lemma TAILQ_LAST_tailq:
  assumes "tailq m h as"
  shows "TAILQ_LAST h m = Ok (if as = [] then NULL else last as)"
proof (cases as rule: rev_cases)
  case Nil
  then show ?thesis using assms chain_at(1) [of True m h "[]" "[]"] by (simp add: TAILQ_LAST_def tailq_def tailed_def)
next
  case (snoc ws b)
  then show ?thesis using assms chain_member(4,5) [of True m h ws b "[]"] by (simp add: TAILQ_LAST_def tailq_def tailed_def)
qed

text \<open>A loop whose body notes where it has been.\<close>

definition visit :: "addr \<Rightarrow> 'a qmem \<times> addr list \<Rightarrow> (bool \<times> ('a qmem \<times> addr list)) res option" where
  "visit a s = Some (Ok (False, (fst s, snd s @ [a])))"

lemma visits:
  assumes "\<And>us a vs. as = us @ a # vs \<Longrightarrow> a \<noteq> NULL \<and> nx m a = Ok (start vs)"
  shows "MYSLIST_FOREACH (\<lambda>s a. nx (fst s) a) visit (start as) (m, []) = Some (Ok (NULL, (m, as)))"
proof -
  let ?I = "\<lambda>xs ys s. s = (m, map fst xs) \<and> as = map fst (xs @ ys)" and ?u = "map (\<lambda>a. (a, ()))"
  have first: "first_of ys = start (map fst ys)" for ys :: "(addr \<times> unit) list" by (cases ys) simp_all
  have "\<exists>s'. MYSLIST_FOREACH (\<lambda>s a. nx (fst s) a) visit (first_of (?u as)) (m, []) = Some (Ok (NULL, s')) \<and> ?I ([] @ ?u as) [] s'"
    by (rule foreach_rule) (use assms in \<open>auto simp: visit_def first o_def\<close>)
  then show ?thesis by (simp add: first o_def)
qed

lemma forward_walks:
  "stailq m h as \<Longrightarrow> STAILQ_FOREACH fst visit h (m, []) = Some (Ok (NULL, (m, as)))"
  "dlist m h as \<Longrightarrow> LIST_FOREACH fst visit h (m, []) = Some (Ok (NULL, (m, as)))"
  "tailq m h as \<Longrightarrow> TAILQ_FOREACH fst visit h (m, []) = Some (Ok (NULL, (m, as)))"
proof -
  have n: "a \<noteq> NULL \<and> load (Next_of a) m = Ok (start vs)" if "chain dbl m h as" "as = us @ a # vs" for dbl us a vs
    using chain_member(1,3) [of dbl m h us a vs] that by simp
  have f: "load (First_of h) m = Ok (start as)" if "chain dbl m h as" for dbl using chain_at(1) [of dbl m h "[]" as] that by simp
  have w: "MYSLIST_FOREACH (\<lambda>s a. load (Next_of a) (fst s)) visit (start as) (m, []) = Some (Ok (NULL, (m, as)))" if "chain dbl m h as" for dbl
    by (rule visits [where nx = "\<lambda>m a. load (Next_of a) m"]) (use n that in blast)
  show "stailq m h as \<Longrightarrow> STAILQ_FOREACH fst visit h (m, []) = Some (Ok (NULL, (m, as)))"
    using w f by (auto simp: STAILQ_FOREACH_def STAILQ_FIRST_def STAILQ_NEXT_def stailq_def)
  show "dlist m h as \<Longrightarrow> LIST_FOREACH fst visit h (m, []) = Some (Ok (NULL, (m, as)))"
    using w f by (auto simp: LIST_FOREACH_def LIST_FIRST_def LIST_NEXT_def dlist_def)
  show "tailq m h as \<Longrightarrow> TAILQ_FOREACH fst visit h (m, []) = Some (Ok (NULL, (m, as)))"
    using w f by (auto simp: TAILQ_FOREACH_def TAILQ_FIRST_def TAILQ_NEXT_def tailq_def)
qed

text \<open>The loop with the address of the pointer: the body sees the pointer that holds the element, so it can unlink it.\<close>

fun holders :: "loc \<Rightarrow> addr list \<Rightarrow> (addr \<times> loc) list" where
  "holders l [] = []"
| "holders l (a # as) = (a, l) # holders (Next_of a) as"

lemma prevptr_walk:
  "seg dbl m l as \<Longrightarrow> load (end_of l as) m = Ok NULL \<Longrightarrow> list_all (\<lambda>a. a \<noteq> NULL) as \<Longrightarrow>
     MYSLIST_FOREACH_PREVPTR fst (\<lambda>a l s. Some (Ok (False, (fst s, snd s @ [(a, l)])))) l (m, acc) = Some (Ok (NULL, (m, acc @ holders l as)))"
proof (induction as arbitrary: l acc)
  case Nil
  then show ?case by (subst MYSLIST_FOREACH_PREVPTR.simps) simp
next
  case (Cons a as)
  then show ?case by (subst MYSLIST_FOREACH_PREVPTR.simps) simp
qed

lemma prevptr_visits:
  assumes "chain dbl m h as"
  shows "MYSLIST_FOREACH_PREVPTR fst (\<lambda>a l s. Some (Ok (False, (fst s, snd s @ [(a, l)])))) (First_of h) (m, []) =
    Some (Ok (NULL, (m, holders (First_of h) as)))"
proof -
  have "a \<noteq> NULL" if a: "a \<in> set as" for a
  proof -
    obtain us vs where "as = us @ a # vs" using split_list [OF a] by blast
    then show ?thesis using chain_member(3) assms by metis
  qed
  then have n: "list_all (\<lambda>a. a \<noteq> NULL) as" by (simp add: list_all_iff)
  have "seg dbl m (First_of h) as" "load (end_of (First_of h) as) m = Ok NULL" using assms by (simp_all add: chain_def)
  from prevptr_walk [OF this n] show ?thesis by simp
qed

lemma backward_walk:
  assumes "tailq m h as"
  shows "TAILQ_FOREACH_REVERSE fst visit h (m, []) = Some (Ok (NULL, (m, rev as)))"
proof -
  have "a \<noteq> NULL \<and> TAILQ_PREV a m = Ok (start vs)" if "rev as = us @ a # vs" for us a vs
  proof -
    have as: "as = rev vs @ a # rev us" using arg_cong [OF that, of rev] by simp
    show ?thesis using TAILQ_PREV_tailq [of m h "rev vs" a "rev us"] chain_member(3) [of True m h "rev vs" a "rev us"] assms
      by (cases vs) (simp_all add: as tailq_def)
  qed
  then have "MYSLIST_FOREACH (\<lambda>s a. TAILQ_PREV a (fst s)) visit (start (rev as)) (m, []) = Some (Ok (NULL, (m, rev as)))"
    using visits [of "rev as" "\<lambda>m a. TAILQ_PREV a m" m] by blast
  moreover have "TAILQ_LAST h m = Ok (start (rev as))" using TAILQ_LAST_tailq [OF assms] by (cases as rule: rev_cases) simp_all
  ultimately show ?thesis by (simp add: TAILQ_FOREACH_REVERSE_def)
qed

section \<open>Sequences of macros\<close>

datatype family = Stailq | Dlist | Tailq

datatype list_op = Insert_head addr | Insert_tail addr | Insert_after addr addr | Insert_before addr addr | Remove addr

text \<open>Which macro an operation is in each family, if it has one.\<close>

fun macro :: "family \<Rightarrow> head_id \<Rightarrow> list_op \<Rightarrow> 'a qmem \<Rightarrow> 'a qmem res option" where
  "macro Stailq h (Insert_head a) m = Some (STAILQ_INSERT_HEAD h a m)"
| "macro Stailq h (Insert_tail a) m = Some (STAILQ_INSERT_TAIL h a m)"
| "macro Stailq h (Insert_after b a) m = Some (STAILQ_INSERT_AFTER h b a m)"
| "macro Stailq h (Insert_before b a) m = None"
| "macro Stailq h (Remove a) m = STAILQ_REMOVE h a m"
| "macro Dlist h (Insert_head a) m = Some (LIST_INSERT_HEAD h a m)"
| "macro Dlist h (Insert_tail a) m = None"
| "macro Dlist h (Insert_after b a) m = Some (LIST_INSERT_AFTER b a m)"
| "macro Dlist h (Insert_before b a) m = Some (LIST_INSERT_BEFORE b a m)"
| "macro Dlist h (Remove a) m = Some (LIST_REMOVE a m)"
| "macro Tailq h (Insert_head a) m = Some (TAILQ_INSERT_HEAD h a m)"
| "macro Tailq h (Insert_tail a) m = Some (TAILQ_INSERT_TAIL h a m)"
| "macro Tailq h (Insert_after b a) m = Some (TAILQ_INSERT_AFTER h b a m)"
| "macro Tailq h (Insert_before b a) m = Some (TAILQ_INSERT_BEFORE b a m)"
| "macro Tailq h (Remove a) m = Some (TAILQ_REMOVE h a m)"

primrec macros :: "family \<Rightarrow> head_id \<Rightarrow> list_op list \<Rightarrow> 'a qmem \<Rightarrow> 'a qmem res option" where
  "macros fam h [] m = Some (Ok m)"
| "macros fam h (x # xs) m = then_run (macro fam h x m) (macros fam h xs)"

fun proper :: "family \<Rightarrow> 'a qmem \<Rightarrow> head_id \<Rightarrow> addr list \<Rightarrow> bool" where
  "proper Stailq m h as = stailq m h as"
| "proper Dlist m h as = dlist m h as"
| "proper Tailq m h as = tailq m h as"

text \<open>What it should do, and when it may be used.\<close>

fun list_after :: "list_op \<Rightarrow> addr list \<Rightarrow> addr list" where
  "list_after (Insert_head a) as = a # as"
| "list_after (Insert_tail a) as = as @ [a]"
| "list_after (Insert_after b a) as = takeWhile (\<lambda>x. x \<noteq> b) as @ b # a # tl (dropWhile (\<lambda>x. x \<noteq> b) as)"
| "list_after (Insert_before b a) as = takeWhile (\<lambda>x. x \<noteq> b) as @ a # dropWhile (\<lambda>x. x \<noteq> b) as"
| "list_after (Remove a) as = remove1 a as"

fun may_use :: "family \<Rightarrow> 'a qmem \<Rightarrow> list_op \<Rightarrow> addr list \<Rightarrow> bool" where
  "may_use fam m (Insert_head a) as \<longleftrightarrow> a \<notin> set as \<and> valid (Next_of a) m"
| "may_use fam m (Insert_tail a) as \<longleftrightarrow> fam \<noteq> Dlist \<and> a \<notin> set as \<and> valid (Next_of a) m"
| "may_use fam m (Insert_after b a) as \<longleftrightarrow> b \<in> set as \<and> a \<notin> set as \<and> valid (Next_of a) m"
| "may_use fam m (Insert_before b a) as \<longleftrightarrow> fam \<noteq> Stailq \<and> b \<in> set as \<and> a \<notin> set as \<and> valid (Next_of a) m"
| "may_use fam m (Remove a) as \<longleftrightarrow> a \<in> set as"

primrec may_use_all :: "family \<Rightarrow> 'a qmem \<Rightarrow> list_op list \<Rightarrow> addr list \<Rightarrow> bool" where
  "may_use_all fam m [] as \<longleftrightarrow> True"
| "may_use_all fam m (x # xs) as \<longleftrightarrow> may_use fam m x as \<and> may_use_all fam m xs (list_after x as)"

lemma split_at:
  assumes "b \<in> set as"
  obtains us vs where "as = us @ b # vs" "b \<notin> set us" "takeWhile (\<lambda>x. x \<noteq> b) as = us" "dropWhile (\<lambda>x. x \<noteq> b) as = b # vs"
proof -
  obtain us vs where as: "as = us @ b # vs" "b \<notin> set us" using split_list_first [OF assms] by blast
  then have "\<And>x. x \<in> set us \<Longrightarrow> x \<noteq> b" by blast
  then show ?thesis using as that [of us vs] by simp
qed

lemma macro_step:
  assumes "proper fam m h as" and "may_use fam m x as"
  shows "\<exists>m'. macro fam h x m = Some (Ok m') \<and> proper fam m' h (list_after x as) \<and> relinks m m'"
proof (cases x)
  case (Insert_head a)
  then show ?thesis using assms STAILQ_INSERT_HEAD_stailq LIST_INSERT_HEAD_dlist TAILQ_INSERT_HEAD_tailq by (cases fam) fastforce+
next
  case (Insert_tail a)
  then show ?thesis using assms STAILQ_INSERT_TAIL_stailq TAILQ_INSERT_TAIL_tailq by (cases fam) fastforce+
next
  case (Insert_after b a)
  then have "b \<in> set as" using assms(2) by simp
  then obtain us vs where "as = us @ b # vs" "b \<notin> set us" "takeWhile (\<lambda>x. x \<noteq> b) as = us" "dropWhile (\<lambda>x. x \<noteq> b) as = b # vs"
    by (rule split_at)
  then show ?thesis using Insert_after assms STAILQ_INSERT_AFTER_stailq [of m h us b vs a] LIST_INSERT_AFTER_dlist [of m h us b vs a]
      TAILQ_INSERT_AFTER_tailq [of m h us b vs a] by (cases fam) auto
next
  case (Insert_before b a)
  then have "b \<in> set as" using assms(2) by simp
  then obtain us vs where "as = us @ b # vs" "b \<notin> set us" "takeWhile (\<lambda>x. x \<noteq> b) as = us" "dropWhile (\<lambda>x. x \<noteq> b) as = b # vs"
    by (rule split_at)
  then show ?thesis using Insert_before assms LIST_INSERT_BEFORE_dlist [of m h us b vs a] TAILQ_INSERT_BEFORE_tailq [of m h us b vs a]
    by (cases fam) auto
next
  case (Remove a)
  then obtain us vs where "as = us @ a # vs" "a \<notin> set us" using assms(2) split_list_first [of a as] by auto
  then show ?thesis using Remove assms STAILQ_REMOVE_stailq [of m h us a vs] LIST_REMOVE_dlist [of m h us a vs] TAILQ_REMOVE_tailq [of m h us a vs]
    by (cases fam) (auto simp: remove1_append)
qed

lemma may_use_relinks: "relinks m m' \<Longrightarrow> may_use_all fam m' xs as = may_use_all fam m xs as"
proof (induction xs arbitrary: as)
  case (Cons x xs)
  then show ?case by (cases x) (simp_all add: relinks_def)
qed simp

lemma relinks_trans: "relinks m m1 \<Longrightarrow> relinks m1 m2 \<Longrightarrow> relinks m m2"
  by (simp add: relinks_def)

lemma macros_run:
  "proper fam m h as \<Longrightarrow> may_use_all fam m xs as \<Longrightarrow>
     \<exists>m'. macros fam h xs m = Some (Ok m') \<and> proper fam m' h (foldl (\<lambda>as x. list_after x as) as xs) \<and> relinks m m'"
proof (induction xs arbitrary: m as)
  case (Cons x xs)
  then obtain m1 where m1: "macro fam h x m = Some (Ok m1)" "proper fam m1 h (list_after x as)" "relinks m m1"
    using macro_step [of fam m h as x] by auto
  have u: "may_use_all fam m1 xs (list_after x as)" using Cons.prems(2) may_use_relinks [OF m1(3)] by simp
  obtain m' where "macros fam h xs m1 = Some (Ok m')" "proper fam m' h (foldl (\<lambda>as x. list_after x as) (list_after x as) xs)" "relinks m1 m'"
    using Cons.IH [OF m1(2) u] by blast
  then show ?case using m1 relinks_trans by fastforce
qed (simp add: relinks_def)

text \<open>
  C40: the macros of all three families do to proper lists what the list functions do. Whatever sequence of insertions and removals is run on a
  proper list, with elements that are allocated and not yet in it, no access faults and every loop ends; the structure is
  proper again and holds the list the sequence describes; nothing else in the elements is changed. A walk with the
  family's own loop visits exactly that list, and the backward walk of a tail queue, which reads through the
  cast between heads and entries, visits it in reverse.
\<close>

theorem list_macros_refine_lists:
  assumes "proper fam m h as" and "may_use_all fam m xs as"
  defines "bs \<equiv> foldl (\<lambda>as x. list_after x as) as xs"
  shows "\<exists>m'. macros fam h xs m = Some (Ok m') \<and> proper fam m' h bs \<and> (\<forall>a. payload a m' = payload a m) \<and>
    (case fam of
       Stailq \<Rightarrow> STAILQ_FOREACH fst visit h (m', []) = Some (Ok (NULL, (m', bs))) \<and> STAILQ_LAST h m' = Ok (if bs = [] then NULL else last bs)
     | Dlist \<Rightarrow> LIST_FOREACH fst visit h (m', []) = Some (Ok (NULL, (m', bs)))
     | Tailq \<Rightarrow> TAILQ_FOREACH fst visit h (m', []) = Some (Ok (NULL, (m', bs))) \<and>
         TAILQ_FOREACH_REVERSE fst visit h (m', []) = Some (Ok (NULL, (m', rev bs))))"
proof -
  obtain m' where m': "macros fam h xs m = Some (Ok m')" "proper fam m' h bs" "relinks m m'"
    using macros_run [OF assms(1,2)] unfolding bs_def by blast
  then show ?thesis using forward_walks [of m' h bs] backward_walk [of m' h bs] STAILQ_LAST_stailq [of m' h bs]
    by (cases fam) (simp_all add: relinks_def)
qed

end
