(* ===== verification/Pointer_Scenarios.thy ===== *)
theory Pointer_Scenarios
  imports Module_Scenarios Ack_Calls Stats_Calls Blockcache_Heap Api_Types Sender_Steps List_Macros_Correct
begin

text \<open>
  Concrete lists, heaps and interleavings for the theories on pointers and overlapping calls: a list of
  three cells, Alice's packet filed and acknowledged, a cache of two blocks, a call that is overtaken by
  the sending thread.
\<close>

section \<open>Lists\<close>

definition three_cells :: "int store" where
  "three_cells = [1 \<mapsto> \<lparr>c_data = 10, sle_next = 2\<rparr>, 2 \<mapsto> \<lparr>c_data = 20, sle_next = 3\<rparr>, 3 \<mapsto> \<lparr>c_data = 30, sle_next = NULL\<rparr>]"

lemma three_list: "slist three_cells 1 [(1, 10), (2, 20), (3, 30)]"
  by (simp add: slist_def three_cells_def)

theorem myslist_remove_is_deletion_witness:
  "(\<exists>p' h'. MYSLIST_REMOVE 1 2 three_cells = Some (Ok (p', h')) \<and> slist h' p' [(1, 10), (3, 30)] \<and> h' 2 = three_cells 2) \<and>
   MYSLIST_REMOVE 1 9 three_cells = Some (Err OutOfBounds)"
proof
  obtain us x ys p' h' where r: "[(1, 10), (2, 20), (3, 30 :: int)] = us @ (2, x) # ys" "MYSLIST_REMOVE 1 2 three_cells = Some (Ok (p', h'))"
    "slist h' p' (us @ ys)" "\<forall>b. b \<notin> addrs us \<longrightarrow> h' b = three_cells b"
    using myslist_remove_is_deletion [OF three_list, of 2] by auto
  have u: "us = [(1, 10)]" "ys = [(3, 30)]" using r(1) by (auto simp: Cons_eq_append_conv)
  show "\<exists>p' h'. MYSLIST_REMOVE 1 2 three_cells = Some (Ok (p', h')) \<and> slist h' p' [(1, 10), (3, 30)] \<and> h' 2 = three_cells 2"
    using r u by auto
  show "MYSLIST_REMOVE 1 9 three_cells = Some (Err OutOfBounds)" using myslist_remove_is_deletion [OF three_list, of 9] by simp
qed

text \<open>An empty tail queue and three elements, with rubbish in their pointers.\<close>

definition list_mem :: "nat qmem" where
  "list_mem = \<lparr>q_heads = [1 \<mapsto> TAILQ_HEAD_INITIALIZER 1],
     q_cells = (\<lambda>a. if a \<in> {10, 20, 30} then Some \<lparr>q_data = a, q_next = 77, q_prev = First_of 9\<rparr> else None)\<rparr>"

lemma list_mem_empty: "tailq list_mem 1 []"
  by (simp add: tailq_def chain_def tailed_def load.simps last_of_def head_at_def list_mem_def TAILQ_HEAD_INITIALIZER_def)

lemma list_mem_valid: "a \<in> {10, 20, 30} \<Longrightarrow> valid (Next_of a) list_mem"
  by (auto simp: valid_def load.simps cell_at_def list_mem_def)

theorem list_macros_refine_lists_witness:
  "\<exists>m'. macros Tailq 1 [Insert_tail 10, Insert_head 20, Insert_after 20 30, Remove 10, Insert_before 30 10] list_mem = Some (Ok m') \<and>
     TAILQ_FOREACH fst visit 1 (m', []) = Some (Ok (NULL, (m', [20, 10, 30]))) \<and>
     TAILQ_FOREACH_REVERSE fst visit 1 (m', []) = Some (Ok (NULL, (m', [30, 10, 20])))"
proof -
  let ?xs = "[Insert_tail 10, Insert_head 20, Insert_after 20 30, Remove 10, Insert_before 30 10]"
  have p: "proper Tailq list_mem 1 []" using list_mem_empty by simp
  have u: "may_use_all Tailq list_mem ?xs []" using list_mem_valid by simp
  have r: "foldl (\<lambda>as x. list_after x as) [] ?xs = [20, 10, 30]" by simp
  show ?thesis using list_macros_refine_lists [OF p u, unfolded r] by auto
qed

section \<open>Outstanding packets\<close>

text \<open>An allocator that returns the address after the last one in use.\<close>

definition next_free :: "'a store \<Rightarrow> addr" where
  "next_free h = Suc (Max (insert 0 (dom h)))"

lemma next_free_fresh: "finite (dom h) \<Longrightarrow> next_free h \<noteq> NULL \<and> next_free h \<notin> dom h"
proof -
  assume f: "finite (dom h)"
  have "a \<le> Max (insert 0 (dom h))" if "a \<in> dom h" for a using f that by simp
  then show ?thesis by (fastforce simp: next_free_def)
qed

lemma next_free_stores:
  "fresh_store (\<lambda>H. next_free (nl_peers H)) nl_peers" "fresh_store (\<lambda>H. next_free (nl_acks H)) nl_acks"
  "fresh_block (\<lambda>H. next_free (bh_store H))"
  using next_free_fresh by (auto simp: fresh_store_def fresh_block_def)

definition alice_calls :: "nack_call list" where
  "alice_calls = [Append zero_SendData (Timeval 5 0) 9, Acked 1 zero_addr [Remove_Ooo]]"

theorem nack_pointers_refine_lists_witness:
  "\<exists>H'. run_h (\<lambda>H. next_free (nl_peers H)) (\<lambda>H. next_free (nl_acks H)) alice_calls (sender0, static_nack_heap) = Some (Ok (sender0, H')) \<and>
     represents {} H' \<lparr>nacklist = [\<lparr>np_addr = zero_addr, np_nacks = []\<rparr>], seq_num = 1\<rparr>"
proof -
  have "run_l alice_calls (sender0, static_nacks) = Ok (sender0, \<lparr>nacklist = [\<lparr>np_addr = zero_addr, np_nacks = []\<rparr>], seq_num = 1\<rparr>)"
    by (simp add: alice_calls_def append_ack_def Let_def static_nacks_def nack_find_by_host_def zero_SendData_def memcpy_def SENDBUF_def
        bytes_of_u16_def pop_ack_def remove_ooo_nacks_def on_peer_def)
  moreover have "list_all good_call alice_calls" by (simp add: alice_calls_def good_call_def)
  ultimately show ?thesis
    using nack_pointers_refine_lists [OF _ next_free_stores(1,2), of alice_calls sender0] by auto
qed

section \<open>Statistics\<close>

lemma next_free_cells:
  "fresh_cells (\<lambda>H. next_free (sh_peers H)) sh_peers" "fresh_cells (\<lambda>H. next_free (sh_samples H)) sh_samples"
  using next_free_fresh by (auto simp: fresh_cells_def)

text \<open>Two acknowledgements of one peer, the second with the higher number, a report and its answer, and one more.\<close>

definition timed_ack :: "u16 \<Rightarrow> stats_call" where
  "timed_ack seq = Acknowledged \<lparr>a_seq = seq, a_sendtime = Timeval 5 0, a_sleeptime = 9, a_d = zero_SendData\<rparr>
     \<lparr>ar_flags = 0, ar_seq = seq, ar_sec = 5, ar_usec = 20, ar_cons = 0\<rparr> (Timeval 5 40) zero_addr"

definition stats_calls :: "stats_call list" where
  "stats_calls = [Timeout_For zero_addr, timed_ack 1, timed_ack 2, Report, Release, timed_ack 3]"

theorem stats_pointers_refine_lists_witness:
  "\<exists>report w. stats_run_h (\<lambda>H. next_free (sh_peers H)) (\<lambda>H. next_free (sh_samples H)) stats_calls
       (stats_start_h static_nacks sender0 static_cookies) =
       Some (Ok ([Timeout_Of 0, Done 1, Done 1, Reported report, Done 0, Done 1], w)) \<and> card (dom (sh_samples (sw_heap w))) = 1"
proof -
  have c: "sd_data (zero_SendData) ! 0 \<noteq> NEED_ACK OR COOKIE_MSG" by (simp add: zero_SendData_def SENDBUF_def packet_defs)
  have "\<exists>report v. stats_run_l stats_calls (stats_start_l static_nacks sender0 static_cookies) =
      Ok ([Timeout_Of 0, Done 1, Done 1, Reported report, Done 0, Done 1], v) \<and>
    sum_list (map (\<lambda>p. length (ps_ack_store p)) (peeracklist (aw_peers v))) = 1"
    using c by (simp add: stats_calls_def timed_ack_def stats_start_l_def static_peer_stats_def get_timeout_value_def find_peer_by_host_def
        ack_received_def new_sample_def new_peer_def add_sample_def add_errors_def note_highest_def remove_ooo_nacks_def remove_lost_acks_def
        resend_ooo_nacks_def on_peer_def static_nacks_def nack_find_by_host_def bws_report_def get_ack_store_def get_idle_def
        take_samples_def release_ack_store_def Let_def)
  then show ?thesis
    using stats_pointers_refine_lists [OF next_free_cells, of stats_calls static_nacks sender0 static_cookies] by auto
qed

section \<open>Cached blocks\<close>

definition one_byte :: BlockData where "one_byte = \<lparr>bd_data = [7], bd_length = 1\<rparr>"

definition cache_calls :: "cache_call list" where
  "cache_calls = [C_Add 1 7 one_byte, C_Add 1 8 one_byte, C_Complete 1 7, C_Delete 1 7, C_Send (\<lambda>_. zero_SendData) 1 7 bob sender0,
     C_List True, C_Delete 1 8]"

definition one_block :: "u32 \<Rightarrow> Block" where
  "one_block bid = \<lparr>b_id = \<lparr>bi_streamid = 1, bi_blockid = bid\<rparr>, b_content = one_byte,
     b_f = replicate (unat (fs_fn (calcfragments 1))) \<lparr>bf_have = 1, bf_host = zero_addr, bf_ts = zero_time\<rparr>, b_fs = calcfragments 1, b_lock = False\<rparr>"

theorem cache_pointers_refine_lists_witness:
  "\<exists>H' X. cache_run_h (\<lambda>H. next_free (bh_store H)) cache_calls static_bc_heap =
       Some (Ok ([R_Int 1, R_Int 1, R_Bool True, R_Int BD_SUCCESS, R_Sent 0 sender0, R_Ids [bkey 1 8], R_Int BD_FAILURE], H')) \<and>
     bh_rep X H' [one_block 8] \<and> finite X \<and> card X = 0"
proof -
  have n: "unat (fs_fn (calcfragments 1)) = 1" by (simp add: calcfragments_def MTU_def Let_def signed_divide_int_def signed_modulo_int_def)
  have "cache_run_l cache_calls [] 0 =
      Ok ([R_Int 1, R_Int 1, R_Bool True, R_Int BD_SUCCESS, R_Sent 0 sender0, R_Ids [bkey 1 8], R_Int BD_FAILURE], [one_block 8], 0)"
    by (simp add: cache_calls_def addblock_def findblock_def raw_findblock_def Let_def one_byte_def one_block_def is_block_def
        deleteblock_def loses_block_def iscomplete_def raw_iscomplete_def lock_block_def unlock_block_def sendblock_def
        get_complete_block_list_def get_blockcache_size_def n)
  then show ?thesis using cache_pointers_refine_lists [OF next_free_stores(3), of cache_calls] by simp
qed

definition two_blocks :: bc_heap where
  "two_blocks = \<lparr>bh_first = 2, bh_store = [1 \<mapsto> \<lparr>c_data = one_block 7, sle_next = NULL\<rparr>, 2 \<mapsto> \<lparr>c_data = one_block 8, sle_next = 1\<rparr>]\<rparr>"

lemma two_blocks_rep: "bh_rep {} two_blocks [one_block 8, one_block 7]"
  unfolding bh_rep_def two_blocks_def by (rule exI [of _ "[(2, one_block 8), (1, one_block 7)]"]) (auto simp: slist_def)

theorem delete_frees_block_in_use_witness:
  "\<exists>p H1 H2. findblock_h 1 7 two_blocks = Some (Ok (p, H1)) \<and> p \<noteq> NULL \<and> deleteblock_h 1 7 H1 = Some (Ok (BD_SUCCESS, H2)) \<and>
     with_block (fragment_into (frag 0) alice (Timeval 6 0)) p H2 = Err OutOfBounds"
  by (rule delete_frees_block_in_use [OF two_blocks_rep, of _ _ 0]) (simp_all add: one_block_def is_block_def)

section \<open>The interface\<close>

theorem api_results_typed_witness:
  "\<exists>rs b'. run_methods [(env1, M_get_in_stats (Some 0)), (env1, M_get_que_size), (env1, M_get_bw_msg)] open0 = Ok (rs, b') \<and>
     result_ok (M_get_in_stats (Some 0)) (rs ! 0) \<and> result_ok M_get_que_size (rs ! 1) \<and> result_ok M_get_bw_msg (rs ! 2)"
proof -
  let ?ems = "[(env1, M_get_in_stats (Some 0)), (env1, M_get_que_size), (env1, M_get_bw_msg)]"
  obtain rs b' where r: "run_methods ?ems open0 = Ok (rs, b')"
    by (auto simp: answer_def get_in_stats_def get_que_size_def get_bw_msg_def get_bwmsg_list_def)
  then show ?thesis using api_results_typed [OF r] by (auto simp: list_all2_Cons1)
qed

section \<open>Overlapping calls\<close>

text \<open>
  Two calls of \<open>send_data\<close>: the first is through, the second has a slot and has not filed its packet yet, and the
  sending thread is about to take from the data queue.
\<close>

definition tx_at :: "sender \<Rightarrow> sender_loc \<Rightarrow> producer list \<Rightarrow> tx_sys" where
  "tx_at q l ps = \<lparr>ts_w = world0\<lparr>aw_sender := q\<rparr>, ts_at = l, ts_prod = ps, ts_cookies = 0\<rparr>"

abbreviation filed0 :: sender where "filed0 \<equiv> sender0\<lparr>qEmpty := 5998, send_q := ring_put (send_q sender0) (packet 0)\<rparr>"

lemma tx_at_simps [simp]: "ts_w (tx_at q l ps) = world0\<lparr>aw_sender := q\<rparr>" "ts_at (tx_at q l ps) = l" "ts_prod (tx_at q l ps) = ps"
  "put_sender q' (tx_at q l ps) = tx_at q' l ps" "(tx_at q l ps)\<lparr>ts_at := l'\<rparr> = tx_at q l' ps" "(tx_at q l ps)\<lparr>ts_prod := ps'\<rparr> = tx_at q l ps'"
  by (simp_all add: tx_at_def put_sender_def)

lemma not_retransmission: "\<not> has BLK_BLOCK_ACK BLOCK_RETRANSMISSION"
  by (simp add: has_def packet_defs)

lemma calls_overlap: "tx_reach (tx_at (filed0\<lparr>sFull := 1\<rparr>) At_Top [P_Idle, P_Slot (packet 1)])"
proof -
  have w: "wf_sd (packet 0)" "wf_sd (packet 1)" using packet_props by auto
  have "tx_start (tx_at sender0 At_Top [P_Idle, P_Idle])"
    by (simp add: tx_start_def tx_at_def same_queues_def sender0_def)
  then have start: "tx_reach (tx_at sender0 At_Top [P_Idle, P_Idle])" by (rule tx_begin)
  have h1: "producer_step (tx_at sender0 At_Top [P_Idle, P_Idle]) (tx_at (sender0\<lparr>qEmpty := 5999\<rparr>) At_Top [P_Slot (packet 0), P_Idle])"
    using p_slot [of 0 "tx_at sender0 At_Top [P_Idle, P_Idle]" "packet 0"] w by simp
  have h2: "producer_step (tx_at (sender0\<lparr>qEmpty := 5999\<rparr>) At_Top [P_Slot (packet 0), P_Idle])
      (tx_at (sender0\<lparr>qEmpty := 5998\<rparr>) At_Top [P_Slot (packet 0), P_Slot (packet 1)])"
    using p_slot [of 1 "tx_at (sender0\<lparr>qEmpty := 5999\<rparr>) At_Top [P_Slot (packet 0), P_Idle]" "packet 1"] w by simp
  have "file_packet (packet 0) (sender0\<lparr>qEmpty := 5998\<rparr>) = (True, filed0)"
    by (simp add: file_packet_def Let_def not_retransmission packet_props sender0_def init_sender_def static_sender_def empty_ring_def queue_sizes)
  then have h3: "producer_step (tx_at (sender0\<lparr>qEmpty := 5998\<rparr>) At_Top [P_Slot (packet 0), P_Slot (packet 1)])
      (tx_at filed0 At_Top [P_Filed, P_Slot (packet 1)])"
    using p_file [of 0 "tx_at (sender0\<lparr>qEmpty := 5998\<rparr>) At_Top [P_Slot (packet 0), P_Slot (packet 1)]" "packet 0" filed0] by simp
  have h4: "producer_step (tx_at filed0 At_Top [P_Filed, P_Slot (packet 1)]) (tx_at (filed0\<lparr>sFull := 1\<rparr>) At_Top [P_Idle, P_Slot (packet 1)])"
    using p_post [of 0 "tx_at filed0 At_Top [P_Filed, P_Slot (packet 1)]"] by (simp add: sender0_def init_sender_def)
  show ?thesis
    by (rule tx_next [OF tx_next [OF tx_next [OF tx_next [OF start by_producer [OF h1]] by_producer [OF h2]] by_producer [OF h3]] by_producer [OF h4]])
qed

definition overtaken :: tx_sys where
  "overtaken = tx_at (filed0\<lparr>z := False, sFull := 0, lasthost := None\<rparr>) At_Data [P_Idle, P_Slot (packet 1)]"

lemma overtaken_reached: "tx_reach overtaken"
proof -
  let ?ps = "[P_Idle, P_Slot (packet 1)]"
  let ?q = "filed0\<lparr>sFull := 1, z := False, lasthost := None\<rparr>" and ?r = "filed0\<lparr>z := False, sFull := 0, lasthost := None\<rparr>"
  have e: "r_f (prio_q ?r) = 0" "r_f (retr_q ?r) = 0"
    by (simp_all add: sender0_def init_sender_def static_sender_def empty_ring_def)
  have c: "ckFull (aw_cookies world0) = 0" by (simp add: world0_def init_cksender_def static_cookies_def Let_def)
  have h1: "sending_step (tx_at (filed0\<lparr>sFull := 1\<rparr>) At_Top ?ps) (tx_at ?q At_Wait ?ps)"
    using s_single [of "tx_at (filed0\<lparr>sFull := 1\<rparr>) At_Top ?ps"] by simp
  have h2: "sending_step (tx_at ?q At_Wait ?ps) (tx_at ?r At_Cookie ?ps)" using s_token [of "tx_at ?q At_Wait ?ps"] by simp
  have h3: "sending_step (tx_at ?r At_Cookie ?ps) (tx_at ?r At_Prio ?ps)" using s_no_cookie [of "tx_at ?r At_Cookie ?ps"] c by simp
  have h4: "sending_step (tx_at ?r At_Prio ?ps) (tx_at ?r At_Retr ?ps)" using s_no_prio [of "tx_at ?r At_Prio ?ps"] e by simp
  have h5: "sending_step (tx_at ?r At_Retr ?ps) overtaken" using s_no_retr [of "tx_at ?r At_Retr ?ps"] e by (simp add: overtaken_def)
  show ?thesis
    by (rule tx_next [OF tx_next [OF tx_next [OF tx_next [OF tx_next [OF calls_overlap by_sender [OF h1]] by_sender [OF h2]] by_sender [OF h3]]
      by_sender [OF h4]] by_sender [OF h5]])
qed

theorem interleaved_sending_safe_witness:
  "0 < r_f (send_q (ts_sender overtaken)) \<and> fst (ring_get (send_q (ts_sender overtaken))) = hd (queue_of Data (ts_sender overtaken)) \<and>
   qEmpty (ts_sender overtaken) + sFull (ts_sender overtaken) + tally slot_of (ts_prod overtaken) + token_held (ts_at overtaken) = 6000"
proof -
  have "ts_at overtaken = At_Data" by (simp add: overtaken_def)
  then show ?thesis using interleaved_sending_safe [OF overtaken_reached] by blast
qed

end
