(* ===== verification/Examples.thy ===== *)
theory Examples
  imports Blockcache_Heap Api_Types
begin

text \<open>
  The two programs beside the module, which \<open>setup.py\<close> does not build: \<open>main.c\<close>, a driver that fills the block cache and empties it
  again, up to the point where it sends to itself; and \<open>spam.c\<close>, the sample extension the iterators of
  \<open>bora.c\<close> were written after.
\<close>

section \<open>The driver\<close>

text \<open>The receiver is idle meanwhile: nobody sends to the driver's port. Its results are the four listings it prints.\<close>

definition main_data :: BlockData where
  "main_data = \<lparr>bd_data = replicate 20000 1, bd_length = 11033\<rparr>"

primrec main_adds :: "nat list \<Rightarrow> bcache \<Rightarrow> bcache res" where
  "main_adds [] bc = Ok bc"
| "main_adds (i # is) bc = bind_res (addblock 1 (of_nat i) main_data bc) (\<lambda>(r, bc). main_adds is bc)"

primrec main_deletes :: "nat list \<Rightarrow> bcache \<Rightarrow> bcache" where
  "main_deletes [] bc = bc"
| "main_deletes (i # is) bc = main_deletes is (snd (deleteblock 1 (of_nat i) bc))"

definition main_cache :: "nat \<Rightarrow> (BlockID list list \<times> bcache) res" where
  "main_cache n =
     bind_res (addblock 1 1 main_data []) (\<lambda>(r, bc).
     bind_res (main_adds [0..<n] bc) (\<lambda>bc.
     bind_res (get_complete_block_list bc) (\<lambda>l1.
     let bc = main_deletes [0..<2] bc in
     bind_res (get_complete_block_list bc) (\<lambda>l2.
     let bc = main_deletes [9, 6] bc in
     bind_res (get_complete_block_list bc) (\<lambda>l3.
     let bc = main_deletes [0..<n] bc in
     map_res (\<lambda>l4. ([l1, l2, l3, l4], bc)) (get_complete_block_list bc))))))"

section \<open>What it prints\<close>

definition main_block :: "nat \<Rightarrow> Block" where
  "main_block i = \<lparr>b_id = \<lparr>bi_streamid = 1, bi_blockid = of_nat i\<rparr>,
     b_content = \<lparr>bd_data = take (unat (11033 :: u32)) (replicate 20000 1), bd_length = 11033\<rparr>,
     b_f = replicate (unat (fs_fn (calcfragments 11033))) \<lparr>bf_have = 1, bf_host = zero_addr, bf_ts = zero_time\<rparr>,
     b_fs = calcfragments 11033, b_lock = False\<rparr>"

definition small :: "nat list \<Rightarrow> bool" where
  "small ks \<longleftrightarrow> list_all (\<lambda>i. i < 2 ^ 32) ks"

lemma main_block_is: "i < 2 ^ 32 \<Longrightarrow> j < 2 ^ 32 \<Longrightarrow> is_block 1 (of_nat i) (main_block j) \<longleftrightarrow> i = j"
proof -
  assume "i < 2 ^ 32" "j < 2 ^ 32"
  then have "unat (of_nat i :: u32) = i" "unat (of_nat j :: u32) = j" by (simp_all add: unat_of_nat)
  then have "(of_nat j :: u32) = of_nat i \<longleftrightarrow> i = j" by metis
  then show ?thesis by (simp add: is_block_def main_block_def)
qed

lemma main_block_unlocked [simp]: "(main_block i)\<lparr>b_lock := False\<rparr> = main_block i" "\<not> b_lock (main_block i)"
  by (simp_all add: main_block_def)

lemma find_main: "i < 2 ^ 32 \<Longrightarrow> small ks \<Longrightarrow> find_pos 1 (of_nat i) (map main_block ks) = find_ix (\<lambda>j. j = i) ks"
  by (induction ks) (auto simp: main_block_is small_def)

lemma addblock_main:
  assumes "i < 2 ^ 32" and "small ks"
  shows "addblock 1 (of_nat i) main_data (map main_block ks) =
    Ok (if i \<in> set ks then (0, map main_block ks) else (1, map main_block (i # ks)))"
proof (cases "find_ix (\<lambda>j. j = i) ks")
  case None
  then have "i \<notin> set ks" by (auto simp: find_ix_None_iff)
  then show ?thesis using find_main [OF assms] None
    by (simp add: addblock_split findblock_def raw_findblock_def block_of_data_def main_data_def main_block_def Let_def)
next
  case (Some p)
  then have p: "p < length ks" "ks ! p = i" using find_ix_SomeD [OF Some] by auto
  then have "i \<in> set ks" by (auto simp: in_set_conv_nth)
  moreover have "(map main_block ks)[p := main_block i] = map main_block ks" using p by (metis list_update_id nth_map length_map)
  ultimately show ?thesis using find_main [OF assms] Some p
    by (simp add: addblock_split findblock_def raw_findblock_def lock_block_def unlock_block_def)
qed

text \<open>Deletion looks at every block but the first.\<close>

lemma deleteblock_main:
  assumes "i < 2 ^ 32" and "small (h # ks)" and "distinct ks"
  shows "snd (deleteblock 1 (of_nat i) (map main_block (h # ks))) = map main_block (h # filter (\<lambda>j. j \<noteq> i) ks)"
proof -
  have "unlink_after 1 (of_nat i) b (map main_block ks) =
      (if i \<in> set ks then Some (b # map main_block (filter (\<lambda>j. j \<noteq> i) ks)) else None)" for b
    using assms
  proof (induction ks arbitrary: b h)
    case (Cons j js)
    then have "filter (\<lambda>j. j \<noteq> i) js = js" if "j = i" using that by (auto simp: filter_id_conv)
    then show ?case using Cons by (auto simp: small_def main_block_is)
  qed simp
  moreover have "filter (\<lambda>j. j \<noteq> i) ks = ks" if "i \<notin> set ks" using that by (auto simp: filter_id_conv)
  ultimately show ?thesis by (simp add: deleteblock_def)
qed

lemma deletes_main:
  "small ds \<Longrightarrow> small (h # ks) \<Longrightarrow> distinct ks \<Longrightarrow>
     main_deletes ds (map main_block (h # ks)) = map main_block (h # filter (\<lambda>j. j \<notin> set ds) ks)"
proof (induction ds arbitrary: ks)
  case (Cons d ds)
  have "small (h # filter (\<lambda>j. j \<noteq> d) ks)" using Cons.prems(2) by (auto simp: small_def list_all_iff)
  then show ?case using Cons deleteblock_main [of d h ks]
    by (simp add: small_def conj_commute)
qed simp

lemma adds_main:
  assumes "n < 2 ^ 32" and "2 \<le> n"
  shows "main_adds [0..<n] (map main_block [1]) = Ok (map main_block (rev [2..<n] @ [0, 1]))"
  using assms(2,1)
proof (induction n rule: dec_induct)
  case base
  have "main_adds [0, 1] (map main_block [1]) = Ok (map main_block [0, 1])"
    using addblock_main [of 0 "[1]"] addblock_main [of 1 "[0, 1]"] by (simp add: small_def)
  then show ?case by (simp add: upt_rec)
next
  case (step n)
  have adds: "main_adds (ks @ js) bc = bind_res (main_adds ks bc) (main_adds js)" for ks js bc
  proof (induction ks arbitrary: bc)
    case (Cons k ks)
    then show ?case by (cases "addblock 1 (of_nat k) main_data bc") (auto split: prod.split)
  qed simp
  have "small (rev [2..<n] @ [0, 1])" using step by (auto simp: small_def list_all_iff)
  then show ?case using step addblock_main [of n "rev [2..<n] @ [0, 1]"] by (simp add: adds)
qed

lemma listing_main: "get_complete_block_list (map main_block ks) = Ok (map (\<lambda>i. \<lparr>bi_streamid = 1, bi_blockid = of_nat i\<rparr>) ks)"
proof -
  have "have_below k (replicate k \<lparr>bf_have = 1, bf_host = h, bf_ts = t\<rparr>)" for k h t
  proof -
    have "j \<le> k \<Longrightarrow> have_below j (replicate k \<lparr>bf_have = 1, bf_host = h, bf_ts = t\<rparr>)" for j by (induction j) auto
    then show ?thesis by simp
  qed
  then have "collect_ids True (map main_block ks) = Ok (map (\<lambda>i. \<lparr>bi_streamid = 1, bi_blockid = of_nat i\<rparr>) ks)"
    by (induction ks) (simp_all add: main_block_def)
  then show ?thesis by (simp add: get_complete_block_list_def get_blockcache_size_def)
qed

lemma main_cache_run:
  assumes "10 \<le> h" and "h < 2 ^ 32 - 1"
  shows "\<exists>ls. main_cache (Suc h) = Ok (ls, [main_block h]) \<and> map length ls = [Suc h, h - 1, h - 3, 1] \<and>
     ls ! 3 = [\<lparr>bi_streamid = 1, bi_blockid = of_nat h\<rparr>]"
proof -
  let ?ks = "rev [2..<h] @ [0, 1]" and ?id = "\<lambda>i. \<lparr>bi_streamid = 1, bi_blockid = of_nat i\<rparr> :: BlockID"
  have a: "main_adds [0..<Suc h] (map main_block [1]) = Ok (map main_block (h # ?ks))"
    using adds_main [of "Suc h"] assms by simp
  have s: "small (h # ?ks)" "distinct ?ks" "small [0..<2]" "small [9, 6]" "small [0..<Suc h]"
    using assms by (auto simp: small_def list_all_iff)
  let ?k2 = "filter (\<lambda>j. j \<notin> set [0..<2]) ?ks"
  let ?k3 = "filter (\<lambda>j. j \<notin> set [9, 6]) ?k2"
  have d: "main_deletes [0..<2] (map main_block (h # ?ks)) = map main_block (h # ?k2)"
    by (rule deletes_main [OF s(3,1,2)])
  have s2: "small (h # ?k2)" "distinct ?k2" "small (h # ?k3)" "distinct ?k3" using s(1,2) by (auto simp: small_def list_all_iff)
  have e: "main_deletes [9, 6] (map main_block (h # ?k2)) = map main_block (h # ?k3)"
    by (rule deletes_main [OF s(4) s2(1,2)])
  have "filter (\<lambda>j. j \<notin> set [0..<Suc h]) ?k3 = []" using assms by (auto simp: filter_empty_conv)
  then have f: "main_deletes [0..<Suc h] (map main_block (h # ?k3)) = map main_block [h]"
    using deletes_main [OF s(5) s2(3,4)] by (simp only:)
  have b: "addblock 1 1 main_data [] = Ok (1, map main_block [1])" using addblock_main [of 1 "[]"] by (simp add: small_def)
  have "set ?k2 = {2..<h}" "set ?k3 = {2..<h} - {9, 6}" by auto
  then have k: "length ?k2 = h - 2" "length ?k3 = h - 4"
    using distinct_card [OF s2(2)] distinct_card [OF s2(4)] assms by (simp_all add: card_Diff_subset)
  have "main_cache (Suc h) = Ok ([map ?id (h # ?ks), map ?id (h # ?k2), map ?id (h # ?k3), map ?id [h]], map main_block [h])"
    by (simp only: main_cache_def b a d e f listing_main bind_res.simps map_res.simps prod.case Let_def)
  moreover have "map length [map ?id (h # ?ks), map ?id (h # ?k2), map ?id (h # ?k3), map ?id [h]] = [Suc h, h - 1, h - 3, 1]"
  proof -
    have "Suc (Suc (h - 2)) = h" "Suc (h - 2) = h - 1" "Suc (h - 4) = h - 3" using assms by simp_all
    then show ?thesis using k by (simp del: filter_append set_upt set_simps)
  qed
  ultimately show ?thesis by auto
qed

text \<open>
  The driver adds the blocks 0 to 4999 and deletes every one of them, and ends with one block: the last it
  added is the first of the list, which \<open>deleteblock\<close> never looks at. Its listings have 5000, 4998, 4996 and 1 entries.
\<close>

lemma main_leaves_the_head:
  "\<exists>ls. main_cache 5000 = Ok (ls, [main_block 4999]) \<and> map length ls = [5000, 4998, 4996, 1] \<and>
     ls ! 3 = [\<lparr>bi_streamid = 1, bi_blockid = 4999\<rparr>]"
  using main_cache_run [of 4999] by simp

section \<open>The sample extension\<close>

text \<open>
  An iterator that counts from 0 to a bound, and a counter; \<open>long int\<close> has 64 bits, \<open>int\<close> 32. \<open>ready\<close> is
  the result of \<open>PyType_Ready\<close>; an argument that is no \<open>long\<close> makes no iterator.
\<close>

record spam_MyIter =
  mi_m :: u64
  mi_i :: u64

definition spam_myiter :: "int option \<Rightarrow> spam_MyIter option" where
  "spam_myiter arg = (case arg of None \<Rightarrow> None | Some m \<Rightarrow> Some \<lparr>mi_m = word_of_int m, mi_i = 0\<rparr>)"

definition spam_MyIter_iternext :: "spam_MyIter \<Rightarrow> pycall \<times> spam_MyIter" where
  "spam_MyIter_iternext p =
     (if sint (mi_i p) < sint (mi_m p) then (Return (py_l (mi_i p)), p\<lparr>mi_i := mi_i p + 1\<rparr>) else (StopIteration, p))"

definition spam_bora :: "u32 \<Rightarrow> pycall \<times> u32" where
  "spam_bora bubba = (Return (PyInt (sint bubba)), bubba + 1)"

definition spam_MyIterType :: "spam_MyIter iter_type" where
  "spam_MyIterType = \<lparr>tp_name = ''spam._MyIter'', tp_doc = ''Internal myiter iterator object.'',
     tp_iternext = \<lambda>p. Ok (spam_MyIter_iternext p)\<rparr>"

definition SpamMethods :: "(string \<times> meth_flag) list" where
  "SpamMethods = [(''myiter'', METH_VARARGS), (''bora'', METH_NOARGS)]"

definition initspam :: "int \<Rightarrow> spam_MyIter py_module option" where
  "initspam ready =
     (if ready < 0 then None
      else Some \<lparr>pm_methods = SpamMethods, pm_types = [(''_MyIter'', spam_MyIterType)]\<rparr>)"

text \<open>What the interpreter gets from \<open>n\<close> calls of \<open>next\<close> on an iterator of the loaded module.\<close>

fun spam_iterate :: "nat \<Rightarrow> ('s \<Rightarrow> (pycall \<times> 's) res) \<Rightarrow> 's \<Rightarrow> pycall list res" where
  "spam_iterate 0 next_of p = Ok []"
| "spam_iterate (Suc n) next_of p = bind_res (next_of p) (\<lambda>(r, p). map_res (\<lambda>rs. r # rs) (spam_iterate n next_of p))"

text \<open>The iterator returns 0 to \<open>m - 1\<close>, then raises \<open>StopIteration\<close>, again at every later call.\<close>

lemma spam_next:
  assumes "i < 2 ^ 63" and "m < 2 ^ 63"
  shows "spam_MyIter_iternext \<lparr>mi_m = of_nat m, mi_i = of_nat i\<rparr> =
    (if i < m then (Return (PyInt (int i)), \<lparr>mi_m = of_nat m, mi_i = of_nat (Suc i)\<rparr>)
     else (StopIteration, \<lparr>mi_m = of_nat m, mi_i = of_nat i\<rparr>))"
proof -
  have "sint (of_nat k :: u64) = int k" if "k < 2 ^ 63" for k
    using that by (simp add: sint_uint signed_take_bit_int_eq_self unsigned_of_nat take_bit_nat_eq_self)
  then show ?thesis using assms by (simp add: spam_MyIter_iternext_def py_l_def add.commute)
qed

lemma spam_iterates:
  assumes "initspam ready = Some pm" and "spam_myiter (Some (int m)) = Some p" and "m < 2 ^ 63"
  shows "spam_iterate n (tp_iternext (snd (hd (pm_types pm)))) p =
    Ok (map (\<lambda>i. if i < m then Return (PyInt (int i)) else StopIteration) [0..<n])"
proof -
  let ?r = "\<lambda>j. if j < m then Return (PyInt (int j)) else StopIteration" and ?n = "\<lambda>p. Ok (spam_MyIter_iternext p)"
  have "i \<le> m \<Longrightarrow> spam_iterate n ?n \<lparr>mi_m = of_nat m, mi_i = of_nat i\<rparr> = Ok (map ?r [i..<i + n])" for i
  proof (induction n arbitrary: i)
    case (Suc n)
    have u: "[i..<i + Suc n] = i # [Suc i..<Suc i + n]" by (simp add: upt_conv_Cons)
    show ?case
    proof (cases "i < m")
      case True
      then show ?thesis using Suc.IH [of "Suc i"] spam_next [of i m] Suc.prems assms(3) unfolding u by simp
    next
      case False
      have stops: "map ?r [k..<k + l] = replicate l StopIteration" if "i \<le> k" for k l
        using that False by (intro nth_equalityI) auto
      have "spam_iterate n ?n \<lparr>mi_m = of_nat m, mi_i = of_nat i\<rparr> = Ok (replicate n StopIteration)"
        using Suc.IH [OF Suc.prems] by (simp add: stops)
      then show ?thesis using stops [of i "Suc n"] False spam_next [of i m] Suc.prems assms(3) by simp
    qed
  qed simp
  from this [of 0] show ?thesis using assms(1,2)
    by (auto simp: spam_myiter_def initspam_def spam_MyIterType_def split: if_splits)
qed

end
