(* ===== verification/Spec2Isabelle.thy ===== *)
theory Spec2Isabelle
  imports Block_Scenarios Pointer_Scenarios Examples
begin

text \<open>
  \<^bold>\<open>Bora: a block cache with congestion-controlled UDP transport, as a Python extension in C.\<close>

  \<^bold>\<open>The program.\<close> A peer keeps blocks of streams in a cache. \<open>send_block\<close> splits a block into fragments of
  at most 1400 bytes and files them in the sender's data queue. The sending thread takes packets
  from three queues (acknowledgements and bandwidth messages first, then retransmissions, then data), stamps each
  packet that wants an acknowledgement with a sequence number, remembers it, sends it and pauses in
  proportion to its length; data packets to one host leave in back-to-back pairs. The receiving thread stores
  datagrams in a ring of 256 slots; the processing thread checks each, answers fragments with an
  acknowledgement, puts them into the cache, hands completed blocks and raw messages to the interpreter and
  estimates the bandwidth from pairs. Acknowledgements settle outstanding packets, update
  the statistics of the peer and cause overtaken packets to be sent again. A timer thread gives the
  interpreter a report of these statistics; the interpreter answers with a new bandwidth. Cookies are
  probe packets sent to two peers at once.

  \<^bold>\<open>Conventions.\<close> C structures are records, enumerations are datatypes or named constants, machine integers are words of their
  width (\<open>u8\<close> to \<open>u64\<close>), C arrays and heap buffers are lists whose length is the extent of the object, a mutex or semaphore is a flag or a count.
  Linked lists are lists in the theories that say what the program does; \<open>ack.c\<close>, \<open>ack_received.c\<close> and \<open>blockcache.c\<close> are modelled a second time on
  a store of cells with \<open>malloc\<close> and \<open>free\<close>, and shown to do the same. Every fallible operation has the type \<open>'a res\<close>: \<open>Err\<close>
  makes an access outside an object, a division by zero, a bad conversion, a wait or the end of the process visible.
  The fields of a \<open>timeval\<close> are the exception: they are unbounded integers, so that an overflow of 64-bit seconds is not seen; microseconds as \<open>u64\<close> wrap.
  Uninitialised memory, clock readings and the outcome of system calls are arguments. The build is that of \<open>setup.py\<close>: with
  \<open>BORA_RETRANSMISSION\<close> and \<open>BORA_TIMEOUT\<close>, without \<open>BORA_DROP\<close>, on a little-endian 64-bit host.

  \<^bold>\<open>Theories\<close>, from the bottom up:
  \<^item> \<open>Bora_Prelude\<close>: words, results, byte buffers, byte order; the locale \<open>field_codec\<close> for fields of packed structures.
  \<^item> \<open>Bora_Util\<close> (\<open>bora_util.c\<close>): times and their arithmetic.
  \<^item> \<open>Messages\<close>, \<open>Netencoder\<close> (\<open>messages.h\<close>, \<open>netencoder.c\<close>): flags, the packet formats and their checks. Encoding and decoding are inverse, a valid
    packet has one encoding, and the three checks exclude each other.
  \<^item> \<open>Ring_Buffer\<close>, \<open>Packet_Queue\<close>, \<open>Packet_Sender\<close> (\<open>packet_sender.c\<close>): the ring buffers implement the locale \<open>bounded_fifo\<close>, \<open>send_data\<close> refines an abstract
    view of three bounded queues with tokens and slots, \<open>packet_send\<close> takes the right packet and emits the specified datagram, and a round sends pairs.
  \<^item> \<open>Keyed_List\<close>: the locale \<open>keyed_list\<close>, a linked list searched by key as a finite map; interpreted by the block cache, the peers, the outstanding packets and the estimates.
  \<^item> \<open>Blockcache\<close>, \<open>Blockcache_Correct\<close>, \<open>Blockcache_Ops\<close>, \<open>Reassembly\<close> (\<open>blockcache.c\<close>): every operation with the lock of each block; adding a fragment refines a map of
    received bytes, all operations keep the invariant, and fragments in any order but one give the block back. The locale \<open>growing_block\<close> of \<open>Reassembly\<close> is what a
    block in the making promises whichever of its fragments came first; it is interpreted for both cases, the last fragment first and any other.
  \<^item> \<open>Binary64\<close>, \<open>Peer_Stats\<close>, \<open>Ack\<close>, \<open>Ack_Received\<close> (\<open>ack.c\<close>, \<open>ack_received.c\<close>): the rounding of doubles and how far each operation is from the exact result, timeouts, outstanding packets per peer and their retransmission, the effect of an acknowledgement.
  \<^item> \<open>Slist\<close> (\<open>queue.h\<close>): the macros of singly linked lists on a store of cells. On a proper list \<open>MYSLIST_REMOVE\<close> is deletion, and both loops
    end, the second also when its body unlinks and frees the current cell.
  \<^item> \<open>List_Macros\<close>, \<open>List_Macros_Correct\<close> (\<open>queue.h\<close>): the three other families of list macros, which keep addresses of pointers; one notion of a chain for all three, and the
    list every sequence of their operations leaves behind, walked forwards and backwards.
  \<^item> \<open>Ack_Heap\<close>, \<open>Ack_Calls\<close>, \<open>Blockcache_Heap\<close> (\<open>ack.c\<close>, \<open>blockcache.c\<close>): the same functions on pointers. Every sequence of calls gives the results of the list model,
    touches no freed cell and leaks none, but for the one leak that is counted; what overlapping calls of the cache can do.
  \<^item> \<open>Stats_Heap\<close>, \<open>Stats_Calls\<close> (\<open>ack_received.c\<close>, the report in \<open>bora.c\<close>): the statistics on pointers. The report frees what it reads, \<open>highest_seq\<close> last; no call touches a freed
    sample, because the mutex is held while that pointer dangles.
  \<^item> \<open>Cookie_Sender\<close>, \<open>Recv_Stats\<close>, \<open>Bridges\<close> (\<open>cookie_sender.c\<close>, \<open>recv_stats.c\<close>, \<open>biter_bridge.c\<close>, \<open>bpuller_bridge.c\<close>, \<open>bw_msgs.c\<close>): the exchange of cookies, the bandwidth
    estimates with the size of their rounding error, and the hand-over to the interpreter, a second \<open>bounded_fifo\<close>.
  \<^item> \<open>Sender_Steps\<close> (\<open>packet_sender.c\<close>): any number of calls of \<open>send_data\<close> interleaved with the sending thread, one step per lock or semaphore; the thread never takes from an empty queue.
  \<^item> \<open>Puller\<close> (\<open>packet_sender.c\<close>): the thread that asks for blocks, with its condition variables, as a step relation; when it stops and when it does not.
  \<^item> \<open>Packet_Receiver\<close>, \<open>Receive_Ring\<close> (\<open>packet_receiver.c\<close>, \<open>stats_bridge.c\<close>): the processing of one datagram as the composition of its stages, with an invariant over all components (the block cache has its
    own, \<open>cache_ok\<close> in \<open>Blockcache_Correct\<close>; the list of bandwidth messages needs none); the two
    threads around the receive buffer as a step relation.
  \<^item> \<open>Handshake\<close>: both ends together, from the datagram that \<open>packet_send\<close> emits to what the other peer does with it and back.
  \<^item> \<open>Sending_Thread\<close>, \<open>Block_Transfer\<close>, \<open>Block_Settled\<close>: whole blocks from cache to cache. The loop of the sending thread empties its queues in order and numbers its packets,
    the other peer processes whatever copies the network delivers, what is lost is sent again after the timeout, and the acknowledgements that come back settle everything. These theorems name their conditions: at most
    2000 fragments, the size of the data queue, beyond which \<open>send_data\<close> drops packets (\<open>long_block_cut\<close>), no announced port of 256 or more, a receiver that does not know the block and
    has a free place for it.
  \<^item> \<open>Inet\<close>, \<open>Py_Value\<close>, \<open>Bw_Stats\<close>, \<open>Bora_Api\<close> (\<open>bora.c\<close>, \<open>bw_stats.c\<close>): addresses as text with the locale \<open>address_format\<close>, the values of the interpreter, the statistics cycle as a step
    relation, and every method of the module.
  \<^item> \<open>Module_Transfer\<close>: a block from one program to another, through the methods of both modules.
  \<^item> \<open>Bora_System\<close>: the method table, the program as a step relation over calls, packets sent and datagrams, the invariant of an open module,
    what opening and closing do.
  \<^item> \<open>Api_Types\<close> (\<open>bora.c\<close>): the type of each method's result, the tables that \<open>initbora\<close> loads, and that every call returns what its type says.
  \<^item> \<open>Scenarios\<close>, \<open>Block_Scenarios\<close>, \<open>Module_Scenarios\<close>, \<open>Pointer_Scenarios\<close>: a concrete exchange between two peers and concrete heaps, on which every property with hypotheses is applied.
  \<^item> \<open>Examples\<close> (\<open>main.c\<close>, \<open>spam.c\<close>): what the driver does to the cache and prints, and the sample extension.

  \<^bold>\<open>Atomicity.\<close> The step relation of \<open>Bora_System\<close> takes a call, one processed datagram and each half of a sending round as one
  step; calls that wait are split at the wait. It does not interleave the instructions inside these steps. \<open>Sender_Steps\<close>, \<open>Receive_Ring\<close>, \<open>Bw_Stats\<close> and \<open>Puller\<close>
  are finer, one step per operation on a lock, semaphore or condition variable, because their claims are about the interleaving; the shutdown is part of \<open>Receive_Ring\<close>, \<open>Bw_Stats\<close> and
  \<open>Puller\<close>, not of \<open>Sender_Steps\<close>. The end of \<open>Blockcache_Heap\<close> takes up two calls
  that overlap; otherwise the calls of the cache follow each other.

  \<^bold>\<open>Bounds.\<close> No definition uses fuel: loops over lists and index ranges are structural recursion, the address parser terminates because
  each part consumes its digits. The loops along pointers, which a cyclic list would not end, are partial functions into \<open>option\<close> with \<open>None\<close> for a run
  without end; the refinement theorems give \<open>Some\<close>. Loops of threads are step relations, one round or one operation per step. Queue and buffer sizes are those of the code (2000, 256, 20).

  \<^bold>\<open>What the code gets wrong\<close> is stated as properties of what it does: fragments outside their block, blocks returned padded when their last fragment came first, retransmissions that start with
  the last fragment, the block added last that
  cannot be deleted, packets stranded behind a cookie, an abandoned cookie that ends the process, the first acknowledgement of a peer that drops overtaken packets, the announced port
  that makes fragments unreadable, a failed socket that leaves the module half open, a module that cannot be used again after \<open>die\<close>, a puller thread that misses the signal to stop, raw messages of one or two bytes that vanish, and
  longer ones that leave as second of a pair, blocks of more than 2000 fragments that lose the rest, a timeout that cannot be computed after the clock was set back,
  counters that are reset when the argument is not a number,
  a block freed while another thread works on it, a rejected first fragment whose block is never freed, blocks added twice by overlapping calls.

  \<^bold>\<open>Not modelled.\<close> Creating, joining and cancelling threads and the destruction of their semaphores; wake-ups of condition variables without a signal; the memory of Python objects and their
  reference counts; pointers in \<open>recv_stats.c\<close>, whose list only grows, and \<open>bw_msgs.c\<close>, whose list is emptied by \<open>bora.c\<close>; the debugging and kernel parts of \<open>queue.h\<close>, which are not compiled; the part of \<open>main.c\<close> that sends to itself. \<open>init_bcache\<close> does nothing.
  Allocation never fails: that the address it returns is fresh is a hypothesis of the pointer theorems. \<open>inet_pton\<close> is an argument of the calls that use it.
\<close>

end
